(* ===== verification/Prelude.thy ===== *)
theory Prelude
  imports Main "HOL-Library.Word"
begin

text \<open>
  Shared vocabulary of the development: the failures a C++ computation can end in,
  the result type with its sequencing operator, tokenising and joining lists at a
  delimiter, decimal notation, and the proof hints the component theories use.

  A computation of the program yields a value, throws an exception (always one raised by
  a library the sources call: the program itself has no \<open>throw\<close>), reaches a point where
  the C++ standard leaves the behaviour undefined, or ends the process abnormally. These
  cases are values of the model, so a theorem that a handler returns also says that no
  undefined behaviour happens.
\<close>

named_theorems cpp_defs \<open>definitions of the modelled operations, unfolded by component proofs\<close>
named_theorems token_simps \<open>tokenising and joining at a delimiter\<close>

section \<open>Failures and results\<close>

datatype cpp_exn = Exn (what: string)

datatype ub =
    Vector_index      \<comment> \<open>\<open>operator[]\<close> of a vector past its end\<close>
  | Null_deref        \<comment> \<open>a null pointer is dereferenced\<close>
  | Int_overflow      \<comment> \<open>a sum, a difference or an \<open>atoi\<close> that is not an \<open>int\<close>\<close>
  | Tm_range          \<comment> \<open>\<open>asctime\<close> of a broken-down time out of its normal ranges\<close>
  | Dangling          \<comment> \<open>an object is used after it was deleted\<close>
  | Buffer_overread   \<comment> \<open>a C string operation runs past the end of an array\<close>

datatype failure =
    Throws cpp_exn
  | Undefined ub
  | Terminated      \<comment> \<open>\<open>std::terminate\<close> was called\<close>

type_synonym 'a res = "failure + 'a"

fun bindR :: "'a res \<Rightarrow> ('a \<Rightarrow> 'b res) \<Rightarrow> 'b res" where
  "bindR (Inl e) f = Inl e"
| "bindR (Inr x) f = f x"

lemma bindR_cong [fundef_cong]:
  "m = m' \<Longrightarrow> (\<And>x. m' = Inr x \<Longrightarrow> f x = f' x) \<Longrightarrow> bindR m f = bindR m' f'"
  by (cases m') auto

lemma bindR_eq_Inr: "bindR m f = Inr y \<longleftrightarrow> (\<exists>x. m = Inr x \<and> f x = Inr y)"
  by (cases m) auto

lemma bindR_eq_Inl:
  "bindR m f = Inl e \<longleftrightarrow> m = Inl e \<or> (\<exists>x. m = Inr x \<and> f x = Inl e)"
  by (cases m) auto

lemma bindR_assoc: "bindR (bindR m f) g = bindR m (\<lambda>x. bindR (f x) g)"
  by (cases m) auto

lemma bindR_undefined:
  assumes "\<And>x. m = Inr x \<Longrightarrow> \<exists>u. f x = Inl (Undefined u)"
    and "\<And>e. m = Inl e \<Longrightarrow> \<exists>u. e = Undefined u"
  shows "\<exists>u. bindR m f = Inl (Undefined u)"
  using assms by (cases m) auto

section \<open>Tokens and delimiters\<close>

text \<open>
  \<open>tokens d xs\<close> cuts \<open>xs\<close> at every \<open>d\<close>, keeping empty pieces; \<open>join d\<close> puts
  the delimiter back. They are inverse to each other on pieces free of the delimiter.
\<close>

fun push :: "'a \<Rightarrow> 'a list list \<Rightarrow> 'a list list" where
  "push x [] = [[x]]"
| "push x (t # ts) = (x # t) # ts"

fun tokens :: "'a \<Rightarrow> 'a list \<Rightarrow> 'a list list" where
  "tokens d [] = [[]]"
| "tokens d (x # xs) = (if x = d then [] # tokens d xs else push x (tokens d xs))"

fun join :: "'a \<Rightarrow> 'a list list \<Rightarrow> 'a list" where
  "join d [] = []"
| "join d [t] = t"
| "join d (t # u # ts) = t @ d # join d (u # ts)"

lemma push_neq_Nil [simp]: "push x ts \<noteq> []"
  by (cases ts) auto

lemma tokens_neq_Nil [simp]: "tokens d xs \<noteq> []"
  by (induction xs) auto

lemma join_Cons [token_simps]: "ts \<noteq> [] \<Longrightarrow> join d (t # ts) = t @ d # join d ts"
  by (cases ts) auto

lemma join_push: "ts \<noteq> [] \<Longrightarrow> join d (push x ts) = x # join d ts"
  by (cases ts; cases "tl ts") auto

lemma join_tokens [simp]: "join d (tokens d xs) = xs"
  by (induction xs) (auto simp: join_Cons join_push)

lemma set_push: "t \<in> set (push x ts) \<Longrightarrow> t = [x] \<or> t \<in> set ts \<or> (\<exists>u. u \<in> set ts \<and> t = x # u)"
  by (cases ts) auto

lemma tokens_no_delim: "t \<in> set (tokens d xs) \<Longrightarrow> d \<notin> set t"
  by (induction xs arbitrary: t) (auto split: if_splits dest!: set_push)

lemma length_push: "ts \<noteq> [] \<Longrightarrow> length (push x ts) = length ts"
  by (cases ts) auto

lemma length_tokens: "length (tokens d xs) = Suc (count_list xs d)"
  by (induction xs) (auto simp: length_push)

lemma tokens_free [token_simps]: "d \<notin> set t \<Longrightarrow> tokens d t = [t]"
  by (induction t) auto

lemma tokens_append [token_simps]:
  "d \<notin> set t \<Longrightarrow> tokens d (t @ d # xs) = t # tokens d xs"
  by (induction t) auto

lemma tokens_join:
  "ts \<noteq> [] \<Longrightarrow> (\<And>t. t \<in> set ts \<Longrightarrow> d \<notin> set t) \<Longrightarrow> tokens d (join d ts) = ts"
  by (induction d ts rule: join.induct) (auto simp: token_simps)

text \<open>Two lists of delimiter-free pieces that join to the same list are equal.\<close>

lemma join_inject:
  assumes "join d ts = join d us" "ts \<noteq> []" "us \<noteq> []"
    and "\<And>t. t \<in> set ts \<Longrightarrow> d \<notin> set t" "\<And>u. u \<in> set us \<Longrightarrow> d \<notin> set u"
  shows "ts = us"
  using tokens_join [of ts d] tokens_join [of us d] assms by metis

section \<open>Decimal notation\<close>

definition digit :: "nat \<Rightarrow> char" where
  "digit n = char_of (48 + n)"

definition digit_val :: "char \<Rightarrow> nat" where
  "digit_val c = of_char c - 48"

definition is_digit :: "char \<Rightarrow> bool" where
  "is_digit c \<longleftrightarrow> 48 \<le> (of_char c :: nat) \<and> (of_char c :: nat) \<le> 57"

fun dec :: "nat \<Rightarrow> string" where
  "dec n = (if n < 10 then [digit n] else dec (n div 10) @ [digit (n mod 10)])"

declare dec.simps [simp del]

definition read_dec :: "string \<Rightarrow> nat" where
  "read_dec s = foldl (\<lambda>a c. a * 10 + digit_val c) 0 s"

lemma of_char_digit: "n < 10 \<Longrightarrow> (of_char (digit n) :: nat) = 48 + n"
  by (simp add: digit_def)

lemma digit_val_digit [simp]: "n < 10 \<Longrightarrow> digit_val (digit n) = n"
  by (simp add: digit_val_def of_char_digit)

lemma is_digit_digit [simp]: "n < 10 \<Longrightarrow> is_digit (digit n)"
  by (simp add: is_digit_def of_char_digit)

lemma dec_neq_Nil [simp]: "dec n \<noteq> []"
  by (subst dec.simps) auto

lemma dec_digits: "c \<in> set (dec n) \<Longrightarrow> is_digit c"
proof (induction n rule: dec.induct)
  case (1 n)
  then show ?case by (subst (asm) (2) dec.simps) (auto split: if_splits)
qed

lemma takeWhile_dec_append:
  "(\<And>c. c \<in> set (take 1 r) \<Longrightarrow> \<not> is_digit c) \<Longrightarrow> takeWhile is_digit (dec n @ r) = dec n"
  by (cases r) (auto simp: takeWhile_append takeWhile_eq_all_conv dec_digits)

lemma takeWhile_dec [simp]: "takeWhile is_digit (dec n) = dec n"
  by (simp add: takeWhile_eq_all_conv dec_digits)

lemma read_dec_dec [simp]: "read_dec (dec n) = n"
proof (induction n rule: dec.induct)
  case (1 n)
  then show ?case
    by (subst dec.simps) (auto simp: read_dec_def)
qed

lemma dec_inject [simp]: "dec m = dec n \<longleftrightarrow> m = n"
  by (metis read_dec_dec)

lemma length_dec: "n < 10 ^ k \<Longrightarrow> 0 < k \<Longrightarrow> length (dec n) \<le> k"
proof (induction n arbitrary: k rule: dec.induct)
  case (1 n)
  show ?case
  proof (cases "n < 10")
    case True
    then show ?thesis using 1 by (subst dec.simps) simp
  next
    case False
    then obtain j where k: "k = Suc j" "0 < j"
      using 1(2,3) by (cases k; cases "k - 1") auto
    with 1(2) have "n div 10 < 10 ^ j" by (simp add: less_mult_imp_div_less mult.commute)
    with 1(1) [OF False] k have "length (dec (n div 10)) \<le> j" by simp
    with False k show ?thesis by (subst dec.simps) simp
  qed
qed

lemma not_digit_iff [simp]:
  "\<not> is_digit CHR ''|''" "\<not> is_digit CHR '' ''" "\<not> is_digit CHR '':''" "\<not> is_digit (CHR 0x0A)"
  "\<not> is_digit CHR '',''" "\<not> is_digit (CHR 0x27)" "\<not> is_digit CHR '';''" "\<not> is_digit CHR ''-''"
  "\<not> is_digit CHR ''+''" "\<not> is_digit CHR '')''"
  by (simp_all add: is_digit_def)

lemma not_digit_notin_dec: "\<not> is_digit c \<Longrightarrow> c \<notin> set (dec n)"
  using dec_digits by blast

end
