(* ===== verification/Cpp_Runtime.thy ===== *)
theory Cpp_Runtime
  imports Prelude
begin

text \<open>
  The part of the C++ language and standard library the sources use: \<open>std::size_t\<close> and
  \<open>unsigned short\<close> as words, \<open>std::to_string\<close>, \<open>atoi\<close>, C strings in character arrays
  (\<open>strlen\<close>, \<open>strcmp\<close>, printing), \<open>asctime\<close>, the two standard output streams, and
  \<open>std::getline\<close> on \<open>std::cin\<close>. \<open>size_t\<close> is 64 bits wide and \<open>int\<close> 32 bits.
\<close>

section \<open>Integers\<close>

type_synonym size_t = "64 word"
type_synonym port_num = "16 word"

definition int_in_range :: "int \<Rightarrow> bool" where
  "int_in_range i \<longleftrightarrow> - (2 ^ 31) \<le> i \<and> i < 2 ^ 31"

text \<open>A sum or a difference that is not an \<open>int\<close> is undefined behaviour.\<close>

definition int_plus :: "int \<Rightarrow> int \<Rightarrow> int res" where
  "int_plus a b = (if int_in_range (a + b) then Inr (a + b) else Inl (Undefined Int_overflow))"

definition int_minus :: "int \<Rightarrow> int \<Rightarrow> int res" where
  "int_minus a b = (if int_in_range (a - b) then Inr (a - b) else Inl (Undefined Int_overflow))"

text \<open>The implicit conversion of an \<open>int\<close> to an unsigned type is modulo its width.\<close>

definition size_of_int :: "int \<Rightarrow> size_t" where
  "size_of_int i = word_of_int i"

definition port_of_int :: "int \<Rightarrow> port_num" where
  "port_of_int i = word_of_int i"

definition to_string_size :: "size_t \<Rightarrow> string" where
  "to_string_size w = dec (unat w)"

definition to_string_int :: "int \<Rightarrow> string" where
  "to_string_int i = (if i < 0 then CHR ''-'' # dec (nat (- i)) else dec (nat i))"

lemma unat_size_of_int: "0 \<le> i \<Longrightarrow> i < 2 ^ 64 \<Longrightarrow> unat (size_of_int i) = nat i"
  by (simp add: size_of_int_def unsigned_of_int take_bit_int_eq_self)

lemma unat_size_of_neg_int:
  assumes "- (2 ^ 31) \<le> i" "i < 0"
  shows "unat (size_of_int i) = nat (2 ^ 64 + i)"
proof -
  have "i mod 2 ^ 64 = (2 ^ 64 + i) mod 2 ^ 64" by simp
  also have "\<dots> = 2 ^ 64 + i" using assms by (intro mod_pos_pos_trivial) auto
  finally show ?thesis by (simp add: size_of_int_def unsigned_of_int take_bit_eq_mod)
qed

lemma to_string_size_inject [simp]: "to_string_size a = to_string_size b \<longleftrightarrow> a = b"
  by (simp add: to_string_size_def word_unat_eq_iff)

lemma not_digit_notin_to_string_size: "\<not> is_digit c \<Longrightarrow> c \<notin> set (to_string_size w)"
  by (simp add: to_string_size_def not_digit_notin_dec)

section \<open>atoi\<close>

definition is_space :: "char \<Rightarrow> bool" where
  "is_space c \<longleftrightarrow> c \<in> set [CHR '' '', CHR 0x09, CHR 0x0A, CHR 0x0B, CHR 0x0C, CHR 0x0D]"

text \<open>
  \<open>atoi\<close> skips white space, takes an optional sign and the longest run of digits, and is 0
  when there is none. A value that is not an \<open>int\<close> is undefined behaviour.
\<close>

fun strip_sign :: "string \<Rightarrow> bool \<times> string" where
  "strip_sign [] = (False, [])"
| "strip_sign (c # cs) =
     (if c = CHR ''-'' then (True, cs) else if c = CHR ''+'' then (False, cs) else (False, c # cs))"

definition atoi_value :: "string \<Rightarrow> int" where
  "atoi_value s =
     (let (neg, t) = strip_sign (dropWhile is_space s);
          v = int (read_dec (takeWhile is_digit t))
      in if neg then - v else v)"

definition atoi :: "string \<Rightarrow> int res" where
  "atoi s = (if int_in_range (atoi_value s) then Inr (atoi_value s) else Inl (Undefined Int_overflow))"

lemma is_space_not_digit: "is_digit c \<Longrightarrow> \<not> is_space c"
  by (auto simp: is_space_def is_digit_def)

lemma hd_dec_digit: "is_digit (hd (dec n))"
  using dec_digits [of "hd (dec n)" n] by simp

lemma atoi_value_digits:
  assumes "ds \<noteq> []" and d: "\<And>c. c \<in> set ds \<Longrightarrow> is_digit c"
  shows "atoi_value ds = int (read_dec ds)"
proof -
  obtain c cs where ds: "ds = c # cs" using assms(1) by (cases ds) auto
  have c: "is_digit c" using d ds by simp
  then have sg: "c \<noteq> CHR ''-''" "c \<noteq> CHR ''+''" by auto
  have "takeWhile is_digit (c # cs) = c # cs"
    using d ds by (simp only: takeWhile_eq_all_conv) simp
  moreover have "strip_sign (dropWhile is_space (c # cs)) = (False, c # cs)"
    using c sg by (simp add: is_space_not_digit)
  ultimately show ?thesis
    by (simp only: atoi_value_def ds Let_def split_conv) simp
qed

lemma atoi_value_dec [simp]: "atoi_value (dec n) = int n"
  using atoi_value_digits [of "dec n"] dec_digits by simp

lemma atoi_value_neg_dec: "atoi_value (CHR ''-'' # dec n) = - int n"
  by (simp add: atoi_value_def is_space_def)

lemma atoi_dec: "n < 2 ^ 31 \<Longrightarrow> atoi (dec n) = Inr (int n)"
  by (simp add: atoi_def int_in_range_def)

lemma atoi_to_string_int: "int_in_range i \<Longrightarrow> atoi (to_string_int i) = Inr i"
  by (auto simp: atoi_def to_string_int_def atoi_value_neg_dec)

lemma atoi_eq_Inr: "atoi s = Inr i \<longleftrightarrow> i = atoi_value s \<and> int_in_range i"
  by (auto simp: atoi_def)

section \<open>C strings in character arrays\<close>

abbreviation NUL :: char where "NUL \<equiv> CHR 0x00"

text \<open>The C string at the start of an array: \<open>None\<close> when the array holds no terminator.\<close>

fun c_string :: "string \<Rightarrow> string option" where
  "c_string [] = None"
| "c_string (c # cs) = (if c = NUL then Some [] else map_option (Cons c) (c_string cs))"

definition strlen :: "string \<Rightarrow> nat res" where
  "strlen buf = (case c_string buf of None \<Rightarrow> Inl (Undefined Buffer_overread) | Some s \<Rightarrow> Inr (length s))"

text \<open>\<open>strcmp (a, b) == 0\<close>: it reads both arrays up to the first difference or the terminator.\<close>

fun strcmp_eq :: "string \<Rightarrow> string \<Rightarrow> bool res" where
  "strcmp_eq (a # as) (b # bs) =
     (if a \<noteq> b then Inr False else if a = NUL then Inr True else strcmp_eq as bs)"
| "strcmp_eq _ _ = Inl (Undefined Buffer_overread)"

text \<open>The array a string literal denotes: its characters and the terminator.\<close>

definition literal :: "string \<Rightarrow> string" where
  "literal s = s @ [NUL]"

lemma c_string_append_NUL [simp]: "NUL \<notin> set s \<Longrightarrow> c_string (s @ NUL # r) = Some s"
  by (induction s) auto

lemma c_string_literal [simp]: "NUL \<notin> set s \<Longrightarrow> c_string (literal s) = Some s"
  by (simp add: literal_def)

lemma strcmp_eq_literal:
  "NUL \<notin> set s \<Longrightarrow> c_string buf = Some t \<Longrightarrow> strcmp_eq buf (literal s) = Inr (t = s)"
proof (induction buf arbitrary: s t)
  case (Cons c buf)
  then show ?case by (cases s) (auto simp: literal_def split: if_splits)
qed simp

section \<open>Calendar time\<close>

record tm =
  tm_sec :: int
  tm_min :: int
  tm_hour :: int
  tm_mday :: int
  tm_mon :: int
  tm_year :: int
  tm_wday :: int

text \<open>
  The normal ranges the C standard asks of \<open>asctime\<close>'s argument; beyond the year 9999 the
  result would not fit its 26 character buffer.
\<close>

definition tm_normal :: "tm \<Rightarrow> bool" where
  "tm_normal t \<longleftrightarrow> 0 \<le> tm_sec t \<and> tm_sec t \<le> 60 \<and> 0 \<le> tm_min t \<and> tm_min t \<le> 59
     \<and> 0 \<le> tm_hour t \<and> tm_hour t \<le> 23 \<and> 1 \<le> tm_mday t \<and> tm_mday t \<le> 31
     \<and> 0 \<le> tm_mon t \<and> tm_mon t \<le> 11 \<and> 0 \<le> tm_wday t \<and> tm_wday t \<le> 6
     \<and> - 900 \<le> tm_year t \<and> tm_year t \<le> 8099"

definition wday_name :: "string list" where
  "wday_name = [''Sun'', ''Mon'', ''Tue'', ''Wed'', ''Thu'', ''Fri'', ''Sat'']"

definition mon_name :: "string list" where
  "mon_name = [''Jan'', ''Feb'', ''Mar'', ''Apr'', ''May'', ''Jun'',
               ''Jul'', ''Aug'', ''Sep'', ''Oct'', ''Nov'', ''Dec'']"

text \<open>The conversions \<open>%.2d\<close> (two digits at least) and \<open>%3d\<close> (a field of three).\<close>

definition two_digits :: "int \<Rightarrow> string" where
  "two_digits i = (if i < 10 then CHR ''0'' # dec (nat i) else dec (nat i))"

definition field3 :: "int \<Rightarrow> string" where
  "field3 i = replicate (3 - length (dec (nat i))) CHR '' '' @ dec (nat i)"

definition asctime_text :: "tm \<Rightarrow> string" where
  "asctime_text t =
     wday_name ! nat (tm_wday t) @ '' '' @ mon_name ! nat (tm_mon t) @ field3 (tm_mday t) @ '' ''
     @ two_digits (tm_hour t) @ '':'' @ two_digits (tm_min t) @ '':'' @ two_digits (tm_sec t)
     @ '' '' @ dec (nat (1900 + tm_year t))"

definition asctime :: "tm \<Rightarrow> string res" where
  "asctime t = (if tm_normal t then Inr (asctime_text t @ [CHR 0x0A]) else Inl (Undefined Tm_range))"

lemma nth_list_all: "list_all P xs \<Longrightarrow> i < length xs \<Longrightarrow> P (xs ! i)"
  by (simp add: list_all_length)

lemma tm_names_in_range:
  assumes "tm_normal t"
  shows "nat (tm_wday t) < length wday_name" "nat (tm_mon t) < length mon_name"
proof -
  have "nat (tm_wday t) < 7" "nat (tm_mon t) < 12" using assms unfolding tm_normal_def by linarith+
  then show "nat (tm_wday t) < length wday_name" "nat (tm_mon t) < length mon_name"
    by (simp_all add: wday_name_def mon_name_def)
qed

text \<open>The text of a normal time is free of the bar, the newline and the quote.\<close>

lemma asctime_text_chars:
  assumes "tm_normal t" "c \<in> set [CHR ''|'', CHR 0x0A, CHR 0x27]"
  shows "c \<notin> set (asctime_text t)"
proof -
  have "list_all (\<lambda>w. c \<notin> set w) wday_name" "list_all (\<lambda>w. c \<notin> set w) mon_name"
    using assms(2) by (auto simp: wday_name_def mon_name_def)
  then have names: "c \<notin> set (wday_name ! nat (tm_wday t))" "c \<notin> set (mon_name ! nat (tm_mon t))"
    using tm_names_in_range [OF assms(1)] by (auto dest!: nth_list_all [where P = "\<lambda>w. c \<notin> set w"])
  have digits: "c \<notin> set (dec n)" for n
    using assms(2) by (auto intro!: not_digit_notin_dec)
  have marks: "c \<noteq> CHR '' ''" "c \<noteq> CHR '':''" "c \<noteq> CHR ''0''"
    using assms(2) by auto
  show ?thesis
    using names digits marks by (simp add: asctime_text_def two_digits_def field3_def)
qed

lemma length_two_digits:
  assumes "0 \<le> i" "i < 100"
  shows "length (two_digits i) = 2"
proof (cases "i < 10")
  case True
  then show ?thesis by (simp add: two_digits_def dec.simps [of "nat i"])
next
  case False
  then have "\<not> nat i < 10" "nat i div 10 < 10" using assms by linarith+
  then show ?thesis
    using False by (simp add: two_digits_def dec.simps [of "nat i"] dec.simps [of "nat i div 10"])
qed

lemma length_field3: "0 \<le> i \<Longrightarrow> i < 1000 \<Longrightarrow> length (field3 i) = 3"
  using length_dec [of "nat i" 3] by (simp add: field3_def)

lemma length_asctime:
  assumes "asctime t = Inr s"
  shows "length s \<le> 25"
proof -
  have n: "tm_normal t" and s: "s = asctime_text t @ [CHR 0x0A]"
    using assms by (auto simp: asctime_def split: if_splits)
  have "list_all (\<lambda>w. length w = 3) wday_name" "list_all (\<lambda>w. length w = 3) mon_name"
    by (simp_all add: wday_name_def mon_name_def)
  then have names: "length (wday_name ! nat (tm_wday t)) = 3" "length (mon_name ! nat (tm_mon t)) = 3"
    using tm_names_in_range [OF n] by (auto intro!: nth_list_all [of "\<lambda>w. length w = 3"])
  have "nat (1900 + tm_year t) < 10 ^ 4" using n unfolding tm_normal_def by simp linarith
  then have year: "length (dec (nat (1900 + tm_year t))) \<le> 4" by (rule length_dec) simp
  have clock: "length (two_digits (tm_hour t)) = 2" "length (two_digits (tm_min t)) = 2"
    "length (two_digits (tm_sec t)) = 2" "length (field3 (tm_mday t)) = 3"
    using n by (simp_all add: tm_normal_def length_two_digits length_field3)
  show ?thesis using names year clock by (simp add: s asctime_text_def)
qed

section \<open>The standard streams\<close>

text \<open>
  What was written to \<open>std::cout\<close> and \<open>std::cerr\<close>, one entry for each line ended with
  \<open>std::endl\<close>.
\<close>

record console =
  cout :: "string list"
  cerr :: "string list"

definition say :: "string \<Rightarrow> console \<Rightarrow> console" where
  "say l c = c\<lparr>cout := cout c @ [l]\<rparr>"

definition complain :: "string \<Rightarrow> console \<Rightarrow> console" where
  "complain l c = c\<lparr>cerr := cerr c @ [l]\<rparr>"

definition silent :: console where
  "silent = \<lparr>cout = [], cerr = []\<rparr>"

lemma say_simps [simp]: "cout (say l c) = cout c @ [l]" "cerr (say l c) = cerr c"
  by (simp_all add: say_def)

lemma complain_simps [simp]: "cerr (complain l c) = cerr c @ [l]" "cout (complain l c) = cout c"
  by (simp_all add: complain_def)

section \<open>Tasks and the end of a process\<close>

text \<open>
  Without a launch policy \<open>std::async\<close> is free to start a thread or to defer the task until
  somebody waits for its result.
\<close>

datatype launch = Launch_async | Launch_deferred

datatype process_end =
    Exit int
  | Abort                  \<comment> \<open>\<open>std::terminate\<close>\<close>
  | Undefined_behaviour ub

end
