(* ===== verification/Boost_Api.thy ===== *)
theory Boost_Api
  imports Cpp_Runtime
begin

text \<open>
  The interfaces of Boost the sources call. Boost is not part of the repository, so each
  interface is a record of functions that the component models take as an argument, and
  what the code relies on is a locale whose assumptions state the documented behaviour.

  Each interface also has a reference realisation here. It interprets the locale, which
  shows that the documented behaviour can hold, and it is what witnesses evaluate with.
  No theorem about the program is about a reference realisation only.
\<close>

text \<open>A library call either returns or throws.\<close>

definition call :: "cpp_exn + 'a \<Rightarrow> 'a res" where
  "call r = map_sum Throws (\<lambda>x. x) r"

lemma call_simps [simp]: "call (Inr x) = Inr x" "call (Inl e) = Inl (Throws e)"
  by (simp_all add: call_def)

lemma call_eq_Inr [simp]: "call r = Inr x \<longleftrightarrow> r = Inr x"
  by (cases r) auto

lemma call_only_throws [simp]: "call r \<noteq> Inl (Undefined u)" "call r \<noteq> Inl Terminated"
  by (cases r; simp)+

section \<open>String algorithms\<close>

text \<open>
  \<open>boost::split (v, s, is_any_of (ds))\<close>, with the default of not merging adjacent
  separators, and \<open>boost::replace_all (s, search, format)\<close>.
\<close>

record string_algo =
  split_any :: "string \<Rightarrow> string \<Rightarrow> string list"
  replace_all :: "string \<Rightarrow> string \<Rightarrow> string \<Rightarrow> string"

locale string_algorithms =
  fixes alg :: string_algo
  assumes split_nonempty: "split_any alg s [d] \<noteq> []"
    and split_pieces: "t \<in> set (split_any alg s [d]) \<Longrightarrow> d \<notin> set t"
    and split_joined: "join d (split_any alg s [d]) = s"
    and replace_erases: "replace_all alg s [c] [] = filter (\<lambda>x. x \<noteq> c) s"
begin

text \<open>The documented behaviour determines the pieces.\<close>

lemma split_tokens: "split_any alg s [d] = tokens d s"
proof (rule join_inject)
  show "join d (split_any alg s [d]) = join d (tokens d s)" by (simp add: split_joined)
qed (auto simp: split_nonempty dest: split_pieces tokens_no_delim)

lemma replace_keeps: "c \<notin> set s \<Longrightarrow> replace_all alg s [c] [] = s"
  by (auto simp: replace_erases filter_id_conv)

end

fun split_ref :: "string \<Rightarrow> string \<Rightarrow> string list" where
  "split_ref [] ds = [[]]"
| "split_ref (c # cs) ds =
     (if c \<in> set ds then [] # split_ref cs ds else push c (split_ref cs ds))"

fun starts_with :: "string \<Rightarrow> string \<Rightarrow> bool" where
  "starts_with [] s = True"
| "starts_with (p # ps) [] = False"
| "starts_with (p # ps) (c # cs) = (p = c \<and> starts_with ps cs)"

function replace_ref :: "string \<Rightarrow> string \<Rightarrow> string \<Rightarrow> string" where
  "replace_ref [] search format = []"
| "replace_ref (c # cs) search format =
     (if search \<noteq> [] \<and> starts_with search (c # cs)
      then format @ replace_ref (drop (length search) (c # cs)) search format
      else c # replace_ref cs search format)"
  by pat_completeness auto
termination
  by (relation "measure (\<lambda>(s, _, _). length s)") auto

definition boost_ref :: string_algo where
  "boost_ref = \<lparr>split_any = split_ref, replace_all = replace_ref\<rparr>"

lemma split_ref_single: "split_ref s [d] = tokens d s"
  by (induction s) auto

lemma replace_ref_erase: "replace_ref s [c] [] = filter (\<lambda>x. x \<noteq> c) s"
  by (induction s) auto

interpretation boost: string_algorithms boost_ref
  by unfold_locales (auto simp: boost_ref_def split_ref_single replace_ref_erase dest: tokens_no_delim)

section \<open>Property trees\<close>

text \<open>
  \<open>read_xml\<close>, iteration over the children of a node, \<open>get_child\<close>, and \<open>get\<close> at the
  types \<open>std::string\<close> and \<open>std::size_t\<close>.
\<close>

record 'pt ptree_api =
  read_xml :: "string \<Rightarrow> cpp_exn + 'pt"
  entries :: "'pt \<Rightarrow> (string \<times> 'pt) list"
  get_child :: "'pt \<Rightarrow> string \<Rightarrow> cpp_exn + 'pt"
  get_string :: "'pt \<Rightarrow> string \<Rightarrow> cpp_exn + string"
  get_size :: "'pt \<Rightarrow> string \<Rightarrow> cpp_exn + size_t"

datatype ptree = Ptree (node_data: string) (node_children: "(string \<times> ptree) list")

text \<open>The first child of each name along a path with dots.\<close>

fun find_path :: "ptree \<Rightarrow> string list \<Rightarrow> cpp_exn + ptree" where
  "find_path t [] = Inr t"
| "find_path t (k # ks) =
     (case map_of (node_children t) k of
        None \<Rightarrow> Inl (Exn (''No such node ('' @ k @ '')''))
      | Some c \<Rightarrow> find_path c ks)"

definition child_ref :: "ptree \<Rightarrow> string \<Rightarrow> cpp_exn + ptree" where
  "child_ref t path = find_path t (tokens CHR ''.'' path)"

definition string_ref :: "ptree \<Rightarrow> string \<Rightarrow> cpp_exn + string" where
  "string_ref t path = map_sum (\<lambda>e. e) node_data (child_ref t path)"

definition size_text :: "string \<Rightarrow> cpp_exn + size_t" where
  "size_text s =
     (if s \<noteq> [] \<and> list_all is_digit s \<and> read_dec s < 2 ^ 64
      then Inr (word_of_nat (read_dec s))
      else Inl (Exn ''conversion of data to type failed''))"

definition size_ref :: "ptree \<Rightarrow> string \<Rightarrow> cpp_exn + size_t" where
  "size_ref t path = (case string_ref t path of Inl e \<Rightarrow> Inl e | Inr s \<Rightarrow> size_text s)"

definition xml_ref :: "(string \<Rightarrow> ptree option) \<Rightarrow> ptree ptree_api" where
  "xml_ref files =
     \<lparr>read_xml = (\<lambda>f. case files f of None \<Rightarrow> Inl (Exn ''cannot open file'') | Some t \<Rightarrow> Inr t),
      entries = node_children, get_child = child_ref, get_string = string_ref, get_size = size_ref\<rparr>"

section \<open>Random numbers\<close>

text \<open>The engine \<open>mt19937\<close> with its seed, and \<open>uniform_int_distribution (lo, hi)\<close> applied to it.\<close>

record 'g random_api =
  mt19937 :: "int \<Rightarrow> 'g"
  uniform_int :: "int \<Rightarrow> int \<Rightarrow> 'g \<Rightarrow> int \<times> 'g"

locale uniform_random =
  fixes rnd :: "'g random_api"
  assumes uniform_range: "lo \<le> hi \<Longrightarrow> lo \<le> fst (uniform_int rnd lo hi g) \<and> fst (uniform_int rnd lo hi g) \<le> hi"
begin

lemma percent_range: "1 \<le> fst (uniform_int rnd 1 100 g)" "fst (uniform_int rnd 1 100 g) \<le> 100"
  using uniform_range [of 1 100 g] by auto

end

definition random_ref :: "int random_api" where
  "random_ref =
     \<lparr>mt19937 = (\<lambda>seed. seed mod 2147483647),
      uniform_int = (\<lambda>lo hi g. (lo + g mod (hi - lo + 1), (48271 * g) mod 2147483647))\<rparr>"

interpretation lehmer: uniform_random random_ref
proof
  fix lo hi g :: int
  assume "lo \<le> hi"
  then show "lo \<le> fst (uniform_int random_ref lo hi g) \<and> fst (uniform_int random_ref lo hi g) \<le> hi"
    using pos_mod_bound [of "hi - lo + 1" g] by (simp add: random_ref_def)
qed

section \<open>Error codes of Boost.Asio\<close>

record error_code =
  category_name :: string
  ec_value :: int

text \<open>What both error handlers of the server print.\<close>

definition show_error :: "error_code \<Rightarrow> string" where
  "show_error ec = category_name ec @ '' : '' @ to_string_int (ec_value ec)"

end
