(* ===== verification/Config.thy ===== *)
theory Config
  imports Boost_Api
begin

text \<open>
  Configuration: the structures \<open>client_config\<close> and \<open>client_detail\<close>, the reading of
  \<open>server_config.xml\<close> and \<open>db_settings.xml\<close>, and the two questions the server asks about
  a client, \<open>is_client_authorized\<close> and \<open>should_send_email\<close> (\<open>src/utils.cpp\<close>).
\<close>

record client_config =
  cfg_client_key :: string
  email :: string
  memory_limit :: size_t
  cpu_limit :: size_t
  processes_limit :: size_t

record client_detail =
  client_key :: string
  curr_memory_pct :: size_t
  curr_cpu_pct :: size_t
  curr_processes_cnt :: size_t
  str_dt_time :: string

type_synonym client_map = "string \<rightharpoonup> client_config"

section \<open>Reading the configuration files\<close>

text \<open>The body of the loop over the children of \<open>clients\<close>, for one \<open>client\<close> element.\<close>

definition read_client :: "'pt ptree_api \<Rightarrow> 'pt \<Rightarrow> client_config res" where
  "read_client api node =
     bindR (call (get_string api node ''key'')) (\<lambda>key.
     bindR (call (get_string api node ''email'')) (\<lambda>mail.
     bindR (call (get_child api node ''alerts'')) (\<lambda>a1.
     bindR (call (get_size api a1 ''memory'')) (\<lambda>memory.
     bindR (call (get_child api node ''alerts'')) (\<lambda>a2.
     bindR (call (get_size api a2 ''cpu'')) (\<lambda>cpu.
     bindR (call (get_child api node ''alerts'')) (\<lambda>a3.
     bindR (call (get_size api a3 ''processes'')) (\<lambda>processes.
       Inr \<lparr>cfg_client_key = key, email = mail, memory_limit = memory, cpu_limit = cpu,
            processes_limit = processes\<rparr>))))))))"

fun read_clients :: "'pt ptree_api \<Rightarrow> (string \<times> 'pt) list \<Rightarrow> client_map \<Rightarrow> client_map res" where
  "read_clients api [] m = Inr m"
| "read_clients api ((name, node) # es) m =
     (if name = ''client''
      then bindR (read_client api node) (\<lambda>c_info.
             read_clients api es (m(cfg_client_key c_info \<mapsto> c_info)))
      else read_clients api es m)"

definition get_authorized_clients_and_details :: "'pt ptree_api \<Rightarrow> string \<Rightarrow> client_map res" where
  "get_authorized_clients_and_details api from =
     bindR (call (read_xml api from)) (\<lambda>pt.
     bindR (call (get_child api pt ''clients'')) (\<lambda>clients.
       read_clients api (entries api clients) Map.empty))"

definition get_connection_string :: "'pt ptree_api \<Rightarrow> string \<Rightarrow> string res" where
  "get_connection_string api from =
     bindR (call (read_xml api from)) (\<lambda>pt.
     bindR (call (get_string api pt ''db_settings.dbname'')) (\<lambda>dbname.
     bindR (call (get_string api pt ''db_settings.user'')) (\<lambda>user.
     bindR (call (get_string api pt ''db_settings.password'')) (\<lambda>password.
     bindR (call (get_string api pt ''db_settings.hostaddr'')) (\<lambda>hostaddr.
     bindR (call (get_string api pt ''db_settings.port'')) (\<lambda>port.
       Inr (''dbname='' @ dbname @ '' user='' @ user @ '' password='' @ password
            @ '' hostaddr='' @ hostaddr @ '' port='' @ port)))))))"

section \<open>Questions about a client\<close>

definition is_client_authorized :: "client_map \<Rightarrow> string \<Rightarrow> bool" where
  "is_client_authorized authorized_clients key \<longleftrightarrow> authorized_clients key \<noteq> None"

text \<open>
  \<open>std::map::operator[]\<close> inserts a value-initialised element when the key is missing: empty
  strings and limits of zero. The map is passed by reference, so the caller sees the insertion.
\<close>

definition value_initialised_config :: client_config where
  "value_initialised_config =
     \<lparr>cfg_client_key = [], email = [], memory_limit = 0, cpu_limit = 0, processes_limit = 0\<rparr>"

definition map_index :: "client_map \<Rightarrow> string \<Rightarrow> client_config \<times> client_map" where
  "map_index m key =
     (case m key of
        Some c \<Rightarrow> (c, m)
      | None \<Rightarrow> (value_initialised_config, m(key \<mapsto> value_initialised_config)))"

definition should_send_email :: "client_map \<Rightarrow> string \<Rightarrow> client_detail \<Rightarrow> bool \<times> client_map" where
  "should_send_email authorized_clients key c_detail =
     (let (c_config, authorized_clients') = map_index authorized_clients key
      in (curr_memory_pct c_detail > memory_limit c_config
          \<or> curr_cpu_pct c_detail > cpu_limit c_config
          \<or> curr_processes_cnt c_detail > processes_limit c_config, authorized_clients'))"

section \<open>What loading a configuration gives\<close>

text \<open>
  The abstract reading of the file: the configurations of its \<open>client\<close> elements in document
  order, stopping at the first element that cannot be read.
\<close>

fun client_configs :: "'pt ptree_api \<Rightarrow> (string \<times> 'pt) list \<Rightarrow> client_config list res" where
  "client_configs api [] = Inr []"
| "client_configs api ((name, node) # es) =
     (if name = ''client''
      then bindR (read_client api node) (\<lambda>c. bindR (client_configs api es) (\<lambda>cs. Inr (c # cs)))
      else client_configs api es)"

definition index_by_key :: "client_config list \<Rightarrow> client_map" where
  "index_by_key cs = map_of (rev (map (\<lambda>c. (cfg_client_key c, c)) cs))"

lemma read_clients_configs:
  "read_clients api es m = bindR (client_configs api es) (\<lambda>cs. Inr (m ++ index_by_key cs))"
proof (induction api es m rule: read_clients.induct)
  case (2 api name node es m)
  have "m ++ index_by_key (c # cs) = m(cfg_client_key c \<mapsto> c) ++ index_by_key cs" for c cs
    by (auto simp: index_by_key_def map_add_def fun_eq_iff split: option.splits)
  with 2 show ?case
    by (cases "read_client api node"; cases "client_configs api es") (auto simp del: fun_upd_apply)
qed (simp add: index_by_key_def)

lemma index_by_key_SomeD: "index_by_key cs k = Some c \<Longrightarrow> c \<in> set cs \<and> cfg_client_key c = k"
  by (auto simp: index_by_key_def dest!: map_of_SomeD)

lemma dom_index_by_key: "dom (index_by_key cs) = cfg_client_key ` set cs"
  by (auto simp: index_by_key_def dom_map_of_conv_image_fst image_image)

text \<open>A key that occurs twice keeps the later element.\<close>

lemma index_by_key_append:
  "index_by_key (cs @ c # ds) (cfg_client_key c) =
     (if cfg_client_key c \<in> cfg_client_key ` set ds then index_by_key ds (cfg_client_key c) else Some c)"
proof (cases "cfg_client_key c \<in> cfg_client_key ` set ds")
  case True
  then have "cfg_client_key c \<in> dom (index_by_key ds)" by (simp add: dom_index_by_key)
  with True show ?thesis by (auto simp: index_by_key_def)
next
  case False
  then have "cfg_client_key c \<notin> dom (index_by_key ds)" by (simp add: dom_index_by_key)
  then have "index_by_key ds (cfg_client_key c) = None" by auto
  with False show ?thesis by (simp add: index_by_key_def map_add_Some_iff)
qed

text \<open>
  A configuration file loads exactly when it parses, has a \<open>clients\<close> node and every one
  of its \<open>client\<close> elements can be read; the map then is that of the elements by key, in which
  an element overwrites an earlier one of the same key. Nothing partial is ever returned.
\<close>

theorem config_loads_iff:
  "get_authorized_clients_and_details api from = Inr m \<longleftrightarrow>
     (\<exists>pt node cs. read_xml api from = Inr pt \<and> get_child api pt ''clients'' = Inr node
        \<and> client_configs api (entries api node) = Inr cs \<and> m = index_by_key cs)"
  by (auto simp: get_authorized_clients_and_details_def bindR_eq_Inr read_clients_configs)

definition loaded_configs :: "'pt ptree_api \<Rightarrow> string \<Rightarrow> client_config list res" where
  "loaded_configs api from =
     bindR (call (read_xml api from)) (\<lambda>pt.
     bindR (call (get_child api pt ''clients'')) (\<lambda>top. client_configs api (entries api top)))"

lemma get_authorized_eq:
  "get_authorized_clients_and_details api from =
     bindR (loaded_configs api from) (\<lambda>cs. Inr (index_by_key cs))"
  by (simp add: get_authorized_clients_and_details_def loaded_configs_def read_clients_configs bindR_assoc)

text \<open>
  C17. In a loaded configuration, a client is authorized exactly when one of the \<open>client\<close>
  elements of the file carries its key, and the configuration found under a key is an element
  with that key.
\<close>

theorem config_authorizes_listed_keys:
  assumes "get_authorized_clients_and_details api from = Inr m"
  shows "\<exists>cs. loaded_configs api from = Inr cs
      \<and> (\<forall>key. is_client_authorized m key \<longleftrightarrow> key \<in> cfg_client_key ` set cs)
      \<and> (\<forall>key c. m key = Some c \<longrightarrow> c \<in> set cs \<and> cfg_client_key c = key)"
proof -
  obtain cs where cs: "loaded_configs api from = Inr cs" "m = index_by_key cs"
    using assms by (auto simp: get_authorized_eq bindR_eq_Inr)
  have "is_client_authorized (index_by_key cs) key \<longleftrightarrow> key \<in> dom (index_by_key cs)" for key
    by (auto simp: is_client_authorized_def)
  with cs show ?thesis by (auto simp: dom_index_by_key dest: index_by_key_SomeD)
qed

lemma read_client_throws: "read_client api node = Inl f \<Longrightarrow> \<exists>e. f = Throws e"
  by (cases f) (auto simp: read_client_def bindR_eq_Inl)

lemma client_configs_Inl:
  "client_configs api es = Inl f \<longleftrightarrow>
     (\<exists>xs node ys cs. es = xs @ (''client'', node) # ys \<and> client_configs api xs = Inr cs
        \<and> read_client api node = Inl f)"
  (is "?lhs es \<longleftrightarrow> ?rhs es")
proof
  show "?lhs es \<Longrightarrow> ?rhs es"
  proof (induction es)
    case (Cons e es)
    obtain name node where e: "e = (name, node)" by (cases e)
    show ?case
    proof (cases "name = ''client'' \<and> read_client api node = Inl f")
      case True
      then show ?thesis using e by (intro exI [of _ "[]"]) auto
    next
      case False
      with Cons.prems e have "?lhs es" by (auto simp: bindR_eq_Inl split: if_splits)
      then obtain xs n ys cs where split: "es = xs @ (''client'', n) # ys"
        "client_configs api xs = Inr cs" "read_client api n = Inl f"
        using Cons.IH by blast
      moreover have "\<exists>cs. client_configs api (e # xs) = Inr cs"
        using False Cons.prems e split by (cases "read_client api node") auto
      ultimately show ?thesis by (metis append_Cons)
    qed
  qed simp
next
  have "client_configs api xs = Inr cs \<Longrightarrow> read_client api node = Inl f
      \<Longrightarrow> client_configs api (xs @ (''client'', node) # ys) = Inl f" for xs node ys cs
    by (induction xs arbitrary: cs) (auto simp: bindR_eq_Inr split: if_splits)
  then show "?rhs es \<Longrightarrow> ?lhs es" by blast
qed

text \<open>
  C18. Loading a configuration fails exactly when the file cannot be parsed, it has no
  \<open>clients\<close> node, or some \<open>client\<close> element cannot be read; the failure then is that of the
  first such element, whatever follows it, and it is always an exception.
\<close>

theorem config_fails_iff:
  "get_authorized_clients_and_details api from = Inl f \<longleftrightarrow>
     (\<exists>e. f = Throws e \<and>
       (read_xml api from = Inl e
        \<or> (\<exists>pt. read_xml api from = Inr pt \<and> get_child api pt ''clients'' = Inl e)
        \<or> (\<exists>pt top xs node ys cs. read_xml api from = Inr pt \<and> get_child api pt ''clients'' = Inr top
             \<and> entries api top = xs @ (''client'', node) # ys \<and> client_configs api xs = Inr cs
             \<and> read_client api node = Inl (Throws e))))"
proof (cases "read_xml api from")
  case (Inr pt)
  show ?thesis
  proof (cases "get_child api pt ''clients''")
    case (Inr top)
    have "get_authorized_clients_and_details api from = Inl f \<longleftrightarrow>
        client_configs api (entries api top) = Inl f"
      using \<open>read_xml api from = Inr pt\<close> Inr
      by (auto simp: get_authorized_clients_and_details_def read_clients_configs bindR_eq_Inl)
    then show ?thesis
      using \<open>read_xml api from = Inr pt\<close> Inr read_client_throws [of api _ f]
      by (simp add: client_configs_Inl) blast
  qed (use Inr in \<open>auto simp: get_authorized_clients_and_details_def\<close>)
qed (auto simp: get_authorized_clients_and_details_def)

text \<open>
  For an authorized client the alert decision is the comparison of each reading with the
  configured limit, strictly greater and on unsigned values, and the map is left as it was.
\<close>

theorem should_send_email_known:
  assumes "m key = Some c"
  shows "should_send_email m key d =
     (unat (memory_limit c) < unat (curr_memory_pct d) \<or> unat (cpu_limit c) < unat (curr_cpu_pct d)
      \<or> unat (processes_limit c) < unat (curr_processes_cnt d), m)"
  using assms by (simp add: should_send_email_def map_index_def word_less_nat_alt)

text \<open>
  Asked about a client that is not in the map, \<open>should_send_email\<close> alerts on any reading
  that is not zero and, as a side effect, makes that client authorized from then on.
\<close>

theorem should_send_email_unknown:
  assumes "\<not> is_client_authorized m key"
  shows "fst (should_send_email m key d) =
      (curr_memory_pct d \<noteq> 0 \<or> curr_cpu_pct d \<noteq> 0 \<or> curr_processes_cnt d \<noteq> 0)
    \<and> (\<forall>k. is_client_authorized (snd (should_send_email m key d)) k \<longleftrightarrow> k = key \<or> is_client_authorized m k)"
  using assms
  by (auto simp: is_client_authorized_def should_send_email_def map_index_def
      value_initialised_config_def word_neq_0_conv)

section \<open>The connection string\<close>

text \<open>
  When every value in \<open>db_settings.xml\<close> is free of spaces, the connection string is a
  list of five settings separated by single spaces, in the order dbname, user, password,
  hostaddr, port, from which each value can be read back.
\<close>

theorem connection_string_settings:
  assumes "read_xml api from = Inr pt"
    and "get_string api pt ''db_settings.dbname'' = Inr dbname"
    and "get_string api pt ''db_settings.user'' = Inr user"
    and "get_string api pt ''db_settings.password'' = Inr password"
    and "get_string api pt ''db_settings.hostaddr'' = Inr hostaddr"
    and "get_string api pt ''db_settings.port'' = Inr port"
    and "CHR '' '' \<notin> set (dbname @ user @ password @ hostaddr @ port)"
  shows "\<exists>s. get_connection_string api from = Inr s
      \<and> tokens CHR '' '' s =
          [''dbname='' @ dbname, ''user='' @ user, ''password='' @ password,
           ''hostaddr='' @ hostaddr, ''port='' @ port]"
proof -
  let ?settings = "[''dbname='' @ dbname, ''user='' @ user, ''password='' @ password,
           ''hostaddr='' @ hostaddr, ''port='' @ port]"
  have "get_connection_string api from = Inr (join CHR '' '' ?settings)"
    using assms(1-6) by (simp add: get_connection_string_def)
  moreover have "tokens CHR '' '' (join CHR '' '' ?settings) = ?settings"
    using assms(7) by (intro tokens_join) auto
  ultimately show ?thesis by blast
qed

section \<open>The files under test/resources\<close>

text \<open>The trees of \<open>test/resources/server_config.xml\<close> and \<open>test/resources/db_settings.xml\<close>.\<close>

definition leaf :: "string \<Rightarrow> string \<Rightarrow> string \<times> ptree" where
  "leaf name value = (name, Ptree value [])"

definition client_element :: "string \<Rightarrow> string \<Rightarrow> string \<Rightarrow> string \<Rightarrow> string \<Rightarrow> string \<times> ptree" where
  "client_element key mail memory cpu processes =
     (''client'', Ptree [] [leaf ''key'' key, leaf ''email'' mail,
        (''alerts'', Ptree [] [leaf ''memory'' memory, leaf ''cpu'' cpu, leaf ''processes'' processes])])"

definition test_db_settings :: ptree where
  "test_db_settings = Ptree [] [(''db_settings'', Ptree []
     [leaf ''dbname'' ''hector'', leaf ''user'' ''mkts'', leaf ''password'' ''password'',
      leaf ''hostaddr'' ''192.6.6.6'', leaf ''port'' ''1111''])]"

definition test_files :: "string \<Rightarrow> ptree option" where
  "test_files = map_of
     [(''server_config.xml'', Ptree [] [(''clients'', Ptree []
         [client_element ''jack'' ''jack@jack.com'' ''24'' ''32'' ''40'',
          client_element ''jill'' ''jill@jill.com'' ''18'' ''24'' ''30'',
          client_element ''mary'' ''mary@mary.com'' ''27'' ''36'' ''45''])]),
      (''db_settings.xml'', test_db_settings)]"

definition test_config :: "string \<Rightarrow> string \<Rightarrow> size_t \<Rightarrow> size_t \<Rightarrow> size_t \<Rightarrow> client_config" where
  "test_config key mail memory cpu processes =
     \<lparr>cfg_client_key = key, email = mail, memory_limit = memory, cpu_limit = cpu,
      processes_limit = processes\<rparr>"

definition test_configs :: "client_config list" where
  "test_configs =
     [test_config ''jack'' ''jack@jack.com'' 24 32 40,
      test_config ''jill'' ''jill@jill.com'' 18 24 30,
      test_config ''mary'' ''mary@mary.com'' 27 36 45]"

definition test_clients :: client_map where
  "test_clients = index_by_key test_configs"

lemmas ref_api_defs = xml_ref_def child_ref_def string_ref_def size_ref_def

lemma read_client_element:
  assumes "size_text memory = Inr m" "size_text cpu = Inr c" "size_text processes = Inr p"
  shows "read_client (xml_ref files) (snd (client_element key mail memory cpu processes)) =
    Inr (test_config key mail m c p)"
  using assms by (simp add: client_element_def leaf_def read_client_def ref_api_defs test_config_def)

lemma size_text_two_digits:
  assumes "is_digit a" "is_digit b"
  shows "size_text [a, b] = Inr (word_of_nat (10 * digit_val a + digit_val b))"
proof -
  have "digit_val a < 10" "digit_val b < 10" using assms by (auto simp: is_digit_def digit_val_def)
  then show ?thesis using assms by (simp add: size_text_def read_dec_def)
qed

lemma client_configs_element:
  "client_configs api (client_element key mail memory cpu processes # es) =
     bindR (read_client api (snd (client_element key mail memory cpu processes)))
       (\<lambda>c. bindR (client_configs api es) (\<lambda>cs. Inr (c # cs)))"
  by (simp add: client_element_def)

lemma test_configs_read:
  "client_configs (xml_ref test_files)
     [client_element ''jack'' ''jack@jack.com'' ''24'' ''32'' ''40'',
      client_element ''jill'' ''jill@jill.com'' ''18'' ''24'' ''30'',
      client_element ''mary'' ''mary@mary.com'' ''27'' ''36'' ''45''] = Inr test_configs"
  by (simp add: client_configs_element read_client_element size_text_two_digits is_digit_def
      digit_val_def test_configs_def del: client_configs.simps(2))

lemma test_clients_load:
  "get_authorized_clients_and_details (xml_ref test_files) ''server_config.xml'' = Inr test_clients"
proof -
  let ?top = "Ptree [] [client_element ''jack'' ''jack@jack.com'' ''24'' ''32'' ''40'',
      client_element ''jill'' ''jill@jill.com'' ''18'' ''24'' ''30'',
      client_element ''mary'' ''mary@mary.com'' ''27'' ''36'' ''45'']"
  have "read_xml (xml_ref test_files) ''server_config.xml'' = Inr (Ptree [] [(''clients'', ?top)])"
    "get_child (xml_ref test_files) (Ptree [] [(''clients'', ?top)]) ''clients'' = Inr ?top"
    "entries (xml_ref test_files) ?top = node_children ?top"
    by (simp_all add: xml_ref_def test_files_def child_ref_def)
  then show ?thesis
    by (simp add: get_authorized_clients_and_details_def read_clients_configs test_configs_read
        test_clients_def)
qed

lemmas test_clients_simps = test_clients_def test_configs_def index_by_key_def test_config_def

lemma config_authorizes_listed_keys_witness:
  "\<exists>cs. loaded_configs (xml_ref test_files) ''server_config.xml'' = Inr cs
     \<and> (\<forall>key. is_client_authorized test_clients key \<longleftrightarrow> key \<in> cfg_client_key ` set cs)"
  using config_authorizes_listed_keys [OF test_clients_load] by blast

lemma should_send_email_known_witness:
  "should_send_email test_clients ''mary''
     \<lparr>client_key = ''mary'', curr_memory_pct = 28, curr_cpu_pct = 35, curr_processes_cnt = 44,
      str_dt_time = []\<rparr> = (True, test_clients)"
proof -
  have "test_clients ''mary'' = Some (test_config ''mary'' ''mary@mary.com'' 27 36 45)"
    by (simp add: test_clients_simps)
  from should_send_email_known [of test_clients "''mary''", OF this]
  show ?thesis by (simp add: test_config_def)
qed

lemma should_send_email_unknown_witness:
  "is_client_authorized (snd (should_send_email test_clients ''eve''
     \<lparr>client_key = ''eve'', curr_memory_pct = 0, curr_cpu_pct = 0, curr_processes_cnt = 0,
      str_dt_time = []\<rparr>)) ''eve''"
proof -
  have "\<not> is_client_authorized test_clients ''eve''"
    by (simp add: is_client_authorized_def test_clients_simps)
  from should_send_email_unknown [of test_clients "''eve''", OF this] show ?thesis by blast
qed

lemma test_db_settings_values:
  "read_xml (xml_ref test_files) ''db_settings.xml'' = Inr test_db_settings"
  "get_string (xml_ref test_files) test_db_settings ''db_settings.dbname'' = Inr ''hector''"
  "get_string (xml_ref test_files) test_db_settings ''db_settings.user'' = Inr ''mkts''"
  "get_string (xml_ref test_files) test_db_settings ''db_settings.password'' = Inr ''password''"
  "get_string (xml_ref test_files) test_db_settings ''db_settings.hostaddr'' = Inr ''192.6.6.6''"
  "get_string (xml_ref test_files) test_db_settings ''db_settings.port'' = Inr ''1111''"
  by (simp_all add: test_db_settings_def test_files_def leaf_def ref_api_defs)

lemma test_connection_string:
  "get_connection_string (xml_ref test_files) ''db_settings.xml'' =
     Inr ''dbname=hector user=mkts password=password hostaddr=192.6.6.6 port=1111''"
  by (simp add: get_connection_string_def test_db_settings_values)

lemma connection_string_settings_witness:
  "\<exists>s. get_connection_string (xml_ref test_files) ''db_settings.xml'' = Inr s
     \<and> tokens CHR '' '' s = [''dbname=hector'', ''user=mkts'', ''password=password'',
          ''hostaddr=192.6.6.6'', ''port=1111'']"
  using connection_string_settings [OF test_db_settings_values] by simp

end
