(* ===== verification/Wire_Format.thy ===== *)
theory Wire_Format
  imports Config
begin

text \<open>
  The line a client sends and the server reads: \<open>generate_random_sys_info_data\<close> writes it,
  \<open>parse_to_client_detail\<close> reads it (\<open>src/utils.cpp\<close>). The lemmas show when reading is
  defined at all, what it yields, and that it inverts writing.
\<close>

section \<open>Writing and reading a line\<close>

text \<open>
  \<open>time0\<close> is the result of \<open>time(0)\<close>, which seeds the engine, and \<open>time1\<close> that of the
  later \<open>std::time(nullptr)\<close>. \<open>localtime\<close> depends on the time zone of the machine.
\<close>

definition generate_random_sys_info_data ::
    "'g random_api \<Rightarrow> (int \<Rightarrow> tm option) \<Rightarrow> int \<Rightarrow> int \<Rightarrow> string \<Rightarrow> string res" where
  "generate_random_sys_info_data rnd localtime time0 time1 key =
     (let rng = mt19937 rnd time0;
          (memory_percentage, rng1) = uniform_int rnd 1 100 rng;
          (cpu_percentage, rng2) = uniform_int rnd 1 100 rng1;
          (no_of_processes, rng3) = uniform_int rnd 1 100 rng2
      in case localtime time1 of
           None \<Rightarrow> Inl (Undefined Null_deref)
         | Some tm \<Rightarrow> bindR (asctime tm) (\<lambda>str_time.
             Inr (key @ ''|'' @ to_string_int memory_percentage @ ''|''
                  @ to_string_int cpu_percentage @ ''|'' @ to_string_int no_of_processes @ ''|''
                  @ str_time)))"

definition vector_at :: "'a list \<Rightarrow> nat \<Rightarrow> 'a res" where
  "vector_at xs i = (if i < length xs then Inr (xs ! i) else Inl (Undefined Vector_index))"

definition parse_to_client_detail :: "string_algo \<Rightarrow> string \<Rightarrow> client_detail res" where
  "parse_to_client_detail alg str_client_info =
     (let info = split_any alg str_client_info ''|''
      in bindR (vector_at info 0) (\<lambda>key.
         bindR (bindR (vector_at info 1) atoi) (\<lambda>memory.
         bindR (bindR (vector_at info 2) atoi) (\<lambda>cpu.
         bindR (bindR (vector_at info 3) atoi) (\<lambda>processes.
         bindR (vector_at info 4) (\<lambda>time.
           let time' = replace_all alg time [CHR 0x0A] []
           in Inr \<lparr>client_key = key, curr_memory_pct = size_of_int memory,
                   curr_cpu_pct = size_of_int cpu, curr_processes_cnt = size_of_int processes,
                   str_dt_time = time'\<rparr>))))))"

section \<open>When a line can be read\<close>

definition erase_newlines :: "string \<Rightarrow> string" where
  "erase_newlines s = filter (\<lambda>c. c \<noteq> CHR 0x0A) s"

definition detail_of :: "string \<Rightarrow> int \<Rightarrow> int \<Rightarrow> int \<Rightarrow> string \<Rightarrow> client_detail" where
  "detail_of key memory cpu processes time =
     \<lparr>client_key = key, curr_memory_pct = size_of_int memory, curr_cpu_pct = size_of_int cpu,
      curr_processes_cnt = size_of_int processes, str_dt_time = erase_newlines time\<rparr>"

text \<open>The five fields the parser looks at; what follows them is ignored.\<close>

lemma length_ge_5E:
  assumes "4 < length xs"
  obtains a b c d e r where "xs = a # b # c # d # e # r"
  using assms by (auto simp: less_iff_Suc_add numeral_eq_Suc length_Suc_conv)

context string_algorithms
begin

lemma parse_fields:
  assumes "tokens CHR ''|'' s = a # b # c # d # e # r"
  shows "parse_to_client_detail alg s =
    bindR (atoi b) (\<lambda>memory. bindR (atoi c) (\<lambda>cpu. bindR (atoi d) (\<lambda>processes.
      Inr (detail_of a memory cpu processes e))))"
  by (simp add: parse_to_client_detail_def split_tokens assms vector_at_def detail_of_def
      erase_newlines_def replace_erases Let_def)

lemma parse_too_few:
  assumes "count_list s CHR ''|'' < 4"
  shows "\<exists>u. parse_to_client_detail alg s = Inl (Undefined u)"
proof -
  have "length (tokens CHR ''|'' s) < 5" using assms by (simp add: length_tokens)
  then have last: "vector_at (tokens CHR ''|'' s) 4 = Inl (Undefined Vector_index)"
    by (simp add: vector_at_def)
  have field: "\<exists>u. e = Undefined u" if "vector_at ts i = Inl e" for ts :: "string list" and i e
    using that by (auto simp: vector_at_def split: if_splits)
  have number: "\<exists>u. e = Undefined u" if "bindR (vector_at ts i) atoi = Inl e" for ts i e
    using that field by (auto simp: bindR_eq_Inl atoi_def split: if_splits)
  show ?thesis
    unfolding parse_to_client_detail_def split_tokens Let_def
    by (intro bindR_undefined) (auto simp: last dest: field number)
qed

end

text \<open>
  C13. Reading a line yields a value exactly when the line has at least four bars and its second,
  third and fourth fields are read by \<open>atoi\<close> as values of type \<open>int\<close>. The value then consists of
  the first field, those three numbers converted to \<open>size_t\<close>, and the fifth field without
  newlines; further fields are ignored.
\<close>

theorem parse_defined_iff:
  assumes "string_algorithms alg"
  shows "parse_to_client_detail alg s = Inr d \<longleftrightarrow>
    (\<exists>a b c e t r. tokens CHR ''|'' s = a # b # c # e # t # r
       \<and> int_in_range (atoi_value b) \<and> int_in_range (atoi_value c) \<and> int_in_range (atoi_value e)
       \<and> d = detail_of a (atoi_value b) (atoi_value c) (atoi_value e) t)"
proof (cases "count_list s CHR ''|'' < 4")
  case True
  then have "length (tokens CHR ''|'' s) < 5" by (simp add: length_tokens)
  then show ?thesis using string_algorithms.parse_too_few [OF assms True] by fastforce
next
  case False
  then have "4 < length (tokens CHR ''|'' s)" by (simp add: length_tokens)
  then obtain a b c e t r where ts: "tokens CHR ''|'' s = a # b # c # e # t # r"
    by (rule length_ge_5E)
  show ?thesis
    by (auto simp: string_algorithms.parse_fields [OF assms ts] ts bindR_eq_Inr atoi_eq_Inr)
qed

text \<open>
  A line with fewer than four bars has no defined reading: the vector of fields is indexed
  past its end, whoever sent the line and whatever it says.
\<close>

theorem parse_malformed_undefined:
  assumes "string_algorithms alg" "count_list s CHR ''|'' < 4"
  shows "\<exists>u. parse_to_client_detail alg s = Inl (Undefined u)"
  using assms by (rule string_algorithms.parse_too_few)

text \<open>
  A reading that is sent as a negative number is not rejected: it becomes the unsigned value
  that many below two to the power 64.
\<close>

theorem parse_negative_wraps:
  assumes "string_algorithms alg" "CHR ''|'' \<notin> set key" "CHR ''|'' \<notin> set time"
    and "0 < n" "n \<le> 2 ^ 31" "cpu < 2 ^ 31" "processes < 2 ^ 31"
  shows "\<exists>d. parse_to_client_detail alg
      (join CHR ''|'' [key, CHR ''-'' # dec n, dec cpu, dec processes, time]) = Inr d
    \<and> client_key d = key \<and> unat (curr_memory_pct d) = 2 ^ 64 - n"
proof -
  let ?fields = "[key, CHR ''-'' # dec n, dec cpu, dec processes, time]"
  have ts: "tokens CHR ''|'' (join CHR ''|'' ?fields) = ?fields"
    using assms(2,3) by (intro tokens_join) (auto simp: not_digit_notin_dec)
  have "int n \<le> 2 ^ 31" "0 < int n" using assms(4,5) by auto
  then have "atoi (CHR ''-'' # dec n) = Inr (- int n)"
    "unat (size_of_int (- int n)) = nat (2 ^ 64 - int n)"
    using unat_size_of_neg_int [of "- int n"]
    by (auto simp: atoi_def atoi_value_neg_dec int_in_range_def)
  moreover have "nat (2 ^ 64 - int n) = 2 ^ 64 - n" by (simp add: nat_diff_distrib)
  ultimately show ?thesis
    using string_algorithms.parse_fields [OF assms(1) ts] assms(6,7)
    by (simp add: atoi_dec detail_of_def)
qed

section \<open>Reading inverts writing\<close>

definition line_of :: "string \<Rightarrow> nat \<Rightarrow> nat \<Rightarrow> nat \<Rightarrow> string \<Rightarrow> string" where
  "line_of key memory cpu processes time =
     key @ ''|'' @ dec memory @ ''|'' @ dec cpu @ ''|'' @ dec processes @ ''|'' @ time @ [CHR 0x0A]"

lemma erase_newlines_id [simp]: "CHR 0x0A \<notin> set s \<Longrightarrow> erase_newlines s = s"
  by (auto simp: erase_newlines_def filter_id_conv)

lemma erase_newlines_append [simp]: "erase_newlines (s @ t) = erase_newlines s @ erase_newlines t"
  by (simp add: erase_newlines_def)

lemma erase_newlines_newline [simp]: "erase_newlines (CHR 0x0A # t) = erase_newlines t"
  by (simp add: erase_newlines_def)

lemma tokens_line_of:
  assumes "CHR ''|'' \<notin> set key" "CHR ''|'' \<notin> set time"
  shows "tokens CHR ''|'' (line_of key memory cpu processes time @ rest) =
    key # dec memory # dec cpu # dec processes
      # tokens CHR ''|'' (time @ CHR 0x0A # rest)"
  using assms by (simp add: line_of_def tokens_append not_digit_notin_dec)

lemma tokens_last_field:
  assumes "d \<notin> set t" "x \<noteq> d"
  shows "tokens d (t @ x # rest) = (t @ x # hd (tokens d rest)) # tl (tokens d rest)"
proof -
  have "tokens d (t @ us) = (t @ hd (tokens d us)) # tl (tokens d us)" for us
    using assms(1) by (induction t) auto
  moreover have "tokens d (x # rest) = (x # hd (tokens d rest)) # tl (tokens d rest)"
    using assms(2) by (cases "tokens d rest") auto
  ultimately show ?thesis by (metis list.sel)
qed

context string_algorithms
begin

lemma parse_line_append:
  assumes "CHR ''|'' \<notin> set key" "CHR ''|'' \<notin> set time"
    and "memory < 2 ^ 31" "cpu < 2 ^ 31" "processes < 2 ^ 31"
  shows "parse_to_client_detail alg (line_of key memory cpu processes time @ rest) =
    Inr (detail_of key (int memory) (int cpu) (int processes) (time @ hd (tokens CHR ''|'' rest)))"
proof -
  have "tokens CHR ''|'' (line_of key memory cpu processes time @ rest) =
      key # dec memory # dec cpu # dec processes
        # (time @ CHR 0x0A # hd (tokens CHR ''|'' rest)) # tl (tokens CHR ''|'' rest)"
    using assms(1,2) by (simp add: tokens_line_of tokens_last_field)
  from parse_fields [OF this] show ?thesis
    using assms(3-5) by (simp add: atoi_dec detail_of_def)
qed

lemma parse_line:
  assumes "CHR ''|'' \<notin> set key" "CHR ''|'' \<notin> set time"
    and "memory < 2 ^ 31" "cpu < 2 ^ 31" "processes < 2 ^ 31"
  shows "parse_to_client_detail alg (line_of key memory cpu processes time) =
    Inr (detail_of key (int memory) (int cpu) (int processes) time)"
  using parse_line_append [OF assms, of "[]"] by simp

end

text \<open>What the generator writes is such a line, with three percentages.\<close>

lemma generate_line:
  assumes u: "uniform_random rnd"
    and g: "generate_random_sys_info_data rnd localtime time0 time1 key = Inr line"
  shows "\<exists>memory cpu processes tm. localtime time1 = Some tm \<and> tm_normal tm
    \<and> line = line_of key memory cpu processes (asctime_text tm)
    \<and> {memory, cpu, processes} \<subseteq> {1..100}"
proof -
  let ?draw = "uniform_int rnd 1 100"
  let ?a = "?draw (mt19937 rnd time0)" let ?b = "?draw (snd ?a)" let ?c = "?draw (snd ?b)"
  note range = uniform_random.percent_range [OF u]
  have pct: "to_string_int (fst (?draw x)) = dec (nat (fst (?draw x)))"
    "nat (fst (?draw x)) \<in> {1..100}" for x
    using range [of x] by (auto simp: to_string_int_def)
  obtain tm where tm: "localtime time1 = Some tm" "tm_normal tm"
    and line: "line = line_of key (nat (fst ?a)) (nat (fst ?b)) (nat (fst ?c)) (asctime_text tm)"
    using g pct
    by (auto simp: generate_random_sys_info_data_def Let_def split_beta asctime_def line_of_def
        bindR_eq_Inr split: option.splits if_splits)
  show ?thesis
    by (intro exI [of _ "nat (fst ?a)"] exI [of _ "nat (fst ?b)"] exI [of _ "nat (fst ?c)"] exI [of _ tm])
       (use tm line pct in simp)
qed

lemma length_line_of:
  assumes "tm_normal tm" "{memory, cpu, processes} \<subseteq> {1..100}"
  shows "length (line_of key memory cpu processes (asctime_text tm)) \<le> length key + 38"
proof -
  have "asctime tm = Inr (asctime_text tm @ [CHR 0x0A])" using assms(1) by (simp add: asctime_def)
  from length_asctime [OF this] have "length (asctime_text tm) \<le> 24" by simp
  moreover have "length (dec n) \<le> 3" if "n \<le> 100" for n using length_dec [of n 3] that by simp
  ultimately have "length (dec memory) \<le> 3" "length (dec cpu) \<le> 3" "length (dec processes) \<le> 3"
    "length (asctime_text tm) \<le> 24" using assms(2) by auto
  then show ?thesis by (simp add: line_of_def)
qed

text \<open>
  A client whose \<open>localtime\<close> works always produces a line, made of its key, three
  percentages between 1 and 100 and the time; it ends with a newline and is at most 38
  characters longer than the key, so with a key of up to 986 characters it fits the 1024
  characters the server reads at once.
\<close>

theorem generate_defined:
  assumes "uniform_random rnd" "localtime time1 = Some tm" "tm_normal tm"
  shows "\<exists>line memory cpu processes.
      generate_random_sys_info_data rnd localtime time0 time1 key = Inr line
    \<and> line = line_of key memory cpu processes (asctime_text tm)
    \<and> {memory, cpu, processes} \<subseteq> {1..100} \<and> length line \<le> length key + 38"
proof -
  obtain line where g: "generate_random_sys_info_data rnd localtime time0 time1 key = Inr line"
    using assms(2,3) by (auto simp: generate_random_sys_info_data_def Let_def split_beta asctime_def)
  then obtain memory cpu processes
    where line: "line = line_of key memory cpu processes (asctime_text tm)"
      and range: "{memory, cpu, processes} \<subseteq> {1..100}"
    using generate_line [OF assms(1) g] assms(2) by auto
  have "length line \<le> length key + 38"
    unfolding line using assms(3) range by (rule length_line_of)
  with g line range show ?thesis by blast
qed

text \<open>
  C4. Round trip: for a key without a bar, the server reads from the generated line the key,
  the three percentages as numbers between 1 and 100, and the time text without its newline.
\<close>

theorem parse_generate_roundtrip:
  assumes "string_algorithms alg" "uniform_random rnd" "CHR ''|'' \<notin> set key"
    and "generate_random_sys_info_data rnd localtime time0 time1 key = Inr line"
  shows "\<exists>d tm. parse_to_client_detail alg line = Inr d \<and> localtime time1 = Some tm
    \<and> client_key d = key \<and> str_dt_time d = asctime_text tm
    \<and> {unat (curr_memory_pct d), unat (curr_cpu_pct d), unat (curr_processes_cnt d)} \<subseteq> {1..100}
    \<and> line = key @ ''|'' @ to_string_size (curr_memory_pct d) @ ''|'' @ to_string_size (curr_cpu_pct d)
        @ ''|'' @ to_string_size (curr_processes_cnt d) @ ''|'' @ str_dt_time d @ [CHR 0x0A]"
proof -
  obtain memory cpu processes tm where tm: "localtime time1 = Some tm" "tm_normal tm"
    and line: "line = line_of key memory cpu processes (asctime_text tm)"
    and range: "{memory, cpu, processes} \<subseteq> {1..100}"
    using generate_line [OF assms(2,4)] by auto
  have free: "CHR ''|'' \<notin> set (asctime_text tm)" "CHR 0x0A \<notin> set (asctime_text tm)"
    using tm(2) by (auto simp: asctime_text_chars)
  have small: "memory < 2 ^ 31" "cpu < 2 ^ 31" "processes < 2 ^ 31" using range by auto
  have "parse_to_client_detail alg line = Inr (detail_of key (int memory) (int cpu) (int processes) (asctime_text tm))"
    unfolding line using string_algorithms.parse_line [OF assms(1,3) free(1) small] .
  moreover have "unat (size_of_int (int n)) = n" if "n \<le> 100" for n
    using that by (simp add: unat_size_of_int)
  ultimately show ?thesis
    using tm range free by (auto simp: detail_of_def line line_of_def to_string_size_def)
qed

text \<open>
  Two lines that reach the server in one read are taken as one: the first four fields are
  those of the first line, the time field swallows the key of the second line, and the readings
  of the second line are lost.
\<close>

theorem parse_coalesced_lines:
  assumes "string_algorithms alg"
    and "CHR ''|'' \<notin> set (key1 @ time1 @ key2 @ time2)" "CHR 0x0A \<notin> set (time1 @ key2)"
    and "m1 < 2 ^ 31" "c1 < 2 ^ 31" "p1 < 2 ^ 31"
  shows "parse_to_client_detail alg (line_of key1 m1 c1 p1 time1 @ line_of key2 m2 c2 p2 time2) =
     Inr (detail_of key1 (int m1) (int c1) (int p1) (time1 @ key2))"
proof -
  have "hd (tokens CHR ''|'' (line_of key2 m2 c2 p2 time2)) = key2"
    using tokens_line_of [of key2 time2 m2 c2 p2 "[]"] assms(2) by simp
  then show ?thesis
    using string_algorithms.parse_line_append [OF assms(1) _ _ assms(4-6), of key1 time1] assms(2)
    by simp
qed

section \<open>Instances\<close>

definition test_tm :: tm where
  "test_tm = \<lparr>tm_sec = 34, tm_min = 31, tm_hour = 18, tm_mday = 26, tm_mon = 10, tm_year = 116, tm_wday = 6\<rparr>"

lemma test_tm_normal: "tm_normal test_tm"
  by (simp add: test_tm_def tm_normal_def)

lemma asctime_text_test_tm: "asctime_text test_tm = ''Sat Nov 26 18:31:34 2016''"
  by (simp add: asctime_text_def test_tm_def wday_name_def mon_name_def field3_def two_digits_def
      dec.simps digit_def char_of_def bit_Suc_0_iff)

text \<open>
  The example of the tests: the line \<open>xxx|16|88|25|Sat Nov 26 18:31:34 2016\<close> is read as
  key xxx, memory 16, cpu 88, processes 25 and that time.
\<close>

theorem parse_test_line:
  assumes "string_algorithms alg"
  shows "parse_to_client_detail alg ''xxx|16|88|25|Sat Nov 26 18:31:34 2016'' =
    Inr \<lparr>client_key = ''xxx'', curr_memory_pct = 16, curr_cpu_pct = 88, curr_processes_cnt = 25,
         str_dt_time = ''Sat Nov 26 18:31:34 2016''\<rparr>"
proof -
  have "tokens CHR ''|'' ''xxx|16|88|25|Sat Nov 26 18:31:34 2016'' =
      [''xxx'', ''16'', ''88'', ''25'', ''Sat Nov 26 18:31:34 2016'']" by simp
  from string_algorithms.parse_fields [OF assms this] show ?thesis
    by (simp add: atoi_def atoi_value_def is_space_def is_digit_def read_dec_def digit_val_def
        int_in_range_def detail_of_def size_of_int_def)
qed

lemma parse_test_line_witness:
  "parse_to_client_detail boost_ref ''xxx|16|88|25|Sat Nov 26 18:31:34 2016'' =
    Inr \<lparr>client_key = ''xxx'', curr_memory_pct = 16, curr_cpu_pct = 88, curr_processes_cnt = 25,
         str_dt_time = ''Sat Nov 26 18:31:34 2016''\<rparr>"
  by (rule parse_test_line [OF boost.string_algorithms_axioms])

lemma parse_defined_iff_witness:
  "\<nexists>d. parse_to_client_detail boost_ref ''a|1|2|3'' = Inr d"
  using parse_defined_iff [OF boost.string_algorithms_axioms, of "''a|1|2|3''"] by simp

lemma parse_malformed_undefined_witness:
  "\<exists>u. parse_to_client_detail boost_ref ''hello'' = Inl (Undefined u)"
  using parse_malformed_undefined [OF boost.string_algorithms_axioms, of "''hello''"] by simp

lemma parse_negative_wraps_witness:
  "\<exists>d. parse_to_client_detail boost_ref (join CHR ''|'' [''jill'', CHR ''-'' # dec 1, dec 20, dec 30, ''t'']) = Inr d
    \<and> unat (curr_memory_pct d) = 2 ^ 64 - 1"
  using parse_negative_wraps [OF boost.string_algorithms_axioms, of "''jill''" "''t''" 1 20 30]
  by auto

lemma generate_defined_witness:
  "\<exists>line. generate_random_sys_info_data random_ref (\<lambda>_. Some test_tm) 0 0 ''jill'' = Inr line
     \<and> length line \<le> 42"
  using generate_defined [OF lehmer.uniform_random_axioms, of "\<lambda>_. Some test_tm" 0 test_tm 0 "''jill''"]
  by (auto simp: test_tm_normal)

lemma parse_generate_roundtrip_witness:
  "\<exists>line d. generate_random_sys_info_data random_ref (\<lambda>_. Some test_tm) 0 0 ''jill'' = Inr line
     \<and> parse_to_client_detail boost_ref line = Inr d \<and> client_key d = ''jill''"
proof -
  obtain line where g: "generate_random_sys_info_data random_ref (\<lambda>_. Some test_tm) 0 0 ''jill'' = Inr line"
    by (simp add: generate_random_sys_info_data_def Let_def split_beta asctime_def test_tm_normal)
  have "CHR ''|'' \<notin> set ''jill''" by simp
  from parse_generate_roundtrip [OF boost.string_algorithms_axioms lehmer.uniform_random_axioms this g]
  show ?thesis using g by blast
qed

lemma parse_coalesced_lines_witness:
  "parse_to_client_detail boost_ref (line_of ''jill'' 1 2 3 ''now'' @ line_of ''mary'' 4 5 6 ''then'') =
     Inr (detail_of ''jill'' 1 2 3 ''nowmary'')"
  using parse_coalesced_lines [OF boost.string_algorithms_axioms, of "''jill''" "''now''" "''mary''" "''then''" 1 2 3 4 5 6]
  by simp

end
