(* ===== verification/Sql.thy ===== *)
theory Sql
  imports Wire_Format
begin

text \<open>
  The statement the server hands to the database: \<open>generate_insert_str_for\<close> (two overloads
  in \<open>src/utils.cpp\<close>). What such a statement means to the database is stated against two
  readers: one that counts the statements a text holds, and one that reads the values of an
  insert back. They show when the generated text says what it is meant to say, and that a
  quote in a field changes its meaning.
\<close>

section \<open>The generated statement\<close>

definition generate_insert_str_for_table :: "client_detail \<Rightarrow> string \<Rightarrow> string" where
  "generate_insert_str_for_table c_detail table_name =
     ''INSERT INTO '' @ table_name @ '' (CLIENT_KEY, MEMORY_PCT, CPU_PCT, NO_PROCESSES, DT_TIME) ''
     @ ''VALUES ('' @ [CHR 0x27] @ client_key c_detail @ [CHR 0x27] @ '', ''
     @ to_string_size (curr_memory_pct c_detail) @ '', ''
     @ to_string_size (curr_cpu_pct c_detail) @ '', ''
     @ to_string_size (curr_processes_cnt c_detail) @ '', '' @ [CHR 0x27] @ str_dt_time c_detail
     @ [CHR 0x27] @ '');''"

definition generate_insert_str_for :: "client_detail \<Rightarrow> string" where
  "generate_insert_str_for c_detail = generate_insert_str_for_table c_detail ''CLIENT_INFO''"

section \<open>Reading a statement\<close>

text \<open>
  The number of statements in a text, each ended by a semicolon outside quotes, and whether the
  text ends inside a quotation; a doubled quote inside a quotation stays inside it.
\<close>

fun scan_sql :: "bool \<Rightarrow> string \<Rightarrow> nat \<times> bool" where
  "scan_sql quoted [] = (0, quoted)"
| "scan_sql quoted (c # cs) =
     (if c = CHR 0x27 then scan_sql (\<not> quoted) cs
      else if c = CHR '';'' \<and> \<not> quoted then (Suc (fst (scan_sql quoted cs)), snd (scan_sql quoted cs))
      else scan_sql quoted cs)"

definition statements :: "string \<Rightarrow> nat" where
  "statements s = fst (scan_sql False s)"

fun expect :: "string \<Rightarrow> string \<Rightarrow> string option" where
  "expect [] s = Some s"
| "expect (p # ps) [] = None"
| "expect (p # ps) (c # cs) = (if p = c then expect ps cs else None)"

definition quoted_value :: "string \<Rightarrow> (string \<times> string) option" where
  "quoted_value s =
     (case expect [CHR 0x27] s of None \<Rightarrow> None
      | Some t \<Rightarrow>
         (case dropWhile (\<lambda>c. c \<noteq> CHR 0x27) t of [] \<Rightarrow> None
          | q # r \<Rightarrow> Some (takeWhile (\<lambda>c. c \<noteq> CHR 0x27) t, r)))"

definition number_value :: "string \<Rightarrow> (nat \<times> string) option" where
  "number_value s = Some (read_dec (takeWhile is_digit s), dropWhile is_digit s)"

definition insert_values :: "string \<Rightarrow> string \<Rightarrow> (string \<times> nat \<times> nat \<times> nat \<times> string) option" where
  "insert_values table s =
     Option.bind (expect (''INSERT INTO '' @ table
        @ '' (CLIENT_KEY, MEMORY_PCT, CPU_PCT, NO_PROCESSES, DT_TIME) VALUES ('') s) (\<lambda>s.
     Option.bind (quoted_value s) (\<lambda>(key, s).
     Option.bind (expect '', '' s) (\<lambda>s.
     Option.bind (number_value s) (\<lambda>(memory, s).
     Option.bind (expect '', '' s) (\<lambda>s.
     Option.bind (number_value s) (\<lambda>(cpu, s).
     Option.bind (expect '', '' s) (\<lambda>s.
     Option.bind (number_value s) (\<lambda>(processes, s).
     Option.bind (expect '', '' s) (\<lambda>s.
     Option.bind (quoted_value s) (\<lambda>(time, s).
     Option.bind (expect '');'' s) (\<lambda>s.
       if s = [] then Some (key, memory, cpu, processes, time) else None)))))))))))"

lemma expect_append [simp]: "expect p (p @ s) = Some s"
  by (induction p) auto

lemma quoted_value_append [simp]:
  "CHR 0x27 \<notin> set v \<Longrightarrow> quoted_value (CHR 0x27 # v @ CHR 0x27 # s) = Some (v, s)"
  by (auto simp: quoted_value_def takeWhile_append dropWhile_append)

lemma number_value_append [simp]:
  "\<not> is_digit c \<Longrightarrow> number_value (dec n @ c # s) = Some (n, c # s)"
  by (simp add: number_value_def takeWhile_dec_append dropWhile_append dec_digits)

lemma scan_sql_append:
  "scan_sql q (s @ t) =
     (fst (scan_sql q s) + fst (scan_sql (snd (scan_sql q s)) t), snd (scan_sql (snd (scan_sql q s)) t))"
  by (induction q s rule: scan_sql.induct) auto

lemma scan_sql_plain:
  "CHR 0x27 \<notin> set s \<Longrightarrow> CHR '';'' \<notin> set s \<or> q \<Longrightarrow> scan_sql q s = (0, q)"
  by (induction s) auto

lemma scan_sql_to_string_size [simp]: "scan_sql q (to_string_size w) = (0, q)"
  by (rule scan_sql_plain) (auto simp: not_digit_notin_to_string_size)

lemma scan_generated_insert:
  assumes "CHR 0x27 \<notin> set (client_key d @ str_dt_time d @ table)" "CHR '';'' \<notin> set table"
  shows "scan_sql False (generate_insert_str_for_table d table) = (1, False)"
  using assms by (simp add: generate_insert_str_for_table_def scan_sql_append scan_sql_plain)

text \<open>
  When neither the client key nor the time holds a quote, the generated text is exactly one
  statement with balanced quotes, for every table name without a quote or semicolon.
\<close>

theorem insert_is_one_statement:
  assumes "CHR 0x27 \<notin> set (client_key d @ str_dt_time d @ table)" "CHR '';'' \<notin> set table"
  shows "statements (generate_insert_str_for_table d table) = 1
    \<and> snd (scan_sql False (generate_insert_str_for_table d table)) = False"
  using scan_generated_insert [OF assms] by (simp add: statements_def)

lemma values_of_generated_insert:
  assumes "CHR 0x27 \<notin> set (client_key d @ str_dt_time d)"
  shows "insert_values table (generate_insert_str_for_table d table) =
     Some (client_key d, unat (curr_memory_pct d), unat (curr_cpu_pct d),
           unat (curr_processes_cnt d), str_dt_time d)"
proof -
  have head: "generate_insert_str_for_table d table =
     (''INSERT INTO '' @ table @ '' (CLIENT_KEY, MEMORY_PCT, CPU_PCT, NO_PROCESSES, DT_TIME) VALUES ('')
     @ CHR 0x27 # client_key d @ CHR 0x27 # '', '' @ dec (unat (curr_memory_pct d)) @ '', ''
     @ dec (unat (curr_cpu_pct d)) @ '', '' @ dec (unat (curr_processes_cnt d)) @ '', ''
     @ CHR 0x27 # str_dt_time d @ CHR 0x27 # '');''"
    by (simp add: generate_insert_str_for_table_def to_string_size_def)
  show ?thesis
    using assms unfolding head insert_values_def expect_append by simp
qed

text \<open>
  C14. When neither the client key nor the time holds a quote, the values can be read back from
  the generated statement: the key, the three readings as numbers, and the time.
\<close>

theorem insert_values_roundtrip:
  assumes "CHR 0x27 \<notin> set (client_key d @ str_dt_time d)"
  shows "insert_values table (generate_insert_str_for_table d table) =
     Some (client_key d, unat (curr_memory_pct d), unat (curr_cpu_pct d),
           unat (curr_processes_cnt d), str_dt_time d)"
  using assms by (rule values_of_generated_insert)

text \<open>
  A time field that holds a quote escapes from its quotation: for any time \<open>t\<close> and any text
  \<open>attack\<close>, the field \<open>t'); attack; --\<close> makes the generated text start with the complete and
  correct insert for the time \<open>t\<close>, followed by \<open>attack\<close>.
\<close>

theorem insert_injection:
  "generate_insert_str_for (d\<lparr>str_dt_time := t @ [CHR 0x27] @ ''); '' @ attack @ ''; --''\<rparr>) =
     generate_insert_str_for (d\<lparr>str_dt_time := t\<rparr>) @ '' '' @ attack @ ''; --'' @ [CHR 0x27] @ '');''"
  by (simp add: generate_insert_str_for_def generate_insert_str_for_table_def)

text \<open>The statement for a line the program's own client generated is one statement.\<close>

lemma generated_insert_is_one_statement:
  assumes "CHR 0x27 \<notin> set (client_key d @ str_dt_time d)"
  shows "statements (generate_insert_str_for d) = 1"
  using scan_generated_insert [of d "''CLIENT_INFO''"] assms
  by (simp add: statements_def generate_insert_str_for_def)

lemma generated_insert_values:
  "CHR 0x27 \<notin> set (client_key d @ str_dt_time d) \<Longrightarrow>
     insert_values ''CLIENT_INFO'' (generate_insert_str_for d) =
       Some (client_key d, unat (curr_memory_pct d), unat (curr_cpu_pct d),
             unat (curr_processes_cnt d), str_dt_time d)"
  unfolding generate_insert_str_for_def by (rule values_of_generated_insert)

definition test_detail :: client_detail where
  "test_detail = \<lparr>client_key = ''xxx'', curr_memory_pct = 16, curr_cpu_pct = 88, curr_processes_cnt = 25,
     str_dt_time = ''Sat Nov 26 18:31:34 2016''\<rparr>"

text \<open>The statement the tests expect for the example line.\<close>

lemma generate_test_insert:
  "generate_insert_str_for test_detail =
     ''INSERT INTO CLIENT_INFO (CLIENT_KEY, MEMORY_PCT, CPU_PCT, NO_PROCESSES, DT_TIME) VALUES ('' @ [CHR 0x27]
     @ ''xxx'' @ [CHR 0x27] @ '', 16, 88, 25, '' @ [CHR 0x27] @ ''Sat Nov 26 18:31:34 2016'' @ [CHR 0x27] @ '');''"
  by (simp add: generate_insert_str_for_def generate_insert_str_for_table_def test_detail_def
      to_string_size_def dec.simps digit_def char_of_def bit_Suc_0_iff)

lemma insert_is_one_statement_witness:
  "statements (generate_insert_str_for_table test_detail ''CLIENT_INFO_TEST_DATA'') = 1"
  using insert_is_one_statement [of test_detail "''CLIENT_INFO_TEST_DATA''"] by (simp add: test_detail_def)

lemma insert_values_roundtrip_witness:
  "insert_values ''CLIENT_INFO'' (generate_insert_str_for_table test_detail ''CLIENT_INFO'') =
     Some (''xxx'', 16, 88, 25, ''Sat Nov 26 18:31:34 2016'')"
  using insert_values_roundtrip [of test_detail "''CLIENT_INFO''"] by (simp add: test_detail_def)

end
