(* ===== verification/Db_Adapter.thy ===== *)
theory Db_Adapter
  imports Sql
begin

text \<open>
  The database layer: the abstract class \<open>db_adapter\<close> (\<open>include/db_adapter.h\<close>) as a record of
  its virtual functions, and its only implementation \<open>pg_db_adapter\<close>
  (\<open>src/pg_db_adapter.cpp\<close>) over libpqxx, which is a parameter. The locale \<open>db_journal\<close> is
  the contract the server relies on; the PostgreSQL adapter satisfies it whenever libpqxx does
  what \<open>pqxx_session\<close> states.
\<close>

section \<open>The abstract class\<close>

text \<open>
  An object of a subclass has a state of type \<open>'d\<close>. \<open>execute\<close> returns nothing or throws, and
  in both cases may have changed the state.
\<close>

record 'd db_adapter =
  db_connect :: "'d \<Rightarrow> 'd"
  db_disconnect :: "'d \<Rightarrow> 'd"
  execute :: "string \<Rightarrow> 'd \<Rightarrow> cpp_exn option \<times> 'd"
  test_connection :: "'d \<Rightarrow> bool"

text \<open>
  The contract: a journal of the statement texts the database has executed, which grows by the
  text of every call that returns and does not change otherwise.
\<close>

locale db_journal =
  fixes db :: "'d db_adapter" and journal :: "'d \<Rightarrow> string list"
  assumes execute_returns: "execute db sql d = (None, d') \<Longrightarrow> journal d' = journal d @ [sql]"
    and execute_throws: "execute db sql d = (Some e, d') \<Longrightarrow> journal d' = journal d"
    and connect_journal: "journal (db_connect db d) = journal d"
    and disconnect_journal: "journal (db_disconnect db d) = journal d"
begin

lemma execute_journal:
  "journal (snd (execute db sql d)) =
     journal d @ (if fst (execute db sql d) = None then [sql] else [])"
  by (cases "execute db sql d"; cases "fst (execute db sql d)")
     (auto dest: execute_returns execute_throws)

end

section \<open>The PostgreSQL adapter\<close>

text \<open>
  libpqxx: the constructor of a connection, \<open>exec\<close> in a \<open>nontransaction\<close>, which gives the rows
  of the result, and \<open>disconnect\<close>.
\<close>

record 'c pqxx_api =
  px_connection :: "string \<Rightarrow> cpp_exn + 'c"
  px_exec :: "string \<Rightarrow> 'c \<Rightarrow> (cpp_exn + string list list) \<times> 'c"
  px_disconnect :: "'c \<Rightarrow> 'c"

record 'c pg_db_adapter =
  connection_string :: string
  pg_connection :: 'c

definition pg_construct ::
    "'c pqxx_api \<Rightarrow> string \<Rightarrow> console \<Rightarrow> ('c pg_db_adapter \<times> console) res" where
  "pg_construct px conn_string con =
     bindR (call (px_connection px conn_string)) (\<lambda>c.
       Inr (\<lparr>connection_string = conn_string, pg_connection = c\<rparr>,
            say ''pg_db_adapter constructed.'' con))"

definition pg_destroy :: "'c pqxx_api \<Rightarrow> 'c pg_db_adapter \<Rightarrow> console \<Rightarrow> 'c pg_db_adapter \<times> console" where
  "pg_destroy px this con =
     (this\<lparr>pg_connection := px_disconnect px (pg_connection this)\<rparr>,
      say ''pg_db_adapter destructor. Disconnecting.'' con)"

definition pg_connect :: "'c pg_db_adapter \<Rightarrow> 'c pg_db_adapter" where
  "pg_connect this = this"

definition pg_disconnect :: "'c pg_db_adapter \<Rightarrow> 'c pg_db_adapter" where
  "pg_disconnect this = this"

definition pg_test_connection :: "'c pg_db_adapter \<Rightarrow> bool" where
  "pg_test_connection this = True"

definition pg_query_returned_row ::
    "'c pqxx_api \<Rightarrow> string \<Rightarrow> 'c pg_db_adapter \<Rightarrow> (cpp_exn + bool) \<times> 'c pg_db_adapter" where
  "pg_query_returned_row px query this =
     (let (R, c) = px_exec px query (pg_connection this)
      in (map_sum (\<lambda>e. e) (\<lambda>rows. rows \<noteq> []) R, this\<lparr>pg_connection := c\<rparr>))"

definition pg_execute ::
    "'c pqxx_api \<Rightarrow> string \<Rightarrow> 'c pg_db_adapter \<Rightarrow> cpp_exn option \<times> 'c pg_db_adapter" where
  "pg_execute px query this =
     (let (R, c) = px_exec px query (pg_connection this)
      in (case R of Inl e \<Rightarrow> Some e | Inr rows \<Rightarrow> None, this\<lparr>pg_connection := c\<rparr>))"

text \<open>The virtual function table of \<open>pg_db_adapter\<close>; \<open>query_returned_row\<close> is not virtual.\<close>

definition pg_vtable :: "'c pqxx_api \<Rightarrow> 'c pg_db_adapter db_adapter" where
  "pg_vtable px =
     \<lparr>db_connect = pg_connect, db_disconnect = pg_disconnect, execute = pg_execute px,
      test_connection = pg_test_connection\<rparr>"

section \<open>The adapter satisfies the contract\<close>

text \<open>
  A \<open>nontransaction\<close> makes the effect of each executed text permanent at once, and a failed
  text has none.
\<close>

locale pqxx_session =
  fixes px :: "'c pqxx_api" and executed :: "'c \<Rightarrow> string list"
  assumes exec_returns: "px_exec px sql c = (Inr rows, c') \<Longrightarrow> executed c' = executed c @ [sql]"
    and exec_throws: "px_exec px sql c = (Inl e, c') \<Longrightarrow> executed c' = executed c"

sublocale pqxx_session \<subseteq> pg: db_journal "pg_vtable px" "\<lambda>this. executed (pg_connection this)"
proof
  fix sql d d' e
  show "execute (pg_vtable px) sql d = (None, d') \<Longrightarrow>
      executed (pg_connection d') = executed (pg_connection d) @ [sql]"
    by (cases "px_exec px sql (pg_connection d)")
       (auto simp: pg_vtable_def pg_execute_def split: sum.splits dest: exec_returns)
  show "execute (pg_vtable px) sql d = (Some e, d') \<Longrightarrow>
      executed (pg_connection d') = executed (pg_connection d)"
    by (cases "px_exec px sql (pg_connection d)")
       (auto simp: pg_vtable_def pg_execute_def split: sum.splits dest: exec_throws)
qed (simp_all add: pg_vtable_def pg_connect_def pg_disconnect_def)

context pqxx_session
begin

lemma adapter_is_journal: "db_journal (pg_vtable px) (\<lambda>this. executed (pg_connection this))"
  by (rule pg.db_journal_axioms)

lemmas adapter_execute = pg.execute_journal

end

text \<open>A connection that records what it executes and rejects some texts.\<close>

definition pqxx_ref :: "(string \<Rightarrow> bool) \<Rightarrow> string list pqxx_api" where
  "pqxx_ref accepts =
     \<lparr>px_connection = (\<lambda>s. Inr []),
      px_exec = (\<lambda>sql c. if accepts sql then (Inr [], c @ [sql]) else (Inl (Exn ''syntax error''), c)),
      px_disconnect = (\<lambda>c. c)\<rparr>"

interpretation recording: pqxx_session "pqxx_ref accepts" "\<lambda>c. c" for accepts
  by unfold_locales (auto simp: pqxx_ref_def split: if_splits)

text \<open>
  The PostgreSQL adapter keeps its contract: a call of \<open>execute\<close> through the base class
  adds the statement to what the connection has executed when it returns, leaves that unchanged
  when it throws, and the connection string never changes. \<open>connect\<close> and \<open>disconnect\<close> do
  nothing.
\<close>

theorem pg_execute_journal:
  assumes "pqxx_session px executed"
  shows "executed (pg_connection (snd (execute (pg_vtable px) sql d))) =
      executed (pg_connection d) @ (if fst (execute (pg_vtable px) sql d) = None then [sql] else [])
    \<and> connection_string (snd (execute (pg_vtable px) sql d)) = connection_string d
    \<and> db_connect (pg_vtable px) d = d \<and> db_disconnect (pg_vtable px) d = d"
proof -
  have "connection_string (snd (execute (pg_vtable px) sql d)) = connection_string d"
    by (simp add: pg_vtable_def pg_execute_def split_beta)
  then show ?thesis
    using pqxx_session.adapter_execute [OF assms, of sql d]
    by (simp add: pg_vtable_def pg_connect_def pg_disconnect_def)
qed

lemma pg_execute_journal_witness:
  "pg_connection (snd (execute (pg_vtable (pqxx_ref (\<lambda>_. True))) ''SELECT 1;''
     \<lparr>connection_string = [], pg_connection = []\<rparr>)) = [''SELECT 1;'']"
  using pg_execute_journal [OF recording.pqxx_session_axioms, of "\<lambda>_. True" "''SELECT 1;''"
      "\<lparr>connection_string = [], pg_connection = []\<rparr>"]
  by (simp add: pg_vtable_def pg_execute_def pqxx_ref_def)

end
