(* ===== verification/Session.thy ===== *)
theory Session
  imports Db_Adapter
begin

text \<open>
  One client connection on the server, \<open>sys_info_server_session\<close>
  (\<open>src/sys_info_server_session.cpp\<close>): a loop of asynchronous operations, in which a completed
  read is parsed, checked, stored and answered, and a completed write starts the next read.

  A session is alive while an asynchronous operation holds a shared pointer to it. The model
  records the operation that is outstanding; its completion handler is a function from the
  state to the next one. The handlers of all sessions run on one thread, so a handler is one
  step. The map of authorized clients and the database handle are shared by all sessions.
\<close>

section \<open>State\<close>

datatype pending = Nothing_pending | Read_pending | Write_pending string

record session =
  data_buf :: string
  pending :: pending

record 'd shared =
  authorized_clients :: client_map
  database :: 'd
  streams :: console

text \<open>The library functions a session depends on.\<close>

record 'd session_env =
  algo :: string_algo
  adapter :: "'d db_adapter"

type_synonym 'd conf = "session \<times> 'd shared"

definition max_length :: nat where
  "max_length = 1024"

text \<open>The three reply arrays, \<open>char [3]\<close> each.\<close>

definition READ_SUCCESS :: string where "READ_SUCCESS = [CHR ''0'', NUL, NUL]"
definition READ_FAILURE :: string where "READ_FAILURE = [CHR ''1'', NUL, NUL]"
definition NOT_AUTHORIZED :: string where "NOT_AUTHORIZED = [CHR ''2'', NUL, NUL]"

definition print :: "string \<Rightarrow> 'd shared \<Rightarrow> 'd shared" where
  "print l w = w\<lparr>streams := say l (streams w)\<rparr>"

definition print_error :: "string \<Rightarrow> 'd shared \<Rightarrow> 'd shared" where
  "print_error l w = w\<lparr>streams := complain l (streams w)\<rparr>"

lemma print_simps [simp]:
  "authorized_clients (print l w) = authorized_clients w" "database (print l w) = database w"
  "authorized_clients (print_error l w) = authorized_clients w"
  "database (print_error l w) = database w"
  by (simp_all add: print_def print_error_def)

section \<open>Operations\<close>

text \<open>The constructor leaves the buffer \<open>data_\<close> uninitialised: its contents are a parameter.\<close>

definition new_session :: "string \<Rightarrow> session" where
  "new_session garbage = \<lparr>data_buf = garbage, pending = Nothing_pending\<rparr>"

definition do_read :: "'d conf \<Rightarrow> 'd conf" where
  "do_read = (\<lambda>(s, w). (s\<lparr>pending := Read_pending\<rparr>, print ''sys_info_server_session::do_read()'' w))"

definition start :: "'d conf \<Rightarrow> 'd conf" where
  "start c = do_read c"

definition do_write :: "string \<Rightarrow> nat \<Rightarrow> 'd conf \<Rightarrow> 'd conf res" where
  "do_write data len = (\<lambda>(s, w).
     case c_string data of
       None \<Rightarrow> Inl (Undefined Buffer_overread)
     | Some t \<Rightarrow> Inr (s\<lparr>pending := Write_pending (take len data)\<rparr>, print (''Data : '' @ t) w))"

text \<open>
  \<open>std::async\<close> without a launch policy lets the implementation choose. When it starts a thread,
  the destructor of the discarded future waits for it, so the task is over when \<open>write_to_db\<close>
  returns. When it defers the task, nobody ever asks for the result and the task never runs.
\<close>

definition write_to_db_task :: "'d db_adapter \<Rightarrow> string \<Rightarrow> 'd shared \<Rightarrow> 'd shared" where
  "write_to_db_task db_handle insert_SQL w =
     (let (thrown, d) = execute db_handle insert_SQL (database w);
          w' = w\<lparr>database := d\<rparr>
      in case thrown of
           None \<Rightarrow> print ''Inserted into the database. '' w'
         | Some e \<Rightarrow> print_error (''Exception: '' @ what e) w')"

definition write_to_db :: "launch \<Rightarrow> 'd db_adapter \<Rightarrow> string \<Rightarrow> 'd shared \<Rightarrow> 'd shared" where
  "write_to_db policy db_handle insert_SQL w =
     (case policy of
        Launch_async \<Rightarrow> write_to_db_task db_handle insert_SQL w
      | Launch_deferred \<Rightarrow> w)"

definition send_email :: "'d shared \<Rightarrow> 'd shared" where
  "send_email w = print ''Sending email.'' w"

text \<open>The completion handler of \<open>async_read_some\<close>, given what arrived.\<close>

definition read_handler ::
    "'d session_env \<Rightarrow> launch \<Rightarrow> error_code option \<Rightarrow> string \<Rightarrow> 'd conf \<Rightarrow> 'd conf res" where
  "read_handler env policy ec chunk = (\<lambda>(s0, w0).
     let s = s0\<lparr>data_buf := chunk @ drop (length chunk) (data_buf s0), pending := Nothing_pending\<rparr>;
         len = length chunk;
         data_copy = take len (data_buf s);
         w1 = print (''sys_info_server_session::do_read(). length = '' @ dec len) w0
     in case ec of
          None \<Rightarrow>
            bindR (parse_to_client_detail (algo env) data_copy) (\<lambda>c_detail.
              let w2 = print (''data : '' @ data_copy) w1 in
              if \<not> is_client_authorized (authorized_clients w2) (client_key c_detail)
              then bindR (strlen NOT_AUTHORIZED) (\<lambda>n.
                     do_write NOT_AUTHORIZED n (s, print ''Client not authorized.'' w2))
              else
                let w3 = print ''Client authorized.'' w2;
                    w4 = write_to_db policy (adapter env) (generate_insert_str_for c_detail) w3;
                    (alert, clients) =
                      should_send_email (authorized_clients w4) (client_key c_detail) c_detail;
                    w5 = w4\<lparr>authorized_clients := clients\<rparr>;
                    w6 = (if alert then send_email w5 else w5)
                in bindR (strlen READ_SUCCESS) (\<lambda>n.
                     do_write READ_SUCCESS n (s, print ''do write.'' w6)))
        | Some e \<Rightarrow>
            bindR (strlen READ_FAILURE) (\<lambda>n.
              do_write READ_FAILURE n
                (s, print_error (show_error e) (print_error ''Error in sys_info_server.'' w1))))"

text \<open>The completion handler of \<open>async_write\<close>; \<open>len\<close> is the captured length.\<close>

definition write_handler :: "error_code option \<Rightarrow> nat \<Rightarrow> 'd conf \<Rightarrow> 'd conf" where
  "write_handler ec len = (\<lambda>(s0, w0).
     let s = s0\<lparr>pending := Nothing_pending\<rparr>;
         w1 = print (''sys_info_server_session::do_write(). length = '' @ dec len) w0
     in case ec of
          None \<Rightarrow> do_read (s, w1)
        | Some e \<Rightarrow> (s, print_error (show_error e) (print_error ''Error in sys_info_server.'' w1)))"

section \<open>Steps\<close>

text \<open>
  The completions a session can meet. A read delivers at most \<open>max_length\<close> characters; a
  completed write carries the text it wrote. \<open>Read_done\<close> also fixes the choice of
  \<open>std::async\<close>.
\<close>

datatype session_event =
    Read_done launch "error_code option" string
  | Write_done "error_code option" string

inductive session_step :: "'d session_env \<Rightarrow> 'd conf \<Rightarrow> session_event \<Rightarrow> 'd conf \<Rightarrow> bool" for env where
  read_done: "pending s = Read_pending \<Longrightarrow> length chunk \<le> max_length
     \<Longrightarrow> read_handler env policy ec chunk (s, w) = Inr c
     \<Longrightarrow> session_step env (s, w) (Read_done policy ec chunk) c"
| write_done: "pending s = Write_pending t
     \<Longrightarrow> session_step env (s, w) (Write_done ec t) (write_handler ec (length t) (s, w))"

inductive_cases session_step_readE: "session_step env (s, w) (Read_done policy ec chunk) c"
inductive_cases session_step_writeE: "session_step env (s, w) (Write_done ec t) c"

inductive session_runs :: "'d session_env \<Rightarrow> 'd conf \<Rightarrow> session_event list \<Rightarrow> 'd conf \<Rightarrow> bool" for env where
  runs_Nil: "session_runs env c [] c"
| runs_Cons: "session_step env c e c' \<Longrightarrow> session_runs env c' es c'' \<Longrightarrow> session_runs env c (e # es) c''"

inductive_simps session_runs_Nil [simp]: "session_runs env c [] c'"
inductive_simps session_runs_Cons: "session_runs env c (e # es) c'"

section \<open>What a handler does\<close>

lemma strlen_replies [simp]:
  "strlen READ_SUCCESS = Inr (Suc 0)" "strlen READ_FAILURE = Inr (Suc 0)"
  "strlen NOT_AUTHORIZED = Inr (Suc 0)"
  by (simp_all add: strlen_def READ_SUCCESS_def READ_FAILURE_def NOT_AUTHORIZED_def)

lemma do_write_replies [simp]:
  "do_write READ_SUCCESS (Suc 0) (s, w) = Inr (s\<lparr>pending := Write_pending ''0''\<rparr>, print ''Data : 0'' w)"
  "do_write READ_FAILURE (Suc 0) (s, w) = Inr (s\<lparr>pending := Write_pending ''1''\<rparr>, print ''Data : 1'' w)"
  "do_write NOT_AUTHORIZED (Suc 0) (s, w) = Inr (s\<lparr>pending := Write_pending ''2''\<rparr>, print ''Data : 2'' w)"
  by (simp_all add: do_write_def READ_SUCCESS_def READ_FAILURE_def NOT_AUTHORIZED_def)

lemma write_to_db_clients [simp]:
  "authorized_clients (write_to_db policy db sql w) = authorized_clients w"
  by (simp add: write_to_db_def write_to_db_task_def split_beta Let_def
      split: launch.splits option.splits)

lemma write_to_db_database:
  "database (write_to_db policy db sql w) =
     (case policy of Launch_async \<Rightarrow> snd (execute db sql (database w)) | Launch_deferred \<Rightarrow> database w)"
  by (simp add: write_to_db_def write_to_db_task_def split_beta Let_def
      split: launch.splits option.splits)

lemma send_email_simps [simp]:
  "authorized_clients (send_email w) = authorized_clients w" "database (send_email w) = database w"
  by (simp_all add: send_email_def)

text \<open>The three outcomes of a completed read, as far as the state other than the output goes.\<close>

definition buffered :: "string \<Rightarrow> string \<Rightarrow> session \<Rightarrow> session" where
  "buffered chunk reply s = s\<lparr>data_buf := chunk @ drop (length chunk) (data_buf s), pending := Write_pending reply\<rparr>"

lemma pending_buffered [simp]: "pending (buffered chunk reply s) = Write_pending reply"
  by (simp add: buffered_def)

lemma read_handler_error:
  "\<exists>w'. read_handler env policy (Some e) chunk (s, w) = Inr (buffered chunk ''1'' s, w')
     \<and> authorized_clients w' = authorized_clients w \<and> database w' = database w"
  by (simp add: read_handler_def Let_def buffered_def)

lemma read_handler_undefined:
  assumes "parse_to_client_detail (algo env) chunk = Inl u"
  shows "read_handler env policy None chunk (s, w) = Inl u"
  using assms by (simp add: read_handler_def Let_def)

lemma read_handler_unauthorized:
  assumes "parse_to_client_detail (algo env) chunk = Inr d"
    and "\<not> is_client_authorized (authorized_clients w) (client_key d)"
  shows "\<exists>w'. read_handler env policy None chunk (s, w) = Inr (buffered chunk ''2'' s, w')
     \<and> authorized_clients w' = authorized_clients w \<and> database w' = database w"
  using assms by (simp add: read_handler_def Let_def buffered_def)

lemma map_index_authorized:
  "is_client_authorized m k \<Longrightarrow> snd (map_index m k) = m"
  by (auto simp: is_client_authorized_def map_index_def)

lemma should_send_email_authorized:
  "is_client_authorized m k \<Longrightarrow> snd (should_send_email m k d) = m"
  by (simp add: should_send_email_def split_beta map_index_authorized)

lemma read_handler_authorized:
  assumes "parse_to_client_detail (algo env) chunk = Inr d"
    and "is_client_authorized (authorized_clients w) (client_key d)"
  shows "\<exists>w'. read_handler env policy None chunk (s, w) = Inr (buffered chunk ''0'' s, w')
     \<and> authorized_clients w' = authorized_clients w
     \<and> database w' = database (write_to_db policy (adapter env) (generate_insert_str_for d) w)"
proof -
  have "snd (should_send_email (authorized_clients w) (client_key d) d) = authorized_clients w"
    using assms(2) by (rule should_send_email_authorized)
  then show ?thesis
    using assms
    by (simp add: read_handler_def Let_def buffered_def split_beta write_to_db_database split: launch.splits)
qed

lemma write_handler_simps:
  "fst (write_handler None len (s, w)) = s\<lparr>pending := Read_pending\<rparr>"
  "fst (write_handler (Some e) len (s, w)) = s\<lparr>pending := Nothing_pending\<rparr>"
  "authorized_clients (snd (write_handler ec len (s, w))) = authorized_clients w"
  "database (snd (write_handler ec len (s, w))) = database w"
  by (simp_all add: write_handler_def do_read_def Let_def split: option.splits)

section \<open>Correctness of a session\<close>

definition reply_to :: "'d session_env \<Rightarrow> client_map \<Rightarrow> error_code option \<Rightarrow> string \<Rightarrow> string res" where
  "reply_to env clients ec chunk =
     (case ec of
        Some e \<Rightarrow> Inr ''1''
      | None \<Rightarrow> bindR (parse_to_client_detail (algo env) chunk) (\<lambda>d.
                 Inr (if is_client_authorized clients (client_key d) then ''0'' else ''2'')))"

lemma read_handler_reply:
  "(case reply_to env (authorized_clients w) ec chunk of
      Inl u \<Rightarrow> read_handler env policy ec chunk (s, w) = Inl u
    | Inr r \<Rightarrow> \<exists>w'. read_handler env policy ec chunk (s, w) = Inr (buffered chunk r s, w'))"
proof (cases ec)
  case (Some e)
  then show ?thesis using read_handler_error [of env policy e chunk s w] by (auto simp: reply_to_def)
next
  case None
  show ?thesis
  proof (cases "parse_to_client_detail (algo env) chunk")
    case (Inr d)
    then show ?thesis
      using None read_handler_authorized [OF Inr, of w policy s]
        read_handler_unauthorized [OF Inr, of w policy s]
      by (auto simp: reply_to_def)
  qed (simp add: None reply_to_def read_handler_undefined)
qed

text \<open>
  C5. A completed read is answered by exactly one character: 1 when the read failed, and
  otherwise 0 or 2 according to whether the key that was parsed is in the map of authorized
  clients; the new state waits for that answer to be written. The only other outcome is that the
  characters have no defined reading.
\<close>

theorem read_answer:
  "(\<exists>s' w' r. read_handler env policy ec chunk (s, w) = Inr (s', w')
      \<and> reply_to env (authorized_clients w) ec chunk = Inr r
      \<and> pending s' = Write_pending r \<and> length r = 1)
   \<or> (ec = None \<and> (\<exists>u. parse_to_client_detail (algo env) chunk = Inl u
        \<and> read_handler env policy ec chunk (s, w) = Inl u))"
proof (cases "reply_to env (authorized_clients w) ec chunk")
  case (Inl u)
  then have "ec = None" "parse_to_client_detail (algo env) chunk = Inl u"
    by (auto simp: reply_to_def bindR_eq_Inl split: option.splits)
  then show ?thesis by (simp add: read_handler_undefined)
next
  case (Inr r)
  then have "length r = 1" by (auto simp: reply_to_def bindR_eq_Inr split: option.splits)
  moreover obtain w' where "read_handler env policy ec chunk (s, w) = Inr (buffered chunk r s, w')"
    using read_handler_reply [of env policy ec chunk s w] Inr by auto
  ultimately show ?thesis using Inr by auto
qed

text \<open>
  A client whose key is not authorized changes nothing on the server: neither the database
  nor the map of authorized clients, under either choice of \<open>std::async\<close>; it is answered 2.
\<close>

lemma unauthorized_has_no_effect:
  assumes "parse_to_client_detail (algo env) chunk = Inr d"
    and "\<not> is_client_authorized (authorized_clients w) (client_key d)"
    and "read_handler env policy None chunk (s, w) = Inr (s', w')"
  shows "pending s' = Write_pending ''2'' \<and> database w' = database w
    \<and> authorized_clients w' = authorized_clients w"
  using read_handler_unauthorized [OF assms(1,2), of policy s] assms(3) by auto

text \<open>
  C6. An authorized client's record is stored before it is answered: when \<open>std::async\<close> runs the
  task and the database accepts the statement, the journal has grown by exactly the insert for
  the record when the answer 0 is prepared. When the database throws, the journal is unchanged,
  and the client is still answered 0.
\<close>

theorem authorized_is_stored:
  assumes "db_journal (adapter env) journal"
    and "parse_to_client_detail (algo env) chunk = Inr d"
    and "is_client_authorized (authorized_clients w) (client_key d)"
  shows "\<exists>s' w'. read_handler env Launch_async None chunk (s, w) = Inr (s', w')
    \<and> pending s' = Write_pending ''0''
    \<and> journal (database w') = journal (database w)
        @ (if fst (execute (adapter env) (generate_insert_str_for d) (database w)) = None
           then [generate_insert_str_for d] else [])"
proof -
  obtain w' where "read_handler env Launch_async None chunk (s, w) = Inr (buffered chunk ''0'' s, w')"
    "database w' = snd (execute (adapter env) (generate_insert_str_for d) (database w))"
    using read_handler_authorized [OF assms(2,3), of Launch_async s] by (auto simp: write_to_db_database)
  then show ?thesis by (simp add: db_journal.execute_journal [OF assms(1)])
qed

text \<open>
  When \<open>std::async\<close> defers the task, an authorized client is answered 0 and its record is
  dropped: the database is not touched.
\<close>

lemma deferred_insert_is_lost:
  assumes "parse_to_client_detail (algo env) chunk = Inr d"
    and "is_client_authorized (authorized_clients w) (client_key d)"
  shows "\<exists>s' w'. read_handler env Launch_deferred None chunk (s, w) = Inr (s', w')
    \<and> pending s' = Write_pending ''0'' \<and> database w' = database w"
  using read_handler_authorized [OF assms, of Launch_deferred s] by (auto simp: write_to_db_database)

text \<open>
  C16. Any peer can drive the server into undefined behaviour: a successful read of characters
  with fewer than four bars does so whatever the configuration, since parsing comes before the
  authorization check.
\<close>

theorem malformed_read_undefined:
  assumes "string_algorithms (algo env)" "count_list chunk CHR ''|'' < 4"
  shows "\<exists>u. read_handler env policy None chunk (s, w) = Inl (Undefined u)"
  using string_algorithms.parse_too_few [OF assms] read_handler_undefined [of env chunk]
  by (metis)

text \<open>
  What is left in the receive buffer from earlier reads never matters: two sessions with
  different buffers treat the same characters alike.
\<close>

theorem stale_buffer_is_ignored:
  "map_sum (\<lambda>u. u) (\<lambda>(s', w'). (pending s', w')) (read_handler env policy ec chunk (s, w)) =
   map_sum (\<lambda>u. u) (\<lambda>(s', w'). (pending s', w'))
     (read_handler env policy ec chunk (s\<lparr>data_buf := other\<rparr>, w))"
  by (cases "parse_to_client_detail (algo env) chunk")
     (simp_all add: read_handler_def Let_def split_beta split: option.splits)

section \<open>Runs of a session\<close>

definition is_read :: "session_event \<Rightarrow> bool" where
  "is_read e = (case e of Read_done _ _ _ \<Rightarrow> True | Write_done _ _ \<Rightarrow> False)"

definition unanswered :: "session \<Rightarrow> nat" where
  "unanswered s = (case pending s of Write_pending t \<Rightarrow> 1 | _ \<Rightarrow> 0)"

definition sane :: "session \<Rightarrow> bool" where
  "sane s = (case pending s of Write_pending t \<Rightarrow> t \<in> {''0'', ''1'', ''2''} | _ \<Rightarrow> True)"

lemma session_step_read:
  assumes "session_step env (s, w) (Read_done policy ec chunk) (s', w')"
  shows "pending s = Read_pending" "\<exists>r. pending s' = Write_pending r \<and> r \<in> {''0'', ''1'', ''2''}"
proof -
  have h: "read_handler env policy ec chunk (s, w) = Inr (s', w')" and p: "pending s = Read_pending"
    using assms by (auto elim: session_step_readE)
  show "pending s = Read_pending" by (rule p)
  obtain r where r: "reply_to env (authorized_clients w) ec chunk = Inr r"
    using read_handler_reply [of env policy ec chunk s w] h by (auto split: sum.splits)
  then have "r \<in> {''0'', ''1'', ''2''}"
    by (auto simp: reply_to_def bindR_eq_Inr split: option.splits if_splits)
  then show "\<exists>r. pending s' = Write_pending r \<and> r \<in> {''0'', ''1'', ''2''}"
    using read_handler_reply [of env policy ec chunk s w] h r by auto
qed

lemma session_step_write:
  assumes "session_step env (s, w) (Write_done ec t) (s', w')"
  shows "pending s = Write_pending t"
    "pending s' = (if ec = None then Read_pending else Nothing_pending)"
    "database w' = database w"
proof -
  have h: "(s', w') = write_handler ec (length t) (s, w)" and p: "pending s = Write_pending t"
    using assms by (auto elim: session_step_writeE)
  show "pending s = Write_pending t" by (rule p)
  have "s' = fst (write_handler ec (length t) (s, w))" "w' = snd (write_handler ec (length t) (s, w))"
    using h by (metis fst_conv, metis snd_conv)
  then show "pending s' = (if ec = None then Read_pending else Nothing_pending)" "database w' = database w"
    by (cases ec; simp add: write_handler_simps)+
qed

lemma session_step_account:
  assumes "session_step env (s, w) e (s', w')"
  shows "(if is_read e then 1 else 0) + unanswered s = (if is_read e then 0 else 1) + unanswered s' \<and> sane s'"
proof (cases e)
  case (Read_done policy ec chunk)
  with assms show ?thesis
    using session_step_read [of env s w policy ec chunk s' w'] by (auto simp: is_read_def unanswered_def sane_def)
next
  case (Write_done ec t)
  with assms show ?thesis
    using session_step_write [of env s w ec t s' w'] by (auto simp: is_read_def unanswered_def sane_def)
qed

text \<open>
  C8. In every run of a session, requests and answers alternate: the completed reads and the
  completed writes differ by the one answer that may still be under way, and what is under way is
  always 0, 1 or 2.
\<close>

theorem requests_and_answers_alternate:
  assumes "session_runs env (s, w) es (s', w')" "pending s = Read_pending"
  shows "length (filter is_read es) = length (filter (\<lambda>e. \<not> is_read e) es) + unanswered s' \<and> sane s'"
proof -
  have "length (filter is_read es) + unanswered (fst c)
      = length (filter (\<lambda>e. \<not> is_read e) es) + unanswered (fst c') \<and> sane (fst c')"
    if "session_runs env c es c'" "sane (fst c)" for c c'
    using that
  proof (induction rule: session_runs.induct)
    case (runs_Cons c e c' es c'')
    obtain s w s' w' where cs: "c = (s, w)" "c' = (s', w')" by (cases c, cases c')
    with runs_Cons show ?case using session_step_account [of env s w e s' w'] by auto
  qed simp
  from this [OF assms(1)] show ?thesis using assms(2) by (simp add: sane_def unanswered_def)
qed

text \<open>
  A peer that stops sending but keeps its receiving side open makes the session spin: for
  every \<open>n\<close> there is a run in which \<open>n\<close> reads fail with an end of file, each is answered 1, and
  the session is reading again, having stored nothing.
\<close>

theorem end_of_file_spins:
  assumes "pending s = Read_pending"
  shows "\<exists>s' w'. session_runs env (s, w)
      (concat (replicate n [Read_done policy (Some eof) [], Write_done None ''1''])) (s', w')
    \<and> pending s' = Read_pending \<and> database w' = database w"
  using assms
proof (induction n arbitrary: s w)
  case 0
  then show ?case by auto
next
  case (Suc n)
  obtain w1 where r: "read_handler env policy (Some eof) [] (s, w) = Inr (buffered [] ''1'' s, w1)"
    "database w1 = database w" using read_handler_error [of env policy eof "[]" s w] by auto
  let ?c2 = "write_handler None (length ''1'') (buffered [] ''1'' s, w1)"
  have "pending (fst ?c2) = Read_pending" "database (snd ?c2) = database w"
    by (simp_all add: write_handler_simps r(2))
  then obtain s' w' where rest: "session_runs env ?c2
      (concat (replicate n [Read_done policy (Some eof) [], Write_done None ''1''])) (s', w')"
    "pending s' = Read_pending" "database w' = database w"
    using Suc.IH [of "fst ?c2" "snd ?c2"] by auto
  have "session_step env (s, w) (Read_done policy (Some eof) []) (buffered [] ''1'' s, w1)"
    using Suc.prems r(1) by (intro read_done) (auto simp: max_length_def)
  moreover have "session_step env (buffered [] ''1'' s, w1) (Write_done None ''1'') ?c2"
    by (rule write_done) simp
  ultimately have "session_runs env (s, w)
      (concat (replicate (Suc n) [Read_done policy (Some eof) [], Write_done None ''1''])) (s', w')"
    using rest(1) by (auto intro: runs_Cons)
  with rest(2,3) show ?case by blast
qed

section \<open>Instances\<close>

definition env_ref :: "string list pg_db_adapter session_env" where
  "env_ref = \<lparr>algo = boost_ref, adapter = pg_vtable (pqxx_ref (\<lambda>_. True))\<rparr>"

definition shared_ref :: "string list pg_db_adapter shared" where
  "shared_ref = \<lparr>authorized_clients = test_clients,
     database = \<lparr>connection_string = [], pg_connection = []\<rparr>, streams = silent\<rparr>"

definition reading :: session where
  "reading = \<lparr>data_buf = [], pending = Read_pending\<rparr>"

definition eof_ref :: error_code where
  "eof_ref = \<lparr>category_name = ''asio.misc'', ec_value = 2\<rparr>"

lemma env_ref_simps [simp]: "algo env_ref = boost_ref" "adapter env_ref = pg_vtable (pqxx_ref (\<lambda>_. True))"
  by (simp_all add: env_ref_def)

lemma authorized_test_clients:
  "is_client_authorized (authorized_clients shared_ref) ''jill''"
  "\<not> is_client_authorized (authorized_clients shared_ref) ''xxx''"
  by (simp_all add: is_client_authorized_def shared_ref_def test_clients_simps)

lemma parse_example:
  assumes "CHR ''|'' \<notin> set key"
  shows "parse_to_client_detail (algo env_ref) (line_of key 44 89 11 ''now'') = Inr (detail_of key 44 89 11 ''now'')"
  using boost.parse_line [of key "''now''" 44 89 11] assms by simp

lemma unauthorized_has_no_effect_example:
  "\<exists>s' w'. read_handler env_ref Launch_async None (line_of ''xxx'' 44 89 11 ''now'') (reading, shared_ref) = Inr (s', w')
     \<and> pending s' = Write_pending ''2'' \<and> database w' = database shared_ref"
proof -
  have p: "parse_to_client_detail (algo env_ref) (line_of ''xxx'' 44 89 11 ''now'') = Inr (detail_of ''xxx'' 44 89 11 ''now'')"
    by (rule parse_example) simp
  have a: "\<not> is_client_authorized (authorized_clients shared_ref) (client_key (detail_of ''xxx'' 44 89 11 ''now''))"
    using authorized_test_clients by (simp add: detail_of_def)
  obtain s' w' where "read_handler env_ref Launch_async None (line_of ''xxx'' 44 89 11 ''now'') (reading, shared_ref) = Inr (s', w')"
    using read_handler_unauthorized [OF p a] by blast
  with unauthorized_has_no_effect [OF p a this] show ?thesis by blast
qed

lemma authorized_is_stored_witness:
  "\<exists>s' w'. read_handler env_ref Launch_async None (line_of ''jill'' 44 89 11 ''now'') (reading, shared_ref) = Inr (s', w')
     \<and> pg_connection (database w') = [generate_insert_str_for (detail_of ''jill'' 44 89 11 ''now'')]"
proof -
  have p: "parse_to_client_detail (algo env_ref) (line_of ''jill'' 44 89 11 ''now'') = Inr (detail_of ''jill'' 44 89 11 ''now'')"
    by (rule parse_example) simp
  have a: "is_client_authorized (authorized_clients shared_ref) (client_key (detail_of ''jill'' 44 89 11 ''now''))"
    using authorized_test_clients by (simp add: detail_of_def)
  have j: "db_journal (adapter env_ref) pg_connection"
    using recording.adapter_is_journal by simp
  show ?thesis
    using authorized_is_stored [OF j p a, of reading]
    by (auto simp: shared_ref_def pg_vtable_def pg_execute_def pqxx_ref_def)
qed

lemma deferred_insert_is_lost_example:
  "\<exists>s' w'. read_handler env_ref Launch_deferred None (line_of ''jill'' 44 89 11 ''now'') (reading, shared_ref) = Inr (s', w')
     \<and> pending s' = Write_pending ''0'' \<and> pg_connection (database w') = []"
proof -
  have p: "parse_to_client_detail (algo env_ref) (line_of ''jill'' 44 89 11 ''now'') = Inr (detail_of ''jill'' 44 89 11 ''now'')"
    by (rule parse_example) simp
  have a: "is_client_authorized (authorized_clients shared_ref) (client_key (detail_of ''jill'' 44 89 11 ''now''))"
    using authorized_test_clients by (simp add: detail_of_def)
  show ?thesis using deferred_insert_is_lost [OF p a, of reading] by (auto simp: shared_ref_def)
qed

lemma malformed_read_undefined_witness:
  "\<exists>u. read_handler env_ref Launch_async None ''hello'' (reading, shared_ref) = Inl (Undefined u)"
  using malformed_read_undefined [of env_ref "''hello''"] boost.string_algorithms_axioms by simp

lemma end_of_file_spins_witness:
  "\<exists>s' w'. session_runs env_ref (reading, shared_ref)
      (concat (replicate 3 [Read_done Launch_async (Some eof_ref) [],
         Write_done None ''1''])) (s', w') \<and> pending s' = Read_pending"
  using end_of_file_spins [of reading env_ref shared_ref 3 Launch_async eof_ref]
  by (auto simp: reading_def)

lemma requests_and_answers_alternate_witness:
  "\<exists>s' w'. session_runs env_ref (reading, shared_ref) [Read_done Launch_async (Some eof_ref) []] (s', w')
    \<and> unanswered s' = 1"
proof -
  obtain w1 where r: "read_handler env_ref Launch_async (Some eof_ref) [] (reading, shared_ref) =
      Inr (buffered [] ''1'' reading, w1)"
    using read_handler_error by blast
  have "session_step env_ref (reading, shared_ref) (Read_done Launch_async (Some eof_ref) []) (buffered [] ''1'' reading, w1)"
    by (rule read_done) (simp_all add: r reading_def [symmetric], simp_all add: reading_def max_length_def)
  then have run: "session_runs env_ref (reading, shared_ref) [Read_done Launch_async (Some eof_ref) []]
      (buffered [] ''1'' reading, w1)"
    by (auto intro: runs_Cons runs_Nil)
  then show ?thesis
    using requests_and_answers_alternate [OF run] by (auto simp: reading_def is_read_def)
qed

end
