(* ===== verification/Server.thy ===== *)
theory Server
  imports Session "HOL-Library.Sublist"
begin

text \<open>
  The server around the sessions: the accept loop of \<open>sys_info_server\<close>
  (\<open>src/sys_info_server.cpp\<close>). Its state is the shared part of the sessions, whether an
  \<open>async_accept\<close> is outstanding, and the sessions made so far. All completion handlers run on
  the one thread of the service, so they interleave but never overlap; a run of the server is a
  sequence of completions.
\<close>

section \<open>State and operations\<close>

record 'd sys_info_server =
  shared_state :: "'d shared"
  accept_pending :: bool
  sessions :: "session list"

definition do_accept :: "'d sys_info_server \<Rightarrow> 'd sys_info_server" where
  "do_accept S = S\<lparr>accept_pending := True\<rparr>"

text \<open>
  The constructor. The member \<open>acceptor_\<close> opens, binds and listens on the port, converted to
  \<open>unsigned short\<close> by the endpoint; \<open>listen\<close> says whether the system refuses.
\<close>

definition sys_info_server_construct ::
    "(port_num \<Rightarrow> cpp_exn option) \<Rightarrow> int \<Rightarrow> client_map \<Rightarrow> 'd \<Rightarrow> console \<Rightarrow> 'd sys_info_server res" where
  "sys_info_server_construct listen port clients db_handle con =
     (case listen (port_of_int port) of
        Some e \<Rightarrow> Inl (Throws e)
      | None \<Rightarrow> Inr (do_accept
          \<lparr>shared_state = \<lparr>authorized_clients = clients, database = db_handle, streams = con\<rparr>,
           accept_pending = False, sessions = []\<rparr>))"

text \<open>The completion handler of \<open>async_accept\<close>; \<open>garbage\<close> is the buffer of the new session.\<close>

definition accept_handler ::
    "error_code option \<Rightarrow> string \<Rightarrow> 'd sys_info_server \<Rightarrow> 'd sys_info_server" where
  "accept_handler ec garbage S0 =
     (let S = S0\<lparr>accept_pending := False\<rparr>
      in case ec of
           None \<Rightarrow>
             (let (s, w) = start (new_session garbage, shared_state S)
              in do_accept (S\<lparr>sessions := sessions S @ [s], shared_state := w\<rparr>))
         | Some e \<Rightarrow> do_accept (S\<lparr>shared_state := print_error (show_error e) (shared_state S)\<rparr>))"

datatype server_event =
    Accept_done "error_code option" string
  | Session_event nat session_event

inductive server_step ::
    "'d session_env \<Rightarrow> 'd sys_info_server \<Rightarrow> server_event \<Rightarrow> 'd sys_info_server \<Rightarrow> bool" for env where
  accept_done: "accept_pending S \<Longrightarrow> length garbage = max_length
     \<Longrightarrow> server_step env S (Accept_done ec garbage) (accept_handler ec garbage S)"
| session_event: "i < length (sessions S)
     \<Longrightarrow> session_step env (sessions S ! i, shared_state S) e (s', w')
     \<Longrightarrow> server_step env S (Session_event i e) (S\<lparr>sessions := (sessions S)[i := s'], shared_state := w'\<rparr>)"

inductive_cases server_step_acceptE: "server_step env S (Accept_done ec garbage) S'"
inductive_cases server_step_sessionE: "server_step env S (Session_event i e) S'"

inductive server_runs ::
    "'d session_env \<Rightarrow> 'd sys_info_server \<Rightarrow> server_event list \<Rightarrow> 'd sys_info_server \<Rightarrow> bool" for env where
  server_Nil: "server_runs env S [] S"
| server_Cons: "server_step env S e S' \<Longrightarrow> server_runs env S' es S'' \<Longrightarrow> server_runs env S (e # es) S''"

inductive_simps server_runs_Nil [simp]: "server_runs env S [] S'"
inductive_simps server_runs_Cons: "server_runs env S (e # es) S'"

lemma accept_handler_simps [simp]:
  "accept_pending (accept_handler ec g S)"
  "authorized_clients (shared_state (accept_handler ec g S)) = authorized_clients (shared_state S)"
  "database (shared_state (accept_handler ec g S)) = database (shared_state S)"
  "sessions (accept_handler (Some e) g S) = sessions S"
  "sessions (accept_handler None g S) = sessions S @ [\<lparr>data_buf = g, pending = Read_pending\<rparr>]"
  by (simp_all add: accept_handler_def do_accept_def start_def do_read_def new_session_def Let_def
      split: option.splits)

section \<open>Invariants of the server\<close>

text \<open>What one completed session event does to the shared state.\<close>

definition stored_by :: "'d session_env \<Rightarrow> client_map \<Rightarrow> session_event \<Rightarrow> string list" where
  "stored_by env clients e =
     (case e of
        Read_done Launch_async None chunk \<Rightarrow>
          (case parse_to_client_detail (algo env) chunk of
             Inr d \<Rightarrow> if is_client_authorized clients (client_key d) then [generate_insert_str_for d] else []
           | Inl u \<Rightarrow> [])
      | _ \<Rightarrow> [])"

lemma session_step_shared:
  assumes "session_step env (s, w) e (s', w')"
  shows "authorized_clients w' = authorized_clients w"
    and "database w' = (case stored_by env (authorized_clients w) e of
        [] \<Rightarrow> database w | sql # _ \<Rightarrow> snd (execute (adapter env) sql (database w)))"
proof -
  have "authorized_clients w' = authorized_clients w \<and>
      database w' = (case stored_by env (authorized_clients w) e of
        [] \<Rightarrow> database w | sql # _ \<Rightarrow> snd (execute (adapter env) sql (database w)))"
  proof (cases e)
    case (Write_done ec t)
    then have "(s', w') = write_handler ec (length t) (s, w)"
      using assms by (auto elim: session_step_writeE)
    then have "w' = snd (write_handler ec (length t) (s, w))" by (metis snd_conv)
    with Write_done show ?thesis by (simp add: stored_by_def write_handler_simps)
  next
    case (Read_done policy ec chunk)
    then have h: "read_handler env policy ec chunk (s, w) = Inr (s', w')"
      using assms by (auto elim: session_step_readE)
    show ?thesis
    proof (cases ec)
      case (Some e')
      then show ?thesis
        using h read_handler_error [of env policy e' chunk s w] Read_done
        by (cases policy) (auto simp: stored_by_def)
    next
      case None
      then obtain d where d: "parse_to_client_detail (algo env) chunk = Inr d"
        using h read_handler_undefined [of env chunk _ policy s w]
        by (cases "parse_to_client_detail (algo env) chunk") auto
      show ?thesis
        using h None Read_done d read_handler_authorized [OF d, of w policy s]
          read_handler_unauthorized [OF d, of w policy s]
        by (cases "is_client_authorized (authorized_clients w) (client_key d)"; cases policy)
           (auto simp: stored_by_def write_to_db_database)
    qed
  qed
  then show "authorized_clients w' = authorized_clients w"
    and "database w' = (case stored_by env (authorized_clients w) e of
        [] \<Rightarrow> database w | sql # _ \<Rightarrow> snd (execute (adapter env) sql (database w)))" by auto
qed

lemma server_step_clients:
  "server_step env S e S' \<Longrightarrow>
     authorized_clients (shared_state S') = authorized_clients (shared_state S)"
  by (induction rule: server_step.induct) (auto dest: session_step_shared)

text \<open>
  Nothing a client sends can change who is authorized: in every run of the server the map of
  authorized clients is the one the server was constructed with.
\<close>

theorem authorization_is_constant:
  assumes "server_runs env S es S'"
  shows "authorized_clients (shared_state S') = authorized_clients (shared_state S)"
  using assms by (induction rule: server_runs.induct) (auto dest: server_step_clients)

text \<open>The inserts a run asks the database for, in the order of the completed reads.\<close>

fun stored_by_run :: "'d session_env \<Rightarrow> client_map \<Rightarrow> server_event list \<Rightarrow> string list" where
  "stored_by_run env clients [] = []"
| "stored_by_run env clients (Accept_done ec g # es) = stored_by_run env clients es"
| "stored_by_run env clients (Session_event i e # es) =
     stored_by env clients e @ stored_by_run env clients es"

lemma stored_by_authorized:
  "sql \<in> set (stored_by env clients e) \<Longrightarrow>
     \<exists>d. sql = generate_insert_str_for d \<and> is_client_authorized clients (client_key d)"
  by (auto simp: stored_by_def split: session_event.splits launch.splits option.splits sum.splits if_splits)

lemma stored_by_run_authorized:
  "sql \<in> set (stored_by_run env clients es) \<Longrightarrow>
     \<exists>d. sql = generate_insert_str_for d \<and> is_client_authorized clients (client_key d)"
  by (induction env clients es rule: stored_by_run.induct) (auto dest: stored_by_authorized)

lemma stored_by_single: "stored_by env clients e = [] \<or> (\<exists>sql. stored_by env clients e = [sql])"
  by (auto simp: stored_by_def split: session_event.splits launch.splits option.splits sum.splits if_splits)

lemma set_subseq: "subseq xs ys \<Longrightarrow> set xs \<subseteq> set ys"
  by (induction rule: list_emb.induct) auto

context db_journal
begin

lemma server_journal_step:
  assumes "server_step env S e S'" "adapter env = db"
  shows "\<exists>new. journal (database (shared_state S')) = journal (database (shared_state S)) @ new
    \<and> subseq new (stored_by_run env (authorized_clients (shared_state S)) [e])
    \<and> ((\<forall>sql d. fst (execute db sql d) = None) \<longrightarrow>
        new = stored_by_run env (authorized_clients (shared_state S)) [e])"
  using assms(1)
proof (cases rule: server_step.cases)
  case (session_event i e' s' w')
  let ?clients = "authorized_clients (shared_state S)"
  have "database w' = (case stored_by env ?clients e' of
      [] \<Rightarrow> database (shared_state S) | sql # _ \<Rightarrow> snd (execute db sql (database (shared_state S))))"
    using session_step_shared(2) [OF session_event(4)] unfolding assms(2) .
  then show ?thesis
    using session_event stored_by_single [of env ?clients e'] by (auto simp: execute_journal)
qed auto

lemma server_journal_run:
  assumes "server_runs env S es S'" "adapter env = db"
  shows "\<exists>new. journal (database (shared_state S')) = journal (database (shared_state S)) @ new
    \<and> subseq new (stored_by_run env (authorized_clients (shared_state S)) es)
    \<and> ((\<forall>sql d. fst (execute db sql d) = None) \<longrightarrow>
        new = stored_by_run env (authorized_clients (shared_state S)) es)"
  using assms
proof (induction rule: server_runs.induct)
  case (server_Cons S e S' es S'')
  have split: "stored_by_run env c (e # es) = stored_by_run env c [e] @ stored_by_run env c es" for c
    by (cases e) auto
  from server_journal_step [OF server_Cons(1,4)] server_Cons.IH [OF server_Cons(4)] show ?case
    unfolding split server_step_clients [OF server_Cons(1)]
    by (metis append.assoc list_emb_append_mono)
qed simp

end

text \<open>
  C3. Only records of authorized clients reach the database: whatever a run of the server
  executes beyond what was there are inserts generated for records whose key is in the map the
  server was constructed with, no more than one for each completed read, in the order of the reads.
\<close>

theorem only_authorized_records_stored:
  assumes "db_journal (adapter env) journal" "server_runs env S es S'"
  shows "\<exists>new. journal (database (shared_state S')) = journal (database (shared_state S)) @ new
    \<and> subseq new (stored_by_run env (authorized_clients (shared_state S)) es)
    \<and> set new \<subseteq> {generate_insert_str_for d | d.
        is_client_authorized (authorized_clients (shared_state S)) (client_key d)}"
proof -
  obtain new where new: "journal (database (shared_state S')) = journal (database (shared_state S)) @ new"
    "subseq new (stored_by_run env (authorized_clients (shared_state S)) es)"
    using db_journal.server_journal_run [OF assms refl] by blast
  moreover have "set new \<subseteq> {generate_insert_str_for d | d.
        is_client_authorized (authorized_clients (shared_state S)) (client_key d)}"
    using set_subseq [OF new(2)] by (auto dest!: stored_by_run_authorized)
  ultimately show ?thesis by blast
qed

text \<open>
  C2. Refinement: with a database that never throws, a run of the server leaves in the journal
  exactly the inserts for the completed reads whose record parses and is authorized and whose
  task was not deferred, in order and with nothing lost or added.
\<close>

theorem journal_refines_reads:
  assumes "db_journal (adapter env) journal" "\<And>sql d. fst (execute (adapter env) sql d) = None"
    and "server_runs env S es S'"
  shows "journal (database (shared_state S')) =
     journal (database (shared_state S)) @ stored_by_run env (authorized_clients (shared_state S)) es"
  using db_journal.server_journal_run [OF assms(1,3) refl] assms(2) by blast

text \<open>
  C9. The server never stops listening: from its construction on, in every state of every run an
  accept is outstanding, whatever errors accepting meets, and no session is ever forgotten.
\<close>

theorem always_accepting:
  assumes "sys_info_server_construct listen port clients d con = Inr S" "server_runs env S es S'"
  shows "accept_pending S' \<and> length (sessions S') = length (filter (\<lambda>e. \<exists>g. e = Accept_done None g) es)"
proof -
  have step: "server_step env T e T' \<Longrightarrow> accept_pending T \<Longrightarrow> accept_pending T'
      \<and> length (sessions T') = length (sessions T) + (if \<exists>g. e = Accept_done None g then 1 else 0)"
    for T e T'
  proof (induction rule: server_step.induct)
    case (accept_done T garbage ec)
    then show ?case by (cases ec) auto
  qed simp
  have "accept_pending T' \<and> length (sessions T') =
      length (sessions T) + length (filter (\<lambda>e. \<exists>g. e = Accept_done None g) es)"
    if "server_runs env T es T'" "accept_pending T" for T T'
    using that
  proof (induction rule: server_runs.induct)
    case (server_Cons T e T1 es T')
    then show ?case using step [of T e T1] by auto
  qed simp
  moreover have "accept_pending S" "sessions S = []"
    using assms(1) by (auto simp: sys_info_server_construct_def do_accept_def split: option.splits)
  ultimately show ?thesis using assms(2) by simp
qed

section \<open>Each session of the server\<close>

fun events_of :: "nat \<Rightarrow> server_event list \<Rightarrow> session_event list" where
  "events_of i [] = []"
| "events_of i (Accept_done ec g # es) = events_of i es"
| "events_of i (Session_event j e # es) = (if i = j then e # events_of i es else events_of i es)"

lemma session_frame:
  assumes "server_step env S e S'" "j < length (sessions S)" "\<And>e'. e \<noteq> Session_event j e'"
  shows "j < length (sessions S') \<and> sessions S' ! j = sessions S ! j"
  using assms
proof (cases rule: server_step.cases)
  case (accept_done garbage ec)
  then show ?thesis using assms(2) by (cases ec) (auto simp: nth_append)
next
  case (session_event i e' s' w')
  then show ?thesis using assms(2,3) by (cases "i = j") auto
qed

text \<open>
  Sessions do not interfere: a completion of one session leaves the state of every other
  session as it was, and an accepted connection leaves all of them as they were.
\<close>

theorem sessions_are_independent:
  assumes "server_step env S e S'" "j < length (sessions S)" "\<And>e'. e \<noteq> Session_event j e'"
  shows "j < length (sessions S') \<and> sessions S' ! j = sessions S ! j"
  using assms by (rule session_frame)

text \<open>
  A session whose answer could not be written is over: no further completion of it can occur
  in any continuation.
\<close>

theorem finished_session_stays_finished:
  assumes "server_runs env S es S'" "i < length (sessions S)" "pending (sessions S ! i) = Nothing_pending"
  shows "events_of i es = [] \<and> pending (sessions S' ! i) = Nothing_pending"
  using assms
proof (induction rule: server_runs.induct)
  case (server_Cons S e S1 es S')
  have "\<not> session_step env (sessions S ! i, w) e' c" for w e' c
    using server_Cons.prems(2) by (auto elim: session_step.cases)
  then have e: "\<And>e'. e \<noteq> Session_event i e'"
    using server_Cons(1) by (auto elim!: server_step_sessionE)
  have "i < length (sessions S1) \<and> sessions S1 ! i = sessions S ! i"
    using server_Cons(1,4) e by (rule session_frame)
  with server_Cons e show ?case by (cases e) auto
qed simp

text \<open>
  An error of \<open>accept\<close> that persists is retried without end and without any pause: for every
  \<open>n\<close> the server can meet the error \<open>n\<close> times in a row, each time printing it and accepting again.
\<close>

theorem accept_error_is_retried:
  assumes "accept_pending S" "length garbage = max_length"
  shows "\<exists>S'. server_runs env S (replicate n (Accept_done (Some e) garbage)) S'
    \<and> accept_pending S' \<and> sessions S' = sessions S
    \<and> cerr (streams (shared_state S')) = cerr (streams (shared_state S)) @ replicate n (show_error e)"
  using assms(1)
proof (induction n arbitrary: S)
  case (Suc n)
  let ?T = "accept_handler (Some e) garbage S"
  have T: "accept_pending ?T" "sessions ?T = sessions S"
    "cerr (streams (shared_state ?T)) = cerr (streams (shared_state S)) @ [show_error e]"
    by (simp_all add: accept_handler_def do_accept_def print_error_def)
  obtain S' where "server_runs env ?T (replicate n (Accept_done (Some e) garbage)) S'"
    "accept_pending S'" "sessions S' = sessions ?T"
    "cerr (streams (shared_state S')) = cerr (streams (shared_state ?T)) @ replicate n (show_error e)"
    using Suc.IH [OF T(1)] by blast
  moreover have "server_step env S (Accept_done (Some e) garbage) ?T"
    using Suc.prems assms(2) by (rule accept_done)
  ultimately have "server_runs env S (replicate (Suc n) (Accept_done (Some e) garbage)) S'"
    by (auto intro: server_Cons)
  then show ?case using T \<open>accept_pending S'\<close> \<open>sessions S' = sessions ?T\<close>
    \<open>cerr (streams (shared_state S')) = _\<close> by auto
qed simp

section \<open>Instances\<close>

definition server_ref :: "string list pg_db_adapter sys_info_server" where
  "server_ref = do_accept \<lparr>shared_state = shared_ref, accept_pending = False, sessions = []\<rparr>"

definition garbage_ref :: string where
  "garbage_ref = replicate max_length NUL"

definition run_ref :: "server_event list" where
  "run_ref = [Accept_done None garbage_ref,
     Session_event 0 (Read_done Launch_async None (line_of ''jill'' 44 89 11 ''now''))]"

lemma server_ref_constructed:
  "sys_info_server_construct (\<lambda>_. None) 1335 test_clients \<lparr>connection_string = [], pg_connection = []\<rparr> silent
     = Inr server_ref"
  by (simp add: sys_info_server_construct_def server_ref_def shared_ref_def)

lemma server_ref_simps [simp]:
  "accept_pending server_ref" "sessions server_ref = []" "shared_state server_ref = shared_ref"
  by (simp_all add: server_ref_def do_accept_def)

lemma run_ref_exists: "\<exists>S'. server_runs env_ref server_ref run_ref S'"
proof -
  let ?line = "line_of ''jill'' 44 89 11 ''now''"
  let ?S1 = "accept_handler None garbage_ref server_ref"
  let ?s = "\<lparr>data_buf = garbage_ref, pending = Read_pending\<rparr>"
  have one: "server_step env_ref server_ref (Accept_done None garbage_ref) ?S1"
    by (rule accept_done) (simp_all add: garbage_ref_def)
  have p: "parse_to_client_detail (algo env_ref) ?line = Inr (detail_of ''jill'' 44 89 11 ''now'')"
    by (rule parse_example) simp
  have a: "is_client_authorized (authorized_clients (shared_state ?S1)) (client_key (detail_of ''jill'' 44 89 11 ''now''))"
    using authorized_test_clients by (simp add: detail_of_def)
  obtain w' where h: "read_handler env_ref Launch_async None ?line (?s, shared_state ?S1) = Inr (buffered ?line ''0'' ?s, w')"
    using read_handler_authorized [OF p a, of Launch_async ?s] by blast
  have "length ?line \<le> max_length"
    by (simp add: line_of_def dec.simps max_length_def)
  then have two: "session_step env_ref (sessions ?S1 ! 0, shared_state ?S1) (Read_done Launch_async None ?line)
      (buffered ?line ''0'' ?s, w')"
    using h by (auto intro!: read_done)
  have "server_step env_ref ?S1 (Session_event 0 (Read_done Launch_async None ?line))
      (?S1\<lparr>sessions := (sessions ?S1)[0 := buffered ?line ''0'' ?s], shared_state := w'\<rparr>)"
    by (rule session_event [OF _ two]) simp
  with one show ?thesis unfolding run_ref_def by (blast intro: server_Cons server_Nil)
qed

lemma env_ref_journal: "db_journal (adapter env_ref) pg_connection"
  using recording.adapter_is_journal by simp

lemma stored_by_run_ref:
  "stored_by_run env_ref (authorized_clients (shared_state server_ref)) run_ref =
     [generate_insert_str_for (detail_of ''jill'' 44 89 11 ''now'')]"
proof -
  have p: "parse_to_client_detail boost_ref (line_of ''jill'' 44 89 11 ''now'') = Inr (detail_of ''jill'' 44 89 11 ''now'')"
    using parse_example [of "''jill''"] by simp
  show ?thesis
    using authorized_test_clients by (simp add: run_ref_def stored_by_def p detail_of_def)
qed

lemma authorization_is_constant_witness:
  "\<exists>S'. server_runs env_ref server_ref run_ref S'
     \<and> authorized_clients (shared_state S') = test_clients"
  using run_ref_exists authorization_is_constant [of env_ref server_ref run_ref]
  by (metis server_ref_simps(3) shared_ref_def shared.select_convs(1))

lemma only_authorized_records_stored_witness:
  "\<exists>S' new. server_runs env_ref server_ref run_ref S' \<and> pg_connection (database (shared_state S')) = new
     \<and> subseq new [generate_insert_str_for (detail_of ''jill'' 44 89 11 ''now'')]"
proof -
  obtain S' where run: "server_runs env_ref server_ref run_ref S'" using run_ref_exists by blast
  from only_authorized_records_stored [OF env_ref_journal run] run show ?thesis
    unfolding stored_by_run_ref by (auto simp: shared_ref_def)
qed

lemma journal_refines_reads_witness:
  "\<exists>S'. server_runs env_ref server_ref run_ref S' \<and> pg_connection (database (shared_state S')) =
     [generate_insert_str_for (detail_of ''jill'' 44 89 11 ''now'')]"
proof -
  obtain S' where run: "server_runs env_ref server_ref run_ref S'" using run_ref_exists by blast
  have "fst (execute (adapter env_ref) sql d) = None" for sql d
    by (simp add: pg_vtable_def pg_execute_def pqxx_ref_def)
  from journal_refines_reads [OF env_ref_journal this run] run show ?thesis
    unfolding stored_by_run_ref by (auto simp: shared_ref_def)
qed

lemma always_accepting_witness:
  "\<exists>S'. server_runs env_ref server_ref run_ref S' \<and> accept_pending S' \<and> length (sessions S') = 1"
proof -
  obtain S' where run: "server_runs env_ref server_ref run_ref S'" using run_ref_exists by blast
  from always_accepting [OF server_ref_constructed run] run show ?thesis
    by (auto simp: run_ref_def)
qed

lemma sessions_are_independent_witness:
  "\<exists>S'. server_step env_ref (server_ref\<lparr>sessions := [reading]\<rparr>) (Accept_done None garbage_ref) S'
     \<and> sessions S' ! 0 = reading"
proof -
  have step: "server_step env_ref (server_ref\<lparr>sessions := [reading]\<rparr>) (Accept_done None garbage_ref)
      (accept_handler None garbage_ref (server_ref\<lparr>sessions := [reading]\<rparr>))"
    by (rule accept_done) (simp_all add: garbage_ref_def)
  from sessions_are_independent [OF step, of 0] step show ?thesis by auto
qed

lemma finished_session_stays_finished_witness:
  "\<exists>S'. server_runs env_ref (server_ref\<lparr>sessions := [new_session []]\<rparr>) [Accept_done None garbage_ref] S'
     \<and> pending (sessions S' ! 0) = Nothing_pending"
proof -
  have "server_step env_ref (server_ref\<lparr>sessions := [new_session []]\<rparr>) (Accept_done None garbage_ref)
      (accept_handler None garbage_ref (server_ref\<lparr>sessions := [new_session []]\<rparr>))"
    by (rule accept_done) (simp_all add: garbage_ref_def)
  then have run: "server_runs env_ref (server_ref\<lparr>sessions := [new_session []]\<rparr>) [Accept_done None garbage_ref]
      (accept_handler None garbage_ref (server_ref\<lparr>sessions := [new_session []]\<rparr>))"
    by (blast intro: server_Cons server_Nil)
  from finished_session_stays_finished [OF run, of 0] run show ?thesis by (auto simp: new_session_def)
qed

lemma accept_error_is_retried_witness:
  "\<exists>S'. server_runs env_ref server_ref (replicate 2 (Accept_done (Some eof_ref) garbage_ref)) S'
     \<and> accept_pending S'"
  using accept_error_is_retried [of server_ref garbage_ref env_ref 2 eof_ref] by (auto simp: garbage_ref_def)

end
