(* ===== verification/User_Input.thy ===== *)
theory User_Input
  imports Cpp_Runtime
begin

text \<open>
  The loop that waits for the user to type \<open>quit\<close>. The same function stands in
  \<open>src/server_service.cpp\<close> (a member of \<open>server_service\<close>) and in \<open>src/client_main.cpp\<close>.
  Standard input is the list of the lines still to come. When it is exhausted, \<open>std::getline\<close>
  fails at once and leaves the string empty, so the loop goes round for ever: \<open>None\<close>.
\<close>

fun getline :: "string list \<Rightarrow> string \<times> string list" where
  "getline [] = ([], [])"
| "getline (l # ls) = (l, ls)"

partial_function (option) wait_till_user_quits ::
    "string list \<Rightarrow> console \<Rightarrow> (string list \<times> console) option" where
  "wait_till_user_quits cin con =
     (let con' = say ''[enter <quit> anytime to stop server]'' con;
          (user_input, cin') = getline cin
      in if user_input \<noteq> ''quit'' then wait_till_user_quits cin' con' else Some (cin', con'))"

text \<open>The copy in the client.\<close>

partial_function (option) client_wait_till_user_quits ::
    "string list \<Rightarrow> console \<Rightarrow> (string list \<times> console) option" where
  "client_wait_till_user_quits cin con =
     (let con' = say ''[enter <quit> anytime to stop server]'' con;
          (user_input, cin') = getline cin
      in if user_input \<noteq> ''quit'' then client_wait_till_user_quits cin' con' else Some (cin', con'))"

lemma wait_simps:
  "wait_till_user_quits [] con = wait_till_user_quits [] (say ''[enter <quit> anytime to stop server]'' con)"
  "wait_till_user_quits (l # ls) con =
     (if l = ''quit'' then Some (ls, say ''[enter <quit> anytime to stop server]'' con)
      else wait_till_user_quits ls (say ''[enter <quit> anytime to stop server]'' con))"
  by (subst wait_till_user_quits.simps; simp add: Let_def)+

lemma wait_returns_only_on_quit:
  assumes "wait_till_user_quits cin con = Some r"
  shows "''quit'' \<in> set cin"
proof (rule wait_till_user_quits.raw_induct [where P = "\<lambda>cin con r. ''quit'' \<in> set cin", OF _ assms])
  fix f :: "string list \<Rightarrow> console \<Rightarrow> (string list \<times> console) option" and cin con r
  assume IH: "\<And>cin con r. f cin con = Some r \<Longrightarrow> ''quit'' \<in> set cin"
    and eq: "(let con' = say ''[enter <quit> anytime to stop server]'' con; (user_input, cin') = getline cin
        in if user_input \<noteq> ''quit'' then f cin' con' else Some (cin', con')) = Some r"
  show "''quit'' \<in> set cin"
  proof (cases cin)
    case Nil
    with eq have "f [] (say ''[enter <quit> anytime to stop server]'' con) = Some r" by (simp add: Let_def)
    from IH [OF this] show ?thesis by simp
  next
    case (Cons l ls)
    with eq IH show ?thesis by (cases "l = ''quit''") (auto simp: Let_def)
  qed
qed

definition prompts :: "nat \<Rightarrow> console \<Rightarrow> console" where
  "prompts n con = con\<lparr>cout := cout con @ replicate n ''[enter <quit> anytime to stop server]''\<rparr>"

lemma wait_until_quit:
  assumes "''quit'' \<notin> set before"
  shows "wait_till_user_quits (before @ ''quit'' # rest) con = Some (rest, prompts (Suc (length before)) con)"
  using assms
proof (induction before arbitrary: con)
  case Nil
  then show ?case by (simp add: wait_simps(2) prompts_def say_def)
next
  case (Cons l ls)
  then have "wait_till_user_quits ((l # ls) @ ''quit'' # rest) con =
      wait_till_user_quits (ls @ ''quit'' # rest) (say ''[enter <quit> anytime to stop server]'' con)"
    by (auto simp add: wait_simps(2) simp del: say_simps)
  also have "\<dots> = Some (rest, prompts (Suc (length (l # ls))) con)"
    using Cons by (simp add: prompts_def say_def)
  finally show ?case .
qed

text \<open>
  Waiting returns exactly when some line of the input is \<open>quit\<close>; it then has consumed the
  input up to the first such line and prompted once for each line read. On any other input,
  an exhausted one included, it does not return.
\<close>

lemma wait_returns_iff:
  "wait_till_user_quits cin con = Some (rest, con') \<longleftrightarrow>
     (\<exists>before. ''quit'' \<notin> set before \<and> cin = before @ ''quit'' # rest
        \<and> con' = prompts (Suc (length before)) con)"
proof
  assume w: "wait_till_user_quits cin con = Some (rest, con')"
  then have "''quit'' \<in> set cin" by (rule wait_returns_only_on_quit)
  then obtain before r where cin: "cin = before @ ''quit'' # r" "''quit'' \<notin> set before"
    by (meson split_list_first)
  with w show "\<exists>before. ''quit'' \<notin> set before \<and> cin = before @ ''quit'' # rest
        \<and> con' = prompts (Suc (length before)) con"
    using wait_until_quit [of before r con] by auto
next
  assume "\<exists>before. ''quit'' \<notin> set before \<and> cin = before @ ''quit'' # rest
        \<and> con' = prompts (Suc (length before)) con"
  then show "wait_till_user_quits cin con = Some (rest, con')"
    using wait_until_quit by auto
qed

lemma wait_hangs: "''quit'' \<notin> set cin \<Longrightarrow> wait_till_user_quits cin con = None"
  using wait_returns_only_on_quit by (cases "wait_till_user_quits cin con") auto

lemma wait_ends: "''quit'' \<in> set cin \<Longrightarrow> \<exists>rest con'. wait_till_user_quits cin con = Some (rest, con')"
  using wait_until_quit by (metis split_list_first)

text \<open>The two copies agree.\<close>

lemma client_wait_returns_only_on_quit:
  assumes "client_wait_till_user_quits cin con = Some r"
  shows "wait_till_user_quits cin con = Some r"
proof (rule client_wait_till_user_quits.raw_induct
    [where P = "\<lambda>cin con r. wait_till_user_quits cin con = Some r", OF _ assms])
  fix f :: "string list \<Rightarrow> console \<Rightarrow> (string list \<times> console) option" and cin con r
  assume IH: "\<And>cin con r. f cin con = Some r \<Longrightarrow> wait_till_user_quits cin con = Some r"
    and eq: "(let con' = say ''[enter <quit> anytime to stop server]'' con; (user_input, cin') = getline cin
        in if user_input \<noteq> ''quit'' then f cin' con' else Some (cin', con')) = Some r"
  show "wait_till_user_quits cin con = Some r"
    using eq IH by (subst wait_till_user_quits.simps) (auto simp: Let_def split_beta split: if_splits)
qed

lemma client_wait_until_quit:
  "''quit'' \<notin> set before \<Longrightarrow>
     client_wait_till_user_quits (before @ ''quit'' # rest) con = Some (rest, prompts (Suc (length before)) con)"
  by (induction before arbitrary: con)
     (subst client_wait_till_user_quits.simps, force simp: Let_def prompts_def say_def)+

lemma client_wait_eq: "client_wait_till_user_quits cin con = wait_till_user_quits cin con"
proof (cases "''quit'' \<in> set cin")
  case True
  then obtain before r where "cin = before @ ''quit'' # r" "''quit'' \<notin> set before"
    by (meson split_list_first)
  then show ?thesis by (simp add: wait_until_quit client_wait_until_quit)
next
  case False
  then have "wait_till_user_quits cin con = None" by (rule wait_hangs)
  then show ?thesis
    using client_wait_returns_only_on_quit [of cin con] by (cases "client_wait_till_user_quits cin con") auto
qed

end
