(* ===== verification/Service.thy ===== *)
theory Service
  imports Server User_Input
begin

text \<open>
  The life of the server process: \<open>server_service\<close> (\<open>src/server_service.cpp\<close>), which owns the
  thread that runs the handlers, and \<open>main\<close> (\<open>src/server_main.cpp\<close>). The service thread runs
  \<open>io_service.run ()\<close>; the member \<open>service_work\<close> keeps it from returning until \<open>stop\<close>. A
  handler can run only while the thread is running and the service is not stopped.
\<close>

section \<open>The service\<close>

datatype service_thread = No_thread | Running | Joined

record 'd server_service =
  io_stopped :: bool
  service_thread :: service_thread
  server :: "'d sys_info_server option"

definition server_service_construct :: "'d server_service" where
  "server_service_construct = \<lparr>io_stopped = False, service_thread = No_thread, server = None\<rparr>"

text \<open>Replacing a thread object that can still be joined calls \<open>std::terminate\<close>.\<close>

definition init_new_thread_for_service :: "'d server_service \<Rightarrow> 'd server_service res" where
  "init_new_thread_for_service this =
     (if service_thread this = Running then Inl Terminated else Inr (this\<lparr>service_thread := Running\<rparr>))"

definition service_start :: "'d server_service \<Rightarrow> 'd server_service res" where
  "service_start this = init_new_thread_for_service this"

definition service_stop :: "'d server_service \<Rightarrow> 'd server_service" where
  "service_stop this = this\<lparr>io_stopped := True\<rparr>"

definition start_server ::
    "(port_num \<Rightarrow> cpp_exn option) \<Rightarrow> int \<Rightarrow> client_map \<Rightarrow> 'd \<Rightarrow> console \<Rightarrow> 'd server_service
     \<Rightarrow> 'd server_service res" where
  "start_server listen port clients db_handle con this =
     bindR (sys_info_server_construct listen port clients db_handle con) (\<lambda>s.
       Inr (this\<lparr>server := Some s\<rparr>))"

text \<open>
  \<open>join\<close> through the thread pointer: undefined when there is no thread, an exception when it was
  joined before, and otherwise it waits for the end of \<open>run\<close>: for ever (\<open>None\<close>) while the
  service is not stopped.
\<close>

definition finish_work_before_quiting :: "'d server_service \<Rightarrow> 'd server_service res option" where
  "finish_work_before_quiting this =
     (case service_thread this of
        No_thread \<Rightarrow> Some (Inl (Undefined Null_deref))
      | Joined \<Rightarrow> Some (Inl (Throws (Exn ''Invalid argument'')))
      | Running \<Rightarrow> if io_stopped this then Some (Inr (this\<lparr>service_thread := Joined\<rparr>)) else None)"

inductive service_step ::
    "'d session_env \<Rightarrow> 'd server_service \<Rightarrow> server_event \<Rightarrow> 'd server_service \<Rightarrow> bool" for env where
  handler: "service_thread this = Running \<Longrightarrow> \<not> io_stopped this \<Longrightarrow> server this = Some S
     \<Longrightarrow> server_step env S e S' \<Longrightarrow> service_step env this e (this\<lparr>server := Some S'\<rparr>)"

inductive_cases service_stepE: "service_step env this e this'"

inductive service_runs ::
    "'d session_env \<Rightarrow> 'd server_service \<Rightarrow> server_event list \<Rightarrow> 'd server_service \<Rightarrow> bool" for env where
  service_Nil: "service_runs env this [] this"
| service_Cons: "service_step env this e this' \<Longrightarrow> service_runs env this' es this''
     \<Longrightarrow> service_runs env this (e # es) this''"

inductive_simps service_runs_Nil [simp]: "service_runs env this [] this'"

lemma service_run_is_server_run:
  assumes "service_runs env this es this'" "server this = Some S"
  shows "\<exists>S'. server this' = Some S' \<and> server_runs env S es S'
    \<and> service_thread this' = service_thread this \<and> io_stopped this' = io_stopped this"
  using assms
proof (induction arbitrary: S rule: service_runs.induct)
  case (service_Cons this e this1 es this')
  obtain S1 where S1: "this1 = this\<lparr>server := Some S1\<rparr>" "server_step env S e S1"
    using service_Cons(1,4) by (auto elim: service_stepE)
  then obtain S' where "server this' = Some S'" "server_runs env S1 es S'"
    "service_thread this' = service_thread this1" "io_stopped this' = io_stopped this1"
    using service_Cons.IH [of S1] by auto
  with S1 show ?case by (auto intro: server_Cons)
qed (auto intro: server_Nil)

text \<open>
  Once \<open>stop\<close> was called, no handler of any session runs any more: the only run of a stopped
  service is the empty one, so nothing is stored or answered after it.
\<close>

theorem stopped_service_is_quiet:
  assumes "service_runs env (service_stop this) es this'"
  shows "es = [] \<and> this' = service_stop this"
  using assms by cases (auto simp: service_stop_def elim: service_stepE)

section \<open>main\<close>

text \<open>What the process has come to when \<open>main\<close> starts to wait for the user.\<close>

datatype 'd startup = Ended process_end console | Serving "'d server_service" console

text \<open>The \<open>catch\<close> block, for a failure that reaches it.\<close>

definition caught :: "failure \<Rightarrow> console \<Rightarrow> 'd startup" where
  "caught f con =
     (case f of
        Throws e \<Rightarrow> Ended (Exit 1) (complain (''Exception: '' @ what e) con)
      | Undefined u \<Rightarrow> Ended (Undefined_behaviour u) con
      | Terminated \<Rightarrow> Ended Abort con)"

text \<open>
  An exception of \<open>start_server\<close> leaves the block in which \<open>s_service\<close> lives, with its thread
  running: the destructor of the thread calls \<open>std::terminate\<close> before any handler is entered.
\<close>

definition server_main_start ::
    "'pt ptree_api \<Rightarrow> 'c pqxx_api \<Rightarrow> (port_num \<Rightarrow> cpp_exn option) \<Rightarrow> string list \<Rightarrow> console
     \<Rightarrow> 'c pg_db_adapter startup" where
  "server_main_start api px listen argv con =
     (if length argv \<noteq> 4
      then Ended (Exit 1)
        (complain ''Error. Usage : sys_info_server <port> <server_config.xml> <db_settings.xml>'' con)
      else case atoi (argv ! 1) of
        Inl f \<Rightarrow> caught f con
      | Inr port \<Rightarrow>
          if port = 0 then Ended (Exit 1) (complain ''Error. Not a valid port.'' con)
          else case get_authorized_clients_and_details api (argv ! 2) of
            Inl f \<Rightarrow> caught f con
          | Inr clients \<Rightarrow>
              (case get_connection_string api (argv ! 3) of
                 Inl f \<Rightarrow> caught f con
               | Inr conn_string \<Rightarrow>
                   (case pg_construct px conn_string con of
                      Inl f \<Rightarrow> caught f con
                    | Inr (db_handle, con1) \<Rightarrow>
                        (case service_start server_service_construct of
                           Inl f \<Rightarrow> caught f con1
                         | Inr s_service \<Rightarrow>
                             (case start_server listen port clients db_handle con1 s_service of
                                Inl f \<Rightarrow> Ended (if service_thread s_service = Running then Abort else Exit 1) con1
                              | Inr s_service1 \<Rightarrow> Serving s_service1 con1)))))"

text \<open>
  After the user has typed \<open>quit\<close>: how the process ends, and the database adapter and the output
  it leaves when it gets as far as deleting the adapter.
\<close>

definition server_main_quit ::
    "'c pqxx_api \<Rightarrow> 'c pg_db_adapter server_service
     \<Rightarrow> (process_end \<times> ('c pg_db_adapter \<times> console) option) option" where
  "server_main_quit px s_service =
     (case finish_work_before_quiting (service_stop s_service) of
        None \<Rightarrow> None
      | Some (Inl (Throws e)) \<Rightarrow> Some (Exit 1, None)
      | Some (Inl (Undefined u)) \<Rightarrow> Some (Undefined_behaviour u, None)
      | Some (Inl Terminated) \<Rightarrow> Some (Abort, None)
      | Some (Inr s_service1) \<Rightarrow> Some (Exit 0,
          map_option (\<lambda>S. pg_destroy px (database (shared_state S)) (streams (shared_state S)))
            (server s_service1)))"

text \<open>The ways the process can end, given its arguments and its input.\<close>

inductive server_main ::
    "'pt ptree_api \<Rightarrow> 'c pqxx_api \<Rightarrow> (port_num \<Rightarrow> cpp_exn option) \<Rightarrow> string_algo \<Rightarrow> string list
     \<Rightarrow> string list \<Rightarrow> process_end \<Rightarrow> bool" for api px listen alg argv cin where
  main_ended: "server_main_start api px listen argv silent = Ended x con
     \<Longrightarrow> server_main api px listen alg argv cin x"
| main_quit: "server_main_start api px listen argv silent = Serving this con
     \<Longrightarrow> service_runs \<lparr>algo = alg, adapter = pg_vtable px\<rparr> this es this'
     \<Longrightarrow> wait_till_user_quits cin con = Some r \<Longrightarrow> server_main_quit px this' = Some (x, final)
     \<Longrightarrow> server_main api px listen alg argv cin x"
| main_crashed: "server_main_start api px listen argv silent = Serving this con
     \<Longrightarrow> service_runs \<lparr>algo = alg, adapter = pg_vtable px\<rparr> this es this'
     \<Longrightarrow> server this' = Some S \<Longrightarrow> i < length (sessions S) \<Longrightarrow> pending (sessions S ! i) = Read_pending
     \<Longrightarrow> length chunk \<le> max_length
     \<Longrightarrow> read_handler \<lparr>algo = alg, adapter = pg_vtable px\<rparr> policy None chunk (sessions S ! i, shared_state S)
          = Inl (Undefined u)
     \<Longrightarrow> server_main api px listen alg argv cin (Undefined_behaviour u)"

lemma serving_state:
  assumes "server_main_start api px listen argv con = Serving this con'"
  shows "service_thread this = Running" "\<not> io_stopped this"
    "\<exists>port clients conn_string c S. length argv = 4 \<and> atoi (argv ! 1) = Inr port \<and> port \<noteq> 0
      \<and> get_authorized_clients_and_details api (argv ! 2) = Inr clients
      \<and> get_connection_string api (argv ! 3) = Inr conn_string \<and> listen (port_of_int port) = None
      \<and> px_connection px conn_string = Inr c \<and> server this = Some S
      \<and> sys_info_server_construct listen port clients
            \<lparr>connection_string = conn_string, pg_connection = c\<rparr> con' = Inr S"
  using assms
  by (auto simp: server_main_start_def caught_def pg_construct_def service_start_def bindR_eq_Inr
      init_new_thread_for_service_def server_service_construct_def start_server_def
      sys_info_server_construct_def
      split: if_splits sum.splits failure.splits option.splits)

lemma quit_while_running:
  "service_thread this = Running \<Longrightarrow> server this = Some S \<Longrightarrow> server_main_quit px this = Some (Exit 0,
     Some (pg_destroy px (database (shared_state S)) (streams (shared_state S))))"
  by (simp add: server_main_quit_def finish_work_before_quiting_def service_stop_def)

text \<open>
  C21. The server process ends with status 0 only after a proper start and when the user typed
  \<open>quit\<close>: it was given three arguments, a port that \<open>atoi\<close> does not read as 0, files that load,
  a database that accepts the connection and a port the system lets it listen on.
\<close>

theorem server_exit_success:
  assumes "server_main api px listen alg argv cin (Exit 0)"
  shows "''quit'' \<in> set cin \<and> length argv = 4
    \<and> (\<exists>port clients conn_string c. atoi (argv ! 1) = Inr port \<and> port \<noteq> 0
        \<and> get_authorized_clients_and_details api (argv ! 2) = Inr clients
        \<and> get_connection_string api (argv ! 3) = Inr conn_string
        \<and> px_connection px conn_string = Inr c \<and> listen (port_of_int port) = None)"
  using assms
proof (cases rule: server_main.cases)
  case (main_ended con)
  then show ?thesis
    by (auto simp: server_main_start_def caught_def pg_construct_def service_start_def
        split: if_splits sum.splits failure.splits)
next
  case (main_quit this con es this' r final)
  then show ?thesis
    using serving_state(3) [OF main_quit(1)] wait_returns_only_on_quit [OF main_quit(3)] by blast
qed

text \<open>
  C22. A server that has started and whose user types \<open>quit\<close> can always end with status 0, whatever
  its clients have made it do meanwhile, as long as no handler has met undefined behaviour; the
  connection to the database is closed after the last handler, on the state that handler left.
\<close>

theorem server_quits_cleanly:
  assumes "server_main_start api px listen argv silent = Serving this con" "''quit'' \<in> set cin"
    and "service_runs \<lparr>algo = alg, adapter = pg_vtable px\<rparr> this es this'"
  shows "server_main api px listen alg argv cin (Exit 0)
    \<and> (\<exists>S. server this' = Some S \<and> server_main_quit px this' = Some (Exit 0,
         Some (pg_destroy px (database (shared_state S)) (streams (shared_state S)))))"
proof -
  obtain S0 where "server this = Some S0" using serving_state(3) [OF assms(1)] by blast
  then obtain S where "server this' = Some S" "service_thread this' = Running"
    using service_run_is_server_run [OF assms(3)] serving_state(1) [OF assms(1)] by auto
  then have q: "server_main_quit px this' = Some (Exit 0,
      Some (pg_destroy px (database (shared_state S)) (streams (shared_state S))))"
    by (rule quit_while_running [rotated])
  obtain r where "wait_till_user_quits cin con = Some r" using wait_ends [OF assms(2)] by blast
  from main_quit [OF assms(1,3) this q] q \<open>server this' = Some S\<close> show ?thesis by blast
qed

text \<open>
  A port the system refuses, one already in use for example, does not lead to the error
  message and the exit status 1 of the \<open>catch\<close> block: the process is terminated.
\<close>

lemma refused_port_aborts:
  assumes "length argv = 4" "atoi (argv ! 1) = Inr port" "port \<noteq> 0"
    and "get_authorized_clients_and_details api (argv ! 2) = Inr clients"
    and "get_connection_string api (argv ! 3) = Inr conn_string"
    and "px_connection px conn_string = Inr c" "listen (port_of_int port) = Some e"
  shows "server_main api px listen alg argv cin x \<longleftrightarrow> x = Abort"
proof -
  have s: "\<exists>con. server_main_start api px listen argv silent = Ended Abort con"
    using assms
    by (simp add: server_main_start_def pg_construct_def service_start_def init_new_thread_for_service_def
        server_service_construct_def start_server_def sys_info_server_construct_def)
  then show ?thesis by (auto simp: server_main.simps)
qed

text \<open>
  The check of the port lets every number pass that is not 0, while the endpoint keeps only
  its low 16 bits: a number and the same number plus 65536 ask for the same port, and 65536
  itself asks for port 0.
\<close>

theorem port_is_truncated:
  "port_of_int (p + 65536) = port_of_int p \<and> port_of_int 65536 = 0
   \<and> (0 \<le> p \<and> p < 65536 \<longrightarrow> uint (port_of_int p) = p)"
proof -
  have "uint (port_of_int p) = p" if "0 \<le> p" "p < 65536"
    using that by (simp add: port_of_int_def uint_word_of_int)
  moreover have "port_of_int (p + 65536) = port_of_int p"
    by (simp add: port_of_int_def word_eq_iff_unsigned unsigned_of_int take_bit_eq_mod)
  ultimately show ?thesis by (simp add: port_of_int_def)
qed

section \<open>Instances\<close>

definition argv_ref :: "string list" where
  "argv_ref = [''sys_info_server'', ''1335'', ''server_config.xml'', ''db_settings.xml'']"

lemma atoi_1335: "atoi ''1335'' = Inr 1335"
  by (simp add: atoi_def atoi_value_def is_space_def is_digit_def read_dec_def digit_val_def int_in_range_def)

lemma start_ref:
  "\<exists>this con. server_main_start (xml_ref test_files) (pqxx_ref (\<lambda>_. True)) (\<lambda>_. None) argv_ref silent = Serving this con"
  by (simp add: server_main_start_def argv_ref_def atoi_1335 test_clients_load test_connection_string
      pg_construct_def pqxx_ref_def service_start_def init_new_thread_for_service_def
      server_service_construct_def start_server_def sys_info_server_construct_def)

lemma stopped_service_is_quiet_witness:
  "service_runs env_ref (service_stop server_service_construct) [] (service_stop server_service_construct)
   \<and> ([] :: server_event list) = []"
  using stopped_service_is_quiet [OF service_Nil [of env_ref "service_stop server_service_construct"]]
  by simp

lemma server_quits_cleanly_witness:
  "server_main (xml_ref test_files) (pqxx_ref (\<lambda>_. True)) (\<lambda>_. None) boost_ref argv_ref [''quit''] (Exit 0)"
proof -
  obtain this con where s: "server_main_start (xml_ref test_files) (pqxx_ref (\<lambda>_. True)) (\<lambda>_. None) argv_ref silent
      = Serving this con" using start_ref by blast
  from server_quits_cleanly [OF s, of "[''quit'']", OF _ service_Nil] show ?thesis by simp
qed

lemma server_exit_success_witness:
  "server_main (xml_ref test_files) (pqxx_ref (\<lambda>_. True)) (\<lambda>_. None) boost_ref argv_ref [''quit''] (Exit 0)
   \<and> length argv_ref = 4"
proof -
  obtain this con where s: "server_main_start (xml_ref test_files) (pqxx_ref (\<lambda>_. True)) (\<lambda>_. None) argv_ref silent
      = Serving this con" using start_ref by blast
  obtain S where S: "server this = Some S" using serving_state(3) [OF s] by blast
  obtain r where "wait_till_user_quits [''quit''] con = Some r" using wait_ends [of "[''quit'']" con] by auto
  then have "server_main (xml_ref test_files) (pqxx_ref (\<lambda>_. True)) (\<lambda>_. None) boost_ref argv_ref [''quit''] (Exit 0)"
    by (rule main_quit [OF s service_Nil _ quit_while_running [OF serving_state(1) [OF s] S]])
  with server_exit_success [OF this] show ?thesis by blast
qed

lemma refused_port_aborts_witness:
  "server_main (xml_ref test_files) (pqxx_ref (\<lambda>_. True)) (\<lambda>_. Some (Exn ''Address already in use''))
     boost_ref argv_ref [''quit''] Abort"
proof -
  have "length argv_ref = 4" "atoi (argv_ref ! 1) = Inr 1335" "(1335 :: int) \<noteq> 0"
    "get_authorized_clients_and_details (xml_ref test_files) (argv_ref ! 2) = Inr test_clients"
    "get_connection_string (xml_ref test_files) (argv_ref ! 3) =
       Inr ''dbname=hector user=mkts password=password hostaddr=192.6.6.6 port=1111''"
    by (simp_all add: argv_ref_def atoi_1335 test_clients_load test_connection_string)
  moreover have "px_connection (pqxx_ref (\<lambda>_. True)) s = Inr []" for s by (simp add: pqxx_ref_def)
  ultimately show ?thesis
    using refused_port_aborts [of argv_ref 1335 "xml_ref test_files" test_clients
      "''dbname=hector user=mkts password=password hostaddr=192.6.6.6 port=1111''"
      "pqxx_ref (\<lambda>_. True)" "[]" "\<lambda>_. Some (Exn ''Address already in use'')"] by blast
qed

lemma port_is_truncated_witness:
  "port_of_int (1335 + 65536) = port_of_int 1335 \<and> uint (port_of_int 1335) = 1335"
  using port_is_truncated [of 1335] by simp

end
