(* ===== verification/Logger.thy ===== *)
theory Logger
  imports Cpp_Runtime
begin

text \<open>
  The client's log: the abstract class \<open>logger\<close> with its severities (\<open>include/logger.h\<close>) and
  \<open>boost_logger\<close> (\<open>include/boost_logger.h\<close>) over Boost.Log, which is a parameter. The locale
  \<open>log_contract\<close> is what the client relies on: a message is recorded once, under the severity
  it was given.
\<close>

section \<open>The abstract class\<close>

datatype logger_severity = trace | debug | info | warning | error | fatal

text \<open>The enumerators have the values 0 to 5, and order the severities.\<close>

fun severity_rank :: "logger_severity \<Rightarrow> nat" where
  "severity_rank trace = 0"
| "severity_rank debug = 1"
| "severity_rank info = 2"
| "severity_rank warning = 3"
| "severity_rank error = 4"
| "severity_rank fatal = 5"

lemma severity_rank_inject: "severity_rank a = severity_rank b \<Longrightarrow> a = b"
  by (cases a; cases b) auto

instantiation logger_severity :: linorder
begin

definition less_eq_logger_severity :: "logger_severity \<Rightarrow> logger_severity \<Rightarrow> bool" where
  "less_eq_logger_severity a b \<longleftrightarrow> severity_rank a \<le> severity_rank b"

definition less_logger_severity :: "logger_severity \<Rightarrow> logger_severity \<Rightarrow> bool" where
  "less_logger_severity a b \<longleftrightarrow> severity_rank a < severity_rank b"

instance
  by standard
     (auto simp: less_eq_logger_severity_def less_logger_severity_def dest: severity_rank_inject)

end

text \<open>The virtual function of a logger whose records are kept in a state of type \<open>'l\<close>.\<close>

record 'l logger =
  log_message :: "logger_severity \<Rightarrow> string \<Rightarrow> 'l \<Rightarrow> 'l"

locale log_contract =
  fixes lg :: "'l logger" and entries :: "'l \<Rightarrow> (logger_severity \<times> string) list"
  assumes log_appends: "entries (log_message lg sev msg l) = entries l @ [(sev, msg)]"
begin

lemma log_keeps_history: "\<exists>new. entries (log_message lg sev msg l) = entries l @ new"
  by (simp add: log_appends)

lemma alarms_append:
  "filter (\<lambda>(s, m). error \<le> s) (entries (log_message lg sev msg l)) =
     filter (\<lambda>(s, m). error \<le> s) (entries l) @ (if error \<le> sev then [(sev, msg)] else [])"
  by (simp add: log_appends)

end

section \<open>The Boost logger\<close>

text \<open>The levels of \<open>boost::log::trivial\<close>, and \<open>BOOST_LOG_TRIVIAL (level) << message\<close>.\<close>

datatype trivial_level =
  Trivial_trace | Trivial_debug | Trivial_info | Trivial_warning | Trivial_error | Trivial_fatal

record 'l boost_log =
  log_trivial :: "trivial_level \<Rightarrow> string \<Rightarrow> 'l \<Rightarrow> 'l"

text \<open>What the constructor sets up: the file, flushed after each record, and the line format.\<close>

record log_sink =
  file_name :: string
  auto_flush :: bool
  line_format :: string

definition boost_logger_construct :: "string \<Rightarrow> console \<Rightarrow> log_sink \<times> console" where
  "boost_logger_construct file con =
     (\<lparr>file_name = file, auto_flush = True,
       line_format = ''[%Severity%] %TimeStamp% [%Uptime%] (%LineID%) : %Message%''\<rparr>,
      say (''Log file location : '' @ file) con)"

fun boost_log_message :: "'l boost_log \<Rightarrow> logger_severity \<Rightarrow> string \<Rightarrow> 'l \<Rightarrow> 'l" where
  "boost_log_message bl trace message = log_trivial bl Trivial_trace message"
| "boost_log_message bl debug message = log_trivial bl Trivial_debug message"
| "boost_log_message bl info message = log_trivial bl Trivial_info message"
| "boost_log_message bl warning message = log_trivial bl Trivial_warning message"
| "boost_log_message bl error message = log_trivial bl Trivial_error message"
| "boost_log_message bl fatal message = log_trivial bl Trivial_fatal message"

definition boost_logger_vtable :: "'l boost_log \<Rightarrow> 'l logger" where
  "boost_logger_vtable bl = \<lparr>log_message = boost_log_message bl\<rparr>"

fun severity_of_level :: "trivial_level \<Rightarrow> logger_severity" where
  "severity_of_level Trivial_trace = trace"
| "severity_of_level Trivial_debug = debug"
| "severity_of_level Trivial_info = info"
| "severity_of_level Trivial_warning = warning"
| "severity_of_level Trivial_error = error"
| "severity_of_level Trivial_fatal = fatal"

text \<open>Boost.Log keeps every record: no filter is set.\<close>

locale boost_log_core =
  fixes bl :: "'l boost_log" and records :: "'l \<Rightarrow> (trivial_level \<times> string) list"
  assumes trivial_appends: "records (log_trivial bl lvl msg l) = records l @ [(lvl, msg)]"

sublocale boost_log_core \<subseteq> logger: log_contract "boost_logger_vtable bl"
    "\<lambda>l. map (\<lambda>(lvl, msg). (severity_of_level lvl, msg)) (records l)"
proof
  fix sev msg l
  show "map (\<lambda>(lvl, msg). (severity_of_level lvl, msg)) (records (log_message (boost_logger_vtable bl) sev msg l)) =
      map (\<lambda>(lvl, msg). (severity_of_level lvl, msg)) (records l) @ [(sev, msg)]"
    by (cases sev) (simp_all add: boost_logger_vtable_def trivial_appends)
qed

context boost_log_core
begin

lemma logger_is_log: "log_contract (boost_logger_vtable bl)
    (\<lambda>l. map (\<lambda>(lvl, msg). (severity_of_level lvl, msg)) (records l))"
  by (rule logger.log_contract_axioms)

lemmas logger_appends = logger.log_appends

end

definition list_log :: "(trivial_level \<times> string) list boost_log" where
  "list_log = \<lparr>log_trivial = (\<lambda>lvl msg l. l @ [(lvl, msg)])\<rparr>"

interpretation list_log: boost_log_core list_log "\<lambda>l. l"
  by unfold_locales (simp add: list_log_def)

text \<open>
  The Boost logger records each message exactly once, at the level that has the name of the
  severity it was given, after everything recorded before.
\<close>

theorem boost_logger_records:
  assumes "boost_log_core bl records"
  shows "map (\<lambda>(lvl, msg). (severity_of_level lvl, msg))
      (records (log_message (boost_logger_vtable bl) sev msg l)) =
    map (\<lambda>(lvl, msg). (severity_of_level lvl, msg)) (records l) @ [(sev, msg)]"
  by (rule boost_log_core.logger_appends [OF assms])

lemma boost_logger_records_witness:
  "map (\<lambda>(lvl, msg). (severity_of_level lvl, msg))
     (log_message (boost_logger_vtable list_log) fatal ''Failure : Not Authorized'' []) =
   [(fatal, ''Failure : Not Authorized'')]"
  using boost_logger_records [OF list_log.boost_log_core_axioms, of fatal "''Failure : Not Authorized''" "[]"]
  by simp

end
