(* ===== verification/Timer.thy ===== *)
theory Timer
  imports Cpp_Runtime
begin

text \<open>
  The repeating timer of the client, \<open>repeat_timer\<close> (\<open>src/repeat_timer.cpp\<close>). Time counts
  seconds. The timer's thread runs \<open>io_service.run ()\<close>, which returns when no wait is
  outstanding; the flag \<open>stop\<close> is an atomic the user's thread may set at any moment.
\<close>

section \<open>State and operations\<close>

text \<open>What the client's two threads share; the client extends it with its log and network.\<close>

record client_world =
  stop_client :: bool
  out :: console

definition tell :: "string \<Rightarrow> 'a client_world_scheme \<Rightarrow> 'a client_world_scheme" where
  "tell l w = w\<lparr>out := say l (out w)\<rparr>"

lemma tell_simps [simp]: "stop_client (tell l w) = stop_client w"
  by (simp add: tell_def)

text \<open>
  The work is a function of what the outside gives it in one call (clock, memory contents) and of
  the world; it may throw, and the world keeps what it did before that.
\<close>

type_synonym ('e, 'a) work = "'e \<Rightarrow> 'a client_world_scheme \<Rightarrow> failure option \<times> 'a client_world_scheme"

record ('e, 'a) repeat_timer =
  interval :: nat
  expires_at :: nat
  waiting :: bool
  repeat_work :: "('e, 'a) work option"

definition minutes :: "nat \<Rightarrow> nat" where
  "minutes n = 60 * n"

definition repeat_timer_construct ::
    "nat \<Rightarrow> nat \<Rightarrow> 'a client_world_scheme \<Rightarrow> ('e, 'a) repeat_timer \<times> 'a client_world_scheme" where
  "repeat_timer_construct now interv w =
     (\<lparr>interval = interv, expires_at = now + interv, waiting = False, repeat_work = None\<rparr>,
      tell ''repeat_timer::repeat_time()'' w)"

definition to_do ::
    "('e, 'a) work \<Rightarrow> ('e, 'a) repeat_timer \<times> 'a client_world_scheme
     \<Rightarrow> ('e, 'a) repeat_timer \<times> 'a client_world_scheme" where
  "to_do f = (\<lambda>(this, w). (this\<lparr>repeat_work := Some f\<rparr>, tell ''Setting work to do.'' w))"

definition repeat_timer_destroy ::
    "('e, 'a) repeat_timer \<times> 'a client_world_scheme \<Rightarrow> 'a client_world_scheme" where
  "repeat_timer_destroy = (\<lambda>(this, w). tell ''repeat_timer::~repeat_timer() done.'' w)"

text \<open>The first part of \<open>start_timer\<close>, up to the call of \<open>run\<close>.\<close>

definition start_timer ::
    "('e, 'a) repeat_timer \<times> 'a client_world_scheme \<Rightarrow> ('e, 'a) repeat_timer \<times> 'a client_world_scheme" where
  "start_timer = (\<lambda>(this, w). (this\<lparr>waiting := True\<rparr>, tell ''Timer started.'' w))"

text \<open>The user's thread may set the flag while the work runs, or between its two reads here.\<close>

definition user_sets :: "bool \<Rightarrow> 'a client_world_scheme \<Rightarrow> 'a client_world_scheme" where
  "user_sets b w = (if b then w\<lparr>stop_client := True\<rparr> else w)"

definition work ::
    "'e \<Rightarrow> bool \<Rightarrow> bool \<Rightarrow> ('e, 'a) repeat_timer \<times> 'a client_world_scheme
     \<Rightarrow> failure option \<times> ('e, 'a) repeat_timer \<times> 'a client_world_scheme" where
  "work inputs during between = (\<lambda>(this, w0).
     let w1 = tell ''Calling user work.'' w0
     in case repeat_work this of
          None \<Rightarrow> (Some (Throws (Exn ''bad_function_call'')), this, w1)
        | Some f \<Rightarrow>
            (case f inputs w1 of
               (Some e, w2) \<Rightarrow> (Some e, this, w2)
             | (None, w2) \<Rightarrow>
                 let w3 = user_sets during w2;
                     w4 = tell (''Stop? : '' @ (if stop_client w3 then ''1'' else ''0'')) w3;
                     w5 = user_sets between w4
                 in if \<not> stop_client w5
                    then (None, this\<lparr>expires_at := expires_at this + interval this, waiting := True\<rparr>, w5)
                    else (None, this, tell ''Stopping timer.'' w5)))"

section \<open>Runs\<close>

text \<open>
  One round of \<open>run\<close>: the wait that is outstanding completes at the time it expires, whatever
  its error code, and the handler does the work. \<open>User_stops\<close> is the user's thread between two
  rounds. A round that throws leaves \<open>run\<close> and \<open>start_timer\<close>.
\<close>

datatype 'e timer_event = Fires nat 'e bool bool | User_stops

inductive timer_step ::
    "('e, 'a) repeat_timer \<times> 'a client_world_scheme \<Rightarrow> 'e timer_event
     \<Rightarrow> failure option \<times> ('e, 'a) repeat_timer \<times> 'a client_world_scheme \<Rightarrow> bool" where
  fires: "waiting this
     \<Longrightarrow> timer_step (this, w) (Fires (expires_at this) inputs during between)
          (work inputs during between (this\<lparr>waiting := False\<rparr>, w))"
| user_stops: "timer_step (this, w) User_stops (None, this, w\<lparr>stop_client := True\<rparr>)"

inductive_cases timer_step_firesE: "timer_step (this, w) (Fires t inputs during between) r"
inductive_cases timer_step_userE: "timer_step (this, w) User_stops r"

inductive timer_runs ::
    "('e, 'a) repeat_timer \<times> 'a client_world_scheme \<Rightarrow> 'e timer_event list
     \<Rightarrow> failure option \<times> ('e, 'a) repeat_timer \<times> 'a client_world_scheme \<Rightarrow> bool" where
  timer_Nil: "timer_runs c [] (None, c)"
| timer_throw: "timer_step c e (Some f, c') \<Longrightarrow> timer_runs c [e] (Some f, c')"
| timer_Cons: "timer_step c e (None, c') \<Longrightarrow> timer_runs c' es r \<Longrightarrow> timer_runs c (e # es) r"

fun fire_times :: "'e timer_event list \<Rightarrow> nat list" where
  "fire_times [] = []"
| "fire_times (Fires t inputs during between # es) = t # fire_times es"
| "fire_times (User_stops # es) = fire_times es"

text \<open>A kind of work that never clears the flag.\<close>

definition keeps_stop :: "('e, 'a) work \<Rightarrow> bool" where
  "keeps_stop f \<longleftrightarrow> (\<forall>inputs w. stop_client w \<longrightarrow> stop_client (snd (f inputs w)))"

lemma user_sets_simps [simp]:
  "stop_client (user_sets b w) \<longleftrightarrow> b \<or> stop_client w"
  by (simp add: user_sets_def)

lemma work_timer:
  assumes "work inputs during between (this, w) = (x, this', w')"
  shows "interval this' = interval this \<and> repeat_work this' = repeat_work this
    \<and> expires_at this' = (if x = None \<and> \<not> stop_client w' then expires_at this + interval this else expires_at this)
    \<and> waiting this' = (if x = None \<and> \<not> stop_client w' then True else waiting this)"
  using assms
  by (auto simp: work_def Let_def split: option.splits prod.splits if_splits)

lemma work_keeps_stop:
  assumes "work inputs during between (this, w) = (x, this', w')" "repeat_work this = Some f"
    "keeps_stop f" "stop_client w"
  shows "stop_client w'"
proof -
  have "stop_client (snd (f inputs (tell ''Calling user work.'' w)))"
    using assms(3,4) by (simp add: keeps_stop_def)
  then show ?thesis
    using assms(1,2) by (auto simp: work_def Let_def split: option.splits prod.splits if_splits)
qed

lemma idle_timer_never_fires:
  "timer_runs c es r \<Longrightarrow> \<not> waiting (fst c) \<Longrightarrow> fire_times es = [] \<and> fst r = None \<and> \<not> waiting (fst (snd r))"
proof (induction rule: timer_runs.induct)
  case (timer_throw c e f c')
  then show ?case by (cases c; cases e) (auto elim: timer_step_firesE timer_step_userE)
next
  case (timer_Cons c e c' es r)
  then show ?case by (cases c; cases e) (auto elim: timer_step_firesE timer_step_userE)
qed simp

lemma fires_now_or_never:
  assumes "timer_step (this, w) e (x, this', w')"
  shows "(e = User_stops \<and> x = None \<and> this' = this \<and> stop_client w')
    \<or> (\<exists>inputs during between. e = Fires (expires_at this) inputs during between \<and> waiting this
        \<and> work inputs during between (this\<lparr>waiting := False\<rparr>, w) = (x, this', w'))"
  using assms by cases auto

lemma rate_Suc:
  "map (\<lambda>k. start + Suc k * i) [0..<Suc n] = (start + i) # map (\<lambda>k. (start + i) + Suc k * i) [0..<n]"
  for start i n :: nat
  by (simp add: map_upt_Suc algebra_simps del: upt_Suc)

lemma rounds_at_fixed_rate:
  assumes "timer_runs (this, w) es r" "expires_at this = start + interval this"
  shows "fire_times es = map (\<lambda>k. start + Suc k * interval this) [0..<length (fire_times es)]"
  using assms
proof (induction "(this, w)" es r arbitrary: this w start rule: timer_runs.induct)
  case (timer_throw e f c')
  then show ?case by (cases e) (auto elim: timer_step_firesE timer_step_userE)
next
  case (timer_Cons e c' es r)
  obtain this' w' where c': "c' = (this', w')" by (cases c')
  consider "e = User_stops" "this' = this"
    | inputs during between where "e = Fires (start + interval this) inputs during between"
        "work inputs during between (this\<lparr>waiting := False\<rparr>, w) = (None, this', w')"
    using fires_now_or_never [of this w e None this' w'] timer_Cons(1,4) c' by auto
  then show ?case
  proof cases
    case 1
    then show ?thesis using timer_Cons(3) [OF c', of start] timer_Cons(4) by simp
  next
    case 2
    note wk = work_timer [OF 2(2)]
    show ?thesis
    proof (cases "stop_client w'")
      case False
      then have "expires_at this' = (start + interval this) + interval this'"
        using wk timer_Cons(4) by simp
      from timer_Cons(3) [OF c' this] wk show ?thesis
        by (simp only: 2(1) fire_times.simps length_Cons rate_Suc) simp
    next
      case True
      then have "fire_times es = []" using wk timer_Cons(2) c' idle_timer_never_fires by fastforce
      then show ?thesis using 2(1) by simp
    qed
  qed
qed simp

text \<open>
  The timer fires at a fixed rate: however long the work takes, the \<open>k\<close>-th round of a run is
  due \<open>k\<close> intervals after the time the timer was constructed. The first round comes one interval
  after the start.
\<close>

theorem fires_at_fixed_rate:
  assumes "timer_runs (this, w) es r" "expires_at this = start + interval this"
  shows "fire_times es = map (\<lambda>k. start + Suc k * interval this) [0..<length (fire_times es)]"
  using assms by (rule rounds_at_fixed_rate)

lemma waiting_timer_fires:
  assumes "timer_runs (this, w) es (x, this', w')" "waiting this" "fire_times es = []"
  shows "waiting this'"
  using assms
proof (induction "(this, w)" es "(x, this', w')" arbitrary: this w rule: timer_runs.induct)
  case (timer_throw e f)
  then show ?case by (cases e) (auto elim: timer_step_userE)
next
  case (timer_Cons e c' es)
  then show ?case by (cases e) (auto elim!: timer_step_userE)
qed simp

lemma stopped_timer_ends:
  assumes "timer_runs (this, w) es (x, this', w')" "repeat_work this = Some f" "keeps_stop f"
    and "stop_client w"
  shows "length (fire_times es) \<le> 1 \<and> (fire_times es \<noteq> [] \<longrightarrow> \<not> waiting this')"
  using assms
proof (induction "(this, w)" es "(x, this', w')" arbitrary: this w rule: timer_runs.induct)
  case (timer_throw e f')
  then show ?case using fires_now_or_never [of this w e "Some f'" this' w'] work_timer by fastforce
next
  case (timer_Cons e c' es)
  obtain this1 w1 where c': "c' = (this1, w1)" by (cases c')
  consider "e = User_stops" "this1 = this" "stop_client w1"
    | t inputs during between where "e = Fires t inputs during between"
        "work inputs during between (this\<lparr>waiting := False\<rparr>, w) = (None, this1, w1)"
    using fires_now_or_never [of this w e None this1 w1] timer_Cons(1) c' by auto
  then show ?case
  proof cases
    case 1
    then show ?thesis using timer_Cons(3) [OF c'] timer_Cons(4-6) by simp
  next
    case 2
    have "stop_client w1" using work_keeps_stop [OF 2(2)] timer_Cons(4-6) by simp
    then have "\<not> waiting this1" using work_timer [OF 2(2)] by simp
    then show ?thesis using idle_timer_never_fires [OF timer_Cons(2)] c' 2(1) by simp
  qed
qed simp

text \<open>
  C19. Once the stop flag is set, the timer does at most one more round, and that round is its last:
  after it no wait is outstanding. This holds for every work that does not clear the flag.
\<close>

theorem stop_ends_timer:
  assumes "timer_runs (this, w) es (x, this', w')" "repeat_work this = Some f" "keeps_stop f"
    and "stop_client w"
  shows "length (fire_times es) \<le> 1 \<and> (fire_times es \<noteq> [] \<longrightarrow> \<not> waiting this')"
  using assms by (rule stopped_timer_ends)

text \<open>
  Stopping is not immediate: a timer that is waiting when the flag is set still does its work
  once more, when its wait expires, and only then ends.
\<close>

theorem stopping_costs_one_round:
  assumes "waiting this" "repeat_work this = Some f" "keeps_stop f" "stop_client w"
    and "f inputs (tell ''Calling user work.'' w) = (None, w2)"
  shows "\<exists>this' w'. timer_runs (this, w) [Fires (expires_at this) inputs False False] (None, this', w')
    \<and> \<not> waiting this'
    \<and> out w' = say ''Stopping timer.'' (say ''Stop? : 1'' (out w2))"
proof -
  have "stop_client (snd (f inputs (tell ''Calling user work.'' w)))"
    using assms(3,4) by (simp add: keeps_stop_def)
  then have "work inputs False False (this\<lparr>waiting := False\<rparr>, w) =
      (None, this\<lparr>waiting := False\<rparr>, tell ''Stopping timer.'' (tell ''Stop? : 1'' w2))"
    using assms by (simp add: work_def Let_def user_sets_def)
  then have "timer_step (this, w) (Fires (expires_at this) inputs False False)
      (None, this\<lparr>waiting := False\<rparr>, tell ''Stopping timer.'' (tell ''Stop? : 1'' w2))"
    using fires [OF assms(1), of w inputs False False] by simp
  then show ?thesis by (intro exI conjI) (rule timer_Cons [OF _ timer_Nil], auto simp: tell_def)
qed

lemma running_timer_goes_on:
  assumes "timer_runs (this, w) es (None, this', w')" "waiting this \<or> stop_client w"
  shows "waiting this' \<or> stop_client w'"
  using assms
proof (induction "(this, w)" es "(None :: failure option, this', w')" arbitrary: this w rule: timer_runs.induct)
  case (timer_Cons e c' es)
  obtain this1 w1 where c': "c' = (this1, w1)" by (cases c')
  have "waiting this1 \<or> stop_client w1"
    using fires_now_or_never [of this w e None this1 w1] timer_Cons(1) c' work_timer by fastforce
  then show ?case using timer_Cons(3) [OF c'] by simp
qed simp

text \<open>
  C20. Until somebody sets the flag the timer goes on: after any run without an exception, it is
  waiting for its next round or the flag is set.
\<close>

theorem timer_goes_on:
  assumes "timer_runs (this, w) es (None, this', w')" "waiting this"
  shows "waiting this' \<or> stop_client w'"
  using running_timer_goes_on [OF assms(1)] assms(2) by simp

section \<open>Instances\<close>

definition idle_work :: "(unit, unit) work" where
  "idle_work inputs w = (None, w)"

definition timer_ref :: "(unit, unit) repeat_timer" where
  "timer_ref = \<lparr>interval = minutes 1, expires_at = 100 + minutes 1, waiting = True, repeat_work = Some idle_work\<rparr>"

definition world_ref :: client_world where
  "world_ref = \<lparr>stop_client = False, out = silent\<rparr>"

lemma keeps_stop_idle: "keeps_stop idle_work"
  by (simp add: keeps_stop_def idle_work_def)

lemma one_round_ref:
  "\<exists>w'. timer_runs (timer_ref, world_ref\<lparr>stop_client := b\<rparr>) [Fires 160 () False False]
     (None, (if b then timer_ref\<lparr>waiting := False\<rparr> else timer_ref\<lparr>expires_at := 220\<rparr>), w')"
proof -
  have "\<exists>w'. work () False False (timer_ref\<lparr>waiting := False\<rparr>, world_ref\<lparr>stop_client := b\<rparr>) =
      (None, (if b then timer_ref\<lparr>waiting := False\<rparr> else timer_ref\<lparr>expires_at := 220\<rparr>), w')"
    by (simp add: work_def timer_ref_def world_ref_def idle_work_def Let_def minutes_def user_sets_def)
  then obtain w' where "work () False False (timer_ref\<lparr>waiting := False\<rparr>, world_ref\<lparr>stop_client := b\<rparr>) =
      (None, (if b then timer_ref\<lparr>waiting := False\<rparr> else timer_ref\<lparr>expires_at := 220\<rparr>), w')" ..
  with fires [of timer_ref "world_ref\<lparr>stop_client := b\<rparr>" "()" False False]
  have "timer_step (timer_ref, world_ref\<lparr>stop_client := b\<rparr>) (Fires 160 () False False)
      (None, (if b then timer_ref\<lparr>waiting := False\<rparr> else timer_ref\<lparr>expires_at := 220\<rparr>), w')"
    by (simp add: timer_ref_def minutes_def)
  from timer_Cons [OF this timer_Nil] show ?thesis by blast
qed

lemma fires_at_fixed_rate_witness:
  "\<exists>r. timer_runs (timer_ref, world_ref\<lparr>stop_client := False\<rparr>) [Fires 160 () False False] r
     \<and> [160] = map (\<lambda>k. 100 + Suc k * 60) [0..<1]"
proof -
  obtain r where run: "timer_runs (timer_ref, world_ref\<lparr>stop_client := False\<rparr>) [Fires 160 () False False] r"
    using one_round_ref [of False] by blast
  have start: "expires_at timer_ref = 100 + interval timer_ref" by (simp add: timer_ref_def)
  have "interval timer_ref = 60" by (simp add: timer_ref_def minutes_def)
  with fires_at_fixed_rate [OF run start] have "[160] = map (\<lambda>k. 100 + Suc k * 60) [0..<1]" by simp
  with run show ?thesis by (intro exI conjI)
qed

lemma stop_ends_timer_witness:
  "\<exists>this' w'. timer_runs (timer_ref, world_ref\<lparr>stop_client := True\<rparr>) [Fires 160 () False False] (None, this', w')
     \<and> \<not> waiting this'"
proof -
  obtain this' w' where run: "timer_runs (timer_ref, world_ref\<lparr>stop_client := True\<rparr>) [Fires 160 () False False] (None, this', w')"
    using one_round_ref [of True] by blast
  have "repeat_work timer_ref = Some idle_work" by (simp add: timer_ref_def)
  from stop_ends_timer [OF run this keeps_stop_idle] run show ?thesis by auto
qed

lemma stopping_costs_one_round_witness:
  "\<exists>this' w'. timer_runs (timer_ref, world_ref\<lparr>stop_client := True\<rparr>) [Fires (expires_at timer_ref) () False False]
     (None, this', w') \<and> \<not> waiting this'"
  using stopping_costs_one_round [of timer_ref idle_work "world_ref\<lparr>stop_client := True\<rparr>" "()", OF _ _ keeps_stop_idle]
  by (auto simp: timer_ref_def idle_work_def)

lemma timer_goes_on_witness:
  "\<exists>this' w'. timer_runs (timer_ref, world_ref\<lparr>stop_client := False\<rparr>) [Fires 160 () False False] (None, this', w')
     \<and> (waiting this' \<or> stop_client w')"
proof -
  obtain this' w' where run: "timer_runs (timer_ref, world_ref\<lparr>stop_client := False\<rparr>) [Fires 160 () False False] (None, this', w')"
    using one_round_ref [of False] by blast
  have "waiting timer_ref" by (simp add: timer_ref_def)
  from timer_goes_on [OF run this] run show ?thesis by blast
qed

end
