(* ===== verification/Client.thy ===== *)
theory Client
  imports Wire_Format Logger Timer User_Input
begin

text \<open>
  The client: its connection to the server, \<open>request\<close> and \<open>sys_info_client_request\<close>
  (\<open>include/request.h\<close>, \<open>include/sys_info_client_request.h\<close>) over the blocking operations of
  Boost.Asio, which are a parameter, and \<open>main\<close> (\<open>src/client_main.cpp\<close>): the work the timer
  repeats, the task that owns the timer, and the life of the process. The locale
  \<open>request_contract\<close> is what the work relies on.
\<close>

section \<open>The connection\<close>

text \<open>
  The virtual functions of a request whose state is of type \<open>'o\<close>, on a network of type \<open>'n\<close>.
  \<open>rq_read\<close> takes the contents of the array it is given and returns the new ones, also when it
  throws.
\<close>

record ('o, 'n) request =
  rq_connect :: "string \<Rightarrow> string \<Rightarrow> 'o \<times> 'n \<Rightarrow> cpp_exn option \<times> 'o \<times> 'n"
  rq_read :: "string \<Rightarrow> nat \<Rightarrow> 'o \<times> 'n \<Rightarrow> string \<times> (cpp_exn + nat) \<times> 'o \<times> 'n"
  rq_write :: "string \<Rightarrow> 'o \<times> 'n \<Rightarrow> cpp_exn option \<times> 'o \<times> 'n"
  rq_delete :: "'o \<times> 'n \<Rightarrow> failure option \<times> 'n"

text \<open>
  Boost.Asio: a socket that is not open, \<open>resolver.resolve\<close>, \<open>connect\<close> to one of the endpoints,
  \<open>write\<close>, \<open>read\<close> with the bytes that arrived, and the \<open>close\<close> of a socket.
\<close>

record ('n, 's, 'e) asio =
  new_socket :: 's
  resolve :: "string \<Rightarrow> string \<Rightarrow> 'n \<Rightarrow> (cpp_exn + 'e) \<times> 'n"
  connect_socket :: "'s \<Rightarrow> 'e \<Rightarrow> 'n \<Rightarrow> cpp_exn option \<times> 's \<times> 'n"
  write_socket :: "'s \<Rightarrow> string \<Rightarrow> 'n \<Rightarrow> cpp_exn option \<times> 's \<times> 'n"
  read_socket :: "'s \<Rightarrow> nat \<Rightarrow> 'n \<Rightarrow> string \<times> cpp_exn option \<times> 's \<times> 'n"
  close_socket :: "'s \<Rightarrow> 'n \<Rightarrow> cpp_exn option \<times> 'n"

definition client_connect ::
    "('n, 's, 'e) asio \<Rightarrow> string \<Rightarrow> string \<Rightarrow> 's \<times> 'n \<Rightarrow> cpp_exn option \<times> 's \<times> 'n" where
  "client_connect asio host port = (\<lambda>(s, net).
     case resolve asio host port net of
       (Inl e, net1) \<Rightarrow> (Some e, s, net1)
     | (Inr endpoints, net1) \<Rightarrow> connect_socket asio s endpoints net1)"

definition client_write ::
    "('n, 's, 'e) asio \<Rightarrow> string \<Rightarrow> 's \<times> 'n \<Rightarrow> cpp_exn option \<times> 's \<times> 'n" where
  "client_write asio data = (\<lambda>(s, net). write_socket asio s data net)"

definition client_read ::
    "('n, 's, 'e) asio \<Rightarrow> string \<Rightarrow> nat \<Rightarrow> 's \<times> 'n \<Rightarrow> string \<times> (cpp_exn + nat) \<times> 's \<times> 'n" where
  "client_read asio data len = (\<lambda>(s, net).
     let (bytes, thrown, s', net') = read_socket asio s len net;
         data' = bytes @ drop (length bytes) data
     in (data', (case thrown of None \<Rightarrow> Inr (length bytes) | Some e \<Rightarrow> Inl e), s', net'))"

text \<open>An exception of \<open>close\<close> leaves a destructor, which calls \<open>std::terminate\<close>.\<close>

definition client_delete :: "('n, 's, 'e) asio \<Rightarrow> 's \<times> 'n \<Rightarrow> failure option \<times> 'n" where
  "client_delete asio = (\<lambda>(s, net).
     let (thrown, net') = close_socket asio s net
     in (case thrown of None \<Rightarrow> None | Some e \<Rightarrow> Some Terminated, net'))"

definition sys_info_client_request :: "('n, 's, 'e) asio \<Rightarrow> ('s, 'n) request" where
  "sys_info_client_request asio =
     \<lparr>rq_connect = client_connect asio, rq_read = client_read asio, rq_write = client_write asio,
      rq_delete = client_delete asio\<rparr>"

section \<open>The contract of a request\<close>

text \<open>
  \<open>sent\<close> is what has gone out over the network. A read that returns has filled the first \<open>n\<close>
  characters of the array and says so; a write that returns has sent its whole text.
\<close>

locale request_contract =
  fixes rq :: "('o, 'n) request" and sent :: "'n \<Rightarrow> string"
  assumes read_fills: "rq_read rq buf n c = (buf', Inr k, c')
      \<Longrightarrow> k = n \<and> (\<exists>bytes. length bytes = n \<and> buf' = bytes @ drop n buf)"
    and read_sends_nothing: "rq_read rq buf n (s, net) = (buf', r, s', net') \<Longrightarrow> sent net' = sent net"
    and write_sends: "rq_write rq text_out (s, net) = (None, s', net') \<Longrightarrow> sent net' = sent net @ text_out"
    and write_sends_prefix: "rq_write rq text_out (s, net) = (Some e, s', net')
      \<Longrightarrow> \<exists>k. sent net' = sent net @ take k text_out"
    and connect_sends_nothing: "rq_connect rq host port (s, net) = (x, s', net') \<Longrightarrow> sent net' = sent net"
    and delete_sends_nothing: "rq_delete rq (s, net) = (f, net') \<Longrightarrow> sent net' = sent net"

text \<open>The documented behaviour of Boost.Asio on a stream socket.\<close>

locale asio_stream =
  fixes asio :: "('n, 's, 'e) asio" and sent :: "'n \<Rightarrow> string"
  assumes resolve_silent: "resolve asio host port net = (r, net') \<Longrightarrow> sent net' = sent net"
    and connect_silent: "connect_socket asio s ep net = (x, s', net') \<Longrightarrow> sent net' = sent net"
    and close_silent: "close_socket asio s net = (x, net') \<Longrightarrow> sent net' = sent net"
    and read_silent: "read_socket asio s n net = (bytes, x, s', net') \<Longrightarrow> sent net' = sent net"
    and read_exact: "read_socket asio s n net = (bytes, None, s', net') \<Longrightarrow> length bytes = n"
    and write_all: "write_socket asio s text_out net = (None, s', net') \<Longrightarrow> sent net' = sent net @ text_out"
    and write_some: "write_socket asio s text_out net = (Some e, s', net')
      \<Longrightarrow> \<exists>k. sent net' = sent net @ take k text_out"

sublocale asio_stream \<subseteq> request: request_contract "sys_info_client_request asio" sent
proof
  fix buf n c buf' k c'
  assume "rq_read (sys_info_client_request asio) buf n c = (buf', Inr k, c')"
  then show "k = n \<and> (\<exists>bytes. length bytes = n \<and> buf' = bytes @ drop n buf)"
    by (cases c) (auto simp: sys_info_client_request_def client_read_def Let_def
        split: prod.splits option.splits dest!: read_exact)
next
  fix host port s net x s' net'
  assume "rq_connect (sys_info_client_request asio) host port (s, net) = (x, s', net')"
  then show "sent net' = sent net"
    by (auto simp: sys_info_client_request_def client_connect_def
        split: prod.splits sum.splits dest!: resolve_silent connect_silent)
qed (auto simp: sys_info_client_request_def client_read_def client_write_def client_delete_def Let_def
    split: prod.splits option.splits dest: read_silent write_all write_some close_silent)

context asio_stream
begin

lemma request_is_stream: "request_contract (sys_info_client_request asio) sent"
  by (rule request.request_contract_axioms)

end

text \<open>A network that accepts everything and delivers a given text.\<close>

record wire =
  wire_in :: string
  wire_out :: string

definition asio_ref :: "(wire, bool, string) asio" where
  "asio_ref = \<lparr>new_socket = False,
     resolve = (\<lambda>host port net. (Inr host, net)),
     connect_socket = (\<lambda>s ep net. (None, True, net)),
     write_socket = (\<lambda>s data net. (None, s, net\<lparr>wire_out := wire_out net @ data\<rparr>)),
     read_socket = (\<lambda>s n net. (take n (wire_in net),
        if n \<le> length (wire_in net) then None else Some (Exn ''End of file''), s,
        net\<lparr>wire_in := drop n (wire_in net)\<rparr>)),
     close_socket = (\<lambda>s net. (None, net))\<rparr>"

interpretation loopback: asio_stream asio_ref wire_out
  by unfold_locales (auto simp: asio_ref_def split: if_splits)


section \<open>The repeated work\<close>

record ('n, 'l) client_state = client_world +
  network :: 'n
  running_log :: 'l

text \<open>
  What one call of the work meets: the two readings of the clock and what the uninitialised array
  \<open>reply\<close> holds on the stack.
\<close>

record task_input =
  seed_time :: int
  line_time :: int
  reply_garbage :: "char \<times> char \<times> char"

fun reply_array :: "char \<times> char \<times> char \<Rightarrow> string" where
  "reply_array (a, b, c) = [a, b, c]"

record ('g, 'l) client_env =
  random_lib :: "'g random_api"
  local_time :: "int \<Rightarrow> tm option"
  client_logger :: "'l logger"

definition log_to :: "'l logger \<Rightarrow> logger_severity \<Rightarrow> string \<Rightarrow> ('n, 'l) client_state \<Rightarrow> ('n, 'l) client_state" where
  "log_to lg sev msg w = w\<lparr>running_log := log_message lg sev msg (running_log w)\<rparr>"

text \<open>Leaving the scope of \<open>client_request\<close>, normally or with an exception, deletes the request.\<close>

definition leave_scope ::
    "('o, 'n) request \<Rightarrow> failure option \<Rightarrow> 'o \<Rightarrow> ('n, 'l) client_state
     \<Rightarrow> failure option \<times> ('n, 'l) client_state" where
  "leave_scope rq result obj w =
     (case rq_delete rq (obj, network w) of
        (None, net) \<Rightarrow> (result, w\<lparr>network := net\<rparr>)
      | (Some f, net) \<Rightarrow> (Some f, w\<lparr>network := net\<rparr>))"

datatype verdict = Sending_failed | Not_authorized | Sent

text \<open>The two comparisons of the \<open>if\<close>; the array is compared up to its first null character.\<close>

definition reply_verdict :: "string \<Rightarrow> verdict res" where
  "reply_verdict reply =
     bindR (strcmp_eq reply (literal ''1'')) (\<lambda>failed.
       if failed then Inr Sending_failed
       else bindR (strcmp_eq reply (literal ''2'')) (\<lambda>refused.
         Inr (if refused then Not_authorized else Sent)))"

text \<open>The work after the read: the three branches, and the result the closure leaves with.\<close>

definition handle_reply ::
    "'l logger \<Rightarrow> string \<Rightarrow> string \<Rightarrow> ('n, 'l) client_state \<Rightarrow> failure option \<times> ('n, 'l) client_state" where
  "handle_reply lg line reply w =
     (case reply_verdict reply of
        Inl f \<Rightarrow> (Some f, w)
      | Inr Sending_failed \<Rightarrow>
          (None, log_to lg error (''Failure : Sending data failed. Data : '' @ line)
                   (tell ''Failure in reading data from server.'' w))
      | Inr Not_authorized \<Rightarrow>
          (None, (log_to lg fatal ''Failure : Not Authorized''
                   (tell ''Not authorized to read and write to server.'' w))\<lparr>stop_client := True\<rparr>)
      | Inr Sent \<Rightarrow>
          (case c_string reply of
             None \<Rightarrow> (Some (Undefined Buffer_overread), w)
           | Some shown \<Rightarrow> (None, tell (''Success in reading data. data : '' @ shown) w)))"

text \<open>
  The closure given to \<open>to_do\<close>, for a request \<open>rq\<close> whose state after construction is \<open>obj0\<close>.
  Undefined behaviour leaves without unwinding.
\<close>

definition task_on ::
    "('g, 'l) client_env \<Rightarrow> ('o, 'n) request \<Rightarrow> 'o \<Rightarrow> string \<Rightarrow> string \<Rightarrow> string \<Rightarrow> task_input
     \<Rightarrow> ('n, 'l) client_state \<Rightarrow> failure option \<times> ('n, 'l) client_state" where
  "task_on env rq obj0 hostname port key inputs w0 =
     (let w1 = tell ''Establishing connection to the server.'' w0
      in case rq_connect rq hostname port (obj0, network w1) of
        (Some e, obj, net) \<Rightarrow> leave_scope rq (Some (Throws e)) obj (w1\<lparr>network := net\<rparr>)
      | (None, obj1, net1) \<Rightarrow>
          let w2 = tell (''Connected to '' @ hostname @ '' on port '' @ port) (w1\<lparr>network := net1\<rparr>)
          in case generate_random_sys_info_data (random_lib env) (local_time env)
                    (seed_time inputs) (line_time inputs) key of
            Inl f \<Rightarrow> (Some f, w2)
          | Inr line \<Rightarrow>
              let w3 = tell (''Writing data to server. data : '' @ line)
                         (log_to (client_logger env) info line w2)
              in case rq_write rq line (obj1, network w3) of
                (Some e, obj, net) \<Rightarrow> leave_scope rq (Some (Throws e)) obj (w3\<lparr>network := net\<rparr>)
              | (None, obj2, net2) \<Rightarrow>
                  let w4 = tell ''Reading data from server.'' (w3\<lparr>network := net2\<rparr>)
                  in case rq_read rq (reply_array (reply_garbage inputs)) 1 (obj2, network w4) of
                    (reply, Inl e, obj, net) \<Rightarrow> leave_scope rq (Some (Throws e)) obj (w4\<lparr>network := net\<rparr>)
                  | (reply, Inr reply_length, obj3, net3) \<Rightarrow>
                      let w5 = tell (''Length of data read - '' @ dec reply_length) (w4\<lparr>network := net3\<rparr>)
                      in case handle_reply (client_logger env) line reply w5 of
                           (None, w6) \<Rightarrow> leave_scope rq None obj3 w6
                         | (Some f, w6) \<Rightarrow> (Some f, w6))"

definition client_task ::
    "('g, 'l) client_env \<Rightarrow> ('n, 's, 'e) asio \<Rightarrow> string \<Rightarrow> string \<Rightarrow> string \<Rightarrow> task_input
     \<Rightarrow> ('n, 'l) client_state \<Rightarrow> failure option \<times> ('n, 'l) client_state" where
  "client_task env asio hostname port key inputs w =
     task_on env (sys_info_client_request asio) (new_socket asio) hostname port key inputs
       (tell ''sys_info_client_request::sys_info_client_request().'' w)"

section \<open>What the work does\<close>

lemma log_to_simps [simp]:
  "stop_client (log_to lg sev msg w) = stop_client w" "network (log_to lg sev msg w) = network w"
  "running_log (log_to lg sev msg w) = log_message lg sev msg (running_log w)" "out (log_to lg sev msg w) = out w"
  by (simp_all add: log_to_def)

lemma tell_client_simps [simp]:
  "network (tell l w) = network w" "running_log (tell l w) = running_log w"
  by (simp_all add: tell_def)

lemma reply_verdict_char:
  "reply_verdict (c # g # gs) = Inr (if g \<noteq> NUL then Sent
     else if c = CHR ''1'' then Sending_failed else if c = CHR ''2'' then Not_authorized else Sent)"
  by (auto simp: reply_verdict_def literal_def)

lemma leave_scope_state:
  assumes "leave_scope rq result obj w = (f, w')"
  shows "stop_client w' = stop_client w \<and> running_log w' = running_log w \<and> out w' = out w"
  using assms by (auto simp: leave_scope_def split: prod.splits option.splits)

lemma handle_reply_stop:
  "stop_client (snd (handle_reply lg line reply w)) \<longleftrightarrow>
     stop_client w \<or> reply_verdict reply = Inr Not_authorized"
  by (auto simp: handle_reply_def split: sum.splits verdict.splits option.splits)


lemma handle_reply_network:
  "handle_reply lg line reply w = (f, w') \<Longrightarrow> network w' = network w"
  by (auto simp: handle_reply_def split: sum.splits verdict.splits option.splits)

text \<open>What a round adds to the log.\<close>

definition round_log :: "string \<Rightarrow> verdict \<Rightarrow> (logger_severity \<times> string) list" where
  "round_log line v =
     (info, line) #
     (case v of
        Sending_failed \<Rightarrow> [(error, ''Failure : Sending data failed. Data : '' @ line)]
      | Not_authorized \<Rightarrow> [(fatal, ''Failure : Not Authorized'')]
      | Sent \<Rightarrow> [])"

lemma handle_reply_returns:
  assumes "handle_reply lg line reply w = (None, w')"
  obtains v where "reply_verdict reply = Inr v" "network w' = network w"
    "stop_client w' = (stop_client w \<or> v = Not_authorized)"
    "log_contract lg recs \<longrightarrow> recs (running_log w') = recs (running_log w) @ tl (round_log line v)"
  using assms
  by (auto simp: handle_reply_def round_log_def log_contract.log_appends
      split: sum.splits verdict.splits option.splits)

context request_contract
begin

lemma leave_scope_sent:
  "leave_scope rq result obj w = (f, w') \<Longrightarrow> sent (network w') = sent (network w)"
  by (auto simp: leave_scope_def split: prod.splits option.splits dest: delete_sends_nothing)

lemma leave_scope_None:
  "leave_scope rq result obj w = (None, w') \<Longrightarrow> result = None"
  by (auto simp: leave_scope_def split: prod.splits option.splits)

text \<open>A round that returns has sent exactly the generated line and acted on one character.\<close>

lemma task_returns:
  assumes "task_on env rq obj0 host port key inputs w = (None, w')"
    and garbage: "reply_garbage inputs = (g, h1, h2)"
  shows "\<exists>line c v. generate_random_sys_info_data (random_lib env) (local_time env)
        (seed_time inputs) (line_time inputs) key = Inr line
    \<and> reply_verdict [c, h1, h2] = Inr v
    \<and> sent (network w') = sent (network w) @ line
    \<and> stop_client w' = (stop_client w \<or> v = Not_authorized)
    \<and> (log_contract (client_logger env) recs \<longrightarrow>
         recs (running_log w') = recs (running_log w) @ round_log line v)"
proof -
  obtain obj1 net1 line obj2 net2 reply k obj3 net3 w6 where
    conn: "rq_connect rq host port (obj0, network w) = (None, obj1, net1)" and
    gen: "generate_random_sys_info_data (random_lib env) (local_time env)
        (seed_time inputs) (line_time inputs) key = Inr line" and
    wr: "rq_write rq line (obj1, net1) = (None, obj2, net2)" and
    rd: "rq_read rq (reply_array (reply_garbage inputs)) 1 (obj2, net2) = (reply, Inr k, obj3, net3)" and
    hr: "handle_reply (client_logger env) line reply
        (tell (''Length of data read - '' @ dec k)
        ((tell ''Reading data from server.''
        ((tell (''Writing data to server. data : '' @ line)
           (log_to (client_logger env) info line
             (tell (''Connected to '' @ host @ '' on port '' @ port)
                ((tell ''Establishing connection to the server.'' w)\<lparr>network := net1\<rparr>))))
          \<lparr>network := net2\<rparr>))\<lparr>network := net3\<rparr>)) = (None, w6)" and
    lv: "leave_scope rq None obj3 w6 = (None, w')"
    using assms(1)
    by (auto simp: task_on_def Let_def dest!: leave_scope_None
        split: prod.splits option.splits sum.splits)
  obtain bytes where "length bytes = 1" "reply = bytes @ [h1, h2]"
    using read_fills [OF rd] by (auto simp: garbage)
  then obtain c where reply: "reply = [c, h1, h2]"
    by (cases bytes) (auto simp: drop_Suc)
  obtain v where v0: "reply_verdict reply = Inr v" "network w6 = net3"
    "stop_client w6 = (stop_client w \<or> v = Not_authorized)"
    "log_contract (client_logger env) recs \<longrightarrow> recs (running_log w6) =
      recs (log_message (client_logger env) info line (running_log w)) @ tl (round_log line v)"
    using handle_reply_returns [OF hr, where recs = recs] by (simp cong: imp_cong) metis
  note lg = v0(4) and v = v0(1-3)
  have logged: "log_contract (client_logger env) recs \<longrightarrow>
      recs (running_log w6) = recs (running_log w) @ round_log line v"
    using lg by (simp add: round_log_def log_contract.log_appends)
  have "sent (network w') = sent (network w) @ line"
    using leave_scope_sent [OF lv] v(2) read_sends_nothing [OF rd] write_sends [OF wr]
      connect_sends_nothing [OF conn] by simp
  with gen v logged reply leave_scope_state [OF lv] show ?thesis by simp blast
qed

text \<open>A round that does not return has sent at most a part of the line.\<close>

lemma task_sends_prefix:
  assumes "task_on env rq obj0 host port key inputs w = (f, w')"
    and "generate_random_sys_info_data (random_lib env) (local_time env)
        (seed_time inputs) (line_time inputs) key = Inr line"
  shows "\<exists>k. sent (network w') = sent (network w) @ take k line"
proof -
  have all: "\<exists>k. line = take k line" by (rule exI [of _ "length line"]) simp
  show ?thesis
    using assms
    by (auto simp: task_on_def Let_def all
        dest!: leave_scope_sent read_sends_nothing write_sends write_sends_prefix connect_sends_nothing
          handle_reply_network
        split: prod.splits option.splits sum.splits)
qed

end


lemma task_keeps_stop:
  "stop_client w \<Longrightarrow> task_on env rq obj0 host port key inputs w = (f, w') \<Longrightarrow> stop_client w'"
  by (auto simp: task_on_def Let_def handle_reply_def leave_scope_state
      split: prod.splits option.splits sum.splits verdict.splits dest!: leave_scope_state)

lemma client_task_keeps_stop: "keeps_stop (client_task env asio host port key)"
  unfolding keeps_stop_def client_task_def
  by (metis prod.collapse task_keeps_stop tell_simps)


text \<open>
  C24. The array \<open>reply\<close> is not initialised, and the comparison reads on behind the one character
  that was received: unless the next character on the stack happens to be null, a server that
  answers 1 or 2 is taken to have accepted the data, and a refused client goes on. When none of
  the characters behind it is null, printing the reply reads past the array.
\<close>

theorem stack_garbage_hides_refusal:
  assumes "g \<noteq> NUL"
  shows "reply_verdict [c, g, h] = Inr Sent
    \<and> (c \<noteq> NUL \<and> h \<noteq> NUL \<longrightarrow> handle_reply lg line [c, g, h] w = (Some (Undefined Buffer_overread), w))
    \<and> (h = NUL \<longrightarrow> stop_client (snd (handle_reply lg line [c, g, h] w)) = stop_client w)"
  using assms by (auto simp: reply_verdict_char handle_reply_def)

text \<open>
  With a null character behind it, each of the three answers of the server has its meaning.
\<close>

theorem answers_are_understood:
  "reply_verdict [CHR ''0'', NUL, h] = Inr Sent \<and> reply_verdict [CHR ''1'', NUL, h] = Inr Sending_failed
   \<and> reply_verdict [CHR ''2'', NUL, h] = Inr Not_authorized"
  by (simp add: reply_verdict_char)


section \<open>The task with the timer, and main\<close>

text \<open>
  The task given to \<open>std::async\<close>, up to the call of \<open>run\<close>; \<open>now\<close> is the time it starts. The
  flag and the logger are shared with \<open>main\<close> by reference.
\<close>

definition client_timer ::
    "('g, 'l) client_env \<Rightarrow> ('n, 's, 'e) asio \<Rightarrow> string \<Rightarrow> string \<Rightarrow> string \<Rightarrow> nat \<Rightarrow> ('n, 'l) client_state
     \<Rightarrow> (task_input, ('n, 'l, unit) client_state_ext) repeat_timer \<times> ('n, 'l) client_state" where
  "client_timer env asio hostname port key now w =
     start_timer (to_do (client_task env asio hostname port key) (repeat_timer_construct now (minutes 1) w))"

text \<open>Leaving the task, normally or with an exception, destroys the timer.\<close>

fun leave_task ::
    "failure option \<times> (task_input, ('n, 'l, unit) client_state_ext) repeat_timer \<times> ('n, 'l) client_state
     \<Rightarrow> failure option \<times> ('n, 'l) client_state" where
  "leave_task (None, this, w) = (None, repeat_timer_destroy (this, w))"
| "leave_task (Some (Throws e), this, w) = (Some (Throws e), repeat_timer_destroy (this, w))"
| "leave_task (Some f, this, w) = (Some f, w)"

inductive async_client_task ::
    "('g, 'l) client_env \<Rightarrow> ('n, 's, 'e) asio \<Rightarrow> string \<Rightarrow> string \<Rightarrow> string \<Rightarrow> nat \<Rightarrow> ('n, 'l) client_state
     \<Rightarrow> task_input timer_event list \<Rightarrow> failure option \<times> ('n, 'l) client_state \<Rightarrow> bool" where
  task_over: "timer_runs (client_timer env asio hostname port key now w) es (x, this, w')
     \<Longrightarrow> x \<noteq> None \<or> \<not> waiting this
     \<Longrightarrow> async_client_task env asio hostname port key now w es (leave_task (x, this, w'))"

inductive_cases async_client_taskE: "async_client_task env asio hostname port key now w es r"


definition client_world_init :: "'n \<Rightarrow> 'l \<Rightarrow> ('n, 'l) client_state" where
  "client_world_init net l = \<lparr>stop_client = False, out = silent, network = net, running_log = l\<rparr>"



section \<open>Correctness of the client\<close>

lemma client_timer_simps:
  assumes "client_timer env asio host port key now w = (this, w0)"
  shows "waiting this" "interval this = 60" "expires_at this = now + 60"
    "repeat_work this = Some (client_task env asio host port key)"
    "stop_client w0 = stop_client w" "network w0 = network w" "running_log w0 = running_log w"
  using assms
  by (auto simp: client_timer_def start_timer_def to_do_def repeat_timer_construct_def minutes_def)

lemma user_sets_client_simps [simp]:
  "network (user_sets b w) = network w" "running_log (user_sets b w) = running_log w"
  for w :: "('n, 'l) client_state"
  by (simp_all add: user_sets_def)

lemma leave_task_simps:
  assumes "leave_task (x, this, w) = (y, w')"
  shows "y = x" "stop_client w' = stop_client w" "network w' = network w" "running_log w' = running_log w"
proof -
  have "y = x \<and> stop_client w' = stop_client w \<and> network w' = network w \<and> running_log w' = running_log w"
    using assms by (cases x rule: option.exhaust; cases "the x") (auto simp: repeat_timer_destroy_def)
  then show "y = x" "stop_client w' = stop_client w" "network w' = network w" "running_log w' = running_log w"
    by auto
qed

text \<open>A round of the timer is a round of the work, between two lines of output.\<close>

lemma work_round:
  fixes w :: "('n, 'l) client_state"
  assumes "work inputs during between (this, w) = (x, this', w')" "repeat_work this = Some f"
  obtains w2 where "f inputs (tell ''Calling user work.'' w) = (x, w2)"
    "network w' = network w2" "running_log w' = running_log w2" "stop_client w2 \<longrightarrow> stop_client w'"
  using assms by (auto simp: work_def Let_def split: prod.splits option.splits if_splits)


fun round_inputs :: "'e timer_event list \<Rightarrow> 'e list" where
  "round_inputs [] = []"
| "round_inputs (Fires t inputs during between # es) = inputs # round_inputs es"
| "round_inputs (User_stops # es) = round_inputs es"

context asio_stream
begin

lemma client_task_returns:
  assumes "client_task env asio host port key inputs w = (None, w')"
  shows "\<exists>line. generate_random_sys_info_data (random_lib env) (local_time env)
        (seed_time inputs) (line_time inputs) key = Inr line
    \<and> sent (network w') = sent (network w) @ line"
proof (cases "reply_garbage inputs")
  case (fields a b c)
  from request_contract.task_returns [OF request_is_stream assms [unfolded client_task_def] this]
  show ?thesis by auto
qed

lemma client_runs_send:
  assumes "timer_runs (this, w) es (None, this', w')" "repeat_work this = Some (client_task env asio host port key)"
  shows "\<exists>lines. list_all2 (\<lambda>inputs line. generate_random_sys_info_data (random_lib env) (local_time env)
        (seed_time inputs) (line_time inputs) key = Inr line) (round_inputs es) lines
    \<and> sent (network w') = sent (network w) @ concat lines"
  using assms
proof (induction "(this, w)" es "(None :: failure option, this', w')" arbitrary: this w rule: timer_runs.induct)
  case (timer_Cons e c' es)
  obtain this1 w1 where c': "c' = (this1, w1)" by (cases c')
  consider "e = User_stops" "this1 = this" "network w1 = network w"
    | t inputs during between where "e = Fires t inputs during between"
        "work inputs during between (this\<lparr>waiting := False\<rparr>, w) = (None, this1, w1)"
    using timer_Cons(1) c' by cases auto
  then show ?case
  proof cases
    case 1
    then show ?thesis using timer_Cons(3) [OF c'] timer_Cons(4) by simp
  next
    case 2
    obtain w2 where w2: "client_task env asio host port key inputs (tell ''Calling user work.'' w) = (None, w2)"
      "network w1 = network w2"
      using work_round [OF 2(2), of "client_task env asio host port key"] timer_Cons(4) by auto
    obtain line where line: "generate_random_sys_info_data (random_lib env) (local_time env)
        (seed_time inputs) (line_time inputs) key = Inr line" "sent (network w2) = sent (network w) @ line"
      using client_task_returns [OF w2(1)] by auto
    obtain lines where "list_all2 (\<lambda>inputs line. generate_random_sys_info_data (random_lib env) (local_time env)
        (seed_time inputs) (line_time inputs) key = Inr line) (round_inputs es) lines"
      "sent (network w') = sent (network w1) @ concat lines"
      using timer_Cons(3) [OF c'] work_timer [OF 2(2)] timer_Cons(4) by auto
    with line w2(2) 2(1) show ?thesis by (intro exI [of _ "line # lines"]) simp
  qed
qed simp

end

text \<open>
  C11. The client sends one line a round and nothing else: when the task ends without an exception,
  what went out over the network is the concatenation of the lines generated for its rounds, in
  their order.
\<close>

theorem client_sends_one_line_a_round:
  assumes "asio_stream asio sent" "async_client_task env asio host port key now w es (None, w')"
  shows "\<exists>lines. list_all2 (\<lambda>inputs line. generate_random_sys_info_data (random_lib env) (local_time env)
        (seed_time inputs) (line_time inputs) key = Inr line) (round_inputs es) lines
    \<and> sent (network w') = sent (network w) @ concat lines"
proof -
  obtain x this w1 where run: "timer_runs (client_timer env asio host port key now w) es (x, this, w1)"
    and lt: "leave_task (x, this, w1) = (None, w')"
    using assms(2) by (auto elim: async_client_taskE)
  obtain this0 w0 where c: "client_timer env asio host port key now w = (this0, w0)"
    by (cases "client_timer env asio host port key now w")
  show ?thesis
    using asio_stream.client_runs_send [OF assms(1), of this0 w0 es this w1 env host port key]
      run c lt leave_task_simps [OF lt] client_timer_simps [OF c] by auto
qed

text \<open>
  A deferred task still sends data after the user has quit: the task, which starts when
  \<open>get\<close> is called, then does exactly one round, one minute later, if nothing throws.
\<close>

theorem deferred_client_sends_once:
  assumes "async_client_task env asio host port key later w es (None, w')" "stop_client w"
  shows "fire_times es = [later + 60]"
proof -
  obtain x this w1 where run: "timer_runs (client_timer env asio host port key later w) es (x, this, w1)"
    and lt: "leave_task (x, this, w1) = (None, w')" and over: "x \<noteq> None \<or> \<not> waiting this"
    using assms(1) by (auto elim: async_client_taskE)
  obtain this0 w0 where c: "client_timer env asio host port key later w = (this0, w0)"
    by (cases "client_timer env asio host port key later w")
  note c0 = client_timer_simps [OF c]
  have x: "x = None" using leave_task_simps(1) [OF lt] by simp
  have "length (fire_times es) \<le> 1"
    using stopped_timer_ends [OF run [unfolded c] c0(4) client_task_keeps_stop] assms(2) c0(5) by simp
  moreover have "fire_times es \<noteq> []"
    using waiting_timer_fires [OF run [unfolded c] c0(1)] over x by auto
  ultimately have "length (fire_times es) = 1" by (cases "fire_times es") auto
  then show ?thesis using rounds_at_fixed_rate [OF run [unfolded c], of later] c0(2,3) by simp
qed


text \<open>Whatever way a round ends, a fatal message in the log comes with the stop flag.\<close>

definition refused :: "logger_severity \<times> string" where
  "refused = (fatal, ''Failure : Not Authorized'')"

lemma handle_reply_log:
  assumes "handle_reply lg line reply w = (f, w')" "log_contract lg recs" "refused \<in> set (recs (running_log w'))"
  shows "refused \<in> set (recs (running_log w)) \<or> stop_client w'"
  using assms
  by (auto simp: handle_reply_def refused_def log_contract.log_appends
      split: sum.splits verdict.splits option.splits)

lemma task_log:
  assumes "log_contract (client_logger env) recs"
    and "task_on env rq obj0 host port key inputs w = (f, w')" "refused \<in> set (recs (running_log w'))"
  shows "refused \<in> set (recs (running_log w)) \<or> stop_client w'"
  using assms(2,3)
  by (auto simp: task_on_def Let_def log_contract.log_appends [OF assms(1)] refused_def [symmetric]
      dest!: leave_scope_state handle_reply_log [OF _ assms(1)]
      split: prod.splits option.splits sum.splits)
    (auto simp: refused_def)

lemma client_task_log:
  assumes "log_contract (client_logger env) recs"
    and "client_task env asio host port key inputs w = (f, w')" "refused \<in> set (recs (running_log w'))"
  shows "refused \<in> set (recs (running_log w)) \<or> stop_client w'"
  using task_log [OF assms(1) assms(2) [unfolded client_task_def] assms(3)] by simp

definition refused_is_over ::
    "('l \<Rightarrow> (logger_severity \<times> string) list)
     \<Rightarrow> (task_input, ('n, 'l, unit) client_state_ext) repeat_timer \<times> ('n, 'l) client_state \<Rightarrow> bool" where
  "refused_is_over recs = (\<lambda>(this, w).
     refused \<in> set (recs (running_log w)) \<longrightarrow> stop_client w \<and> \<not> waiting this)"

lemma refused_is_over_step:
  assumes "timer_step (this, w) e (x, this', w')" "refused_is_over recs (this, w)"
    and "repeat_work this = Some (client_task env asio host port key)"
    and "log_contract (client_logger env) recs"
  shows "refused_is_over recs (this', w') \<and> repeat_work this' = repeat_work this"
  using assms(1)
proof cases
  case (fires inputs during between)
  have w: "work inputs during between (this\<lparr>waiting := False\<rparr>, w) = (x, this', w')" using fires by simp
  have "repeat_work (this\<lparr>waiting := False\<rparr>) = Some (client_task env asio host port key)"
    using assms(3) by simp
  then obtain w2 where w2: "client_task env asio host port key inputs (tell ''Calling user work.'' w) = (x, w2)"
    "running_log w' = running_log w2" "stop_client w2 \<longrightarrow> stop_client w'"
    using work_round [OF w] by metis
  have "refused \<notin> set (recs (running_log w))"
    using assms(2) fires by (auto simp: refused_is_over_def)
  then have "refused \<in> set (recs (running_log w')) \<Longrightarrow> stop_client w'"
    using client_task_log [OF assms(4) w2(1)] w2(2,3) by auto
  then show ?thesis using work_timer [OF w] by (auto simp: refused_is_over_def)
next
  case user_stops
  then show ?thesis using assms(2) by (auto simp: refused_is_over_def)
qed

text \<open>
  C12. A client that has been refused stops by itself: in every state of every run of the task in
  which the fatal message is in the log, the stop flag is set and the timer is not waiting, so no
  further line is ever sent.
\<close>

theorem refused_client_stops:
  assumes "log_contract (client_logger env) recs" "refused \<notin> set (recs (running_log w))"
    and "timer_runs (client_timer env asio host port key now w) es (x, this, w')"
    and "refused \<in> set (recs (running_log w'))"
  shows "stop_client w' \<and> \<not> waiting this \<and> (\<forall>es' r. timer_runs (this, w') es' r \<longrightarrow> fire_times es' = [])"
proof -
  have inv: "refused_is_over recs (snd r)"
    if "timer_runs c es r" "refused_is_over recs c"
      "repeat_work (fst c) = Some (client_task env asio host port key)" for c es r
    using that
  proof (induction rule: timer_runs.induct)
    case (timer_throw c e f c')
    obtain this1 w1 this2 w2 where cs: "c = (this1, w1)" "c' = (this2, w2)" by (cases c, cases c')
    show ?case
      using refused_is_over_step [OF timer_throw(1) [unfolded cs], of recs env asio host port key]
        timer_throw(2,3) assms(1) by (simp add: cs)
  next
    case (timer_Cons c e c' es r)
    obtain this1 w1 this2 w2 where cs: "c = (this1, w1)" "c' = (this2, w2)" by (cases c, cases c')
    show ?case
      using refused_is_over_step [OF timer_Cons(1) [unfolded cs], of recs env asio host port key]
        timer_Cons(3-5) assms(1) by (simp add: cs)
  qed simp
  obtain this0 w0 where c: "client_timer env asio host port key now w = (this0, w0)"
    by (cases "client_timer env asio host port key now w")
  have "stop_client w' \<and> \<not> waiting this"
    using inv [OF assms(3)] client_timer_simps [OF c] c assms(2,4) by (auto simp: refused_is_over_def)
  then show ?thesis using idle_timer_never_fires [of "(this, w')"] by auto
qed


lemma prompts_simps [simp]: "cerr (prompts n con) = cerr con"
  by (simp add: prompts_def)



section \<open>Instances\<close>

definition client_env_ref :: "(int, (trivial_level \<times> string) list) client_env" where
  "client_env_ref = \<lparr>random_lib = random_ref, local_time = (\<lambda>_. Some test_tm),
     client_logger = boost_logger_vtable list_log\<rparr>"

definition recs_ref :: "(trivial_level \<times> string) list \<Rightarrow> (logger_severity \<times> string) list" where
  "recs_ref l = map (\<lambda>(lvl, msg). (severity_of_level lvl, msg)) l"

definition input_ref :: task_input where
  "input_ref = \<lparr>seed_time = 0, line_time = 0, reply_garbage = (NUL, NUL, NUL)\<rparr>"

definition client_ref :: "string \<Rightarrow> (wire, (trivial_level \<times> string) list) client_state" where
  "client_ref answers = client_world_init \<lparr>wire_in = answers, wire_out = []\<rparr> []"

lemma log_contract_ref: "log_contract (client_logger client_env_ref) recs_ref"
  using list_log.logger_is_log by (simp add: client_env_ref_def recs_ref_def [abs_def])

lemma log_ref_simps [simp]:
  "client_logger client_env_ref = boost_logger_vtable list_log"
  "log_message (boost_logger_vtable list_log) info msg l = l @ [(Trivial_info, msg)]"
  "log_message (boost_logger_vtable list_log) fatal msg l = l @ [(Trivial_fatal, msg)]"
  "reply_garbage input_ref = (NUL, NUL, NUL)"
  by (simp_all add: client_env_ref_def boost_logger_vtable_def list_log_def input_ref_def)

lemma generate_ref:
  "\<exists>line. generate_random_sys_info_data (random_lib client_env_ref) (local_time client_env_ref)
     (seed_time input_ref) (line_time input_ref) ''jill'' = Inr line"
  by (simp add: client_env_ref_def generate_random_sys_info_data_def Let_def split_beta asctime_def test_tm_normal)

lemma client_round_ref:
  assumes "c \<in> {CHR ''0'', CHR ''2''}" "network w = \<lparr>wire_in = [c], wire_out = []\<rparr>"
  shows "\<exists>w'. client_task client_env_ref asio_ref ''localhost'' ''1335'' ''jill'' input_ref w = (None, w')
    \<and> stop_client w' = (stop_client w \<or> c = CHR ''2'')
    \<and> (c = CHR ''2'' \<longrightarrow> refused \<in> set (recs_ref (running_log w')))"
proof -
  obtain line where "generate_random_sys_info_data (random_lib client_env_ref) (local_time client_env_ref)
     (seed_time input_ref) (line_time input_ref) ''jill'' = Inr line" using generate_ref by blast
  then show ?thesis using assms
    by (auto simp: client_task_def task_on_def Let_def sys_info_client_request_def asio_ref_def
        client_connect_def client_write_def client_read_def client_delete_def handle_reply_def
        reply_verdict_char leave_scope_def recs_ref_def refused_def)
qed


lemma client_run_ref:
  assumes "c \<in> {CHR ''0'', CHR ''2''}" "network w = \<lparr>wire_in = [c], wire_out = []\<rparr>"
    and "stop_client w \<or> c = CHR ''2''"
  shows "\<exists>this w'. timer_runs (client_timer client_env_ref asio_ref ''localhost'' ''1335'' ''jill'' 0 w)
      [Fires 60 input_ref False False] (None, this, w') \<and> \<not> waiting this
    \<and> (c = CHR ''2'' \<longrightarrow> refused \<in> set (recs_ref (running_log w')))"
proof -
  obtain this0 w0 where t: "client_timer client_env_ref asio_ref ''localhost'' ''1335'' ''jill'' 0 w = (this0, w0)"
    by (cases "client_timer client_env_ref asio_ref ''localhost'' ''1335'' ''jill'' 0 w")
  note t0 = client_timer_simps [OF t]
  obtain w1 where w1: "client_task client_env_ref asio_ref ''localhost'' ''1335'' ''jill'' input_ref
      (tell ''Calling user work.'' w0) = (None, w1)" "stop_client w1"
    "c = CHR ''2'' \<longrightarrow> refused \<in> set (recs_ref (running_log w1))"
    using client_round_ref [OF assms(1), of "tell ''Calling user work.'' w0"] assms(2,3) t0 by auto
  let ?w2 = "tell ''Stopping timer.'' (tell ''Stop? : 1'' w1)"
  have "work input_ref False False (this0\<lparr>waiting := False\<rparr>, w0) = (None, this0\<lparr>waiting := False\<rparr>, ?w2)"
    using w1 t0(4) by (simp add: work_def Let_def user_sets_def)
  then have "timer_step (this0, w0) (Fires 60 input_ref False False) (None, this0\<lparr>waiting := False\<rparr>, ?w2)"
    using fires [OF t0(1), of w0 input_ref False False] t0(3) by simp
  from timer_Cons [OF this timer_Nil] show ?thesis
    unfolding t by (intro exI [of _ "this0\<lparr>waiting := False\<rparr>"] exI [of _ ?w2]) (simp add: w1(3))
qed

lemma async_run_ref:
  assumes "c \<in> {CHR ''0'', CHR ''2''}" "network w = \<lparr>wire_in = [c], wire_out = []\<rparr>"
    and "stop_client w \<or> c = CHR ''2''"
  shows "\<exists>w'. async_client_task client_env_ref asio_ref ''localhost'' ''1335'' ''jill'' 0 w
      [Fires 60 input_ref False False] (None, w')"
proof -
  obtain this w' where "timer_runs (client_timer client_env_ref asio_ref ''localhost'' ''1335'' ''jill'' 0 w)
      [Fires 60 input_ref False False] (None, this, w')" "\<not> waiting this"
    using client_run_ref [OF assms] by blast
  from task_over [OF this(1)] this(2) show ?thesis by auto
qed

lemma client_ref_simps [simp]:
  "network (client_ref a) = \<lparr>wire_in = a, wire_out = []\<rparr>" "running_log (client_ref a) = []"
  by (simp_all add: client_ref_def client_world_init_def)


lemma stack_garbage_hides_refusal_witness:
  "reply_verdict ''2xy'' = Inr Sent
   \<and> handle_reply (boost_logger_vtable list_log) [] ''2xy'' (client_ref []) =
       (Some (Undefined Buffer_overread), client_ref [])"
  using stack_garbage_hides_refusal [of "CHR ''x''" "CHR ''2''" "CHR ''y''"] by simp

lemma client_sends_one_line_a_round_witness:
  "\<exists>es w' lines. async_client_task client_env_ref asio_ref ''localhost'' ''1335'' ''jill'' 0 (client_ref ''2'') es (None, w')
     \<and> length lines = 1 \<and> wire_out (network w') = concat lines"
proof -
  obtain w' where run: "async_client_task client_env_ref asio_ref ''localhost'' ''1335'' ''jill'' 0 (client_ref ''2'')
      [Fires 60 input_ref False False] (None, w')"
    using async_run_ref [of "CHR ''2''" "client_ref ''2''"] by auto
  from client_sends_one_line_a_round [OF loopback.asio_stream_axioms run]
  obtain lines where "length lines = 1" "wire_out (network w') = concat lines"
    by (auto dest: list_all2_lengthD)
  with run show ?thesis by blast
qed

lemma deferred_client_sends_once_witness:
  "\<exists>es w'. async_client_task client_env_ref asio_ref ''localhost'' ''1335'' ''jill'' 0
       ((client_ref ''0'')\<lparr>stop_client := True\<rparr>) es (None, w') \<and> fire_times es = [0 + 60]"
proof -
  obtain w' where run: "async_client_task client_env_ref asio_ref ''localhost'' ''1335'' ''jill'' 0
      ((client_ref ''0'')\<lparr>stop_client := True\<rparr>) [Fires 60 input_ref False False] (None, w')"
    using async_run_ref [of "CHR ''0''" "(client_ref ''0'')\<lparr>stop_client := True\<rparr>"] by auto
  from deferred_client_sends_once [OF run] run show ?thesis by auto
qed

lemma refused_client_stops_witness:
  "\<exists>es this w'. timer_runs (client_timer client_env_ref asio_ref ''localhost'' ''1335'' ''jill'' 0 (client_ref ''2'')) es (None, this, w')
     \<and> stop_client w' \<and> \<not> waiting this"
proof -
  obtain this w' where run: "timer_runs (client_timer client_env_ref asio_ref ''localhost'' ''1335'' ''jill'' 0 (client_ref ''2''))
      [Fires 60 input_ref False False] (None, this, w')" "refused \<in> set (recs_ref (running_log w'))"
    using client_run_ref [of "CHR ''2''" "client_ref ''2''"] by auto
  have "refused \<notin> set (recs_ref (running_log (client_ref ''2'')))" by (simp add: recs_ref_def)
  from refused_client_stops [OF log_contract_ref this run] run(1) show ?thesis by blast
qed


end
