(* ===== verification/Catch_Common.thy ===== *)
theory Catch_Common
  imports Boost_Api "HOL-Library.Char_ord" "HOL-Library.List_Lexorder"
begin

text \<open>
  Text and position helpers of the test framework the repository carries in \<open>include/catch.h\<close>
  (version 1.5.8), which decides the verdict of the project's tests: prefix, suffix and search
  on strings, case, trimming, in-place replacement, source positions and the order on them.
  The lemmas tie each of them to an independent description.
\<close>

section \<open>Searching\<close>

text \<open>\<open>std::string::find\<close>: the first position from \<open>pos\<close> on at which \<open>pat\<close> occurs.\<close>

function str_find :: "string \<Rightarrow> string \<Rightarrow> nat \<Rightarrow> nat option" where
  "str_find s pat pos =
     (if length s < pos + length pat then None
      else if take (length pat) (drop pos s) = pat then Some pos
      else str_find s pat (Suc pos))"
  by pat_completeness auto
termination
proof (relation "measure (\<lambda>(s, pat, pos). Suc (length s) - pos)")
  fix s pat :: string and pos
  assume "\<not> length s < pos + length pat"
  then show "((s, pat, Suc pos), (s, pat, pos)) \<in> measure (\<lambda>(s, pat, pos). Suc (length s) - pos)"
    by auto
qed simp

declare str_find.simps [simp del]

definition occurs_at :: "string \<Rightarrow> string \<Rightarrow> nat \<Rightarrow> bool" where
  "occurs_at s pat i \<longleftrightarrow> i + length pat \<le> length s \<and> take (length pat) (drop i s) = pat"

lemma str_find_Some:
  "str_find s pat pos = Some i \<longleftrightarrow> pos \<le> i \<and> occurs_at s pat i \<and> (\<forall>j. pos \<le> j \<and> j < i \<longrightarrow> \<not> occurs_at s pat j)"
proof (induction s pat pos rule: str_find.induct)
  case (1 s pat pos)
  show ?case
  proof (cases "occurs_at s pat pos")
    case True
    then have "str_find s pat pos = Some pos" by (subst str_find.simps) (auto simp: occurs_at_def)
    then show ?thesis using True le_neq_implies_less by (fastforce simp: occurs_at_def)
  next
    case False
    show ?thesis
    proof (cases "length s < pos + length pat")
      case True
      then have "str_find s pat pos = None" by (subst str_find.simps) simp
      moreover have "\<not> occurs_at s pat i" if "pos \<le> i" for i using True that by (auto simp: occurs_at_def)
      ultimately show ?thesis by auto
    next
      case shorter: False
      with False have "str_find s pat pos = str_find s pat (Suc pos)"
        by (subst str_find.simps) (auto simp: occurs_at_def)
      then show ?thesis using 1 shorter False
        by (simp add: occurs_at_def) (metis Suc_le_eq le_neq_implies_less nat_less_le)
    qed
  qed
qed

lemma str_find_None: "str_find s pat pos = None \<longleftrightarrow> (\<forall>i\<ge>pos. \<not> occurs_at s pat i)"
proof
  show "str_find s pat pos = None \<Longrightarrow> \<forall>i\<ge>pos. \<not> occurs_at s pat i"
  proof (rule ccontr)
    assume none: "str_find s pat pos = None" and "\<not> (\<forall>i\<ge>pos. \<not> occurs_at s pat i)"
    then obtain i where i: "pos \<le> i" "occurs_at s pat i" by blast
    let ?i = "LEAST i. pos \<le> i \<and> occurs_at s pat i"
    have "pos \<le> ?i \<and> occurs_at s pat ?i" by (rule LeastI [of _ i]) (use i in auto)
    moreover have "\<forall>j. pos \<le> j \<and> j < ?i \<longrightarrow> \<not> occurs_at s pat j" using not_less_Least by blast
    ultimately have "str_find s pat pos = Some ?i" by (simp only: str_find_Some)
    with none show False by simp
  qed
next
  assume all: "\<forall>i\<ge>pos. \<not> occurs_at s pat i"
  show "str_find s pat pos = None"
  proof (cases "str_find s pat pos")
    case (Some i)
    with all show ?thesis by (auto simp: str_find_Some)
  qed
qed

lemma occurs_at_append: "occurs_at s pat i \<longleftrightarrow> (\<exists>u v. s = u @ pat @ v \<and> length u = i)"
proof
  assume "occurs_at s pat i"
  then have "s = take i s @ pat @ drop (i + length pat) s" "length (take i s) = i"
    by (auto simp: occurs_at_def) (metis append_take_drop_id drop_drop add.commute)
  then show "\<exists>u v. s = u @ pat @ v \<and> length u = i" by blast
qed (auto simp: occurs_at_def)

section \<open>Prefixes, suffixes, infixes\<close>

definition startsWith :: "string \<Rightarrow> string \<Rightarrow> bool" where
  "startsWith s pre \<longleftrightarrow> length s \<ge> length pre \<and> take (length pre) s = pre"

definition endsWith :: "string \<Rightarrow> string \<Rightarrow> bool" where
  "endsWith s suf \<longleftrightarrow> length s \<ge> length suf \<and> take (length suf) (drop (length s - length suf) s) = suf"

definition contains :: "string \<Rightarrow> string \<Rightarrow> bool" where
  "contains s pat \<longleftrightarrow> str_find s pat 0 \<noteq> None"

lemma startsWith_iff: "startsWith s pre \<longleftrightarrow> (\<exists>t. s = pre @ t)"
proof
  assume "startsWith s pre"
  then have "s = pre @ drop (length pre) s" by (metis append_take_drop_id startsWith_def)
  then show "\<exists>t. s = pre @ t" by blast
qed (auto simp: startsWith_def)

lemma endsWith_iff: "endsWith s suf \<longleftrightarrow> (\<exists>t. s = t @ suf)"
proof
  assume "endsWith s suf"
  then have "drop (length s - length suf) s = suf" by (auto simp: endsWith_def)
  then show "\<exists>t. s = t @ suf" by (metis append_take_drop_id)
qed (auto simp: endsWith_def)

lemma contains_iff: "contains s pat \<longleftrightarrow> (\<exists>u v. s = u @ pat @ v)"
  by (auto simp: contains_def str_find_None occurs_at_append)

section \<open>Case\<close>

text \<open>
  \<open>tolower\<close> in the C locale. For a \<open>char\<close> with a negative value the C standard leaves it
  undefined; the model leaves such characters alone, as the usual tables do.
\<close>

definition is_upper :: "char \<Rightarrow> bool" where
  "is_upper c \<longleftrightarrow> 65 \<le> (of_char c :: nat) \<and> (of_char c :: nat) \<le> 90"

definition toLowerCh :: "char \<Rightarrow> char" where
  "toLowerCh c = (if is_upper c then char_of ((of_char c :: nat) + 32) else c)"

definition toLower :: "string \<Rightarrow> string" where
  "toLower s = map toLowerCh s"

definition isalnum :: "char \<Rightarrow> bool" where
  "isalnum c \<longleftrightarrow> is_digit c \<or> is_upper c \<or> 97 \<le> (of_char c :: nat) \<and> (of_char c :: nat) \<le> 122"

lemma toLowerCh_not_upper [simp]: "\<not> is_upper c \<Longrightarrow> toLowerCh c = c"
  by (simp add: toLowerCh_def)

lemma of_char_toLowerCh:
  "(of_char (toLowerCh c) :: nat) = (if is_upper c then of_char c + 32 else of_char c)"
  by (simp add: toLowerCh_def is_upper_def)

lemma toLowerCh_idem [simp]: "toLowerCh (toLowerCh c) = toLowerCh c"
proof (cases "is_upper c")
  case True
  then have "\<not> is_upper (toLowerCh c)" unfolding is_upper_def of_char_toLowerCh by (simp add: is_upper_def)
  then show ?thesis by simp
qed simp

lemma toLower_idem [simp]: "toLower (toLower s) = toLower s"
  by (simp add: toLower_def)

lemma toLower_append [simp]: "toLower (s @ t) = toLower s @ toLower t"
  by (simp add: toLower_def)

lemma length_toLower [simp]: "length (toLower s) = length s"
  by (simp add: toLower_def)

text \<open>A character that is no letter is the lower case of itself only.\<close>

lemma toLowerCh_eq_mark:
  assumes "(of_char d :: nat) < 97"
  shows "toLowerCh c = d \<longleftrightarrow> c = d \<and> \<not> is_upper d"
proof
  assume d: "toLowerCh c = d"
  have "\<not> is_upper c"
  proof
    assume "is_upper c"
    then have "(of_char (toLowerCh c) :: nat) \<ge> 97" by (simp only: of_char_toLowerCh) (simp add: is_upper_def)
    with d assms show False by simp
  qed
  with d show "c = d \<and> \<not> is_upper d" by simp
qed auto


section \<open>Trimming and replacing\<close>

definition whitespaceChars :: string where
  "whitespaceChars = [CHR 0x0A, CHR 0x0D, CHR 0x09, CHR '' '']"

text \<open>\<open>find_first_not_of\<close> and \<open>find_last_not_of\<close>.\<close>

fun find_first_not_of :: "string \<Rightarrow> string \<Rightarrow> nat option" where
  "find_first_not_of [] cs = None"
| "find_first_not_of (c # s) cs = (if c \<in> set cs then map_option Suc (find_first_not_of s cs) else Some 0)"

definition find_last_not_of :: "string \<Rightarrow> string \<Rightarrow> nat option" where
  "find_last_not_of s cs = map_option (\<lambda>i. length s - 1 - i) (find_first_not_of (rev s) cs)"

definition trim :: "string \<Rightarrow> string" where
  "trim str =
     (case find_first_not_of str whitespaceChars of
        None \<Rightarrow> []
      | Some from_pos \<Rightarrow>
          (case find_last_not_of str whitespaceChars of
             None \<Rightarrow> []
           | Some to_pos \<Rightarrow> take (1 + to_pos - from_pos) (drop from_pos str)))"

lemma find_first_not_of_takeWhile:
  "find_first_not_of s cs =
     (if set s \<subseteq> set cs then None else Some (length (takeWhile (\<lambda>c. c \<in> set cs) s)))"
  by (induction s) auto

lemma rev_dropWhile_rev:
  "rev (dropWhile P (rev t)) = take (length t - length (takeWhile P (rev t))) t"
proof -
  have "dropWhile P (rev t) = drop (length (takeWhile P (rev t))) (rev t)"
    by (metis append_eq_conv_conj takeWhile_dropWhile_id)
  then show ?thesis by (simp add: rev_drop)
qed

text \<open>Trimming removes the longest prefix and the longest suffix of white space.\<close>

lemma trim_dropWhile:
  "trim s = rev (dropWhile (\<lambda>c. c \<in> set whitespaceChars) (rev (dropWhile (\<lambda>c. c \<in> set whitespaceChars) s)))"
proof (cases "set s \<subseteq> set whitespaceChars")
  case True
  then have d: "dropWhile (\<lambda>c. c \<in> set whitespaceChars) s = []"
    unfolding dropWhile_eq_Nil_conv by blast
  show ?thesis unfolding d using True by (simp add: trim_def find_first_not_of_takeWhile)
next
  case False
  let ?P = "\<lambda>c. c \<in> set whitespaceChars"
  let ?t = "dropWhile ?P s"
  have ne: "?t \<noteq> []" using False unfolding dropWhile_eq_Nil_conv by blast
  obtain c where c: "c \<in> set ?t" "\<not> ?P c" using hd_in_set [OF ne] hd_dropWhile [OF ne] by blast
  have "rev s = rev ?t @ rev (takeWhile ?P s)" by (metis rev_append takeWhile_dropWhile_id)
  moreover have "takeWhile ?P (rev ?t @ ys) = takeWhile ?P (rev ?t)" for ys
    using c by (intro takeWhile_append1 [of c]) auto
  ultimately have tw: "takeWhile ?P (rev s) = takeWhile ?P (rev ?t)" by simp
  have len: "length s = length (takeWhile ?P s) + length ?t" by (metis length_append takeWhile_dropWhile_id)
  have "takeWhile ?P (rev ?t) \<noteq> rev ?t" using c by (metis set_rev takeWhile_eq_all_conv)
  then have lt: "length (takeWhile ?P (rev ?t)) < length ?t"
    using length_takeWhile_le [of ?P "rev ?t"]
    by (metis length_rev nat_less_le takeWhile_eq_take take_all order_refl)
  have d: "drop (length (takeWhile ?P s)) s = ?t" by (metis append_eq_conv_conj takeWhile_dropWhile_id)
  have "trim s = take (1 + (length s - 1 - length (takeWhile ?P (rev s))) - length (takeWhile ?P s)) ?t"
    using False by (simp add: trim_def find_first_not_of_takeWhile find_last_not_of_def d)
  also have "1 + (length s - 1 - length (takeWhile ?P (rev s))) - length (takeWhile ?P s)
      = length ?t - length (takeWhile ?P (rev ?t))" using lt len unfolding tw by simp
  finally show ?thesis by (simp only: rev_dropWhile_rev)
qed

text \<open>
  The loop of \<open>replaceInPlace\<close>, started at the first occurrence. With an empty text to replace
  it never ends, so it is a partial function.
\<close>

partial_function (option) replace_loop :: "string \<Rightarrow> string \<Rightarrow> string \<Rightarrow> nat \<Rightarrow> string option" where
  "replace_loop str replaceThis withThis i =
     (let str' = take i str @ withThis @ drop (i + length replaceThis) str
      in if i < length str' - length withThis
         then (case str_find str' replaceThis (i + length withThis) of
                 None \<Rightarrow> Some str'
               | Some j \<Rightarrow> replace_loop str' replaceThis withThis j)
         else Some str')"

definition replaceInPlace :: "string \<Rightarrow> string \<Rightarrow> string \<Rightarrow> (bool \<times> string) option" where
  "replaceInPlace str replaceThis withThis =
     (case str_find str replaceThis 0 of
        None \<Rightarrow> Some (False, str)
      | Some i \<Rightarrow> map_option (Pair True) (replace_loop str replaceThis withThis i))"


lemma starts_with_iff: "starts_with p s \<longleftrightarrow> (\<exists>t. s = p @ t)"
  by (induction p s rule: starts_with.induct) auto

lemma str_find_shift: "str_find (x @ v) pat (length x + k) = map_option ((+) (length x)) (str_find v pat k)"
proof (induction v pat k rule: str_find.induct)
  case (1 v pat k)
  then show ?case
    by (subst (1 2) str_find.simps) auto
qed

lemma str_find_Cons:
  "str_find (c # s) pat 0 = (if starts_with pat (c # s) then Some 0 else map_option Suc (str_find s pat 0))"
proof -
  have "starts_with pat (c # s) \<longleftrightarrow> length pat \<le> Suc (length s) \<and> take (length pat) (c # s) = pat"
    unfolding starts_with_iff by (metis append_eq_conv_conj append_take_drop_id length_Cons length_append le_add1)
  moreover have "str_find s pat 0 = None" if "Suc (length s) < length pat"
    using that by (simp add: str_find.simps)
  moreover have "str_find (c # s) pat (Suc 0) = map_option Suc (str_find s pat 0)"
    using str_find_shift [of "[c]" s pat 0] by (simp add: map_option_case split: option.splits)
  ultimately show ?thesis by (subst str_find.simps) auto
qed

lemma replace_ref_find:
  assumes "pat \<noteq> []"
  shows "replace_ref v pat w = (case str_find v pat 0 of
      None \<Rightarrow> v | Some k \<Rightarrow> take k v @ w @ replace_ref (drop (k + length pat) v) pat w)"
proof (induction v)
  case Nil
  then show ?case using assms by (simp add: str_find.simps)
next
  case (Cons c v)
  then show ?case using assms by (auto simp: str_find_Cons split: option.splits)
qed

lemma replace_loop_replaces:
  assumes "pat \<noteq> []"
  shows "replace_loop (u @ pat @ v) pat w (length u) = Some (u @ w @ replace_ref v pat w)"
proof (induction "length v" arbitrary: u v rule: less_induct)
  case less
  have str': "take (length u) (u @ pat @ v) @ w @ drop (length u + length pat) (u @ pat @ v) = u @ w @ v" by simp
  have find: "str_find (u @ w @ v) pat (length u + length w) = map_option ((+) (length u + length w)) (str_find v pat 0)"
    using str_find_shift [of "u @ w" v pat 0] by simp
  show ?case
  proof (cases "str_find v pat 0")
    case None
    then have "replace_ref v pat w = v" by (subst replace_ref_find [OF assms]) simp
    then show ?thesis by (subst replace_loop.simps) (simp add: str' find None Let_def)
  next
    case (Some k)
    then have k: "occurs_at v pat k" by (simp add: str_find_Some)
    then obtain a b where v: "v = a @ pat @ b" "length a = k" by (auto simp: occurs_at_append)
    have "replace_loop (u @ w @ v) pat w (length (u @ w @ a)) = Some (u @ w @ a @ w @ replace_ref b pat w)"
      using less [of b "u @ w @ a"] assms by (simp add: v)
    moreover have "replace_ref v pat w = a @ w @ replace_ref b pat w"
      using Some by (subst replace_ref_find [OF assms]) (simp add: v)
    moreover have "v \<noteq> []" using v assms by simp
    ultimately show ?thesis
      using v(2) by (subst replace_loop.simps) (simp add: str' find Some Let_def add.assoc)
  qed
qed

text \<open>
  In-place replacement of a text that is not empty terminates, tells whether the text occurred,
  and replaces its occurrences from left to right, never looking into what it has put in.
\<close>

lemma replaceInPlace_replaces:
  assumes "pat \<noteq> []"
  shows "replaceInPlace s pat w = Some (contains s pat, replace_ref s pat w)"
proof (cases "str_find s pat 0")
  case None
  then have "replace_ref s pat w = s" by (subst replace_ref_find [OF assms]) simp
  then show ?thesis using None by (simp add: replaceInPlace_def contains_def)
next
  case (Some k)
  then have "occurs_at s pat k" by (simp add: str_find_Some)
  then obtain a b where s: "s = a @ pat @ b" "length a = k" by (auto simp: occurs_at_append)
  have "replace_ref s pat w = a @ w @ replace_ref b pat w"
    using Some by (subst replace_ref_find [OF assms]) (simp add: s)
  then show ?thesis
    using Some replace_loop_replaces [OF assms, of a b w] s by (simp add: replaceInPlace_def contains_def)
qed

section \<open>Source positions\<close>

datatype source_line_info = SourceLineInfo (sli_file: string) (sli_line: nat)

definition source_line_empty :: "source_line_info \<Rightarrow> bool" where
  "source_line_empty i \<longleftrightarrow> sli_file i = []"

definition show_source_line :: "source_line_info \<Rightarrow> string" where
  "show_source_line i = sli_file i @ '':'' @ dec (sli_line i)"

definition source_line_before :: "source_line_info \<Rightarrow> source_line_info \<Rightarrow> bool" where
  "source_line_before a b \<longleftrightarrow> sli_line a < sli_line b \<or> (sli_line a = sli_line b \<and> sli_file a < sli_file b)"

text \<open>The operator orders the positions linearly.\<close>

instantiation source_line_info :: linorder
begin

definition less_source_line_info :: "source_line_info \<Rightarrow> source_line_info \<Rightarrow> bool" where
  "less_source_line_info a b \<longleftrightarrow> source_line_before a b"

definition less_eq_source_line_info :: "source_line_info \<Rightarrow> source_line_info \<Rightarrow> bool" where
  "less_eq_source_line_info a b \<longleftrightarrow> a = b \<or> a < b"

instance
  by standard
    (auto simp: source_line_before_def less_source_line_info_def less_eq_source_line_info_def,
     metis linorder_neqE source_line_info.expand)

end

definition throwLogicError :: "string \<Rightarrow> source_line_info \<Rightarrow> 'a res" where
  "throwLogicError message locationInfo =
     Inl (Throws (Exn (show_source_line locationInfo @ '': Internal Catch error: '' @ [CHR 0x27] @ message @ [CHR 0x27])))"

definition pluralise :: "nat \<Rightarrow> string \<Rightarrow> string" where
  "pluralise count label = dec count @ '' '' @ label @ (if count \<noteq> 1 then ''s'' else [])"

end
