(* ===== verification/Catch_Selection.thy ===== *)
theory Catch_Selection
  imports Catch_Common
begin

text \<open>
  Which test cases a run of the framework executes (\<open>include/catch.h\<close>): the patterns a test
  specification is made of, the parser of specifications, tag aliases, and the description of a
  test case with its tags and the properties that follow from them. A pattern is proved against
  a reference matcher for wildcards, and the parser against a printer.
\<close>

lemma startsWith_char: "startsWith s [c] \<longleftrightarrow> s \<noteq> [] \<and> hd s = c"
  by (cases s) (auto simp: startsWith_def)

lemma endsWith_char: "endsWith s [c] \<longleftrightarrow> s \<noteq> [] \<and> last s = c"
  by (cases s rule: rev_cases) (auto simp: endsWith_iff)

unbundle bit_operations_syntax

section \<open>Wildcard patterns\<close>

datatype wildcard_position = NoWildcard | WildcardAtStart | WildcardAtEnd | WildcardAtBothEnds

text \<open>The bitwise or of two positions.\<close>

fun at_end_too :: "wildcard_position \<Rightarrow> wildcard_position" where
  "at_end_too NoWildcard = WildcardAtEnd"
| "at_end_too WildcardAtStart = WildcardAtBothEnds"
| "at_end_too WildcardAtEnd = WildcardAtEnd"
| "at_end_too WildcardAtBothEnds = WildcardAtBothEnds"

record wildcard_pattern =
  m_caseSensitive :: bool
  m_wildcard :: wildcard_position
  m_pattern :: string

definition adjustCase :: "bool \<Rightarrow> string \<Rightarrow> string" where
  "adjustCase caseSensitive str = (if caseSensitive then str else toLower str)"

definition makeWildcardPattern :: "string \<Rightarrow> bool \<Rightarrow> wildcard_pattern" where
  "makeWildcardPattern pattern caseSensitive =
     (let p0 = \<lparr>m_caseSensitive = caseSensitive, m_wildcard = NoWildcard,
                m_pattern = adjustCase caseSensitive pattern\<rparr>;
          p1 = (if startsWith (m_pattern p0) ''*''
                then p0\<lparr>m_pattern := drop 1 (m_pattern p0), m_wildcard := WildcardAtStart\<rparr> else p0)
      in if endsWith (m_pattern p1) ''*''
         then p1\<lparr>m_pattern := take (length (m_pattern p1) - 1) (m_pattern p1),
                 m_wildcard := at_end_too (m_wildcard p1)\<rparr> else p1)"

definition wildcard_matches :: "wildcard_pattern \<Rightarrow> string \<Rightarrow> bool" where
  "wildcard_matches p str =
     (let s = adjustCase (m_caseSensitive p) str
      in case m_wildcard p of
           NoWildcard \<Rightarrow> m_pattern p = s
         | WildcardAtStart \<Rightarrow> endsWith s (m_pattern p)
         | WildcardAtEnd \<Rightarrow> startsWith s (m_pattern p)
         | WildcardAtBothEnds \<Rightarrow> contains s (m_pattern p))"

text \<open>The reference: a star stands for any text, anywhere in the pattern.\<close>

fun glob :: "string \<Rightarrow> string \<Rightarrow> bool" where
  "glob [] s \<longleftrightarrow> s = []"
| "glob (p # ps) s \<longleftrightarrow>
     (if p = CHR ''*'' then list_ex (\<lambda>k. glob ps (drop k s)) [0..<Suc (length s)]
      else (case s of [] \<Rightarrow> False | c # cs \<Rightarrow> c = p \<and> glob ps cs))"

lemma glob_plain: "CHR ''*'' \<notin> set lit \<Longrightarrow> glob (lit @ ps) s \<longleftrightarrow> (\<exists>t. s = lit @ t \<and> glob ps t)"
  by (induction lit arbitrary: s) (auto split: list.splits)

lemma glob_star: "glob (CHR ''*'' # ps) s \<longleftrightarrow> (\<exists>u t. s = u @ t \<and> glob ps t)"
proof
  show "glob (CHR ''*'' # ps) s \<Longrightarrow> \<exists>u t. s = u @ t \<and> glob ps t"
    by (auto simp: list_ex_iff) (metis append_take_drop_id)+
next
  assume "\<exists>u t. s = u @ t \<and> glob ps t"
  then obtain u t where "s = u @ t" "glob ps t" by blast
  then have "length u \<in> set [0..<Suc (length s)] \<and> glob ps (drop (length u) s)" by simp
  then show "glob (CHR ''*'' # ps) s" unfolding glob.simps(2) list_ex_iff by auto
qed

lemma glob_end_star: "CHR ''*'' \<notin> set lit \<Longrightarrow> glob (lit @ ''*'') s \<longleftrightarrow> startsWith s lit"
  by (simp add: glob_plain glob_star startsWith_iff)

lemma glob_literal: "CHR ''*'' \<notin> set lit \<Longrightarrow> glob lit s \<longleftrightarrow> lit = s"
  using glob_plain [of lit "[]" s] by auto

lemma toLower_star [simp]: "CHR ''*'' \<in> set (toLower s) \<longleftrightarrow> CHR ''*'' \<in> set s"
proof -
  have "toLowerCh c = CHR ''*'' \<longleftrightarrow> c = CHR ''*''" for c
    using toLowerCh_eq_mark [of "CHR ''*''" c] by (simp add: is_upper_def)
  then show ?thesis unfolding toLower_def set_map image_iff by metis
qed

lemma adjustCase_simps [simp]:
  "adjustCase cs (s @ t) = adjustCase cs s @ adjustCase cs t" "adjustCase cs ''*'' = ''*''" "adjustCase cs [] = []"
  "adjustCase cs (CHR ''*'' # s) = CHR ''*'' # adjustCase cs s" "length (adjustCase cs s) = length s"
  by (simp_all add: adjustCase_def toLower_def toLowerCh_def is_upper_def)

lemma adjustCase_star [simp]: "CHR ''*'' \<in> set (adjustCase cs s) \<longleftrightarrow> CHR ''*'' \<in> set s"
  by (simp add: adjustCase_def)

definition stars :: "bool \<Rightarrow> string" where
  "stars b = (if b then ''*'' else [])"

lemma makeWildcardPattern_stars:
  assumes "CHR ''*'' \<notin> set lit" "lit \<noteq> []"
  shows "makeWildcardPattern (stars front @ lit @ stars behind) cs =
     \<lparr>m_caseSensitive = cs,
      m_wildcard = (if front then if behind then WildcardAtBothEnds else WildcardAtStart
                    else if behind then WildcardAtEnd else NoWildcard),
      m_pattern = adjustCase cs lit\<rparr>"
proof -
  let ?L = "adjustCase cs lit"
  have L: "CHR ''*'' \<notin> set ?L" "?L \<noteq> []" using assms adjustCase_simps(5) [of cs lit] by (simp, force)
  have "hd ?L \<noteq> CHR ''*''" "last ?L \<noteq> CHR ''*''"
    using L hd_in_set [of ?L] last_in_set [of ?L] by metis+
  then show ?thesis
    using L(2) by (cases front; cases behind)
      (auto simp: makeWildcardPattern_def stars_def startsWith_char endsWith_char Let_def)
qed

text \<open>
  C26. A wildcard pattern, a text without stars that may have one star in front and one behind,
  matches exactly the texts the reference matcher accepts, up to case when the pattern is not
  case sensitive.
\<close>

theorem wildcard_is_glob:
  assumes "CHR ''*'' \<notin> set lit"
  shows "wildcard_matches (makeWildcardPattern (stars front @ lit @ stars behind) cs) s \<longleftrightarrow>
     glob (stars front @ adjustCase cs lit @ stars behind) (adjustCase cs s)"
proof (cases "lit = []")
  case True
  then show ?thesis
    by (cases front; cases behind)
       (auto simp: stars_def makeWildcardPattern_def wildcard_matches_def startsWith_def endsWith_def
         contains_iff glob_star Let_def simp del: glob.simps(2))
next
  case False
  have L: "CHR ''*'' \<notin> set (adjustCase cs lit)" using assms by simp
  show ?thesis
    unfolding makeWildcardPattern_stars [OF assms False]
    by (cases front; cases behind)
       (auto simp: stars_def wildcard_matches_def glob_star glob_end_star [OF L] glob_literal [OF L]
         startsWith_iff endsWith_iff contains_iff glob_plain [OF L] simp del: glob.simps(2))
qed

lemma wildcard_is_glob_witness:
  "wildcard_matches (makeWildcardPattern ''*utils*'' True) ''in utils test'' \<longleftrightarrow> glob ''*utils*'' ''in utils test''"
  using wildcard_is_glob [of "''utils''" True True True "''in utils test''"]
  by (simp add: stars_def adjustCase_def del: glob.simps)


section \<open>Test cases and their tags\<close>

text \<open>
  \<open>TestCaseInfo\<close>. A \<open>std::set\<close> is a finite set here; where the code iterates over it, the
  elements come in increasing order. The properties are a bit field.
\<close>

type_synonym special_properties = "32 word"

definition IsHidden :: special_properties where "IsHidden = 2"
definition ShouldFail :: special_properties where "ShouldFail = 4"
definition MayFail :: special_properties where "MayFail = 8"
definition ThrowsException :: special_properties where "ThrowsException = 16"

record test_case_info =
  tc_name :: string
  className :: string
  description :: string
  tags :: "string set"
  lcaseTags :: "string set"
  tagsAsString :: string
  lineInfo :: source_line_info
  properties :: special_properties

text \<open>A \<open>TestCase\<close> adds the function to run.\<close>

record 'b test_case = test_case_info +
  test_body :: 'b

definition parseSpecialTag :: "string \<Rightarrow> special_properties" where
  "parseSpecialTag tag =
     (if startsWith tag ''.'' \<or> tag = ''hide'' \<or> tag = ''!hide'' then IsHidden
      else if tag = ''!throws'' then ThrowsException
      else if tag = ''!shouldfail'' then ShouldFail
      else if tag = ''!mayfail'' then MayFail
      else 0)"

definition isReservedTag :: "string \<Rightarrow> bool" where
  "isReservedTag tag \<longleftrightarrow> parseSpecialTag tag = 0 \<and> 0 < length tag \<and> \<not> isalnum (hd tag)"

text \<open>A reserved tag ends the process with status 1, after a message.\<close>

definition enforceNotReservedTag :: "string \<Rightarrow> source_line_info \<Rightarrow> string + unit" where
  "enforceNotReservedTag tag li =
     (if isReservedTag tag
      then Inl (''Tag name ['' @ tag @ ''] not allowed.'' @ [CHR 0x0A]
        @ ''Tag names starting with non alpha-numeric characters are reserved'' @ [CHR 0x0A] @ show_source_line li)
      else Inr ())"

definition setTags :: "string set \<Rightarrow> 'b test_case \<Rightarrow> 'b test_case" where
  "setTags ts tc =
     (let ordered = sorted_list_of_set ts
      in tc\<lparr>tags := ts,
            properties := fold (\<lambda>t p. p OR parseSpecialTag (toLower t)) ordered (properties tc),
            lcaseTags := set (map toLower ordered),
            tagsAsString := concat (map (\<lambda>t. ''['' @ t @ '']'') ordered)\<rparr>)"

definition makeTestCaseInfo ::
    "string \<Rightarrow> string \<Rightarrow> string \<Rightarrow> string set \<Rightarrow> source_line_info \<Rightarrow> 'b \<Rightarrow> 'b test_case" where
  "makeTestCaseInfo name cls descr ts li body =
     setTags ts \<lparr>tc_name = name, className = cls, description = descr, tags = {}, lcaseTags = {},
       tagsAsString = [], lineInfo = li, properties = 0, test_body = body\<rparr>"

definition isHidden :: "'b test_case \<Rightarrow> bool" where
  "isHidden tc \<longleftrightarrow> properties tc AND IsHidden \<noteq> 0"

definition throws_exception :: "'b test_case \<Rightarrow> bool" where
  "throws_exception tc \<longleftrightarrow> properties tc AND ThrowsException \<noteq> 0"

definition okToFail :: "'b test_case \<Rightarrow> bool" where
  "okToFail tc \<longleftrightarrow> properties tc AND (ShouldFail OR MayFail) \<noteq> 0"

definition expectedToFail :: "'b test_case \<Rightarrow> bool" where
  "expectedToFail tc \<longleftrightarrow> properties tc AND ShouldFail \<noteq> 0"

text \<open>The loop over the characters of the description: text, tag, flag, and what was found so far.\<close>

fun scan_tags ::
    "source_line_info \<Rightarrow> string \<Rightarrow> bool \<Rightarrow> string \<Rightarrow> string \<Rightarrow> bool \<Rightarrow> string set
     \<Rightarrow> string + (string \<times> bool \<times> string set)" where
  "scan_tags li [] inTag desc tag hidden ts = Inr (desc, hidden, ts)"
| "scan_tags li (c # cs) inTag desc tag hidden ts =
     (if \<not> inTag then
        if c = CHR ''['' then scan_tags li cs True desc tag hidden ts
        else scan_tags li cs False (desc @ [c]) tag hidden ts
      else if c = CHR '']'' then
        (let prop = parseSpecialTag tag
         in if prop = IsHidden then scan_tags li cs False desc [] True (insert tag ts)
            else if prop = 0 then
              (case enforceNotReservedTag tag li of
                 Inl msg \<Rightarrow> Inl msg
               | Inr u \<Rightarrow> scan_tags li cs False desc [] hidden (insert tag ts))
            else scan_tags li cs False desc [] hidden (insert tag ts))
      else scan_tags li cs True desc (tag @ [c]) hidden ts)"

definition makeTestCase ::
    "'b \<Rightarrow> string \<Rightarrow> string \<Rightarrow> string \<Rightarrow> source_line_info \<Rightarrow> string + 'b test_case" where
  "makeTestCase body cls name descOrTags li =
     (case scan_tags li descOrTags False [] [] (startsWith name ''./'') {} of
        Inl msg \<Rightarrow> Inl msg
      | Inr (desc, hidden, ts) \<Rightarrow>
          Inr (makeTestCaseInfo name cls desc (if hidden then ts \<union> {''hide'', ''.''} else ts) li body))"

definition withName :: "string \<Rightarrow> 'b test_case \<Rightarrow> 'b test_case" where
  "withName newName tc = tc\<lparr>tc_name := newName\<rparr>"

definition test_case_less :: "'b test_case \<Rightarrow> 'b test_case \<Rightarrow> bool" where
  "test_case_less a b \<longleftrightarrow> tc_name a < tc_name b"

definition test_case_eq :: "'b test_case \<Rightarrow> 'b test_case \<Rightarrow> bool" where
  "test_case_eq a b \<longleftrightarrow> test_body a = test_body b \<and> tc_name a = tc_name b \<and> className a = className b"

text \<open>Setting tags collects their properties.\<close>

lemma fold_or: "fold (\<lambda>t p. p OR f t) xs p = p OR fold (\<lambda>t p. p OR f t) xs 0" for p :: "32 word"
proof (induction xs arbitrary: p)
  case (Cons x xs)
  show ?case using Cons [of "p OR f x"] Cons [of "0 OR f x"] by (simp add: or.assoc)
qed simp

lemma and_fold_or:
  "fold (\<lambda>t p. p OR f t) xs 0 AND m \<noteq> 0 \<longleftrightarrow> (\<exists>t\<in>set xs. f t AND m \<noteq> 0)" for m :: "32 word"
proof (induction xs)
  case (Cons x xs)
  have "fold (\<lambda>t p. p OR f t) (x # xs) 0 = f x OR fold (\<lambda>t p. p OR f t) xs 0"
    using fold_or [of f xs "f x"] by simp
  moreover have "(a OR b) AND m \<noteq> 0 \<longleftrightarrow> a AND m \<noteq> 0 \<or> b AND m \<noteq> 0" for a b :: "32 word"
    by (simp add: bit.conj_disj_distrib2 or_eq_0_iff)
  ultimately show ?case using Cons by auto
qed simp

lemma parseSpecialTag_bits:
  "parseSpecialTag t AND IsHidden \<noteq> 0 \<longleftrightarrow> parseSpecialTag t = IsHidden"
  "parseSpecialTag t AND ShouldFail \<noteq> 0 \<longleftrightarrow> parseSpecialTag t = ShouldFail"
  "parseSpecialTag t AND MayFail \<noteq> 0 \<longleftrightarrow> parseSpecialTag t = MayFail"
  "parseSpecialTag t AND ThrowsException \<noteq> 0 \<longleftrightarrow> parseSpecialTag t = ThrowsException"
  by (simp_all add: parseSpecialTag_def IsHidden_def ShouldFail_def MayFail_def ThrowsException_def)


lemma properties_of_tags:
  assumes "finite ts" "m \<in> {IsHidden, ShouldFail, MayFail, ThrowsException}"
  shows "properties (makeTestCaseInfo name cls descr ts li body) AND m \<noteq> 0 \<longleftrightarrow>
     (\<exists>t\<in>ts. parseSpecialTag (toLower t) = m)"
proof -
  have "properties (makeTestCaseInfo name cls descr ts li body) AND m \<noteq> 0 \<longleftrightarrow>
      (\<exists>t\<in>set (sorted_list_of_set ts). parseSpecialTag (toLower t) AND m \<noteq> 0)"
    unfolding and_fold_or [symmetric] by (simp add: makeTestCaseInfo_def setTags_def Let_def)
  then show ?thesis using assms by (auto simp: parseSpecialTag_bits)
qed

lemma makeTestCaseInfo_simps [simp]:
  "tc_name (makeTestCaseInfo name cls descr ts li body) = name"
  "tags (makeTestCaseInfo name cls descr ts li body) = ts"
  "finite ts \<Longrightarrow> lcaseTags (makeTestCaseInfo name cls descr ts li body) = toLower ` ts"
  by (simp_all add: makeTestCaseInfo_def setTags_def Let_def)

lemma scan_tags_finite:
  "scan_tags li cs inTag desc tag hidden ts = Inr (d, h, ts') \<Longrightarrow> finite ts \<Longrightarrow> finite ts'"
  by (induction li cs inTag desc tag hidden ts rule: scan_tags.induct)
     (auto simp: Let_def split: if_splits sum.splits)

lemma scan_tags_mono:
  "scan_tags li cs inTag desc tag hidden ts = Inr (d, h, ts') \<Longrightarrow> ts \<subseteq> ts'"
  by (induction li cs inTag desc tag hidden ts rule: scan_tags.induct)
     (auto simp: Let_def split: if_splits sum.splits)

lemma scan_tags_hidden:
  assumes "scan_tags li cs inTag desc tag hidden ts = Inr (d, h, ts')"
    "(\<exists>t\<in>ts. parseSpecialTag t = IsHidden) \<longrightarrow> hidden"
  shows "h \<longleftrightarrow> hidden \<or> (\<exists>t\<in>ts'. parseSpecialTag t = IsHidden)"
  using assms
  by (induction li cs inTag desc tag hidden ts rule: scan_tags.induct)
     (auto simp: Let_def IsHidden_def split: if_splits sum.splits dest: scan_tags_mono)

section \<open>Test specifications\<close>

datatype test_pattern =
    NamePattern wildcard_pattern
  | TagPattern string
  | ExcludedPattern test_pattern

definition makeNamePattern :: "string \<Rightarrow> test_pattern" where
  "makeNamePattern name = NamePattern (makeWildcardPattern (toLower name) False)"

definition makeTagPattern :: "string \<Rightarrow> test_pattern" where
  "makeTagPattern tag = TagPattern (toLower tag)"

fun pattern_matches :: "test_pattern \<Rightarrow> 'b test_case \<Rightarrow> bool" where
  "pattern_matches (NamePattern p) tc = wildcard_matches p (toLower (tc_name tc))"
| "pattern_matches (TagPattern tag) tc = (tag \<in> lcaseTags tc)"
| "pattern_matches (ExcludedPattern p) tc = (\<not> pattern_matches p tc)"

fun filter_matches :: "test_pattern list \<Rightarrow> 'b test_case \<Rightarrow> bool" where
  "filter_matches [] tc = True"
| "filter_matches (p # ps) tc = (if \<not> pattern_matches p tc then False else filter_matches ps tc)"

type_synonym test_spec = "test_pattern list list"

definition hasFilters :: "test_spec \<Rightarrow> bool" where
  "hasFilters spec \<longleftrightarrow> spec \<noteq> []"

fun spec_matches :: "test_spec \<Rightarrow> 'b test_case \<Rightarrow> bool" where
  "spec_matches [] tc = False"
| "spec_matches (f # fs) tc = (if filter_matches f tc then True else spec_matches fs tc)"

lemma filter_matches_iff: "filter_matches ps tc \<longleftrightarrow> (\<forall>p\<in>set ps. pattern_matches p tc)"
  by (induction ps) auto

lemma spec_matches_iff: "spec_matches spec tc \<longleftrightarrow> (\<exists>f\<in>set spec. filter_matches f tc)"
  by (induction spec) auto

section \<open>Tag aliases\<close>

type_synonym alias_registry = "string \<rightharpoonup> string \<times> source_line_info"

definition find_alias :: "alias_registry \<Rightarrow> string \<Rightarrow> (string \<times> source_line_info) option" where
  "find_alias reg alias = reg alias"

definition expand_one :: "alias_registry \<Rightarrow> string \<Rightarrow> string \<Rightarrow> string" where
  "expand_one reg alias spec =
     (case (str_find spec alias 0, reg alias) of
        (Some pos, Some (tag, li)) \<Rightarrow> take pos spec @ tag @ drop (pos + length alias) spec
      | _ \<Rightarrow> spec)"

definition expandAliases :: "alias_registry \<Rightarrow> string \<Rightarrow> string" where
  "expandAliases reg unexpandedTestSpec =
     fold (expand_one reg) (sorted_list_of_set (dom reg)) unexpandedTestSpec"

definition add_alias :: "string \<Rightarrow> string \<Rightarrow> source_line_info \<Rightarrow> alias_registry \<Rightarrow> cpp_exn + alias_registry" where
  "add_alias alias tag li reg =
     (if \<not> startsWith alias ''[@'' \<or> \<not> endsWith alias '']''
      then Inl (Exn (''error: tag alias, '' @ [CHR 0x22] @ alias @ [CHR 0x22]
        @ '' is not of the form [@alias name].'' @ [CHR 0x0A] @ show_source_line li))
      else case reg alias of
        None \<Rightarrow> Inr (reg(alias \<mapsto> (tag, li)))
      | Some (tag0, li0) \<Rightarrow>
          Inl (Exn (''error: tag alias, '' @ [CHR 0x22] @ alias @ [CHR 0x22] @ '' already registered.''
            @ [CHR 0x0A] @ [CHR 0x09] @ ''First seen at '' @ show_source_line li0 @ [CHR 0x0A]
            @ [CHR 0x09] @ ''Redefined at '' @ show_source_line li)))"

lemma expandAliases_empty [simp]: "expandAliases Map.empty spec = spec"
  by (simp add: expandAliases_def)


section \<open>The parser of test specifications\<close>

datatype spec_mode = Mode_None | Mode_Name | Mode_QuotedName | Mode_Tag

record spec_parser =
  p_mode :: spec_mode
  p_exclusion :: bool
  p_start :: nat
  p_pos :: nat
  p_arg :: string
  p_currentFilter :: "test_pattern list"
  p_testSpec :: test_spec

definition newTestSpecParser :: spec_parser where
  "newTestSpecParser = \<lparr>p_mode = Mode_None, p_exclusion = False, p_start = 0, p_pos = 0, p_arg = [],
     p_currentFilter = [], p_testSpec = []\<rparr>"

definition startNewMode :: "spec_mode \<Rightarrow> nat \<Rightarrow> spec_parser \<Rightarrow> spec_parser" where
  "startNewMode mode start p = p\<lparr>p_mode := mode, p_start := start\<rparr>"

definition subString :: "spec_parser \<Rightarrow> string" where
  "subString p = take (p_pos p - p_start p) (drop (p_start p) (p_arg p))"

definition addPattern :: "(string \<Rightarrow> test_pattern) \<Rightarrow> spec_parser \<Rightarrow> spec_parser" where
  "addPattern mk p =
     (let token0 = subString p;
          excl = (if startsWith token0 ''exclude:'' then True else p_exclusion p);
          token = (if startsWith token0 ''exclude:'' then drop 8 token0 else token0);
          p1 = (if token \<noteq> []
                then p\<lparr>p_currentFilter := p_currentFilter p @ [if excl then ExcludedPattern (mk token) else mk token]\<rparr>
                else p)
      in p1\<lparr>p_exclusion := False, p_mode := Mode_None\<rparr>)"

definition addFilter :: "spec_parser \<Rightarrow> spec_parser" where
  "addFilter p =
     (if p_currentFilter p \<noteq> []
      then p\<lparr>p_testSpec := p_testSpec p @ [p_currentFilter p], p_currentFilter := []\<rparr> else p)"

definition in_mode :: "char \<Rightarrow> spec_parser \<Rightarrow> spec_parser" where
  "in_mode c p =
     (case p_mode p of
        Mode_Name \<Rightarrow>
          if c = CHR '','' then addFilter (addPattern makeNamePattern p)
          else if c = CHR ''['' then
            (let p1 = (if subString p = ''exclude:'' then p\<lparr>p_exclusion := True\<rparr>
                       else addPattern makeNamePattern p)
             in startNewMode Mode_Tag (Suc (p_pos p)) (p1\<lparr>p_pos := Suc (p_pos p)\<rparr>))
          else p
      | Mode_QuotedName \<Rightarrow> if c = CHR 0x22 then addPattern makeNamePattern p else p
      | Mode_Tag \<Rightarrow> if c = CHR '']'' then addPattern makeTagPattern p else p
      | Mode_None \<Rightarrow> p)"

text \<open>
  \<open>visitChar\<close>. Opening a tag or a quoted name moves \<open>m_pos\<close> on, and the loop moves it on again, so
  the first character of a tag or a quoted name is never looked at.
\<close>

definition visitChar :: "char \<Rightarrow> spec_parser \<Rightarrow> spec_parser" where
  "visitChar c p =
     (if p_mode p = Mode_None then
        if c = CHR '' '' then p
        else if c = CHR ''~'' then p\<lparr>p_exclusion := True\<rparr>
        else if c = CHR ''['' then startNewMode Mode_Tag (Suc (p_pos p)) (p\<lparr>p_pos := Suc (p_pos p)\<rparr>)
        else if c = CHR 0x22 then startNewMode Mode_QuotedName (Suc (p_pos p)) (p\<lparr>p_pos := Suc (p_pos p)\<rparr>)
        else in_mode c (startNewMode Mode_Name (p_pos p) p)
      else in_mode c p)"

lemma parser_frame [simp]:
  "p_arg (addPattern mk p) = p_arg p" "p_pos (addPattern mk p) = p_pos p"
  "p_arg (addFilter p) = p_arg p" "p_pos (addFilter p) = p_pos p"
  "p_arg (startNewMode m s p) = p_arg p" "p_pos (startNewMode m s p) = p_pos p"
  "p_mode (addFilter p) = p_mode p" "p_exclusion (addFilter p) = p_exclusion p"
  "p_mode (addPattern mk p) = Mode_None" "\<not> p_exclusion (addPattern mk p)"
  by (simp_all add: addPattern_def addFilter_def startNewMode_def Let_def)

lemma visitChar_frame: "p_arg (visitChar c p) = p_arg p" "p_pos p \<le> p_pos (visitChar c p)"
  by (simp_all add: visitChar_def in_mode_def Let_def startNewMode_def split: spec_mode.splits)

function parse_loop :: "spec_parser \<Rightarrow> spec_parser" where
  "parse_loop p =
     (if p_pos p < length (p_arg p)
      then let p' = visitChar (p_arg p ! p_pos p) p in parse_loop (p'\<lparr>p_pos := Suc (p_pos p')\<rparr>)
      else p)"
  by pat_completeness auto
termination
proof (relation "measure (\<lambda>p. length (p_arg p) - p_pos p)")
  fix p p' :: spec_parser
  assume "p_pos p < length (p_arg p)" "p' = visitChar (p_arg p ! p_pos p) p"
  then show "(p'\<lparr>p_pos := Suc (p_pos p')\<rparr>, p) \<in> measure (\<lambda>p. length (p_arg p) - p_pos p)"
    using visitChar_frame [where c = "p_arg p ! p_pos p" and p = p] by simp
qed simp

declare parse_loop.simps [simp del]

definition parse_spec :: "alias_registry \<Rightarrow> string \<Rightarrow> spec_parser \<Rightarrow> spec_parser" where
  "parse_spec reg arg p =
     (let p1 = parse_loop (p\<lparr>p_mode := Mode_None, p_exclusion := False, p_start := 2 ^ 64 - 1,
                 p_arg := expandAliases reg arg, p_pos := 0\<rparr>)
      in if p_mode p1 = Mode_Name then addPattern makeNamePattern p1 else p1)"

definition testSpec :: "spec_parser \<Rightarrow> test_spec" where
  "testSpec p = p_testSpec (addFilter p)"

definition parseTestSpec :: "alias_registry \<Rightarrow> string \<Rightarrow> test_spec" where
  "parseTestSpec reg arg = testSpec (parse_spec reg arg newTestSpecParser)"

section \<open>Printing and reading a specification\<close>

datatype spec_item = Spec_name string | Spec_tag string

type_synonym signed_item = "bool \<times> spec_item"

fun print_item :: "signed_item \<Rightarrow> string" where
  "print_item (excluded, Spec_name n) = (if excluded then ''~'' else []) @ [CHR 0x22] @ n @ [CHR 0x22]"
| "print_item (excluded, Spec_tag t) = (if excluded then ''~'' else []) @ ''['' @ t @ '']''"

fun item_pattern :: "signed_item \<Rightarrow> test_pattern" where
  "item_pattern (excluded, Spec_name n) =
     (if excluded then ExcludedPattern (makeNamePattern n) else makeNamePattern n)"
| "item_pattern (excluded, Spec_tag t) =
     (if excluded then ExcludedPattern (makeTagPattern t) else makeTagPattern t)"

fun printable_item :: "signed_item \<Rightarrow> bool" where
  "printable_item (excluded, Spec_name n) \<longleftrightarrow> n \<noteq> [] \<and> CHR 0x22 \<notin> set n \<and> \<not> startsWith n ''exclude:''"
| "printable_item (excluded, Spec_tag t) \<longleftrightarrow> t \<noteq> [] \<and> CHR '']'' \<notin> set t \<and> \<not> startsWith t ''exclude:''"

definition print_filter :: "signed_item list \<Rightarrow> string" where
  "print_filter items = concat (map print_item items)"

definition print_spec :: "signed_item list list \<Rightarrow> string" where
  "print_spec fs = join CHR '','' (map print_filter fs)"


lemma parse_loop_step:
  "p_pos p < length (p_arg p) \<Longrightarrow> parse_loop p =
     parse_loop ((visitChar (p_arg p ! p_pos p) p)\<lparr>p_pos := Suc (p_pos (visitChar (p_arg p ! p_pos p) p))\<rparr>)"
  by (subst parse_loop.simps) (simp add: Let_def)

definition closing :: "spec_mode \<Rightarrow> char" where
  "closing m = (if m = Mode_Tag then CHR '']'' else CHR 0x22)"

definition maker :: "spec_mode \<Rightarrow> string \<Rightarrow> test_pattern" where
  "maker m = (if m = Mode_Tag then makeTagPattern else makeNamePattern)"

lemma skip_to_closing:
  assumes "p_mode p \<in> {Mode_Tag, Mode_QuotedName}" "p_pos p \<le> k" "k \<le> length (p_arg p)"
    and "\<And>j. p_pos p \<le> j \<Longrightarrow> j < k \<Longrightarrow> p_arg p ! j \<noteq> closing (p_mode p)"
  shows "parse_loop p = parse_loop (p\<lparr>p_pos := k\<rparr>)"
  using assms
proof (induction "k - p_pos p" arbitrary: p)
  case 0
  then have "p\<lparr>p_pos := k\<rparr> = p" by simp
  then show ?case by simp
next
  case (Suc n)
  have lt: "p_pos p < k" using Suc.hyps(2) by simp
  have "visitChar (p_arg p ! p_pos p) p = p"
    using Suc.prems(1) Suc.prems(4) [of "p_pos p"] lt
    by (auto simp: visitChar_def in_mode_def closing_def)
  then have "parse_loop p = parse_loop (p\<lparr>p_pos := Suc (p_pos p)\<rparr>)"
    using parse_loop_step [of p] Suc by simp
  also have "\<dots> = parse_loop (p\<lparr>p_pos := Suc (p_pos p), p_pos := k\<rparr>)"
    using Suc by (intro Suc.hyps(1)) auto
  finally show ?case by simp
qed

lemma addPattern_token:
  assumes "subString p \<noteq> []" "\<not> startsWith (subString p) ''exclude:''"
  shows "addPattern mk p = p\<lparr>p_currentFilter := p_currentFilter p @
       [if p_exclusion p then ExcludedPattern (mk (subString p)) else mk (subString p)],
     p_exclusion := False, p_mode := Mode_None\<rparr>"
  using assms by (simp add: addPattern_def Let_def)

lemma read_enclosed:
  assumes "p_mode p = Mode_None" "m \<in> {Mode_Tag, Mode_QuotedName}"
    and "p_arg p = u @ (if m = Mode_Tag then CHR ''['' else CHR 0x22) # t @ closing m # v" "p_pos p = length u"
    and "t \<noteq> []" "closing m \<notin> set t" "\<not> startsWith t ''exclude:''"
  shows "parse_loop p = parse_loop (p\<lparr>p_start := Suc (length u), p_exclusion := False,
     p_pos := length u + length t + 2,
     p_currentFilter := p_currentFilter p @ [if p_exclusion p then ExcludedPattern (maker m t) else maker m t]\<rparr>)"
proof -
  let ?p1 = "p\<lparr>p_mode := m, p_start := Suc (length u), p_pos := Suc (Suc (length u))\<rparr>"
  let ?k = "length u + length t + 1"
  have open_char: "p_arg p ! p_pos p = (if m = Mode_Tag then CHR ''['' else CHR 0x22)" using assms(3,4) by simp
  have len: "?k < length (p_arg p)" using assms(3) by simp
  have "parse_loop p = parse_loop ?p1"
    using parse_loop_step [of p] assms(1,2,3,4) open_char
    by (auto simp: visitChar_def startNewMode_def)
  also have "\<dots> = parse_loop (?p1\<lparr>p_pos := ?k\<rparr>)"
  proof (rule skip_to_closing)
    show "p_pos ?p1 \<le> ?k" using assms(5) by (cases t) auto
    fix j assume "p_pos ?p1 \<le> j" "j < ?k"
    then have "p_arg ?p1 ! j = t ! (j - length u - 1)" "j - length u - 1 < length t"
      using assms(3) by (auto simp: nth_append nth_Cons')
    then show "p_arg ?p1 ! j \<noteq> closing (p_mode ?p1)" using assms(6) nth_mem by fastforce
  qed (use assms(2) len in auto)
  also have "\<dots> = parse_loop (p\<lparr>p_start := Suc (length u), p_exclusion := False,
     p_pos := length u + length t + 2,
     p_currentFilter := p_currentFilter p @ [if p_exclusion p then ExcludedPattern (maker m t) else maker m t]\<rparr>)"
  proof -
    let ?p2 = "?p1\<lparr>p_pos := ?k\<rparr>"
    have sub: "subString ?p2 = t" using assms(3) by (simp add: subString_def)
    have "p_arg ?p2 ! p_pos ?p2 = closing m" using assms(3) by (simp add: nth_append)
    then have visit: "visitChar (p_arg ?p2 ! p_pos ?p2) ?p2 = addPattern (maker m) ?p2"
      using assms(2) by (auto simp: visitChar_def in_mode_def closing_def maker_def)
    have add: "addPattern (maker m) ?p2 = ?p2\<lparr>p_currentFilter := p_currentFilter p @
        [if p_exclusion p then ExcludedPattern (maker m t) else maker m t],
        p_exclusion := False, p_mode := Mode_None\<rparr>"
      using addPattern_token [of ?p2 "maker m", unfolded sub, OF assms(5,7)] by simp
    have "p_pos ?p2 < length (p_arg ?p2)" using len by simp
    from parse_loop_step [OF this, unfolded visit, unfolded add] show ?thesis
      using assms(1) by (cases p; simp)
  qed
  finally show ?thesis .
qed


lemma read_item:
  assumes "p_mode p = Mode_None" "\<not> p_exclusion p" "p_arg p = u @ print_item it @ v" "p_pos p = length u"
    and "printable_item it"
  shows "\<exists>s. parse_loop p = parse_loop (p\<lparr>p_start := s, p_pos := length (u @ print_item it),
     p_currentFilter := p_currentFilter p @ [item_pattern it]\<rparr>)"
proof -
  obtain excluded m t where it: "m \<in> {Mode_Tag, Mode_QuotedName}" "t \<noteq> []" "closing m \<notin> set t"
    "\<not> startsWith t ''exclude:''"
    "print_item it = (if excluded then ''~'' else []) @ (if m = Mode_Tag then CHR ''['' else CHR 0x22) # t @ [closing m]"
    "item_pattern it = (if excluded then ExcludedPattern (maker m t) else maker m t)"
  proof (cases it)
    case (Pair excluded i)
    show ?thesis
    proof (cases i)
      case (Spec_name n)
      then show ?thesis using that [of Mode_QuotedName n excluded] assms(5) Pair
        by (simp add: closing_def maker_def)
    next
      case (Spec_tag n)
      then show ?thesis using that [of Mode_Tag n excluded] assms(5) Pair
        by (simp add: closing_def maker_def)
    qed
  qed
  show ?thesis
  proof (cases excluded)
    case False
    have "parse_loop p = parse_loop (p\<lparr>p_start := Suc (length u), p_exclusion := False,
        p_pos := length u + length t + 2,
        p_currentFilter := p_currentFilter p @ [if p_exclusion p then ExcludedPattern (maker m t) else maker m t]\<rparr>)"
      by (rule read_enclosed) (use assms it False in auto)
    then show ?thesis using assms(2) it False by (intro exI [of _ "Suc (length u)"]) (cases p; simp)
  next
    case True
    let ?p1 = "p\<lparr>p_exclusion := True, p_pos := Suc (length u)\<rparr>"
    have "parse_loop p = parse_loop ?p1"
      using parse_loop_step [of p] assms(1,3,4) it(5) True by (simp add: visitChar_def)
    also have "\<dots> = parse_loop (?p1\<lparr>p_start := Suc (length (u @ ''~'')), p_exclusion := False,
        p_pos := length (u @ ''~'') + length t + 2,
        p_currentFilter := p_currentFilter ?p1 @ [if p_exclusion ?p1 then ExcludedPattern (maker m t) else maker m t]\<rparr>)"
      by (rule read_enclosed) (use assms it True in auto)
    finally show ?thesis using assms(2) it True by (intro exI [of _ "Suc (Suc (length u))"]) (cases p; simp)
  qed
qed

lemma read_items:
  assumes "p_mode p = Mode_None" "\<not> p_exclusion p" "p_arg p = u @ print_filter items @ v" "p_pos p = length u"
    and "\<forall>it\<in>set items. printable_item it"
  shows "\<exists>s. parse_loop p = parse_loop (p\<lparr>p_start := s, p_pos := length (u @ print_filter items),
     p_currentFilter := p_currentFilter p @ map item_pattern items\<rparr>)"
  using assms
proof (induction items arbitrary: p u)
  case Nil
  then have "p\<lparr>p_start := p_start p, p_pos := length u\<rparr> = p" by simp
  then show ?case by (intro exI [of _ "p_start p"]) (simp add: print_filter_def)
next
  case (Cons it items)
  obtain s where one: "parse_loop p = parse_loop (p\<lparr>p_start := s, p_pos := length (u @ print_item it),
      p_currentFilter := p_currentFilter p @ [item_pattern it]\<rparr>)"
    using read_item [of p u it "print_filter items @ v"] Cons.prems by (auto simp: print_filter_def)
  let ?p1 = "p\<lparr>p_start := s, p_pos := length (u @ print_item it),
      p_currentFilter := p_currentFilter p @ [item_pattern it]\<rparr>"
  obtain s' where "parse_loop ?p1 = parse_loop (?p1\<lparr>p_start := s', p_pos := length ((u @ print_item it) @ print_filter items),
      p_currentFilter := p_currentFilter ?p1 @ map item_pattern items\<rparr>)"
    using Cons.IH [of ?p1 "u @ print_item it"] Cons.prems by (auto simp: print_filter_def)
  with one show ?case by (intro exI [of _ s']) (simp add: print_filter_def)
qed

lemma read_separator:
  assumes "p_mode p = Mode_None" "\<not> p_exclusion p" "p_arg p = u @ CHR '','' # v" "p_pos p = length u"
  shows "parse_loop p = parse_loop ((addFilter p)\<lparr>p_start := length u, p_pos := Suc (length u)\<rparr>)"
proof -
  let ?p1 = "p\<lparr>p_mode := Mode_Name, p_start := length u\<rparr>"
  have "addPattern makeNamePattern ?p1 = p\<lparr>p_start := length u\<rparr>"
    using assms by (cases p) (simp add: addPattern_def subString_def startsWith_def)
  then have "visitChar CHR '','' p = addFilter (p\<lparr>p_start := length u\<rparr>)"
    using assms(1,4) by (simp add: visitChar_def in_mode_def startNewMode_def)
  also have "\<dots> = (addFilter p)\<lparr>p_start := length u\<rparr>" by (simp add: addFilter_def)
  finally show ?thesis using parse_loop_step [of p] assms(3,4) by simp
qed

lemma read_spec:
  assumes "p_mode p = Mode_None" "\<not> p_exclusion p" "p_arg p = u @ print_spec fs" "p_pos p = length u"
    and "p_currentFilter p = []" "\<forall>f\<in>set fs. f \<noteq> [] \<and> (\<forall>it\<in>set f. printable_item it)"
  shows "p_mode (parse_loop p) = Mode_None
    \<and> testSpec (parse_loop p) = p_testSpec p @ map (map item_pattern) fs"
  using assms
proof (induction fs arbitrary: p u)
  case Nil
  then have "parse_loop p = p" by (subst parse_loop.simps) (simp add: print_spec_def)
  then show ?case using Nil by (simp add: testSpec_def addFilter_def)
next
  case (Cons f fs)
  have all: "\<forall>it\<in>set f. printable_item it" "f \<noteq> []" using Cons.prems(6) by auto
  show ?case
  proof (cases fs)
    case Nil
    obtain s where "parse_loop p = parse_loop (p\<lparr>p_start := s, p_pos := length (u @ print_filter f),
        p_currentFilter := p_currentFilter p @ map item_pattern f\<rparr>)"
      using read_items [of p u f "[]"] Cons.prems all Nil by (auto simp: print_spec_def)
    also have "\<dots> = p\<lparr>p_start := s, p_pos := length (u @ print_filter f),
        p_currentFilter := p_currentFilter p @ map item_pattern f\<rparr>"
      using Cons.prems(3) Nil by (subst parse_loop.simps) (simp add: print_spec_def)
    finally show ?thesis using Cons.prems(1,5) all(2) Nil by (simp add: testSpec_def addFilter_def)
  next
    case (Cons g gs)
    have arg: "p_arg p = u @ print_filter f @ CHR '','' # print_spec fs"
      using Cons.prems(3) Cons by (simp add: print_spec_def)
    obtain s where one: "parse_loop p = parse_loop (p\<lparr>p_start := s, p_pos := length (u @ print_filter f),
        p_currentFilter := p_currentFilter p @ map item_pattern f\<rparr>)"
      using read_items [of p u f "CHR '','' # print_spec fs"] Cons.prems all arg by auto
    let ?p1 = "p\<lparr>p_start := s, p_pos := length (u @ print_filter f),
        p_currentFilter := p_currentFilter p @ map item_pattern f\<rparr>"
    let ?p2 = "(addFilter ?p1)\<lparr>p_start := length (u @ print_filter f), p_pos := Suc (length (u @ print_filter f))\<rparr>"
    have two: "parse_loop ?p1 = parse_loop ?p2"
      by (rule read_separator [where v = "print_spec fs"]) (use Cons.prems arg in auto)
    have "p_testSpec ?p2 = p_testSpec p @ [map item_pattern f]" "p_currentFilter ?p2 = []"
      using Cons.prems(5) all(2) by (simp_all add: addFilter_def)
    then show ?thesis
      using Cons.IH [of ?p2 "u @ print_filter f @ '',''"] Cons.prems arg one two by simp
  qed
qed

lemma parse_printed:
  assumes "\<forall>f\<in>set fs. f \<noteq> [] \<and> (\<forall>it\<in>set f. printable_item it)"
  shows "parseTestSpec Map.empty (print_spec fs) = map (map item_pattern) fs"
proof -
  let ?p = "newTestSpecParser\<lparr>p_mode := Mode_None, p_exclusion := False, p_start := 2 ^ 64 - 1,
                 p_arg := print_spec fs, p_pos := 0\<rparr>"
  have "p_mode (parse_loop ?p) = Mode_None \<and> testSpec (parse_loop ?p) = p_testSpec ?p @ map (map item_pattern) fs"
    using assms by (intro read_spec [where u = "[]"]) (simp_all add: newTestSpecParser_def)
  then show ?thesis by (simp add: parseTestSpec_def parse_spec_def Let_def newTestSpecParser_def)
qed

lemma parse_printed_default: "parseTestSpec Map.empty ''~[.]'' = [[ExcludedPattern (makeTagPattern ''.'')]]"
  using parse_printed [of "[[(True, Spec_tag ''.'')]]"] by (simp add: print_spec_def print_filter_def startsWith_def)

text \<open>
  C27. Printing and reading a test specification: a list of filters of quoted names and tags, each
  possibly excluded with a tilde, is read back as exactly the patterns it was printed from.
\<close>

theorem parse_printed_spec:
  assumes "\<forall>f\<in>set fs. f \<noteq> [] \<and> (\<forall>it\<in>set f. printable_item it)"
  shows "parseTestSpec Map.empty (print_spec fs) = map (map item_pattern) fs"
  using assms by (rule parse_printed)

lemma parse_printed_spec_witness:
  "parseTestSpec Map.empty (print_spec [[(False, Spec_tag ''utils''), (True, Spec_name ''slow one'')], [(False, Spec_name ''a,b'')]])
     = [[makeTagPattern ''utils'', ExcludedPattern (makeNamePattern ''slow one'')], [makeNamePattern ''a,b'']]"
  by (subst parse_printed_spec) (simp_all add: startsWith_def)

end
