(* ===== verification/Catch_Registry.thy ===== *)
theory Catch_Registry
  imports Catch_Selection "HOL-Library.Multiset"
begin

text \<open>
  The configuration of a run and the registry of test cases (\<open>include/catch.h\<close>): registration,
  the check for duplicates, the three orders, and the selection of the tests to run. Shuffling
  is a parameter, as it depends on the random numbers of the C library.
\<close>

section \<open>Configuration\<close>

datatype run_order = InDeclarationOrder | InLexicographicalOrder | InRandomOrder
datatype verbosity = NoOutput | Quiet | Normal
datatype show_durations = DefaultForReporter | Always | Never
datatype use_colour = Auto | Yes | No

text \<open>\<open>WarnAbout\<close> has one bit, \<open>NoAssertions\<close>.\<close>

record config_data =
  listTests :: bool
  listTags :: bool
  listReporters :: bool
  listTestNamesOnly :: bool
  showSuccessfulTests :: bool
  shouldDebugBreak :: bool
  noThrow :: bool
  showHelp :: bool
  showInvisibles :: bool
  filenamesAsTags :: bool
  abortAfter :: int
  cfg_rngSeed :: nat
  cfg_verbosity :: verbosity
  warnNoAssertions :: bool
  cfg_showDurations :: show_durations
  runOrder :: run_order
  cfg_useColour :: use_colour
  outputFilename :: string
  run_name :: string
  processName :: string
  reporterNames :: "string list"
  testsOrTags :: "string list"

definition newConfigData :: config_data where
  "newConfigData = \<lparr>listTests = False, listTags = False, listReporters = False, listTestNamesOnly = False,
     showSuccessfulTests = False, shouldDebugBreak = False, noThrow = False, showHelp = False,
     showInvisibles = False, filenamesAsTags = False, abortAfter = -1, cfg_rngSeed = 0,
     cfg_verbosity = Normal, warnNoAssertions = False, cfg_showDurations = DefaultForReporter,
     runOrder = InDeclarationOrder, cfg_useColour = Auto, outputFilename = [], run_name = [],
     processName = [], reporterNames = [], testsOrTags = []\<rparr>"

datatype stream_kind = Cout_stream | Debug_out_stream | File_stream string

record config =
  cfg_data :: config_data
  cfg_stream :: stream_kind
  m_testSpec :: test_spec

text \<open>
  Which files can be opened for writing is a parameter: a file that cannot be opened is an exception of
  the constructor of its stream.
\<close>

definition openFileStream :: "(string \<Rightarrow> bool) \<Rightarrow> string \<Rightarrow> cpp_exn + stream_kind" where
  "openFileStream writable name =
     (if writable name then Inr (File_stream name)
      else Inl (Exn (''Unable to open file: '' @ [CHR 0x27] @ name @ [CHR 0x27])))"

definition openStream :: "(string \<Rightarrow> bool) \<Rightarrow> config_data \<Rightarrow> cpp_exn + stream_kind" where
  "openStream writable d =
     (if outputFilename d = [] then Inr Cout_stream
      else if hd (outputFilename d) = CHR ''%'' then
        (if outputFilename d = ''%debug'' then Inr Debug_out_stream
         else Inl (Exn (''Unrecognised stream: '' @ outputFilename d)))
      else openFileStream writable (outputFilename d))"

definition makeConfig :: "(string \<Rightarrow> bool) \<Rightarrow> alias_registry \<Rightarrow> config_data \<Rightarrow> cpp_exn + config" where
  "makeConfig writable reg d =
     (case openStream writable d of
        Inl e \<Rightarrow> Inl e
      | Inr s \<Rightarrow> Inr \<lparr>cfg_data = d, cfg_stream = s,
          m_testSpec = (if testsOrTags d \<noteq> [] then testSpec (fold (parse_spec reg) (testsOrTags d) newTestSpecParser)
                        else [])\<rparr>)"

definition allowThrows :: "config \<Rightarrow> bool" where
  "allowThrows c \<longleftrightarrow> \<not> noThrow (cfg_data c)"

definition config_name :: "config \<Rightarrow> string" where
  "config_name c = (if run_name (cfg_data c) = [] then processName (cfg_data c) else run_name (cfg_data c))"

section \<open>Orders and duplicates\<close>

definition sortTests :: "('b test_case list \<Rightarrow> 'b test_case list) \<Rightarrow> run_order \<Rightarrow> 'b test_case list \<Rightarrow> 'b test_case list" where
  "sortTests shuffle order unsorted =
     (case order of
        InLexicographicalOrder \<Rightarrow> sort_key tc_name unsorted
      | InRandomOrder \<Rightarrow> shuffle unsorted
      | InDeclarationOrder \<Rightarrow> unsorted)"

definition matchTest :: "'b test_case \<Rightarrow> test_spec \<Rightarrow> config \<Rightarrow> bool" where
  "matchTest tc spec c \<longleftrightarrow> spec_matches spec tc \<and> (allowThrows c \<or> \<not> throws_exception tc)"

definition duplicate_message :: "'b test_case \<Rightarrow> 'b test_case \<Rightarrow> string" where
  "duplicate_message prev tc =
     ''error: TEST_CASE( '' @ [CHR 0x22] @ tc_name tc @ [CHR 0x22] @ '' ) already defined.'' @ [CHR 0x0A]
     @ [CHR 0x09] @ ''First seen at '' @ show_source_line (lineInfo prev) @ [CHR 0x0A]
     @ [CHR 0x09] @ ''Redefined at '' @ show_source_line (lineInfo tc)"

text \<open>The set of functions seen is ordered by name; here it is a list.\<close>

fun enforce_no_duplicates :: "'b test_case list \<Rightarrow> 'b test_case list \<Rightarrow> cpp_exn + unit" where
  "enforce_no_duplicates seen [] = Inr ()"
| "enforce_no_duplicates seen (tc # tcs) =
     (case find (\<lambda>s. \<not> test_case_less s tc \<and> \<not> test_case_less tc s) seen of
        Some prev \<Rightarrow> Inl (Exn (duplicate_message prev tc))
      | None \<Rightarrow> enforce_no_duplicates (tc # seen) tcs)"

definition enforceNoDuplicateTestCases :: "'b test_case list \<Rightarrow> cpp_exn + unit" where
  "enforceNoDuplicateTestCases functions = enforce_no_duplicates [] functions"

fun filterTests :: "'b test_case list \<Rightarrow> test_spec \<Rightarrow> config \<Rightarrow> 'b test_case list" where
  "filterTests [] spec c = []"
| "filterTests (tc # tcs) spec c =
     (if matchTest tc spec c then tc # filterTests tcs spec c else filterTests tcs spec c)"

section \<open>The registry\<close>

record 'b test_registry =
  m_functions :: "'b test_case list"
  m_currentSortOrder :: run_order
  m_sortedFunctions :: "'b test_case list"
  m_unnamedCount :: nat

definition newTestRegistry :: "'b test_registry" where
  "newTestRegistry = \<lparr>m_functions = [], m_currentSortOrder = InDeclarationOrder, m_sortedFunctions = [],
     m_unnamedCount = 0\<rparr>"

definition registerTest :: "'b test_case \<Rightarrow> 'b test_registry \<Rightarrow> 'b test_registry" where
  "registerTest tc r =
     (if tc_name tc = [] then
        (let n = Suc (m_unnamedCount r)
         in r\<lparr>m_unnamedCount := n,
              m_functions := m_functions r @ [withName (''Anonymous test case '' @ dec n) tc]\<rparr>)
      else r\<lparr>m_functions := m_functions r @ [tc]\<rparr>)"

definition getAllTestsSorted ::
    "('b test_case list \<Rightarrow> 'b test_case list) \<Rightarrow> run_order \<Rightarrow> 'b test_registry
     \<Rightarrow> cpp_exn + ('b test_case list \<times> 'b test_registry)" where
  "getAllTestsSorted shuffle order r =
     (case (if m_sortedFunctions r = [] then enforceNoDuplicateTestCases (m_functions r) else Inr ()) of
        Inl e \<Rightarrow> Inl e
      | Inr u \<Rightarrow>
          (let r1 = (if m_currentSortOrder r \<noteq> order \<or> m_sortedFunctions r = []
                     then r\<lparr>m_sortedFunctions := sortTests shuffle order (m_functions r), m_currentSortOrder := order\<rparr>
                     else r)
           in Inr (m_sortedFunctions r1, r1)))"

definition registerTestCaseFunction ::
    "'b \<Rightarrow> source_line_info \<Rightarrow> string \<Rightarrow> string \<Rightarrow> 'b test_registry \<Rightarrow> string + 'b test_registry" where
  "registerTestCaseFunction body li name descr r =
     (case makeTestCase body [] name descr li of
        Inl msg \<Rightarrow> Inl msg
      | Inr tc \<Rightarrow> Inr (registerTest tc r))"

section \<open>What is run\<close>

lemma filterTests_filter: "filterTests tcs spec c = filter (\<lambda>tc. matchTest tc spec c) tcs"
  by (induction tcs) auto

lemma enforce_no_duplicates_iff:
  "enforce_no_duplicates seen tcs = Inr () \<longleftrightarrow>
     distinct (map tc_name tcs) \<and> tc_name ` set seen \<inter> tc_name ` set tcs = {}"
proof (induction seen tcs rule: enforce_no_duplicates.induct)
  case (2 seen tc tcs)
  have same: "(\<not> test_case_less s tc \<and> \<not> test_case_less tc s) \<longleftrightarrow> tc_name s = tc_name tc" for s :: "'a test_case"
    by (auto simp: test_case_less_def)
  show ?case
  proof (cases "find (\<lambda>s. \<not> test_case_less s tc \<and> \<not> test_case_less tc s) seen")
    case None
    then have "tc_name tc \<notin> tc_name ` set seen" by (auto simp: find_None_iff same)
    then show ?thesis using None 2 by auto
  next
    case (Some prev)
    then have "prev \<in> set seen" "tc_name prev = tc_name tc" by (auto simp: find_Some_iff same)
    then have "tc_name tc \<in> tc_name ` set seen" by (metis image_eqI)
    then show ?thesis using Some by auto
  qed
qed simp

text \<open>The sorted functions a registry caches are a permutation of the registered ones.\<close>

definition registry_ok :: "('b test_case list \<Rightarrow> 'b test_case list) \<Rightarrow> 'b test_registry \<Rightarrow> bool" where
  "registry_ok shuffle r \<longleftrightarrow> m_sortedFunctions r = [] \<or>
     distinct (map tc_name (m_functions r)) \<and>
     m_sortedFunctions r = sortTests shuffle (m_currentSortOrder r) (m_functions r)"

text \<open>
  Asking for the tests in some order fails exactly when two of them have the same name;
  otherwise it gives the registered tests, each exactly once, by name when that order is asked
  for, and leaves the registry in a state in which this holds again.
\<close>

lemma sorted_tests_are_the_registered_ones:
  assumes "\<And>tcs. mset (shuffle tcs) = mset tcs" "registry_ok shuffle r"
  shows "case getAllTestsSorted shuffle order r of
      Inl e \<Rightarrow> \<not> distinct (map tc_name (m_functions r))
    | Inr (sorted_tests, r') \<Rightarrow> distinct (map tc_name (m_functions r)) \<and> mset sorted_tests = mset (m_functions r)
        \<and> (order = InLexicographicalOrder \<longrightarrow> sorted (map tc_name sorted_tests))
        \<and> m_functions r' = m_functions r \<and> registry_ok shuffle r'"
proof -
  have perm: "mset (sortTests shuffle order tcs) = mset tcs" for order tcs
    using assms(1) by (simp add: sortTests_def split: run_order.splits)
  have lex: "sorted (map tc_name (sortTests shuffle InLexicographicalOrder tcs))" for tcs
    by (simp add: sortTests_def)
  have dup: "enforceNoDuplicateTestCases (m_functions r) = Inr () \<longleftrightarrow> distinct (map tc_name (m_functions r))"
    by (simp add: enforceNoDuplicateTestCases_def enforce_no_duplicates_iff)
  show ?thesis
  proof (cases "m_sortedFunctions r = []")
    case True
    then show ?thesis using dup perm lex
      by (auto simp: getAllTestsSorted_def Let_def registry_ok_def split: sum.splits)
  next
    case False
    then have ok: "distinct (map tc_name (m_functions r))"
      "m_sortedFunctions r = sortTests shuffle (m_currentSortOrder r) (m_functions r)"
      using assms(2) by (auto simp: registry_ok_def)
    then show ?thesis using False perm lex
      by (auto simp: getAllTestsSorted_def Let_def registry_ok_def)
  qed
qed

text \<open>So the tests come in the order that is asked for, whatever was cached before.\<close>

lemma sorted_tests_in_order:
  assumes "registry_ok shuffle r" "getAllTestsSorted shuffle order r = Inr (tcs, r')"
  shows "tcs = sortTests shuffle order (m_functions r)" "distinct (map tc_name (m_functions r))"
proof -
  have "enforceNoDuplicateTestCases (m_functions r) = Inr () \<longleftrightarrow> distinct (map tc_name (m_functions r))"
    by (simp add: enforceNoDuplicateTestCases_def enforce_no_duplicates_iff)
  then show "tcs = sortTests shuffle order (m_functions r)" "distinct (map tc_name (m_functions r))"
    using assms by (auto simp: getAllTestsSorted_def Let_def registry_ok_def split: sum.splits if_splits)
qed

definition example_case :: "unit test_case" where
  "example_case = \<lparr>tc_name = ''b'', className = [], description = [], tags = {}, lcaseTags = {},
     tagsAsString = [], lineInfo = SourceLineInfo ''a.cpp'' 1, properties = 0, test_body = ()\<rparr>"

lemma sorted_tests_are_the_registered_ones_witness:
  "case getAllTestsSorted rev InLexicographicalOrder
       (registerTest (withName ''a'' example_case) (registerTest example_case newTestRegistry)) of
     Inl e \<Rightarrow> False
   | Inr (sorted_tests, r') \<Rightarrow> sorted (map tc_name sorted_tests) \<and> registry_ok rev r'"
  using sorted_tests_are_the_registered_ones [of rev
     "registerTest (withName ''a'' example_case) (registerTest example_case newTestRegistry)" InLexicographicalOrder]
  by (auto simp: registry_ok_def registerTest_def newTestRegistry_def example_case_def withName_def split: sum.splits)

text \<open>
  Without a test specification, exactly the tests that are not hidden are selected: those whose
  name does not start with \<open>./\<close> and none of whose tags, as written, is one that hides.
\<close>

theorem default_selection:
  assumes "makeTestCase body cls name descrOrTags li = Inr tc"
  shows "spec_matches (parseTestSpec Map.empty ''~[.]'') tc \<longleftrightarrow>
     \<not> startsWith name ''./'' \<and> (\<forall>t\<in>tags tc. parseSpecialTag t \<noteq> IsHidden)"
proof -
  obtain desc h ts where scan: "scan_tags li descrOrTags False [] [] (startsWith name ''./'') {} = Inr (desc, h, ts)"
    and tc: "tc = makeTestCaseInfo name cls desc (if h then ts \<union> {''hide'', ''.''} else ts) li body"
    using assms by (auto simp: makeTestCase_def split: sum.splits prod.splits)
  have fin: "finite ts" using scan_tags_finite [OF scan] by simp
  have h: "h \<longleftrightarrow> startsWith name ''./'' \<or> (\<exists>t\<in>ts. parseSpecialTag t = IsHidden)"
    using scan_tags_hidden [OF scan] by simp
  have "toLowerCh c = CHR ''.'' \<longleftrightarrow> c = CHR ''.''" for c
    using toLowerCh_eq_mark [of "CHR ''.''" c] by (simp add: is_upper_def)
  then have dot: "toLower t = ''.'' \<longleftrightarrow> t = ''.''" for t
    by (cases t) (simp_all add: toLower_def)
  have special: "parseSpecialTag ''.'' = IsHidden" "parseSpecialTag ''hide'' = IsHidden"
    by (simp_all add: parseSpecialTag_def startsWith_def)
  have "parseTestSpec Map.empty ''~[.]'' = [[ExcludedPattern (makeTagPattern ''.'')]]"
    using parse_printed_default by simp
  then have "spec_matches (parseTestSpec Map.empty ''~[.]'') tc \<longleftrightarrow> ''.'' \<notin> lcaseTags tc"
    using dot [of "''.''"] by (simp add: makeTagPattern_def)
  also have "\<dots> \<longleftrightarrow> ''.'' \<notin> tags tc"
  proof -
    have "lcaseTags tc = toLower ` tags tc" using fin by (simp add: tc)
    then show ?thesis using dot by (metis image_iff)
  qed
  also have "\<dots> \<longleftrightarrow> \<not> startsWith name ''./'' \<and> (\<forall>t\<in>tags tc. parseSpecialTag t \<noteq> IsHidden)"
    using h special by (auto simp: tc)
  finally show ?thesis .
qed

lemma default_selection_witness:
  "\<exists>tc. makeTestCase () [] ''adds'' ''[math]'' (SourceLineInfo ''a.cpp'' 1) = Inr tc
     \<and> spec_matches (parseTestSpec Map.empty ''~[.]'') tc"
proof -
  let ?tc = "makeTestCaseInfo ''adds'' [] [] {''math''} (SourceLineInfo ''a.cpp'' 1) ()"
  have tc: "makeTestCase () [] ''adds'' ''[math]'' (SourceLineInfo ''a.cpp'' 1) = Inr ?tc"
    by (simp add: makeTestCase_def startsWith_def parseSpecialTag_def enforceNotReservedTag_def isReservedTag_def
        isalnum_def IsHidden_def)
  then show ?thesis
    using default_selection [OF tc] by (simp add: startsWith_def parseSpecialTag_def IsHidden_def)
qed

end
