(* ===== verification/Catch_Tracker.thy ===== *)
theory Catch_Tracker
  imports Catch_Registry
begin

text \<open>
  The tracker of sections (\<open>TestCaseTracking\<close> in \<open>include/catch.h\<close>): the state machine that decides
  which sections of a test case a run through its body enters. The trackers form a tree that is
  owned by the context; a pointer to a tracker is its path, the indices of the children on the
  way to it, innermost first, so that the tail of a path is the pointer to the parent.
\<close>

section \<open>Trackers\<close>

datatype cycle_state =
  NotStarted | Executing | ExecutingChildren | NeedsAnotherRun | CompletedSuccessfully | Failed

text \<open>An index tracker has a size and a current index.\<close>

datatype tracker_kind = Section_tracker | Index_tracker (it_size: int) (it_index: int)

datatype tracker =
  Tracker (t_name: string) (t_kind: tracker_kind) (t_state: cycle_state) (t_children: "tracker list")

type_synonym tracker_path = "nat list"

fun set_state :: "cycle_state \<Rightarrow> tracker \<Rightarrow> tracker" where
  "set_state st (Tracker n k s cs) = Tracker n k st cs"

fun set_children :: "tracker list \<Rightarrow> tracker \<Rightarrow> tracker" where
  "set_children cs' (Tracker n k s cs) = Tracker n k s cs'"

fun set_kind :: "tracker_kind \<Rightarrow> tracker \<Rightarrow> tracker" where
  "set_kind k' (Tracker n k s cs) = Tracker n k' s cs"

definition isComplete :: "tracker \<Rightarrow> bool" where
  "isComplete t \<longleftrightarrow> t_state t = CompletedSuccessfully \<or> t_state t = Failed"

definition isSuccessfullyCompleted :: "tracker \<Rightarrow> bool" where
  "isSuccessfullyCompleted t \<longleftrightarrow> t_state t = CompletedSuccessfully"

definition isOpen :: "tracker \<Rightarrow> bool" where
  "isOpen t \<longleftrightarrow> t_state t \<noteq> NotStarted \<and> \<not> isComplete t"

definition hasChildren :: "tracker \<Rightarrow> bool" where
  "hasChildren t \<longleftrightarrow> t_children t \<noteq> []"

definition newTracker :: "string \<Rightarrow> tracker_kind \<Rightarrow> tracker" where
  "newTracker name kind = Tracker name kind NotStarted []"

definition addChild :: "tracker \<Rightarrow> tracker \<Rightarrow> tracker" where
  "addChild child t = set_children (t_children t @ [child]) t"

fun find_index :: "('a \<Rightarrow> bool) \<Rightarrow> 'a list \<Rightarrow> nat option" where
  "find_index P [] = None"
| "find_index P (x # xs) = (if P x then Some 0 else map_option Suc (find_index P xs))"

lemma find_index_append:
  "find_index P (xs @ ys) =
     (case find_index P xs of Some i \<Rightarrow> Some i | None \<Rightarrow> map_option (\<lambda>i. length xs + i) (find_index P ys))"
proof (induction xs)
  case Nil
  show ?case by (cases "find_index P ys") auto
next
  case (Cons x xs)
  then show ?case by (cases "find_index P xs"; cases "find_index P ys") auto
qed

lemma find_index_None: "find_index P xs = None \<longleftrightarrow> (\<forall>x \<in> set xs. \<not> P x)"
  by (induction xs) auto

lemma find_index_Some: "find_index P xs = Some i \<Longrightarrow> i < length xs \<and> P (xs ! i)"
  by (induction xs arbitrary: i) (auto split: if_splits)

definition findChild :: "string \<Rightarrow> tracker \<Rightarrow> nat option" where
  "findChild name t = find_index (\<lambda>c. t_name c = name) (t_children t)"

text \<open>The tracker a path points to, and changing it.\<close>

fun tracker_at :: "tracker_path \<Rightarrow> tracker \<Rightarrow> tracker option" where
  "tracker_at [] t = Some t"
| "tracker_at (k # p) t =
     (case tracker_at p t of
        None \<Rightarrow> None
      | Some u \<Rightarrow> if k < length (t_children u) then Some (t_children u ! k) else None)"

fun modify_at :: "tracker_path \<Rightarrow> (tracker \<Rightarrow> tracker) \<Rightarrow> tracker \<Rightarrow> tracker" where
  "modify_at [] f t = f t"
| "modify_at (k # p) f t =
     modify_at p (\<lambda>u. set_children ((t_children u)[k := f (t_children u ! k)]) u) t"

section \<open>The context\<close>

datatype context_state = Context_not_started | Context_executing | Context_completed_cycle

record tracker_context =
  rootTracker :: "tracker option"
  currentTracker :: "tracker_path option"
  contextState :: context_state

definition newTrackerContext :: tracker_context where
  "newTrackerContext = \<lparr>rootTracker = None, currentTracker = None, contextState = Context_not_started\<rparr>"

definition startRun :: "tracker_context \<Rightarrow> tracker_context" where
  "startRun ctx = ctx\<lparr>rootTracker := Some (newTracker ''{root}'' Section_tracker), currentTracker := None,
     contextState := Context_executing\<rparr>"

definition endRun :: "tracker_context \<Rightarrow> tracker_context" where
  "endRun ctx = ctx\<lparr>rootTracker := None, currentTracker := None, contextState := Context_not_started\<rparr>"

definition startCycle :: "tracker_context \<Rightarrow> tracker_context" where
  "startCycle ctx = ctx\<lparr>currentTracker := map_option (\<lambda>r. []) (rootTracker ctx), contextState := Context_executing\<rparr>"

definition completeCycle :: "tracker_context \<Rightarrow> tracker_context" where
  "completeCycle ctx = ctx\<lparr>contextState := Context_completed_cycle\<rparr>"

definition completedCycle :: "tracker_context \<Rightarrow> bool" where
  "completedCycle ctx \<longleftrightarrow> contextState ctx = Context_completed_cycle"

text \<open>Following a pointer; a null or dangling one is undefined behaviour.\<close>

definition deref :: "tracker_path \<Rightarrow> tracker_context \<Rightarrow> tracker res" where
  "deref p ctx =
     (case rootTracker ctx of
        None \<Rightarrow> Inl (Undefined Null_deref)
      | Some r \<Rightarrow> (case tracker_at p r of None \<Rightarrow> Inl (Undefined Null_deref) | Some t \<Rightarrow> Inr t))"

definition change :: "tracker_path \<Rightarrow> (tracker \<Rightarrow> tracker) \<Rightarrow> tracker_context \<Rightarrow> tracker_context" where
  "change p f ctx = ctx\<lparr>rootTracker := map_option (modify_at p f) (rootTracker ctx)\<rparr>"

definition current :: "tracker_context \<Rightarrow> tracker_path res" where
  "current ctx = (case currentTracker ctx of None \<Rightarrow> Inl (Undefined Null_deref) | Some p \<Rightarrow> Inr p)"

section \<open>Opening, closing, failing\<close>

fun openChild :: "tracker_path \<Rightarrow> tracker_context \<Rightarrow> tracker_context res" where
  "openChild [] ctx =
     bindR (deref [] ctx) (\<lambda>t.
       if t_state t \<noteq> ExecutingChildren then Inr (change [] (set_state ExecutingChildren) ctx) else Inr ctx)"
| "openChild (k # p) ctx =
     bindR (deref (k # p) ctx) (\<lambda>t.
       if t_state t \<noteq> ExecutingChildren
       then openChild p (change (k # p) (set_state ExecutingChildren) ctx) else Inr ctx)"

definition open_tracker :: "tracker_path \<Rightarrow> tracker_context \<Rightarrow> tracker_context res" where
  "open_tracker p ctx =
     (let ctx1 = (change p (set_state Executing) ctx)\<lparr>currentTracker := Some p\<rparr>
      in case p of [] \<Rightarrow> Inr ctx1 | k # q \<Rightarrow> openChild q ctx1)"

text \<open>The assertion that there is a parent fails on the root.\<close>

definition moveToParent :: "tracker_path \<Rightarrow> tracker_context \<Rightarrow> tracker_context res" where
  "moveToParent p ctx =
     (case p of [] \<Rightarrow> Inl Terminated | k # q \<Rightarrow> Inr (ctx\<lparr>currentTracker := Some q\<rparr>))"

text \<open>The \<open>switch\<close> in \<open>close\<close>, and the step of an index tracker after it.\<close>

definition closed_state :: "tracker \<Rightarrow> cycle_state res" where
  "closed_state t =
     (case t_state t of
        NeedsAnotherRun \<Rightarrow> Inr NeedsAnotherRun
      | Executing \<Rightarrow> Inr CompletedSuccessfully
      | ExecutingChildren \<Rightarrow>
          Inr (if t_children t = [] \<or> isComplete (last (t_children t)) then CompletedSuccessfully else ExecutingChildren)
      | _ \<Rightarrow> Inl (Throws (Exn ''Illogical state'')))"

fun index_close :: "tracker \<Rightarrow> tracker" where
  "index_close (Tracker n (Index_tracker sz i) s cs) =
     Tracker n (Index_tracker sz i) (if s = CompletedSuccessfully \<and> i < sz - 1 then Executing else s) cs"
| "index_close t = t"

definition close_this :: "tracker_path \<Rightarrow> tracker_context \<Rightarrow> tracker_context res" where
  "close_this p ctx =
     bindR (deref p ctx) (\<lambda>t.
     bindR (closed_state t) (\<lambda>st.
     bindR (moveToParent p (change p (set_state st) ctx)) (\<lambda>ctx1.
       Inr (change p index_close (completeCycle ctx1)))))"

text \<open>
  \<open>close\<close> first closes the current tracker until it is this one. As each of those moves to its
  parent, that is going up the path of the current tracker.
\<close>

fun close_up :: "tracker_path \<Rightarrow> tracker_path \<Rightarrow> tracker_context \<Rightarrow> tracker_context res" where
  "close_up this [] ctx = close_this [] ctx"
| "close_up this (k # q) ctx =
     (if k # q = this then close_this this ctx
      else bindR (close_this (k # q) ctx) (\<lambda>ctx1. close_up this q ctx1))"

definition close_tracker :: "tracker_path \<Rightarrow> tracker_context \<Rightarrow> tracker_context res" where
  "close_tracker this ctx = bindR (current ctx) (\<lambda>cur. close_up this cur ctx)"

definition fail_tracker :: "tracker_path \<Rightarrow> tracker_context \<Rightarrow> tracker_context res" where
  "fail_tracker p ctx =
     (let ctx1 = change p (set_state Failed) ctx;
          ctx2 = (case p of [] \<Rightarrow> ctx1 | k # q \<Rightarrow> change q (set_state NeedsAnotherRun) ctx1)
      in bindR (moveToParent p ctx2) (\<lambda>ctx3. Inr (completeCycle ctx3)))"

section \<open>Acquiring\<close>

text \<open>
  The child with a name, which is made when there is none. The assertion that a child found is a
  tracker of the kind that is asked for ends the program.
\<close>

fun isSectionTracker :: "tracker \<Rightarrow> bool" where
  "isSectionTracker (Tracker n k s cs) = (k = Section_tracker)"

definition isIndexTracker :: "tracker \<Rightarrow> bool" where
  "isIndexTracker t \<longleftrightarrow> \<not> isSectionTracker t"

definition find_or_add ::
  "string \<Rightarrow> tracker_kind \<Rightarrow> (tracker \<Rightarrow> bool) \<Rightarrow> tracker_path \<Rightarrow> tracker_context \<Rightarrow> (tracker_path \<times> tracker_context) res" where
  "find_or_add name kind ok p ctx =
     bindR (deref p ctx) (\<lambda>t.
       case findChild name t of
         Some k \<Rightarrow> if ok (t_children t ! k) then Inr (k # p, ctx) else Inl Terminated
       | None \<Rightarrow> Inr (length (t_children t) # p, change p (addChild (newTracker name kind)) ctx))"

definition acquire_section :: "string \<Rightarrow> tracker_context \<Rightarrow> (tracker_path \<times> tracker_context) res" where
  "acquire_section name ctx =
     bindR (current ctx) (\<lambda>p.
     bindR (find_or_add name Section_tracker isSectionTracker p ctx) (\<lambda>(child, ctx1).
     bindR (deref child ctx1) (\<lambda>t.
       if \<not> completedCycle ctx1 \<and> \<not> isComplete t
       then bindR (open_tracker child ctx1) (\<lambda>ctx2. Inr (child, ctx2))
       else Inr (child, ctx1))))"

fun moveNext :: "tracker \<Rightarrow> tracker" where
  "moveNext (Tracker n (Index_tracker sz i) s cs) = Tracker n (Index_tracker sz (i + 1)) s []"
| "moveNext t = t"

definition acquire_index :: "string \<Rightarrow> int \<Rightarrow> tracker_context \<Rightarrow> (tracker_path \<times> tracker_context) res" where
  "acquire_index name sz ctx =
     bindR (current ctx) (\<lambda>p.
     bindR (find_or_add name (Index_tracker sz (-1)) isIndexTracker p ctx) (\<lambda>(child, ctx1).
     bindR (deref child ctx1) (\<lambda>t.
       if \<not> completedCycle ctx1 \<and> \<not> isComplete t
       then bindR (open_tracker child
              (if t_state t \<noteq> ExecutingChildren \<and> t_state t \<noteq> NeedsAnotherRun
               then change child moveNext ctx1 else ctx1)) (\<lambda>ctx2. Inr (child, ctx2))
       else Inr (child, ctx1))))"

section \<open>Changes are local\<close>

lemma set_simps [simp]:
  "t_name (set_state st t) = t_name t" "t_state (set_state st t) = st" "t_children (set_state st t) = t_children t"
  "t_kind (set_state st t) = t_kind t" "t_kind (set_children cs t) = t_kind t"
  "t_name (set_children cs t) = t_name t" "t_state (set_children cs t) = t_state t" "t_children (set_children cs t) = cs"
  "set_children cs (set_children cs' t) = set_children cs t" "set_state st (set_state st' t) = set_state st t"
  "set_children (t_children t) t = t" "set_state (t_state t) t = t"
  by (cases t; simp)+

lemma tracker_at_modify [simp]: "tracker_at p (modify_at p f t) = map_option f (tracker_at p t)"
proof (induction p f t rule: modify_at.induct)
  case (2 k p f t)
  then show ?case by (auto split: option.splits)
qed simp

lemma modify_modify [simp]: "modify_at p g (modify_at p f t) = modify_at p (\<lambda>u. g (f u)) t"
proof (induction p arbitrary: f g t)
  case (Cons k p)
  have "(t_children u)[k := g (f (t_children u ! k))] = (t_children u)[k := g ((t_children u)[k := f (t_children u ! k)] ! k)]" for u
    by (cases "k < length (t_children u)") (auto simp: list_update_beyond)
  then show ?case using Cons by simp
qed simp

lemma modify_at_cong: "tracker_at p t = Some u \<Longrightarrow> f u = g u \<Longrightarrow> modify_at p f t = modify_at p g t"
proof (induction p arbitrary: f g u)
  case (Cons k p)
  obtain v where v: "tracker_at p t = Some v" "k < length (t_children v)" "u = t_children v ! k"
    using Cons.prems(1) by (auto split: option.splits if_splits)
  show ?case using Cons.prems(2) v(3) by (auto intro!: Cons.IH [OF v(1)])
qed simp

lemma modify_same: "tracker_at p t = Some u \<Longrightarrow> f u = u \<Longrightarrow> modify_at p f t = t"
proof -
  have "modify_at p (\<lambda>u. u) t = t" by (induction p) simp_all
  then show "tracker_at p t = Some u \<Longrightarrow> f u = u \<Longrightarrow> modify_at p f t = t"
    using modify_at_cong [of p t u f "\<lambda>u. u"] by simp
qed

text \<open>A subtree as a whole.\<close>

definition has_tracker :: "tracker_context \<Rightarrow> tracker_path \<Rightarrow> tracker \<Rightarrow> bool" where
  "has_tracker ctx p t \<longleftrightarrow> (\<exists>r. rootTracker ctx = Some r \<and> tracker_at p r = Some t)"

abbreviation put :: "tracker_path \<Rightarrow> tracker \<Rightarrow> tracker_context \<Rightarrow> tracker_context" where
  "put p t ctx \<equiv> change p (\<lambda>u. t) ctx"

lemma change_simps [simp]:
  "currentTracker (change p f ctx) = currentTracker ctx" "contextState (change p f ctx) = contextState ctx"
  "change p g (change p f ctx) = change p (\<lambda>u. g (f u)) ctx"
  "(change p f ctx)\<lparr>currentTracker := c\<rparr> = change p f (ctx\<lparr>currentTracker := c\<rparr>)"
  "(change p f ctx)\<lparr>contextState := s\<rparr> = change p f (ctx\<lparr>contextState := s\<rparr>)"
  "completeCycle (change p f ctx) = change p f (completeCycle ctx)"
  by (simp_all add: change_def completeCycle_def option.map_comp comp_def)

lemma change_put: "has_tracker ctx p t \<Longrightarrow> change p f ctx = put p (f t) ctx"
proof -
  assume "has_tracker ctx p t"
  then obtain r where r: "rootTracker ctx = Some r" "tracker_at p r = Some t" by (auto simp: has_tracker_def)
  then show ?thesis using modify_at_cong [of p r t f "\<lambda>u. f t"] by (simp add: change_def)
qed

lemma has_tracker_put: "has_tracker ctx p t \<Longrightarrow> has_tracker (put p u ctx) p u"
  by (auto simp: has_tracker_def change_def)

lemma has_tracker_frame [simp]:
  "has_tracker (ctx\<lparr>currentTracker := c\<rparr>) p t = has_tracker ctx p t"
  "has_tracker (ctx\<lparr>contextState := s\<rparr>) p t = has_tracker ctx p t"
  "has_tracker (completeCycle ctx) p t = has_tracker ctx p t"
  by (simp_all add: has_tracker_def completeCycle_def)

lemma has_tracker_deref: "has_tracker ctx p t \<Longrightarrow> deref p ctx = Inr t"
  by (auto simp: has_tracker_def deref_def)

lemma has_child: "has_tracker ctx p t \<Longrightarrow> k < length (t_children t) \<Longrightarrow> has_tracker ctx (k # p) (t_children t ! k)"
  by (auto simp: has_tracker_def)

lemma put_same: "has_tracker ctx p t \<Longrightarrow> put p t ctx = ctx"
  by (auto simp: has_tracker_def change_def modify_same)

lemma put_child:
  assumes "has_tracker ctx p t"
  shows "put (k # p) u ctx = put p (set_children ((t_children t)[k := u]) t) ctx"
proof -
  have "put (k # p) u ctx = change p (\<lambda>v. set_children ((t_children v)[k := u]) v) ctx"
    unfolding change_def modify_at.simps by (rule refl)
  also have "\<dots> = put p (set_children ((t_children t)[k := u]) t) ctx" by (rule change_put [OF assms])
  finally show ?thesis .
qed

lemma put_put [simp]: "put p u (put p t ctx) = put p u ctx"
  by simp

end
