(* ===== verification/Catch_Expression.thy ===== *)
theory Catch_Expression
  imports Catch_Selection
begin

text \<open>
  What an assertion evaluates (\<open>include/catch.h\<close>): the comparison of two operands, whose
  overloads for integers of different types convert the signed operand, the strings the operands
  are shown as, and the string matchers with their combinators.
\<close>

section \<open>Comparisons\<close>

datatype operator =
  IsEqualTo | IsNotEqualTo | IsLessThan | IsGreaterThan | IsLessThanOrEqualTo | IsGreaterThanOrEqualTo

fun getName :: "operator \<Rightarrow> string" where
  "getName IsEqualTo = ''==''"
| "getName IsNotEqualTo = ''!=''"
| "getName IsLessThan = ''<''"
| "getName IsGreaterThan = ''>''"
| "getName IsLessThanOrEqualTo = ''<=''"
| "getName IsGreaterThanOrEqualTo = ''>=''"

fun evaluate :: "operator \<Rightarrow> int \<Rightarrow> int \<Rightarrow> bool" where
  "evaluate IsEqualTo l r = (l = r)"
| "evaluate IsNotEqualTo l r = (l \<noteq> r)"
| "evaluate IsLessThan l r = (l < r)"
| "evaluate IsGreaterThan l r = (l > r)"
| "evaluate IsGreaterThanOrEqualTo l r = (l \<ge> r)"
| "evaluate IsLessThanOrEqualTo l r = (l \<le> r)"

text \<open>
  Operands, on a platform with 64 bits of \<open>long\<close>, \<open>long long\<close> and of pointers, and a signed \<open>char\<close>.
\<close>

datatype operand =
    Op_char "8 word" | Op_int "32 word" | Op_long "64 word" | Op_llong "64 word"
  | Op_uchar "8 word" | Op_uint "32 word" | Op_ulong "64 word" | Op_ullong "64 word"
  | Op_pointer "64 word"

fun numeric :: "operand \<Rightarrow> int" where
  "numeric (Op_char w) = sint w"
| "numeric (Op_int w) = sint w"
| "numeric (Op_long w) = sint w"
| "numeric (Op_llong w) = sint w"
| "numeric (Op_uchar w) = uint w"
| "numeric (Op_uint w) = uint w"
| "numeric (Op_ulong w) = uint w"
| "numeric (Op_ullong w) = uint w"
| "numeric (Op_pointer w) = uint w"

text \<open>
  The usual arithmetic conversions: the bits of the operand when its promoted type is unsigned,
  and when it is signed.
\<close>

fun unsigned_bits :: "operand \<Rightarrow> nat" where
  "unsigned_bits (Op_uint w) = 32"
| "unsigned_bits (Op_ulong w) = 64"
| "unsigned_bits (Op_ullong w) = 64"
| "unsigned_bits (Op_pointer w) = 64"
| "unsigned_bits _ = 0"

fun signed_bits :: "operand \<Rightarrow> nat" where
  "signed_bits (Op_char w) = 32"
| "signed_bits (Op_uchar w) = 32"
| "signed_bits (Op_int w) = 32"
| "signed_bits (Op_long w) = 64"
| "signed_bits (Op_llong w) = 64"
| "signed_bits _ = 0"

definition applyEvaluator :: "operator \<Rightarrow> operand \<Rightarrow> operand \<Rightarrow> bool" where
  "applyEvaluator op l r =
     (let w = max (unsigned_bits l) (unsigned_bits r); v = max (signed_bits l) (signed_bits r)
      in if w > 0 \<and> v \<le> w then evaluate op (numeric l mod 2 ^ w) (numeric r mod 2 ^ w)
         else evaluate op (numeric l) (numeric r))"

text \<open>
  The overloads. A cast between integer types of one width keeps the bits, so that it only changes
  the constructor; the one that is chosen when no other fits compares the operands as they are.
\<close>

definition compare :: "operator \<Rightarrow> operand \<Rightarrow> operand \<Rightarrow> bool" where
  "compare op l r =
     (case (l, r) of
        (Op_uint l, Op_int r) \<Rightarrow> applyEvaluator op (Op_uint l) (Op_uint r)
      | (Op_ulong l, Op_int r) \<Rightarrow> applyEvaluator op (Op_ulong l) (Op_uint r)
      | (Op_uchar l, Op_int r) \<Rightarrow> applyEvaluator op (Op_uchar l) (Op_uint r)
      | (Op_uint l, Op_long r) \<Rightarrow> applyEvaluator op (Op_uint l) (Op_ulong r)
      | (Op_ulong l, Op_long r) \<Rightarrow> applyEvaluator op (Op_ulong l) (Op_ulong r)
      | (Op_uchar l, Op_long r) \<Rightarrow> applyEvaluator op (Op_uchar l) (Op_ulong r)
      | (Op_int l, Op_uint r) \<Rightarrow> applyEvaluator op (Op_uint l) (Op_uint r)
      | (Op_int l, Op_ulong r) \<Rightarrow> applyEvaluator op (Op_uint l) (Op_ulong r)
      | (Op_int l, Op_uchar r) \<Rightarrow> applyEvaluator op (Op_uint l) (Op_uchar r)
      | (Op_long l, Op_uint r) \<Rightarrow> applyEvaluator op (Op_ulong l) (Op_uint r)
      | (Op_long l, Op_ulong r) \<Rightarrow> applyEvaluator op (Op_ulong l) (Op_ulong r)
      | (Op_long l, Op_uchar r) \<Rightarrow> applyEvaluator op (Op_ulong l) (Op_uchar r)
      | (Op_long l, Op_pointer r) \<Rightarrow> applyEvaluator op (Op_pointer l) (Op_pointer r)
      | (Op_pointer l, Op_long r) \<Rightarrow> applyEvaluator op (Op_pointer l) (Op_pointer r)
      | (Op_int l, Op_pointer r) \<Rightarrow> applyEvaluator op (Op_pointer (scast l)) (Op_pointer r)
      | (Op_pointer l, Op_int r) \<Rightarrow> applyEvaluator op (Op_pointer l) (Op_pointer (scast r))
      | (Op_llong l, Op_uint r) \<Rightarrow> applyEvaluator op (Op_ulong l) (Op_uint r)
      | (Op_llong l, Op_ulong r) \<Rightarrow> applyEvaluator op (Op_ulong l) (Op_ulong r)
      | (Op_llong l, Op_ullong r) \<Rightarrow> applyEvaluator op (Op_ulong l) (Op_ullong r)
      | (Op_llong l, Op_uchar r) \<Rightarrow> applyEvaluator op (Op_ulong l) (Op_uchar r)
      | (Op_ullong l, Op_int r) \<Rightarrow> applyEvaluator op (Op_long l) (Op_int r)
      | (Op_ullong l, Op_long r) \<Rightarrow> applyEvaluator op (Op_long l) (Op_long r)
      | (Op_ullong l, Op_llong r) \<Rightarrow> applyEvaluator op (Op_long l) (Op_llong r)
      | (Op_ullong l, Op_char r) \<Rightarrow> applyEvaluator op (Op_long l) (Op_char r)
      | (Op_llong l, Op_pointer r) \<Rightarrow> applyEvaluator op (Op_pointer l) (Op_pointer r)
      | (Op_pointer l, Op_llong r) \<Rightarrow> applyEvaluator op (Op_pointer l) (Op_pointer r)
      | _ \<Rightarrow> applyEvaluator op l r)"

text \<open>Strings and truth values are compared as they are.\<close>

fun compare_strings :: "operator \<Rightarrow> string \<Rightarrow> string \<Rightarrow> bool" where
  "compare_strings IsEqualTo l r = (l = r)"
| "compare_strings IsNotEqualTo l r = (l \<noteq> r)"
| "compare_strings IsLessThan l r = (l < r)"
| "compare_strings IsGreaterThan l r = (l > r)"
| "compare_strings IsGreaterThanOrEqualTo l r = (l \<ge> r)"
| "compare_strings IsLessThanOrEqualTo l r = (l \<le> r)"

definition compare_bools :: "operator \<Rightarrow> bool \<Rightarrow> bool \<Rightarrow> bool" where
  "compare_bools op l r = evaluate op (if l then 1 else 0) (if r then 1 else 0)"

text \<open>Operands whose comparison needs no conversion of a value that the other type cannot hold.\<close>

fun is_signed :: "operand \<Rightarrow> bool" where
  "is_signed (Op_char w) = True"
| "is_signed (Op_int w) = True"
| "is_signed (Op_long w) = True"
| "is_signed (Op_llong w) = True"
| "is_signed _ = False"

definition holds :: "operand \<Rightarrow> operand \<Rightarrow> bool" where
  "holds l r \<longleftrightarrow> is_signed l = is_signed r
     \<or> (0 \<le> numeric l \<and> 0 \<le> numeric r \<and> numeric l < 2 ^ 63 \<and> numeric r < 2 ^ 63)"

lemma uint_sint: "0 \<le> sint (w :: 'a :: len word) \<Longrightarrow> uint w = sint w"
  using uint_sint [of w] sint_less [of w]
  by (simp add: take_bit_int_eq_self order_less_le_trans [OF _ power_increasing])

lemma sint_uint64: "uint (w :: 64 word) < 2 ^ 63 \<Longrightarrow> sint w = uint w"
  by (simp add: sint_uint signed_take_bit_int_eq_self_iff order_trans [of _ 0])

lemma uint_scast:
  assumes "0 \<le> sint (w :: 32 word)"
  shows "uint (scast w :: 64 word) = sint w"
proof -
  have "sint w < 2 ^ 64" using sint_less [of w] by simp
  then have "take_bit 64 (sint w) = sint w" by (intro take_bit_int_eq_self) (simp_all add: assms)
  moreover have "uint (scast w :: 64 word) = take_bit 64 (sint w)"
    by transfer simp
  ultimately show ?thesis by simp
qed

lemma numeric_less: "numeric l < 2 ^ max (signed_bits l) (unsigned_bits l)"
proof (cases l)
  case (Op_char w) then show ?thesis using sint_less [of w] by simp
next
  case (Op_int w) then show ?thesis using sint_less [of w] by simp
next
  case (Op_long w) then show ?thesis using sint_less [of w] by simp
next
  case (Op_llong w) then show ?thesis using sint_less [of w] by simp
next
  case (Op_uchar w) then show ?thesis using uint_lt2p [of w] by simp
next
  case (Op_uint w) then show ?thesis using uint_lt2p [of w] by simp
next
  case (Op_ulong w) then show ?thesis using uint_lt2p [of w] by simp
next
  case (Op_ullong w) then show ?thesis using uint_lt2p [of w] by simp
next
  case (Op_pointer w) then show ?thesis using uint_lt2p [of w] by simp
qed

lemma numeric_mod:
  assumes "0 \<le> numeric l" "signed_bits l \<le> w" "unsigned_bits l \<le> w"
  shows "numeric l mod 2 ^ w = numeric l"
proof (rule mod_pos_pos_trivial [OF assms(1)])
  have "(2 :: int) ^ max (signed_bits l) (unsigned_bits l) \<le> 2 ^ w" using assms by (intro power_increasing) auto
  then show "numeric l < 2 ^ w" using numeric_less [of l] by linarith
qed

lemma applyEvaluator_exact:
  assumes "0 \<le> numeric l" "0 \<le> numeric r"
  shows "applyEvaluator op l r = evaluate op (numeric l) (numeric r)"
  using assms by (simp add: applyEvaluator_def Let_def numeric_mod)

lemma applyEvaluator_signed:
  "is_signed l \<Longrightarrow> is_signed r \<Longrightarrow> applyEvaluator op l r = evaluate op (numeric l) (numeric r)"
  by (cases l; cases r; simp add: applyEvaluator_def)

lemma numeric_unsigned: "\<not> is_signed l \<Longrightarrow> 0 \<le> numeric l"
  by (cases l) simp_all

lemma compare_same: "is_signed l = is_signed r \<Longrightarrow> compare op l r = applyEvaluator op l r"
  by (cases l; cases r; simp add: compare_def)

lemma compare_fits:
  assumes "0 \<le> numeric l" "0 \<le> numeric r" "numeric l < 2 ^ 63" "numeric r < 2 ^ 63"
  shows "compare op l r = evaluate op (numeric l) (numeric r)"
  using assms
  by (cases l; cases r; ((simp add: compare_def applyEvaluator_exact uint_sint uint_scast; fail)
      | (simp add: compare_def applyEvaluator_exact sint_uint64; fail)))

lemma compare_exact:
  assumes "holds l r"
  shows "compare op l r = evaluate op (numeric l) (numeric r)"
proof (cases "is_signed l = is_signed r")
  case True
  then show ?thesis
    using applyEvaluator_signed applyEvaluator_exact numeric_unsigned by (metis compare_same)
next
  case False
  then have "0 \<le> numeric l" "0 \<le> numeric r" "numeric l < 2 ^ 63" "numeric r < 2 ^ 63"
    using assms by (simp_all add: holds_def)
  then show ?thesis by (rule compare_fits)
qed

text \<open>
  C29. An assertion that compares two integers of any types decides the comparison of their values
  when both types are signed, both are unsigned, or both values fit the other type.
\<close>

theorem assertion_compares_values:
  assumes "holds l r"
  shows "compare op l r = evaluate op (numeric l) (numeric r)"
  using assms by (rule compare_exact)

lemma assertion_compares_values_witness:
  "compare IsLessThan (Op_ulong 7) (Op_int 9) = evaluate IsLessThan (numeric (Op_ulong 7)) (numeric (Op_int 9))"
  by (rule assertion_compares_values) (simp add: holds_def)

text \<open>
  An \<open>unsigned long\<close> is compared with an \<open>int\<close> after a cast to \<open>unsigned int\<close>, which loses the upper
  half: the comparison of C++ itself converts \<open>-1\<close> to the largest \<open>unsigned long\<close>.
\<close>

lemma compare_loses_upper_half:
  "\<not> compare IsEqualTo (Op_ulong (- 1)) (Op_int (- 1))"
  "applyEvaluator IsEqualTo (Op_ulong (- 1)) (Op_int (- 1))"
  "compare IsEqualTo (Op_ulong 4294967295) (Op_int (- 1))"
  by (simp_all add: compare_def applyEvaluator_def unsigned_minus_1_eq_mask mask_eq_exp_minus_1)


section \<open>Strings of operands\<close>

definition hex_digit :: "nat \<Rightarrow> char" where
  "hex_digit d = (if d < 10 then char_of (48 + d) else char_of (87 + d))"

fun hex :: "nat \<Rightarrow> string" where
  "hex n = (if n < 16 then [hex_digit n] else hex (n div 16) @ [hex_digit (n mod 16)])"

declare hex.simps [simp del]

definition dec_int :: "int \<Rightarrow> string" where
  "dec_int v = (if v < 0 then ''-'' @ dec (nat (- v)) else dec (nat v))"

definition hexThreshold :: int where "hexThreshold = 255"

definition toString_int :: "int \<Rightarrow> string" where
  "toString_int v = dec_int v @ (if v > hexThreshold then '' (0x'' @ hex (nat v) @ '')'' else [])"

definition toString_bool :: "bool \<Rightarrow> string" where
  "toString_bool v = (if v then ''true'' else ''false'')"

text \<open>\<open>unsigned int\<close> of an \<open>int\<close>.\<close>

definition to_uint :: "int \<Rightarrow> int" where "to_uint v = v mod 2 ^ 32"

text \<open>A \<open>char\<close> is signed; one below a space is shown as an \<open>unsigned int\<close>.\<close>

definition char_value :: "char \<Rightarrow> int" where
  "char_value c = sint (of_char c :: 8 word)"

definition toString_char :: "char \<Rightarrow> string" where
  "toString_char c = (if char_value c < char_value CHR '' '' then toString_int (to_uint (char_value c)) else [c])"

text \<open>The loop that shows the invisible characters of a string, at index \<open>i\<close>.\<close>

definition newline :: char where "newline = CHR 0x0A"
definition tab :: char where "tab = CHR 0x09"

definition visible :: "char \<Rightarrow> string" where
  "visible c = (if c = newline then [CHR 0x5C, CHR ''n''] else if c = tab then [CHR 0x5C, CHR ''t''] else [])"

function show_loop :: "nat \<Rightarrow> string \<Rightarrow> string" where
  "show_loop i s =
     (if i \<ge> length s then s
      else if visible (s ! i) \<noteq> []
      then show_loop (i + 2) (take i s @ visible (s ! i) @ drop (i + 1) s)
      else show_loop (i + 1) s)"
  by pat_completeness auto
termination
  by (relation "measure (\<lambda>(i, s). length s - i)") (auto simp: visible_def split: if_splits)

declare show_loop.simps [simp del]

definition quote :: char where "quote = CHR 0x22"

definition toString_string :: "bool \<Rightarrow> string \<Rightarrow> string" where
  "toString_string showInvisibles value =
     [quote] @ (if showInvisibles then show_loop 0 value else value) @ [quote]"

text \<open>A C string may be null.\<close>

definition toString_cstring :: "bool \<Rightarrow> string option \<Rightarrow> string" where
  "toString_cstring showInvisibles value =
     (case value of None \<Rightarrow> ''{null string}'' | Some s \<Rightarrow> toString_string showInvisibles s)"

text \<open>A wide string, as the codes of its characters.\<close>

definition toString_wstring :: "bool \<Rightarrow> nat list \<Rightarrow> string" where
  "toString_wstring showInvisibles value =
     toString_string showInvisibles (map (\<lambda>c. if c \<le> 255 then char_of c else CHR ''?'') value)"

text \<open>A floating point number, from its text with a fixed number of decimals.\<close>

definition fpToString :: "string \<Rightarrow> string" where
  "fpToString d =
     (case find_last_not_of d ''0'' of
        None \<Rightarrow> d
      | Some i \<Rightarrow>
          if i \<noteq> length d - 1
          then take ((if d ! i = CHR ''.'' then i + 1 else i) + 1) d
          else d)"

fun separated :: "string \<Rightarrow> string list \<Rightarrow> string" where
  "separated sep [] = []"
| "separated sep [x] = x"
| "separated sep (x # y # ys) = x @ sep @ separated sep (y # ys)"

definition rangeToString :: "string list \<Rightarrow> string" where
  "rangeToString shown = ''{ '' @ separated '', '' shown @ '' }''"

text \<open>Bytes of an object on a little endian platform, most significant first.\<close>

definition rawMemoryToString :: "8 word list \<Rightarrow> string" where
  "rawMemoryToString bytes =
     ''0x'' @ concat (map (\<lambda>b. [hex_digit (unat b div 16), hex_digit (unat b mod 16)]) (rev bytes))"

text \<open>
  An operand. There is no overload for \<open>long\<close>, which is written to a stream as it is; an
  \<open>unsigned char\<close> is shown as a \<open>char\<close>.
\<close>

fun toString_operand :: "operand \<Rightarrow> string" where
  "toString_operand (Op_char w) = toString_char (char_of (unat w))"
| "toString_operand (Op_int w) = toString_int (sint w)"
| "toString_operand (Op_long w) = dec_int (sint w)"
| "toString_operand (Op_llong w) = toString_int (sint w)"
| "toString_operand (Op_uchar w) = toString_char (char_of (unat w))"
| "toString_operand (Op_uint w) = toString_int (uint w)"
| "toString_operand (Op_ulong w) = toString_int (uint w)"
| "toString_operand (Op_ullong w) = toString_int (uint w)"
| "toString_operand (Op_pointer w) =
     (if w = 0 then ''NULL''
      else rawMemoryToString (map (\<lambda>i. ucast (drop_bit (8 * i) w)) [0..<8]))"

text \<open>The loop replaces each character on its own: an inserted backslash is not looked at again.\<close>

definition shown_char :: "char \<Rightarrow> string" where
  "shown_char c = (if visible c = [] then [c] else visible c)"

lemma show_loop_append: "show_loop (length p) (p @ s) = p @ concat (map shown_char s)"
proof (induction s arbitrary: p)
  case (Cons c s)
  show ?case
  proof (cases "visible c = []")
    case True
    then have "shown_char c = [c]" by (simp add: shown_char_def)
    then show ?thesis
      using True Cons.IH [of "p @ [c]"] by (subst show_loop.simps) (simp add: nth_append)
  next
    case False
    then have "length (visible c) = 2" by (auto simp: visible_def split: if_splits)
    moreover have "shown_char c = visible c" using False by (simp add: shown_char_def)
    ultimately show ?thesis
      using False Cons.IH [of "p @ visible c"] by (subst show_loop.simps) (simp add: nth_append)
  qed
qed (subst show_loop.simps, simp)

lemma toString_string_shown:
  "toString_string True s = [quote] @ concat (map shown_char s) @ [quote]"
  using show_loop_append [of "[]" s] by (simp add: toString_string_def)

section \<open>Matchers\<close>

record cased_string =
  cs_sensitive :: bool
  cs_str :: string

definition adjustString :: "cased_string \<Rightarrow> string \<Rightarrow> string" where
  "adjustString d str = (if \<not> cs_sensitive d then toLower str else str)"

definition makeCasedString :: "string \<Rightarrow> bool \<Rightarrow> cased_string" where
  "makeCasedString str sensitive =
     (let d = \<lparr>cs_sensitive = sensitive, cs_str = []\<rparr> in d\<lparr>cs_str := adjustString d str\<rparr>)"

definition toStringSuffix :: "cased_string \<Rightarrow> string" where
  "toStringSuffix d = (if \<not> cs_sensitive d then '' (case insensitive)'' else [])"

text \<open>A null C string makes the empty string.\<close>

definition makeString :: "string option \<Rightarrow> string" where
  "makeString str = (case str of None \<Rightarrow> [] | Some s \<Rightarrow> s)"

datatype matcher =
    Equals cased_string | Contains cased_string | StartsWith cased_string | EndsWith cased_string
  | Not_matcher matcher | AllOf "matcher list" | AnyOf "matcher list"

fun matches :: "matcher \<Rightarrow> string \<Rightarrow> bool" where
  "matches (Equals d) expr = (cs_str d = adjustString d expr)"
| "matches (Contains d) expr = (str_find (adjustString d expr) (cs_str d) 0 \<noteq> None)"
| "matches (StartsWith d) expr = startsWith (adjustString d expr) (cs_str d)"
| "matches (EndsWith d) expr = endsWith (adjustString d expr) (cs_str d)"
| "matches (Not_matcher m) expr = (\<not> matches m expr)"
| "matches (AllOf ms) expr = list_all (\<lambda>m. matches m expr) ms"
| "matches (AnyOf ms) expr = list_ex (\<lambda>m. matches m expr) ms"

fun matcher_toString :: "matcher \<Rightarrow> string" where
  "matcher_toString (Equals d) = ''equals: '' @ [quote] @ cs_str d @ [quote] @ toStringSuffix d"
| "matcher_toString (Contains d) = ''contains: '' @ [quote] @ cs_str d @ [quote] @ toStringSuffix d"
| "matcher_toString (StartsWith d) = ''starts with: '' @ [quote] @ cs_str d @ [quote] @ toStringSuffix d"
| "matcher_toString (EndsWith d) = ''ends with: '' @ [quote] @ cs_str d @ [quote] @ toStringSuffix d"
| "matcher_toString (Not_matcher m) = ''not '' @ matcher_toString m"
| "matcher_toString (AllOf ms) = ''( '' @ separated '' and '' (map matcher_toString ms) @ '' )''"
| "matcher_toString (AnyOf ms) = ''( '' @ separated '' or '' (map matcher_toString ms) @ '' )''"

text \<open>The operators: that of a conjunction itself extends it, any other matcher starts a new one.\<close>

fun and_matcher :: "matcher \<Rightarrow> matcher \<Rightarrow> matcher" where
  "and_matcher (AllOf ms) other = AllOf (ms @ [other])"
| "and_matcher m other = AllOf [m, other]"

fun or_matcher :: "matcher \<Rightarrow> matcher \<Rightarrow> matcher" where
  "or_matcher (AnyOf ms) other = AnyOf (ms @ [other])"
| "or_matcher m other = AnyOf [m, other]"

definition not_matcher :: "matcher \<Rightarrow> matcher" where
  "not_matcher m = Not_matcher m"

lemma matches_and: "matches (and_matcher m other) s \<longleftrightarrow> matches m s \<and> matches other s"
  by (cases m) auto

lemma matches_or: "matches (or_matcher m other) s \<longleftrightarrow> matches m s \<or> matches other s"
  by (cases m) auto

lemma matches_cased:
  "matches (Equals (makeCasedString str True)) s \<longleftrightarrow> s = str"
  "matches (Equals (makeCasedString str False)) s \<longleftrightarrow> toLower s = toLower str"
  by (auto simp: makeCasedString_def adjustString_def Let_def)

text \<open>
  The matchers built with the operators decide the propositional combination of the matchers
  they are built from, in any nesting, and by de Morgan's laws the negation of one combination
  matches what the other one matches of the negations.
\<close>

theorem matcher_operators:
  "(matches (and_matcher m1 m2) s \<longleftrightarrow> matches m1 s \<and> matches m2 s)
   \<and> (matches (or_matcher m1 m2) s \<longleftrightarrow> matches m1 s \<or> matches m2 s)
   \<and> (matches (not_matcher (and_matcher m1 m2)) s
      \<longleftrightarrow> matches (or_matcher (not_matcher m1) (not_matcher m2)) s)"
  by (simp add: matches_and matches_or not_matcher_def)

end
