(* ===== verification/Catch_Assertion.thy ===== *)
theory Catch_Assertion
  imports Catch_Expression
begin

text \<open>
  Assertions (\<open>include/catch.h\<close>): the kinds of result, what is done on a failure, the builder an
  assertion macro fills in and what it makes of it, the counts of a run, and messages.
\<close>

section \<open>Results and dispositions\<close>

datatype result_was =
    Unknown | Ok | Info | Warning | ExpressionFailed | ExplicitFailure
  | ThrewException | DidntThrowException | FatalErrorCondition

definition FailureBit :: "32 word" where "FailureBit = 0x10"
definition ExceptionBit :: "32 word" where "ExceptionBit = 0x100 OR FailureBit"

fun result_code :: "result_was \<Rightarrow> 32 word" where
  "result_code Unknown = - 1"
| "result_code Ok = 0"
| "result_code Info = 1"
| "result_code Warning = 2"
| "result_code ExpressionFailed = FailureBit OR 1"
| "result_code ExplicitFailure = FailureBit OR 2"
| "result_code ThrewException = ExceptionBit OR 1"
| "result_code DidntThrowException = ExceptionBit OR 2"
| "result_code FatalErrorCondition = 0x200 OR FailureBit"

definition isOk :: "result_was \<Rightarrow> bool" where
  "isOk t \<longleftrightarrow> result_code t AND FailureBit = 0"

definition isJustInfo :: "result_was \<Rightarrow> bool" where
  "isJustInfo t \<longleftrightarrow> result_code t = result_code Info"

type_synonym disposition = "32 word"

definition NormalDisposition :: disposition where "NormalDisposition = 1"
definition ContinueOnFailure :: disposition where "ContinueOnFailure = 2"
definition FalseTest :: disposition where "FalseTest = 4"
definition SuppressFail :: disposition where "SuppressFail = 8"

definition shouldContinueOnFailure :: "disposition \<Rightarrow> bool" where
  "shouldContinueOnFailure flags \<longleftrightarrow> flags AND ContinueOnFailure \<noteq> 0"

definition isFalseTest :: "disposition \<Rightarrow> bool" where
  "isFalseTest flags \<longleftrightarrow> flags AND FalseTest \<noteq> 0"

definition shouldSuppressFailure :: "disposition \<Rightarrow> bool" where
  "shouldSuppressFailure flags \<longleftrightarrow> flags AND SuppressFail \<noteq> 0"

lemma isOk_iff [simp]: "isOk t \<longleftrightarrow> t = Ok \<or> t = Info \<or> t = Warning"
  by (cases t) (simp_all add: isOk_def FailureBit_def ExceptionBit_def)

record assertion_info =
  macroName :: string
  ai_lineInfo :: source_line_info
  capturedExpression :: string
  resultDisposition :: disposition

record assertion_result_data =
  reconstructedExpression :: string
  message :: string
  resultType :: result_was

definition newAssertionResultData :: assertion_result_data where
  "newAssertionResultData = \<lparr>reconstructedExpression = [], message = [], resultType = Unknown\<rparr>"

record assertion_result =
  m_info :: assertion_info
  m_resultData :: assertion_result_data

definition succeeded :: "assertion_result \<Rightarrow> bool" where
  "succeeded r \<longleftrightarrow> isOk (resultType (m_resultData r))"

definition result_isOk :: "assertion_result \<Rightarrow> bool" where
  "result_isOk r \<longleftrightarrow>
     isOk (resultType (m_resultData r)) \<or> shouldSuppressFailure (resultDisposition (m_info r))"

definition getResultType :: "assertion_result \<Rightarrow> result_was" where
  "getResultType r = resultType (m_resultData r)"

definition hasExpression :: "assertion_result \<Rightarrow> bool" where
  "hasExpression r \<longleftrightarrow> capturedExpression (m_info r) \<noteq> []"

definition hasMessage :: "assertion_result \<Rightarrow> bool" where
  "hasMessage r \<longleftrightarrow> message (m_resultData r) \<noteq> []"

definition getExpression :: "assertion_result \<Rightarrow> string" where
  "getExpression r =
     (if isFalseTest (resultDisposition (m_info r)) then ''!'' @ capturedExpression (m_info r)
      else capturedExpression (m_info r))"

definition getExpressionInMacro :: "assertion_result \<Rightarrow> string" where
  "getExpressionInMacro r =
     (if macroName (m_info r) = [] then capturedExpression (m_info r)
      else macroName (m_info r) @ ''( '' @ capturedExpression (m_info r) @ '' )'')"

definition getExpandedExpression :: "assertion_result \<Rightarrow> string" where
  "getExpandedExpression r = reconstructedExpression (m_resultData r)"

definition hasExpandedExpression :: "assertion_result \<Rightarrow> bool" where
  "hasExpandedExpression r \<longleftrightarrow> hasExpression r \<and> getExpandedExpression r \<noteq> getExpression r"

section \<open>The builder of a result\<close>

record result_builder =
  m_assertionInfo :: assertion_info
  m_data :: assertion_result_data
  testFalse :: bool
  lhs :: string
  rhs :: string
  op_name :: string
  m_stream :: string
  m_shouldDebugBreak :: bool
  m_shouldThrow :: bool

definition capturedExpressionWithSecondArgument :: "string \<Rightarrow> string \<Rightarrow> string" where
  "capturedExpressionWithSecondArgument captured secondArg =
     (if secondArg = [] \<or> secondArg = [quote, quote] then captured else captured @ '', '' @ secondArg)"

definition newResultBuilder ::
  "string \<Rightarrow> source_line_info \<Rightarrow> string \<Rightarrow> disposition \<Rightarrow> string \<Rightarrow> result_builder" where
  "newResultBuilder macro line captured disp secondArg =
     \<lparr>m_assertionInfo = \<lparr>macroName = macro, ai_lineInfo = line,
        capturedExpression = capturedExpressionWithSecondArgument captured secondArg,
        resultDisposition = disp\<rparr>,
      m_data = newAssertionResultData, testFalse = False, lhs = [], rhs = [], op_name = [], m_stream = [],
      m_shouldDebugBreak = False, m_shouldThrow = False\<rparr>"

definition setResultType :: "result_was \<Rightarrow> result_builder \<Rightarrow> result_builder" where
  "setResultType t b = b\<lparr>m_data := (m_data b)\<lparr>resultType := t\<rparr>\<rparr>"

definition setResultBool :: "bool \<Rightarrow> result_builder \<Rightarrow> result_builder" where
  "setResultBool r b = b\<lparr>m_data := (m_data b)\<lparr>resultType := if r then Ok else ExpressionFailed\<rparr>\<rparr>"

definition streamInto :: "string \<Rightarrow> result_builder \<Rightarrow> result_builder" where
  "streamInto text b = b\<lparr>m_stream := m_stream b @ text\<rparr>"

text \<open>What the wrapper around the left operand captures of a comparison and of a plain value.\<close>

definition captureComparison ::
  "operator \<Rightarrow> operand \<Rightarrow> operand \<Rightarrow> result_builder \<Rightarrow> result_builder" where
  "captureComparison op l r b =
     (setResultBool (compare op l r) b)\<lparr>lhs := toString_operand l, rhs := toString_operand r, op_name := getName op\<rparr>"

text \<open>The operators for operands that are strings, and those for truth values.\<close>

definition captureStrings ::
  "bool \<Rightarrow> operator \<Rightarrow> string \<Rightarrow> string \<Rightarrow> result_builder \<Rightarrow> result_builder" where
  "captureStrings invisibles op l r b =
     (setResultBool (compare_strings op l r) b)
       \<lparr>lhs := toString_string invisibles l, rhs := toString_string invisibles r, op_name := getName op\<rparr>"

definition captureBools :: "operator \<Rightarrow> bool \<Rightarrow> bool \<Rightarrow> result_builder \<Rightarrow> result_builder" where
  "captureBools op l r b =
     (setResultBool (compare_bools op l r) b)\<lparr>lhs := toString_bool l, rhs := toString_bool r, op_name := getName op\<rparr>"

definition captureValue :: "bool \<Rightarrow> result_builder \<Rightarrow> result_builder" where
  "captureValue v b = setResultBool v (b\<lparr>lhs := toString_bool v\<rparr>)"

definition reconstructExpression :: "result_builder \<Rightarrow> string res" where
  "reconstructExpression b =
     (let captured = capturedExpression (m_assertionInfo b); macro = macroName (m_assertionInfo b)
      in if op_name b = [] then Inr (if lhs b = [] then captured else op_name b @ lhs b)
         else if op_name b = ''matches'' then Inr (lhs b @ '' '' @ rhs b)
         else if op_name b \<noteq> ''!'' then
           Inr (if length (lhs b) + length (rhs b) < 40 \<and> newline \<notin> set (lhs b) \<and> newline \<notin> set (rhs b)
                then lhs b @ '' '' @ op_name b @ '' '' @ rhs b
                else lhs b @ [newline] @ op_name b @ [newline] @ rhs b)
         else if captured = [] then Inl (Throws (Exn ''basic_string::substr''))
         else Inr ([CHR 0x7B] @ ''can'' @ [CHR 0x27] @ ''t expand - use '' @ macro @ ''_FALSE( '' @ drop 1 captured
           @ '' ) instead of '' @ macro @ ''( '' @ captured @ '' ) for better diagnostics'' @ [CHR 0x7D]))"

text \<open>The result of a test that is expected to be false is flipped.\<close>

fun flip_result :: "result_was \<Rightarrow> result_was" where
  "flip_result Ok = ExpressionFailed"
| "flip_result ExpressionFailed = Ok"
| "flip_result t = t"

definition build :: "result_builder \<Rightarrow> assertion_result res" where
  "build b =
     (if resultType (m_data b) = Unknown then Inl Terminated
      else bindR (reconstructExpression b) (\<lambda>e.
        Inr \<lparr>m_info = m_assertionInfo b,
             m_resultData = \<lparr>
               reconstructedExpression =
                 (if testFalse b then (if op_name b = [] then ''!'' @ e else ''!('' @ e @ '')'') else e),
               message = m_stream b,
               resultType = (if testFalse b then flip_result (resultType (m_data b)) else resultType (m_data b))\<rparr>\<rparr>))"

definition endExpression_flag :: "result_builder \<Rightarrow> result_builder" where
  "endExpression_flag b = b\<lparr>testFalse := isFalseTest (resultDisposition (m_assertionInfo b))\<rparr>"

text \<open>What is recorded when an exception that was expected was thrown.\<close>

definition expected_exception_result :: "matcher \<Rightarrow> string \<Rightarrow> result_builder \<Rightarrow> assertion_result" where
  "expected_exception_result m actual b =
     \<lparr>m_info = m_assertionInfo b,
      m_resultData = (if matches m actual
        then (m_data b)\<lparr>resultType := Ok, reconstructedExpression := capturedExpression (m_assertionInfo b)\<rparr>
        else (m_data b)\<lparr>resultType := ExpressionFailed, reconstructedExpression := actual\<rparr>)\<rparr>"

text \<open>An expected message that is empty accepts every message.\<close>

definition expected_message_matcher :: "string \<Rightarrow> matcher" where
  "expected_message_matcher expected =
     (if expected = [] then AllOf [] else Equals (makeCasedString expected True))"

section \<open>Counts\<close>

type_synonym count = "64 word"

record counts =
  passed :: count
  failed :: count
  failedButOk :: count

definition no_counts :: counts where
  "no_counts = \<lparr>passed = 0, failed = 0, failedButOk = 0\<rparr>"

definition counts_minus :: "counts \<Rightarrow> counts \<Rightarrow> counts" where
  "counts_minus a b = \<lparr>passed = passed a - passed b, failed = failed a - failed b,
     failedButOk = failedButOk a - failedButOk b\<rparr>"

definition counts_plus :: "counts \<Rightarrow> counts \<Rightarrow> counts" where
  "counts_plus a b = \<lparr>passed = passed a + passed b, failed = failed a + failed b,
     failedButOk = failedButOk a + failedButOk b\<rparr>"

definition total :: "counts \<Rightarrow> count" where
  "total c = passed c + failed c + failedButOk c"

definition allPassed :: "counts \<Rightarrow> bool" where
  "allPassed c \<longleftrightarrow> failed c = 0 \<and> failedButOk c = 0"

definition allOk :: "counts \<Rightarrow> bool" where
  "allOk c \<longleftrightarrow> failed c = 0"

record totals =
  assertions :: counts
  testCases :: counts

definition no_totals :: totals where
  "no_totals = \<lparr>assertions = no_counts, testCases = no_counts\<rparr>"

definition totals_minus :: "totals \<Rightarrow> totals \<Rightarrow> totals" where
  "totals_minus a b = \<lparr>assertions = counts_minus (assertions a) (assertions b),
     testCases = counts_minus (testCases a) (testCases b)\<rparr>"

definition totals_plus :: "totals \<Rightarrow> totals \<Rightarrow> totals" where
  "totals_plus a b = \<lparr>assertions = counts_plus (assertions a) (assertions b),
     testCases = counts_plus (testCases a) (testCases b)\<rparr>"

definition delta :: "totals \<Rightarrow> totals \<Rightarrow> totals" where
  "delta t prev =
     (let diff = totals_minus t prev; cases = testCases diff
      in if failed (assertions diff) > 0 then diff\<lparr>testCases := cases\<lparr>failed := failed cases + 1\<rparr>\<rparr>
         else if failedButOk (assertions diff) > 0 then diff\<lparr>testCases := cases\<lparr>failedButOk := failedButOk cases + 1\<rparr>\<rparr>
         else diff\<lparr>testCases := cases\<lparr>passed := passed cases + 1\<rparr>\<rparr>)"

section \<open>Messages\<close>

text \<open>A message has a number of its own, from a counter of the program.\<close>

record message_info =
  mi_macroName :: string
  mi_lineInfo :: source_line_info
  mi_type :: result_was
  mi_message :: string
  mi_sequence :: "32 word"

definition newMessageInfo ::
  "string \<Rightarrow> source_line_info \<Rightarrow> result_was \<Rightarrow> string \<Rightarrow> 32 word \<Rightarrow> message_info \<times> 32 word" where
  "newMessageInfo macro line t text globalCount =
     (\<lparr>mi_macroName = macro, mi_lineInfo = line, mi_type = t, mi_message = text, mi_sequence = globalCount + 1\<rparr>,
      globalCount + 1)"

text \<open>The messages that go with a result: the scoped ones, then the result's own, if it has one.\<close>

definition stats_messages ::
  "assertion_result \<Rightarrow> message_info list \<Rightarrow> 32 word \<Rightarrow> message_info list \<times> 32 word" where
  "stats_messages r messages globalCount =
     (if hasMessage r
      then (let (m, n) = newMessageInfo (macroName (m_info r)) (ai_lineInfo (m_info r)) (getResultType r)
                           (message (m_resultData r)) globalCount
            in (messages @ [m], n))
      else (messages, globalCount))"

definition message_eq :: "message_info \<Rightarrow> message_info \<Rightarrow> bool" where
  "message_eq a b \<longleftrightarrow> mi_sequence a = mi_sequence b"

definition message_less :: "message_info \<Rightarrow> message_info \<Rightarrow> bool" where
  "message_less a b \<longleftrightarrow> mi_sequence a < mi_sequence b"

end
