(* ===== verification/Catch_Generators.thy ===== *)
theory Catch_Generators
  imports Catch_Common
begin

text \<open>
  Generators (\<open>include/catch.h\<close>): the values a generator expression goes through, and the
  indices of the generators of a test case, which are advanced like the wheels of an odometer
  each time the test case has been run.
\<close>

section \<open>Values\<close>

type_synonym index = "64 word"

text \<open>
  The generators of \<open>int\<close> values. The sums and differences of a range are taken on \<open>int\<close>, where an
  overflow is undefined.
\<close>

datatype generator = Between_generator int int | Values_generator "int list"

fun generator_size :: "generator \<Rightarrow> index res" where
  "generator_size (Between_generator lo hi) =
     bindR (int_plus 1 hi) (\<lambda>n. bindR (int_minus n lo) (\<lambda>n'. Inr (word_of_int n')))"
| "generator_size (Values_generator vs) = Inr (of_nat (length vs))"

text \<open>The index is cast to an \<open>int\<close>. Indexing the vector past its end is undefined.\<close>

fun getValue :: "generator \<Rightarrow> index \<Rightarrow> int res" where
  "getValue (Between_generator lo hi) i = int_plus lo (sint (ucast i :: 32 word))"
| "getValue (Values_generator vs) i =
     (if unat i < length vs then Inr (vs ! unat i) else Inl (Undefined Vector_index))"

record composite_generator =
  composed :: "generator list"
  gen_fileInfo :: string
  totalSize :: index

definition newCompositeGenerator :: composite_generator where
  "newCompositeGenerator = \<lparr>composed = [], gen_fileInfo = [], totalSize = 0\<rparr>"

definition setFileInfo :: "string \<Rightarrow> composite_generator \<Rightarrow> composite_generator" where
  "setFileInfo info g = g\<lparr>gen_fileInfo := info\<rparr>"

definition add_generator :: "generator \<Rightarrow> composite_generator \<Rightarrow> composite_generator res" where
  "add_generator gen g =
     bindR (generator_size gen) (\<lambda>n. Inr (g\<lparr>totalSize := totalSize g + n, composed := composed g @ [gen]\<rparr>))"

text \<open>\<open>move\<close> takes the generators over and leaves the other generator its size.\<close>

definition move_generators ::
  "composite_generator \<Rightarrow> composite_generator \<Rightarrow> composite_generator \<times> composite_generator" where
  "move_generators g other =
     (g\<lparr>composed := composed g @ composed other, totalSize := totalSize g + totalSize other\<rparr>,
      other\<lparr>composed := []\<rparr>)"

definition copy_generator :: "composite_generator \<Rightarrow> composite_generator \<times> composite_generator" where
  "copy_generator other =
     move_generators \<lparr>composed = [], gen_fileInfo = gen_fileInfo other, totalSize = 0\<rparr> other"

definition then_generators ::
  "composite_generator \<Rightarrow> composite_generator \<Rightarrow> composite_generator \<times> composite_generator" where
  "then_generators g other = move_generators g other"

definition then_value :: "int \<Rightarrow> composite_generator \<Rightarrow> composite_generator res" where
  "then_value v g = add_generator (Values_generator [v]) g"

definition between :: "int \<Rightarrow> int \<Rightarrow> composite_generator res" where
  "between lo hi = add_generator (Between_generator lo hi) newCompositeGenerator"

definition values2 :: "int \<Rightarrow> int \<Rightarrow> composite_generator res" where
  "values2 v1 v2 = add_generator (Values_generator [v1, v2]) newCompositeGenerator"

definition values3 :: "int \<Rightarrow> int \<Rightarrow> int \<Rightarrow> composite_generator res" where
  "values3 v1 v2 v3 = add_generator (Values_generator [v1, v2, v3]) newCompositeGenerator"

definition values4 :: "int \<Rightarrow> int \<Rightarrow> int \<Rightarrow> int \<Rightarrow> composite_generator res" where
  "values4 v1 v2 v3 v4 = add_generator (Values_generator [v1, v2, v3, v4]) newCompositeGenerator"

text \<open>The loop of the conversion to a value: the generator whose range holds the overall index.\<close>

fun pick :: "generator list \<Rightarrow> index \<Rightarrow> index \<Rightarrow> int res" where
  "pick [] overall i = throwLogicError ''Indexed past end of generated range'' (SourceLineInfo ''catch.h'' 2430)"
| "pick (gen # gens) overall i =
     bindR (generator_size gen) (\<lambda>n.
       if i \<le> overall \<and> overall < i + n then getValue gen (overall - i) else pick gens overall (i + n))"

section \<open>Indices\<close>

record generator_info =
  gi_size :: index
  gi_index :: index

definition newGeneratorInfo :: "index \<Rightarrow> generator_info" where
  "newGeneratorInfo s = \<lparr>gi_size = s, gi_index = 0\<rparr>"

definition info_moveNext :: "generator_info \<Rightarrow> bool \<times> generator_info" where
  "info_moveNext g =
     (let i = gi_index g + 1
      in if i = gi_size g then (False, g\<lparr>gi_index := 0\<rparr>) else (True, g\<lparr>gi_index := i\<rparr>))"

text \<open>The generators of a test, in the order they were made, each under its name.\<close>

type_synonym generators_for_test = "(string \<times> generator_info) list"

definition getGeneratorInfo :: "string \<Rightarrow> index \<Rightarrow> generators_for_test \<Rightarrow> generator_info \<times> generators_for_test" where
  "getGeneratorInfo file s gs =
     (case map_of gs file of
        None \<Rightarrow> (newGeneratorInfo s, gs @ [(file, newGeneratorInfo s)])
      | Some g \<Rightarrow> (g, gs))"

fun moveNext_all :: "generators_for_test \<Rightarrow> bool \<times> generators_for_test" where
  "moveNext_all [] = (False, [])"
| "moveNext_all ((file, g) # gs) =
     (let (moved, g') = info_moveNext g
      in if moved then (True, (file, g') # gs)
         else let (moved', gs') = moveNext_all gs in (moved', (file, g') # gs'))"

text \<open>The context keeps the generators of each test under the name of the test.\<close>

type_synonym generators_by_test = "string \<Rightarrow> generators_for_test option"

definition getGeneratorIndex ::
  "string \<Rightarrow> string \<Rightarrow> index \<Rightarrow> generators_by_test \<Rightarrow> index \<times> generators_by_test" where
  "getGeneratorIndex test file s ctx =
     (let gs = (case ctx test of None \<Rightarrow> [] | Some gs \<Rightarrow> gs);
          (g, gs') = getGeneratorInfo file s gs
      in (gi_index g, ctx(test \<mapsto> gs')))"

definition advanceGeneratorsForCurrentTest :: "string \<Rightarrow> generators_by_test \<Rightarrow> bool \<times> generators_by_test" where
  "advanceGeneratorsForCurrentTest test ctx =
     (case ctx test of
        None \<Rightarrow> (False, ctx)
      | Some gs \<Rightarrow> (let (moved, gs') = moveNext_all gs in (moved, ctx(test \<mapsto> gs'))))"

text \<open>The value of a generator expression in the running test.\<close>

definition generator_value ::
  "string \<Rightarrow> composite_generator \<Rightarrow> generators_by_test \<Rightarrow> int res \<times> generators_by_test" where
  "generator_value test g ctx =
     (let (i, ctx') = getGeneratorIndex test (gen_fileInfo g) (totalSize g) ctx
      in (pick (composed g) i 0, ctx'))"

section \<open>The values a composite generator goes through\<close>

fun generated :: "generator \<Rightarrow> int list" where
  "generated (Between_generator lo hi) = [lo..hi]"
| "generated (Values_generator vs) = vs"

definition all_generated :: "composite_generator \<Rightarrow> int list" where
  "all_generated g = concat (map generated (composed g))"

text \<open>A generator whose values and size are \<open>int\<close>s, and the number after its last value too.\<close>

fun sane :: "generator \<Rightarrow> bool" where
  "sane (Between_generator lo hi) =
     (- (2 ^ 31) \<le> lo \<and> lo \<le> hi + 1 \<and> hi < 2 ^ 31 - 1 \<and> hi - lo < 2 ^ 31 - 1)"
| "sane (Values_generator vs) = (length vs < 2 ^ 31)"

lemma generator_size_generated:
  assumes "sane g"
  shows "generator_size g = Inr (of_nat (length (generated g)))"
proof (cases g)
  case (Between_generator lo hi)
  have "of_nat (nat (1 + hi - lo)) = (word_of_int (1 + hi - lo) :: index)"
    using assms Between_generator by (metis of_int_of_nat_eq int_nat_eq sane.simps(1) diff_ge_0_iff_ge add.commute)
  moreover have "length [lo..hi] = nat (1 + hi - lo)" by simp
  ultimately show ?thesis
    using assms Between_generator by (simp add: int_plus_def int_minus_def int_in_range_def)
qed simp

lemma unat_generated: "sane g \<Longrightarrow> unat (of_nat (length (generated g)) :: index) = length (generated g)"
proof -
  assume "sane g"
  then have "length (generated g) < 2 ^ 64" by (cases g) auto
  then show ?thesis by (simp add: unsigned_of_nat take_bit_nat_eq_self)
qed

lemma getValue_generated:
  assumes "sane g" "unat i < length (generated g)"
  shows "getValue g i = Inr (generated g ! unat i)"
proof (cases g)
  case (Between_generator lo hi)
  have small: "unat i < 2 ^ 31" using assms Between_generator by auto
  have u: "uint (ucast i :: 32 word) = int (unat i)"
  proof -
    have "int n < 2 ^ 32" if "n < 2 ^ 31" for n :: nat using that by simp
    then have "int (unat i) < 2 ^ 32" using small .
    then have "take_bit 32 (uint i) = uint i" by (intro take_bit_int_eq_self) (simp_all only: uint_nat of_nat_0_le_iff)
    then show ?thesis by (simp add: unsigned_ucast_eq del: unsigned_greater_eq)
  qed
  have "sint (ucast i :: 32 word) = int (unat i)"
  proof -
    have "signed_take_bit 31 (int n) = int n" if "n < 2 ^ 31" for n
      using that by (intro signed_take_bit_int_eq_self) auto
    from this [OF small] show ?thesis unfolding sint_uint u by simp
  qed
  moreover have idx: "[lo..hi] ! n = lo + int n" if "n < nat (hi - lo + 1)" for n
    using that by (intro nth_upto) linarith
  have "unat i < nat (hi - lo + 1)" using assms Between_generator by simp
  moreover note idx [OF this]
  moreover have in_range: "int_in_range (lo + int n)" if "n < nat (hi - lo + 1)" for n
  proof -
    have "int n < hi - lo + 1" using that by linarith
    then show ?thesis using Between_generator assms(1) by (simp add: int_in_range_def)
  qed
  moreover note in_range [OF \<open>unat i < nat (hi - lo + 1)\<close>]
  ultimately show ?thesis using Between_generator by (simp add: int_plus_def)
qed (use assms in auto)

lemma pick_generated:
  assumes "\<And>g. g \<in> set gens \<Longrightarrow> sane g"
    and "unat i + length (concat (map generated gens)) < 2 ^ 64"
    and "unat i \<le> unat overall" "unat overall < unat i + length (concat (map generated gens))"
  shows "pick gens overall i = Inr (concat (map generated gens) ! (unat overall - unat i))"
  using assms
proof (induction gens arbitrary: i)
  case (Cons gen gens)
  let ?n = "length (generated gen)"
  have gen: "generator_size gen = Inr (of_nat ?n)" using Cons.prems(1) by (simp add: generator_size_generated)
  have size: "unat (of_nat ?n :: index) = ?n" using Cons.prems(1) by (simp add: unat_generated)
  have next_i: "unat (i + of_nat ?n) = unat i + ?n"
    using Cons.prems(2) size by (subst unat_add_lem [THEN iffD1]) auto
  show ?case
  proof (cases "unat overall < unat i + ?n")
    case True
    have "unat (overall - i) = unat overall - unat i" using Cons.prems(3) by (simp add: unat_sub word_le_nat_alt)
    then have "getValue gen (overall - i) = Inr (generated gen ! (unat overall - unat i))"
      using True Cons.prems getValue_generated [of gen "overall - i"] by auto
    moreover have "unat overall - unat i < ?n" using True Cons.prems(3) by linarith
    ultimately show ?thesis
      using True Cons.prems next_i gen by (simp add: word_le_nat_alt word_less_nat_alt nth_append)
  next
    case False
    then have "pick gens overall (i + of_nat ?n)
        = Inr (concat (map generated gens) ! (unat overall - unat (i + of_nat ?n)))"
      using Cons.prems next_i by (intro Cons.IH) auto
    moreover have "\<not> unat overall - unat i < ?n" using False Cons.prems(3) by linarith
    ultimately show ?thesis using False next_i gen by (simp add: word_less_nat_alt nth_append algebra_simps)
  qed
qed simp


text \<open>What the construction of a composite generator keeps.\<close>

definition composite_ok :: "composite_generator \<Rightarrow> bool" where
  "composite_ok g \<longleftrightarrow> list_all sane (composed g) \<and> totalSize g = of_nat (length (all_generated g))"

lemma composite_ok_new: "composite_ok newCompositeGenerator"
  by (simp add: composite_ok_def newCompositeGenerator_def all_generated_def)

lemma composite_ok_add:
  assumes "composite_ok g" "sane gen"
  shows "\<exists>g'. add_generator gen g = Inr g' \<and> composite_ok g' \<and> all_generated g' = all_generated g @ generated gen
    \<and> gen_fileInfo g' = gen_fileInfo g"
  using assms by (simp add: composite_ok_def add_generator_def all_generated_def generator_size_generated)

text \<open>A range whose end is the largest \<open>int\<close> cannot be made.\<close>

lemma between_overflows: "between lo (2 ^ 31 - 1) = Inl (Undefined Int_overflow)"
  by (simp add: between_def add_generator_def int_plus_def int_in_range_def)

lemma composite_ok_move:
  "composite_ok g \<Longrightarrow> composite_ok other \<Longrightarrow> composite_ok (fst (move_generators g other))"
  by (simp add: composite_ok_def move_generators_def all_generated_def)

lemma all_generated_move [simp]: "all_generated (fst (move_generators g other)) = all_generated g @ all_generated other"
  by (simp add: all_generated_def move_generators_def)

lemma composite_value:
  assumes "composite_ok g" "length (all_generated g) < 2 ^ 64" "unat i < length (all_generated g)"
  shows "pick (composed g) i 0 = Inr (all_generated g ! unat i)"
  using assms pick_generated [of "composed g" 0 i] by (simp add: composite_ok_def all_generated_def list_all_iff)

section \<open>The odometer\<close>

text \<open>The position of a row of wheels, the first of which turns fastest, and the number of positions.\<close>

fun position :: "generators_for_test \<Rightarrow> nat" where
  "position [] = 0"
| "position ((file, g) # gs) = unat (gi_index g) + unat (gi_size g) * position gs"

fun positions :: "generators_for_test \<Rightarrow> nat" where
  "positions [] = 1"
| "positions ((file, g) # gs) = unat (gi_size g) * positions gs"

fun wheels_ok :: "generators_for_test \<Rightarrow> bool" where
  "wheels_ok [] = True"
| "wheels_ok ((file, g) # gs) = (gi_index g < gi_size g \<and> wheels_ok gs)"

lemma position_less: "wheels_ok gs \<Longrightarrow> position gs < positions gs"
proof (induction gs rule: wheels_ok.induct)
  case (2 name g gs)
  have "position gs + 1 \<le> positions gs" using 2 by simp
  then have "unat (gi_size g) * (position gs + 1) \<le> unat (gi_size g) * positions gs" by (rule mult_le_mono2)
  moreover have "unat (gi_index g) < unat (gi_size g)" using 2 by (simp add: word_less_nat_alt)
  ultimately show ?case by (simp add: algebra_simps)
qed simp

lemma unat_next: "(i :: index) < n \<Longrightarrow> unat (i + 1) = unat i + 1"
proof -
  assume "i < n"
  then have "unat i < unat n" by (simp add: word_less_nat_alt)
  moreover have "unat n < 2 ^ LENGTH(64)" by (rule unsigned_less)
  ultimately have "unat i + unat (1 :: index) < 2 ^ LENGTH(64)" by simp
  then show ?thesis by (simp add: unat_add_lem [THEN iffD1])
qed

lemma info_moveNext_cases:
  assumes "gi_index g < gi_size g"
  shows "(unat (gi_index g) + 1 = unat (gi_size g) \<and> info_moveNext g = (False, g\<lparr>gi_index := 0\<rparr>))
       \<or> (unat (gi_index g) + 1 < unat (gi_size g) \<and> info_moveNext g = (True, g\<lparr>gi_index := gi_index g + 1\<rparr>))"
proof -
  have "unat (gi_index g) < unat (gi_size g)" using assms by (simp add: word_less_nat_alt)
  then show ?thesis
    using unat_next [OF assms] by (auto simp: info_moveNext_def Let_def word_unat_eq_iff)
qed

lemma moveNext_all_steps:
  assumes "wheels_ok gs"
  shows "wheels_ok (snd (moveNext_all gs)) \<and> positions (snd (moveNext_all gs)) = positions gs
    \<and> (fst (moveNext_all gs) \<longleftrightarrow> position gs + 1 < positions gs)
    \<and> position (snd (moveNext_all gs)) = (position gs + 1) mod positions gs"
  using assms
proof (induction gs)
  case (Cons x gs)
  obtain name g where x: "x = (name, g)" by (cases x)
  let ?n = "unat (gi_size g)"
  have g: "gi_index g < gi_size g" and gs: "wheels_ok gs" using Cons.prems x by auto
  note less = position_less [OF gs]
  show ?case
  proof (cases "unat (gi_index g) + 1 = ?n")
    case True
    then have eq: "info_moveNext g = (False, g\<lparr>gi_index := 0\<rparr>)" using info_moveNext_cases [OF g] by auto
    have pos: "position (x # gs) + 1 = ?n * (position gs + 1)" using True x by (simp add: algebra_simps)
    let ?r = "moveNext_all gs"
    have r: "moveNext_all (x # gs) = (fst ?r, (name, g\<lparr>gi_index := 0\<rparr>) # snd ?r)"
      using eq x by (simp add: case_prod_beta Let_def)
    have "?n > 0" using True by simp
    moreover from this have "(0 :: index) < gi_size g" by (simp add: word_less_nat_alt)
    moreover have "?n * (position gs + 1) < ?n * positions gs \<longleftrightarrow> position gs + 1 < positions gs"
      using \<open>?n > 0\<close> by (rule nat_mult_less_cancel1)
    ultimately show ?thesis
      unfolding pos r fst_conv snd_conv using Cons.IH [OF gs] x by (simp add: mult_mod_right)
  next
    case False
    then have lt: "unat (gi_index g) + 1 < ?n"
      and eq: "info_moveNext g = (True, g\<lparr>gi_index := gi_index g + 1\<rparr>)" using info_moveNext_cases [OF g] by auto
    have "?n * (position gs + 1) \<le> ?n * positions gs" using less by (intro mult_le_mono2) simp
    then have "position (x # gs) + 1 < positions (x # gs)" using lt x by (simp add: algebra_simps)
    then show ?thesis
      using eq x lt gs unat_next [OF g] by (auto simp: word_less_nat_alt)
  qed
qed simp


text \<open>The indices after a number of runs, and that each combination comes up once.\<close>

definition turn :: "nat \<Rightarrow> generators_for_test \<Rightarrow> generators_for_test" where
  "turn k gs = ((\<lambda>gs. snd (moveNext_all gs)) ^^ k) gs"

definition indices :: "generators_for_test \<Rightarrow> nat list" where
  "indices gs = map (\<lambda>(name, g). unat (gi_index g)) gs"

definition gen_sizes :: "generators_for_test \<Rightarrow> nat list" where
  "gen_sizes gs = map (\<lambda>(name, g). unat (gi_size g)) gs"

fun number_of :: "nat list \<Rightarrow> nat list \<Rightarrow> nat" where
  "number_of (n # ns) (i # is) = i + n * number_of ns is"
| "number_of _ _ = 0"

lemma position_number: "position gs = number_of (gen_sizes gs) (indices gs)"
  by (induction gs) (auto simp: gen_sizes_def indices_def)

lemma positions_product: "positions gs = prod_list (gen_sizes gs)"
  by (induction gs) (auto simp: gen_sizes_def)

lemma number_less: "list_all2 (<) is ns \<Longrightarrow> number_of ns is < prod_list ns"
proof (induction "is" ns rule: list_all2_induct)
  case (Cons i "is" n ns)
  then have "n * (number_of ns is + 1) \<le> n * prod_list ns" by (intro mult_le_mono2) simp
  then show ?case using Cons by (simp add: algebra_simps)
qed simp

lemma number_inj: "list_all2 (<) is ns \<Longrightarrow> list_all2 (<) js ns \<Longrightarrow> number_of ns is = number_of ns js \<Longrightarrow> is = js"
proof (induction "is" ns arbitrary: js rule: list_all2_induct)
  case (Cons i "is" n ns)
  then obtain j js' where js: "js = j # js'" "j < n" "list_all2 (<) js' ns" by (auto simp: list_all2_Cons2)
  have eq: "i + n * number_of ns is = j + n * number_of ns js'" using Cons.prems js by simp
  then have "(i + n * number_of ns is) mod n = (j + n * number_of ns js') mod n" by simp
  then have "i = j" using Cons.hyps js by simp
  then show ?case using Cons.IH [OF js(3)] eq Cons.hyps js by simp
qed simp

lemma moveNext_all_sizes: "gen_sizes (snd (moveNext_all gs)) = gen_sizes gs"
  by (induction gs) (auto simp: gen_sizes_def info_moveNext_def Let_def case_prod_beta split: if_splits)

lemma wheels_ok_indices: "wheels_ok gs \<longleftrightarrow> list_all2 (<) (indices gs) (gen_sizes gs)"
  by (induction gs) (auto simp: indices_def gen_sizes_def word_less_nat_alt)

lemma turn_steps:
  assumes "wheels_ok gs"
  shows "wheels_ok (turn k gs) \<and> gen_sizes (turn k gs) = gen_sizes gs
    \<and> position (turn k gs) = (position gs + k) mod positions gs"
proof (induction k)
  case 0
  then show ?case using assms position_less [OF assms] by (simp add: turn_def)
next
  case (Suc k)
  have "turn (Suc k) gs = snd (moveNext_all (turn k gs))" by (simp add: turn_def)
  moreover have "positions (turn k gs) = positions gs" using Suc by (simp add: positions_product)
  ultimately show ?case
    using moveNext_all_steps [of "turn k gs"] Suc by (simp add: moveNext_all_sizes mod_Suc_eq)
qed

text \<open>
  C28. The generators of a test case are advanced like an odometer: from all indices zero, each
  combination of indices below the sizes comes up in exactly one of the runs before the
  position wraps, and advancing reports that another run is due in all of those but the last.
\<close>

theorem generators_visit_every_combination:
  assumes "wheels_ok gs" "position gs = 0" "list_all2 (<) is (gen_sizes gs)"
  shows "(\<exists>!k. k < prod_list (gen_sizes gs) \<and> indices (turn k gs) = is)
    \<and> (\<forall>k < prod_list (gen_sizes gs). fst (moveNext_all (turn k gs)) \<longleftrightarrow> k + 1 < prod_list (gen_sizes gs))"
proof -
  let ?P = "prod_list (gen_sizes gs)"
  have turn: "wheels_ok (turn k gs) \<and> gen_sizes (turn k gs) = gen_sizes gs \<and> position (turn k gs) = k"
    if "k < ?P" for k
    using turn_steps [OF assms(1), of k] assms(2) that by (simp add: positions_product)
  have hit: "indices (turn k gs) = is \<longleftrightarrow> k = number_of (gen_sizes gs) is" if "k < ?P" for k
  proof
    assume "indices (turn k gs) = is"
    then show "k = number_of (gen_sizes gs) is" using turn [OF that] by (metis position_number)
  next
    assume "k = number_of (gen_sizes gs) is"
    then have "number_of (gen_sizes gs) (indices (turn k gs)) = number_of (gen_sizes gs) is"
      using turn [OF that] by (metis position_number)
    moreover have "list_all2 (<) (indices (turn k gs)) (gen_sizes gs)"
      using turn [OF that] wheels_ok_indices [of "turn k gs"] by metis
    ultimately show "indices (turn k gs) = is" using number_inj assms(3) by blast
  qed
  have "\<exists>!k. k < ?P \<and> indices (turn k gs) = is" using hit number_less [OF assms(3)] by metis
  moreover have "fst (moveNext_all (turn k gs)) \<longleftrightarrow> k + 1 < ?P" if "k < ?P" for k
    using moveNext_all_steps [of "turn k gs"] turn [OF that] by (simp add: positions_product)
  ultimately show ?thesis by blast
qed

lemma generators_visit_every_combination_witness:
  "\<exists>!k. k < 6 \<and> indices (turn k [(''a.cpp(1)'', newGeneratorInfo 2), (''a.cpp(2)'', newGeneratorInfo 3)]) = [1, 2]"
  using generators_visit_every_combination [of "[(''a.cpp(1)'', newGeneratorInfo 2), (''a.cpp(2)'', newGeneratorInfo 3)]" "[1, 2]"]
  by (simp add: newGeneratorInfo_def gen_sizes_def)

text \<open>
  A test that uses one generator expression sees, run after run, every value of the expression,
  in the order they are written in.
\<close>

lemma generator_values_in_order:
  assumes "composite_ok g" "length (all_generated g) < 2 ^ 64" "k < length (all_generated g)"
  shows "fst (generator_value test g
      [test \<mapsto> turn k (snd (getGeneratorInfo (gen_fileInfo g) (totalSize g) []))]) = Inr (all_generated g ! k)"
proof -
  let ?gs = "[(gen_fileInfo g, newGeneratorInfo (totalSize g))]"
  have size: "unat (totalSize g) = length (all_generated g)"
    using assms(1,2) by (simp add: composite_ok_def unsigned_of_nat take_bit_nat_eq_self)
  have ok: "wheels_ok ?gs" "position ?gs = 0" "positions ?gs = length (all_generated g)"
    using assms(3) size by (auto simp: newGeneratorInfo_def word_less_nat_alt)
  have "\<exists>h. turn k ?gs = [(gen_fileInfo g, h)]" for k
    by (induction k) (auto simp: turn_def info_moveNext_def Let_def case_prod_beta split: if_splits)
  then obtain h where h: "turn k ?gs = [(gen_fileInfo g, h)]" by blast
  have "unat (gi_index h) = k"
    using turn_steps [OF ok(1), of k] ok h assms(3) by simp
  moreover have "getGeneratorInfo (gen_fileInfo g) (totalSize g) [] = (newGeneratorInfo (totalSize g), ?gs)"
    by (simp add: getGeneratorInfo_def)
  moreover have "getGeneratorInfo (gen_fileInfo g) (totalSize g) (turn k ?gs) = (h, turn k ?gs)"
    using h by (simp add: getGeneratorInfo_def)
  ultimately show ?thesis
    using composite_value [OF assms(1,2)] assms(3) by (simp add: generator_value_def getGeneratorIndex_def)
qed

lemma generator_values_example:
  "\<exists>g. bindR (between 3 5) (then_value 9) = Inr g
    \<and> fst (generator_value ''t'' g [''t'' \<mapsto> turn 3 (snd (getGeneratorInfo [] (totalSize g) []))]) = Inr 9"
proof -
  obtain g1 where g1: "between 3 5 = Inr g1" "composite_ok g1" "all_generated g1 = [3, 4, 5]" "gen_fileInfo g1 = []"
    using composite_ok_add [OF composite_ok_new, of "Between_generator 3 5"]
    by (auto simp: between_def all_generated_def newCompositeGenerator_def upto.simps)
  obtain g where g: "then_value 9 g1 = Inr g" "composite_ok g" "all_generated g = [3, 4, 5, 9]" "gen_fileInfo g = []"
    using composite_ok_add [OF g1(2), of "Values_generator [9]"] g1(3,4) by (auto simp: then_value_def)
  then show ?thesis using generator_values_in_order [of g 3 "''t''"] g1(1) by simp
qed

end
