(* ===== verification/Catch_Run.thy ===== *)
theory Catch_Run
  imports Catch_Tracker Catch_Assertion Catch_Generators
begin

text \<open>
  Running test cases (\<open>RunContext\<close> in \<open>include/catch.h\<close>): what an assertion, a section and an
  exception do to the state of a run, the cycles in which a test case is run until all of its
  sections have been entered, and the counts that are kept. The reporter is the list of the
  events it is told of, each with what the reporters use of it; the time a section takes, redirected output and random seeds are left out.
\<close>

section \<open>The state of a run\<close>

record section_info =
  si_name :: string
  si_description :: string
  si_lineInfo :: source_line_info

record section_end_info =
  sei_sectionInfo :: section_info
  sei_prevAssertions :: counts

datatype reporter_event =
    TestRunStarting string
  | TestGroupStarting string nat nat
  | TestCaseStarting string
  | SectionStarting section_info
  | AssertionEnded assertion_result "message_info list" totals
  | SectionEnded section_info counts bool
  | TestCaseEnded string string totals bool
  | TestGroupEnded string totals nat nat bool
  | TestRunEnded string totals bool
  | SkipTest string

text \<open>The configuration, and what the reporter answers when an assertion has ended.\<close>

record run_env =
  env_config :: config
  env_clears :: "assertion_result \<Rightarrow> message_info list \<Rightarrow> totals \<Rightarrow> bool"

record run_context =
  rc_totals :: totals
  rc_messages :: "message_info list"
  rc_messageCount :: "32 word"
  rc_lastAssertionInfo :: assertion_info
  rc_lastResult :: "assertion_result option"
  rc_unfinished :: "section_end_info list"
  rc_activeSections :: "tracker_path list"
  rc_tracker :: tracker_context
  rc_testCaseTracker :: "tracker_path option"
  rc_activeTest :: "string option"
  rc_generators :: generators_by_test
  rc_events :: "reporter_event list"

definition report :: "reporter_event \<Rightarrow> run_context \<Rightarrow> run_context" where
  "report e rc = rc\<lparr>rc_events := rc_events rc @ [e]\<rparr>"

definition newRunContext :: "run_env \<Rightarrow> run_context" where
  "newRunContext env = report (TestRunStarting (config_name (env_config env)))
     \<lparr>rc_totals = no_totals, rc_messages = [], rc_messageCount = 0,
      rc_lastAssertionInfo = \<lparr>macroName = [], ai_lineInfo = SourceLineInfo [] 0, capturedExpression = [],
        resultDisposition = 0\<rparr>,
      rc_lastResult = None, rc_unfinished = [], rc_activeSections = [], rc_tracker = newTrackerContext,
      rc_testCaseTracker = None, rc_activeTest = None, rc_generators = (\<lambda>t. None), rc_events = []\<rparr>"

text \<open>The limit is an \<open>int\<close> that is cast to \<open>size_t\<close>.\<close>

definition aborting :: "run_env \<Rightarrow> run_context \<Rightarrow> bool" where
  "aborting env rc \<longleftrightarrow> failed (assertions (rc_totals rc)) = word_of_int (abortAfter (cfg_data (env_config env)))"

definition getCurrentTestName :: "run_context \<Rightarrow> string" where
  "getCurrentTestName rc = (case rc_activeTest rc of None \<Rightarrow> [] | Some n \<Rightarrow> n)"

definition on_counts :: "(counts \<Rightarrow> counts) \<Rightarrow> run_context \<Rightarrow> run_context" where
  "on_counts f rc = rc\<lparr>rc_totals := (rc_totals rc)\<lparr>assertions := f (assertions (rc_totals rc))\<rparr>\<rparr>"

abbreviation run_counts :: "run_context \<Rightarrow> counts" where
  "run_counts rc \<equiv> assertions (rc_totals rc)"

section \<open>Assertions\<close>

definition count_result :: "assertion_result \<Rightarrow> counts \<Rightarrow> counts" where
  "count_result r c =
     (if getResultType r = Ok then c\<lparr>passed := passed c + 1\<rparr>
      else if \<not> result_isOk r then c\<lparr>failed := failed c + 1\<rparr> else c)"

definition unknownExpression :: string where
  "unknownExpression = [CHR 0x7B] @ ''Unknown expression after the reported line'' @ [CHR 0x7D]"

definition assertionEnded :: "run_env \<Rightarrow> assertion_result \<Rightarrow> run_context \<Rightarrow> run_context" where
  "assertionEnded env r rc =
     (let rc1 = on_counts (count_result r) rc;
          (ms, n) = stats_messages r (rc_messages rc1) (rc_messageCount rc1);
          rc2 = report (AssertionEnded r ms (rc_totals rc1)) (rc1\<lparr>rc_messageCount := n\<rparr>);
          rc3 = (if env_clears env r ms (rc_totals rc1) then rc2\<lparr>rc_messages := []\<rparr> else rc2)
      in rc3\<lparr>rc_lastAssertionInfo := \<lparr>macroName = [], ai_lineInfo = ai_lineInfo (rc_lastAssertionInfo rc3),
               capturedExpression = unknownExpression,
               resultDisposition = resultDisposition (rc_lastAssertionInfo rc3)\<rparr>,
             rc_lastResult := Some r\<rparr>)"

definition handleResult ::
  "run_env \<Rightarrow> assertion_result \<Rightarrow> result_builder \<Rightarrow> run_context \<Rightarrow> result_builder \<times> run_context" where
  "handleResult env r b rc =
     (let rc1 = assertionEnded env r rc
      in (if \<not> result_isOk r then
            b\<lparr>m_shouldDebugBreak := m_shouldDebugBreak b \<or> shouldDebugBreak (cfg_data (env_config env)),
              m_shouldThrow := m_shouldThrow b \<or> aborting env rc1
                \<or> resultDisposition (m_assertionInfo b) AND NormalDisposition \<noteq> 0\<rparr>
          else b, rc1))"

definition captureExpression ::
  "run_env \<Rightarrow> result_builder \<Rightarrow> run_context \<Rightarrow> (result_builder \<times> run_context) res" where
  "captureExpression env b rc = bindR (build b) (\<lambda>r. Inr (handleResult env r b rc))"

definition captureResult ::
  "run_env \<Rightarrow> result_was \<Rightarrow> result_builder \<Rightarrow> run_context \<Rightarrow> (result_builder \<times> run_context) res" where
  "captureResult env t b rc = captureExpression env (setResultType t b) rc"

text \<open>An exception is given by the text it is translated to.\<close>

definition useActiveException ::
  "run_env \<Rightarrow> disposition \<Rightarrow> string \<Rightarrow> result_builder \<Rightarrow> run_context \<Rightarrow> (result_builder \<times> run_context) res" where
  "useActiveException env disp text b rc =
     captureResult env ThrewException
       (streamInto text (b\<lparr>m_assertionInfo := (m_assertionInfo b)\<lparr>resultDisposition := disp\<rparr>\<rparr>)) rc"

definition endExpression ::
  "run_env \<Rightarrow> result_builder \<Rightarrow> run_context \<Rightarrow> (result_builder \<times> run_context) res" where
  "endExpression env b rc = captureExpression env (endExpression_flag b) rc"

definition captureExpectedException ::
  "run_env \<Rightarrow> matcher \<Rightarrow> string \<Rightarrow> result_builder \<Rightarrow> run_context \<Rightarrow> (result_builder \<times> run_context) res" where
  "captureExpectedException env m actual b rc =
     (if testFalse b then Inl Terminated
      else Inr (handleResult env (expected_exception_result m actual b) b rc))"

text \<open>How a statement of a test ends.\<close>

datatype completion = Completed | Test_failure | Raised string

definition react :: "result_builder \<times> run_context \<Rightarrow> completion \<times> run_context" where
  "react br = (if m_shouldThrow (fst br) then Test_failure else Completed, snd br)"

section \<open>Assertion macros\<close>

text \<open>Where an assertion stands: the macro, its position, the text of its expression, the disposition.\<close>

record assertion_site =
  site_macro :: string
  site_line :: source_line_info
  site_text :: string
  site_disposition :: disposition

text \<open>What the evaluation of the expression in an assertion comes to.\<close>

datatype evaluated =
    Compared operator operand operand
  | Compared_strings operator string string
  | Compared_bools operator bool bool
  | Value bool
  | Raises string

definition site_builder :: "assertion_site \<Rightarrow> string \<Rightarrow> result_builder" where
  "site_builder s secondArg = newResultBuilder (site_macro s) (site_line s) (site_text s) (site_disposition s) secondArg"

definition test_macro ::
  "run_env \<Rightarrow> assertion_site \<Rightarrow> evaluated \<Rightarrow> run_context \<Rightarrow> (completion \<times> run_context) res" where
  "test_macro env s e rc =
     map_sum id react
       (case e of
          Compared op l r \<Rightarrow> endExpression env (captureComparison op l r (site_builder s [])) rc
        | Compared_strings op l r \<Rightarrow>
            endExpression env (captureStrings (showInvisibles (cfg_data (env_config env))) op l r (site_builder s [])) rc
        | Compared_bools op l r \<Rightarrow> endExpression env (captureBools op l r (site_builder s [])) rc
        | Value v \<Rightarrow> endExpression env (captureValue v (site_builder s [])) rc
        | Raises text \<Rightarrow> useActiveException env NormalDisposition text (site_builder s []) rc)"

definition no_throw_macro ::
  "run_env \<Rightarrow> assertion_site \<Rightarrow> string option \<Rightarrow> run_context \<Rightarrow> (completion \<times> run_context) res" where
  "no_throw_macro env s raised rc =
     map_sum id react
       (case raised of
          None \<Rightarrow> captureResult env Ok (site_builder s []) rc
        | Some text \<Rightarrow> useActiveException env (site_disposition s) text (site_builder s []) rc)"

definition throws_macro ::
  "run_env \<Rightarrow> assertion_site \<Rightarrow> string \<Rightarrow> matcher \<Rightarrow> string option \<Rightarrow> run_context
   \<Rightarrow> (completion \<times> run_context) res" where
  "throws_macro env s secondArg m raised rc =
     map_sum id react
       (if allowThrows (env_config env) then
          (case raised of
             None \<Rightarrow> captureResult env DidntThrowException (site_builder s secondArg) rc
           | Some text \<Rightarrow> captureExpectedException env m text (site_builder s secondArg) rc)
        else captureResult env Ok (site_builder s secondArg) rc)"

text \<open>The exception, and whether it has the type that is expected.\<close>

definition throws_as_macro ::
  "run_env \<Rightarrow> assertion_site \<Rightarrow> (bool \<times> string) option \<Rightarrow> run_context \<Rightarrow> (completion \<times> run_context) res" where
  "throws_as_macro env s raised rc =
     map_sum id react
       (if allowThrows (env_config env) then
          (case raised of
             None \<Rightarrow> captureResult env DidntThrowException (site_builder s []) rc
           | Some (expected, text) \<Rightarrow>
               if expected then captureResult env Ok (site_builder s []) rc
               else useActiveException env (site_disposition s) text (site_builder s []) rc)
        else captureResult env Ok (site_builder s []) rc)"

definition msg_macro ::
  "run_env \<Rightarrow> result_was \<Rightarrow> assertion_site \<Rightarrow> string \<Rightarrow> run_context \<Rightarrow> (completion \<times> run_context) res" where
  "msg_macro env t s text rc = map_sum id react (captureResult env t (streamInto text (site_builder s [])) rc)"

definition check_that_macro ::
  "run_env \<Rightarrow> assertion_site \<Rightarrow> string \<Rightarrow> matcher \<Rightarrow> run_context \<Rightarrow> (completion \<times> run_context) res" where
  "check_that_macro env s arg m rc =
     map_sum id react
       (captureExpression env
         (setResultBool (matches m arg)
           ((site_builder s [])\<lparr>
              lhs := toString_string (showInvisibles (cfg_data (env_config env))) arg,
              rhs := matcher_toString m, op_name := ''matches''\<rparr>)) rc)"

section \<open>Sections and messages\<close>

text \<open>The tracker of a section is found by its name and position.\<close>

definition section_key :: "section_info \<Rightarrow> string" where
  "section_key si = si_name si @ ''@'' @ show_source_line (si_lineInfo si)"

text \<open>Yields the counts at the start when the section is entered.\<close>

definition sectionStarted :: "section_info \<Rightarrow> run_context \<Rightarrow> (counts option \<times> run_context) res" where
  "sectionStarted si rc =
     bindR (acquire_section (section_key si) (rc_tracker rc)) (\<lambda>(p, ctx).
     bindR (deref p ctx) (\<lambda>t.
       if \<not> isOpen t then Inr (None, rc\<lparr>rc_tracker := ctx\<rparr>)
       else
         let rc1 = rc\<lparr>rc_tracker := ctx, rc_activeSections := rc_activeSections rc @ [p],
               rc_lastAssertionInfo := (rc_lastAssertionInfo rc)\<lparr>ai_lineInfo := si_lineInfo si\<rparr>\<rparr>
         in Inr (Some (run_counts rc1), report (SectionStarting si) rc1)))"

text \<open>Counts a failure when a section without children has made no assertion and that is warned about.\<close>

definition testForMissingAssertions ::
  "run_env \<Rightarrow> counts \<Rightarrow> run_context \<Rightarrow> (bool \<times> counts \<times> run_context) res" where
  "testForMissingAssertions env c rc =
     (if total c \<noteq> 0 then Inr (False, c, rc)
      else if \<not> warnNoAssertions (cfg_data (env_config env)) then Inr (False, c, rc)
      else bindR (current (rc_tracker rc)) (\<lambda>p. bindR (deref p (rc_tracker rc)) (\<lambda>t.
        if hasChildren t then Inr (False, c, rc)
        else Inr (True, c\<lparr>failed := failed c + 1\<rparr>, on_counts (\<lambda>n. n\<lparr>failed := failed n + 1\<rparr>) rc))))"

text \<open>Closing the innermost active section, and leaving it.\<close>

definition close_active :: "(tracker_path \<Rightarrow> tracker_context \<Rightarrow> tracker_context res) \<Rightarrow> run_context \<Rightarrow> run_context res" where
  "close_active f rc =
     (case rev (rc_activeSections rc) of
        [] \<Rightarrow> Inl (Undefined Vector_index)
      | p # ps \<Rightarrow> bindR (f p (rc_tracker rc)) (\<lambda>ctx.
          Inr (rc\<lparr>rc_tracker := ctx, rc_activeSections := rev ps\<rparr>)))"

definition sectionEnded :: "run_env \<Rightarrow> section_end_info \<Rightarrow> run_context \<Rightarrow> run_context res" where
  "sectionEnded env endInfo rc =
     bindR (testForMissingAssertions env (counts_minus (run_counts rc) (sei_prevAssertions endInfo)) rc) (\<lambda>(missing, c, rc1).
     bindR (if rc_activeSections rc1 \<noteq> [] then close_active close_tracker rc1 else Inr rc1) (\<lambda>rc2.
       Inr ((report (SectionEnded (sei_sectionInfo endInfo) c missing) rc2)\<lparr>rc_messages := []\<rparr>)))"

definition sectionEndedEarly :: "section_end_info \<Rightarrow> run_context \<Rightarrow> run_context res" where
  "sectionEndedEarly endInfo rc =
     bindR (close_active (if rc_unfinished rc = [] then fail_tracker else close_tracker) rc) (\<lambda>rc1.
       Inr (rc1\<lparr>rc_unfinished := rc_unfinished rc1 @ [endInfo]\<rparr>))"

fun handle_unfinished :: "run_env \<Rightarrow> section_end_info list \<Rightarrow> run_context \<Rightarrow> run_context res" where
  "handle_unfinished env [] rc = Inr rc"
| "handle_unfinished env (e # es) rc = bindR (sectionEnded env e rc) (handle_unfinished env es)"

definition handleUnfinishedSections :: "run_env \<Rightarrow> run_context \<Rightarrow> run_context res" where
  "handleUnfinishedSections env rc =
     bindR (handle_unfinished env (rev (rc_unfinished rc)) rc) (\<lambda>rc1. Inr (rc1\<lparr>rc_unfinished := []\<rparr>))"

definition pushScopedMessage :: "message_info \<Rightarrow> run_context \<Rightarrow> run_context" where
  "pushScopedMessage m rc = rc\<lparr>rc_messages := rc_messages rc @ [m]\<rparr>"

definition popScopedMessage :: "message_info \<Rightarrow> run_context \<Rightarrow> run_context" where
  "popScopedMessage m rc = rc\<lparr>rc_messages := filter (\<lambda>n. \<not> message_eq n m) (rc_messages rc)\<rparr>"

section \<open>The body of a test\<close>

text \<open>
  A body is a list of statements that use the framework: a macro with what its expression
  comes to, a section, a message that lives to the end of its block, the value of a generator,
  or an exception the code under test throws. What a body does in a run is thus the same in each
  cycle, but for the sections that are entered.
\<close>

datatype test_step =
    Test assertion_site evaluated
  | No_throw assertion_site "string option"
  | Throws_test assertion_site string matcher "string option"
  | Throws_as assertion_site "(bool \<times> string) option"
  | Msg result_was assertion_site string
  | Check_that assertion_site string matcher
  | Scoped_message string source_line_info string "test_step list"
  | Section section_info "test_step list"
  | Generate composite_generator
  | Throw_exception string

text \<open>Leaving a section: in the course of unwinding, or at the end of its block.\<close>

definition leave_section ::
  "run_env \<Rightarrow> section_end_info \<Rightarrow> completion \<times> run_context \<Rightarrow> (completion \<times> run_context) res" where
  "leave_section env endInfo cr =
     (case fst cr of
        Completed \<Rightarrow> bindR (sectionEnded env endInfo (snd cr)) (\<lambda>rc. Inr (Completed, rc))
      | c \<Rightarrow> bindR (sectionEndedEarly endInfo (snd cr)) (\<lambda>rc. Inr (c, rc)))"

fun run_step :: "run_env \<Rightarrow> test_step \<Rightarrow> run_context \<Rightarrow> (completion \<times> run_context) res"
  and run_steps :: "run_env \<Rightarrow> test_step list \<Rightarrow> run_context \<Rightarrow> (completion \<times> run_context) res" where
  "run_step env (Test s e) rc = test_macro env s e rc"
| "run_step env (No_throw s raised) rc = no_throw_macro env s raised rc"
| "run_step env (Throws_test s secondArg m raised) rc = throws_macro env s secondArg m raised rc"
| "run_step env (Throws_as s raised) rc = throws_as_macro env s raised rc"
| "run_step env (Msg t s text) rc = msg_macro env t s text rc"
| "run_step env (Check_that s arg m) rc = check_that_macro env s arg m rc"
| "run_step env (Scoped_message macro line text body) rc =
     (let (m, n) = newMessageInfo macro line Info text (rc_messageCount rc)
      in map_sum id (map_prod id (popScopedMessage m))
           (run_steps env body (pushScopedMessage m (rc\<lparr>rc_messageCount := n\<rparr>))))"
| "run_step env (Section si body) rc =
     bindR (sectionStarted si rc) (\<lambda>(entered, rc1).
       case entered of
         None \<Rightarrow> Inr (Completed, rc1)
       | Some prev \<Rightarrow> bindR (run_steps env body rc1)
           (leave_section env \<lparr>sei_sectionInfo = si, sei_prevAssertions = prev\<rparr>))"
| "run_step env (Generate g) rc =
     (let (v, gs) = generator_value (getCurrentTestName rc) g (rc_generators rc)
      in case v of
           Inr value \<Rightarrow> Inr (Completed, rc\<lparr>rc_generators := gs\<rparr>)
         | Inl (Throws e) \<Rightarrow> Inr (Raised (what e), rc\<lparr>rc_generators := gs\<rparr>)
         | Inl f \<Rightarrow> Inl f)"
| "run_step env (Throw_exception text) rc = Inr (Raised text, rc)"
| "run_steps env [] rc = Inr (Completed, rc)"
| "run_steps env (s # ss) rc =
     bindR (run_step env s rc) (\<lambda>(c, rc1). case c of Completed \<Rightarrow> run_steps env ss rc1 | _ \<Rightarrow> Inr (c, rc1))"

section \<open>Running a test case\<close>

type_synonym run_test_case = "test_step list test_case"

definition test_section :: "run_test_case \<Rightarrow> section_info" where
  "test_section tc = \<lparr>si_name = tc_name tc, si_description = description tc, si_lineInfo = lineInfo tc\<rparr>"

definition makeUnexpectedResultBuilder :: "run_context \<Rightarrow> result_builder" where
  "makeUnexpectedResultBuilder rc =
     (let i = rc_lastAssertionInfo rc
      in newResultBuilder (macroName i) (ai_lineInfo i) (capturedExpression i) (resultDisposition i) [])"

definition invokeActiveTestCase :: "run_env \<Rightarrow> run_test_case \<Rightarrow> run_context \<Rightarrow> run_context res" where
  "invokeActiveTestCase env tc rc =
     bindR (run_steps env (test_body tc) rc) (\<lambda>(c, rc1).
       case c of
         Completed \<Rightarrow> Inr rc1
       | Test_failure \<Rightarrow> Inr rc1
       | Raised text \<Rightarrow>
           map_sum id snd (useActiveException env NormalDisposition text (makeUnexpectedResultBuilder rc1) rc1))"

definition close_test_case :: "run_context \<Rightarrow> run_context res" where
  "close_test_case rc =
     (case rc_testCaseTracker rc of
        None \<Rightarrow> Inl (Undefined Null_deref)
      | Some p \<Rightarrow> bindR (close_tracker p (rc_tracker rc)) (\<lambda>ctx. Inr (rc\<lparr>rc_tracker := ctx\<rparr>)))"

text \<open>The failures of a test that may fail are moved to a count of their own.\<close>

definition excuse_failures :: "run_test_case \<Rightarrow> counts \<Rightarrow> run_context \<Rightarrow> counts \<times> run_context" where
  "excuse_failures tc c rc =
     (if okToFail tc then
        (let c' = c\<lparr>failed := failedButOk c, failedButOk := failed c\<rparr>
         in (c', on_counts (\<lambda>n. n\<lparr>failed := failed n - failedButOk c', failedButOk := failedButOk n + failedButOk c'\<rparr>) rc))
      else (c, rc))"

definition runCurrentTest :: "run_env \<Rightarrow> run_test_case \<Rightarrow> run_context \<Rightarrow> run_context res" where
  "runCurrentTest env tc rc0 =
     (let rc = (report (SectionStarting (test_section tc)) rc0)\<lparr>rc_lastAssertionInfo :=
          \<lparr>macroName = ''TEST_CASE'', ai_lineInfo = lineInfo tc, capturedExpression = [],
           resultDisposition = NormalDisposition\<rparr>\<rparr>;
          prev = run_counts rc0
      in bindR (invokeActiveTestCase env tc rc) (\<lambda>rc1.
         bindR (close_test_case rc1) (\<lambda>rc2.
         bindR (handleUnfinishedSections env rc2) (\<lambda>rc3.
         bindR (testForMissingAssertions env (counts_minus (run_counts rc3) prev) (rc3\<lparr>rc_messages := []\<rparr>)) (\<lambda>(missing, c, rc4).
           let (c', rc5) = excuse_failures tc c rc4
           in Inr (report (SectionEnded (test_section tc) c' missing) rc5))))))"

text \<open>One cycle, and whether another one is due.\<close>

definition run_cycle :: "run_env \<Rightarrow> run_test_case \<Rightarrow> run_context \<Rightarrow> (bool \<times> run_context) res" where
  "run_cycle env tc rc =
     bindR (acquire_section (tc_name tc) (startCycle (rc_tracker rc))) (\<lambda>(p, ctx).
     bindR (runCurrentTest env tc (rc\<lparr>rc_tracker := ctx, rc_testCaseTracker := Some p\<rparr>)) (\<lambda>rc1.
     bindR (deref p (rc_tracker rc1)) (\<lambda>t.
       Inr (\<not> isSuccessfullyCompleted t \<and> \<not> aborting env rc1, rc1))))"

partial_function (option) run_cycles :: "run_env \<Rightarrow> run_test_case \<Rightarrow> run_context \<Rightarrow> run_context res option" where
  "run_cycles env tc rc =
     (case run_cycle env tc rc of
        Inl e \<Rightarrow> Some (Inl e)
      | Inr (again, rc1) \<Rightarrow> (if again then run_cycles env tc rc1 else Some (Inr rc1)))"

definition advance_generators :: "run_context \<Rightarrow> bool \<times> run_context" where
  "advance_generators rc =
     (let (moved, gs) = advanceGeneratorsForCurrentTest (getCurrentTestName rc) (rc_generators rc)
      in (moved, rc\<lparr>rc_generators := gs\<rparr>))"

partial_function (option) run_generators :: "run_env \<Rightarrow> run_test_case \<Rightarrow> run_context \<Rightarrow> run_context res option" where
  "run_generators env tc rc =
     Option.bind (run_cycles env tc (rc\<lparr>rc_tracker := startRun (rc_tracker rc)\<rparr>)) (\<lambda>r.
       case r of
         Inl e \<Rightarrow> Some (Inl e)
       | Inr rc1 \<Rightarrow>
           (let (moved, rc2) = advance_generators rc1
            in if moved \<and> \<not> aborting env rc2 then run_generators env tc rc2 else Some (Inr rc2)))"

text \<open>A test that is expected to fail and has passed is counted as failed.\<close>

definition finish_test :: "run_env \<Rightarrow> run_test_case \<Rightarrow> totals \<Rightarrow> run_context \<Rightarrow> totals \<times> run_context" where
  "finish_test env tc prevTotals rc =
     (let d0 = delta (rc_totals rc) prevTotals;
          d = (if expectedToFail tc \<and> passed (testCases d0) > 0
               then d0\<lparr>assertions := (assertions d0)\<lparr>failed := failed (assertions d0) + 1\<rparr>,
                       testCases := (testCases d0)\<lparr>passed := passed (testCases d0) - 1,
                                                   failed := failed (testCases d0) + 1\<rparr>\<rparr>
               else d0);
          rc1 = rc\<lparr>rc_totals := (rc_totals rc)\<lparr>testCases := counts_plus (testCases (rc_totals rc)) (testCases d)\<rparr>\<rparr>
      in (d, (report (TestCaseEnded (tc_name tc) (className tc) d (aborting env rc1)) rc1)\<lparr>rc_activeTest := None, rc_testCaseTracker := None\<rparr>))"

definition runTest :: "run_env \<Rightarrow> run_test_case \<Rightarrow> run_context \<Rightarrow> (totals \<times> run_context) res option" where
  "runTest env tc rc =
     Option.bind (run_generators env tc ((report (TestCaseStarting (tc_name tc)) rc)\<lparr>rc_activeTest := Some (tc_name tc)\<rparr>))
       (\<lambda>r. Some (bindR r (\<lambda>rc1. Inr (finish_test env tc (rc_totals rc) rc1))))"

end
