(* ===== verification/Catch_Cycles.thy ===== *)
theory Catch_Cycles
  imports Catch_Run
begin

text \<open>
  Why each section is entered: a test case whose assertions pass is run once for each of its leaf
  sections, in the order they are written in, and the loop around the cycles ends. The proof
  follows the tree of trackers through the cycles: \<open>kids\<close> is what the trackers of the sections
  of a block look like after a number of cycles.
\<close>

section \<open>Opening and closing a section\<close>

text \<open>The parent of an open section is executing its children, so opening changes nothing above.\<close>

definition parent_open :: "tracker_context \<Rightarrow> tracker_path \<Rightarrow> bool" where
  "parent_open ctx p \<longleftrightarrow> (case p of [] \<Rightarrow> True | k # q \<Rightarrow> \<exists>u. has_tracker ctx q u \<and> t_state u = ExecutingChildren)"

definition as_current :: "tracker_path \<Rightarrow> tracker_context \<Rightarrow> tracker_context" where
  "as_current p ctx = ctx\<lparr>currentTracker := Some p\<rparr>"

lemma as_current_simps [simp]:
  "currentTracker (as_current p ctx) = Some p" "contextState (as_current p ctx) = contextState ctx"
  "rootTracker (as_current p ctx) = rootTracker ctx"
  "has_tracker (as_current q ctx) p t = has_tracker ctx p t"
  "as_current p (as_current q ctx) = as_current p ctx"
  "as_current p (completeCycle ctx) = completeCycle (as_current p ctx)"
  "completeCycle (completeCycle ctx) = completeCycle ctx"
  "as_current p (change q f ctx) = change q f (as_current p ctx)"
  "contextState (completeCycle ctx) = Context_completed_cycle" "currentTracker (completeCycle ctx) = currentTracker ctx"
  "rootTracker (completeCycle ctx) = rootTracker ctx"
  by (simp_all add: as_current_def has_tracker_def completeCycle_def)

lemma as_current_same: "currentTracker ctx = Some p \<Longrightarrow> as_current p ctx = ctx"
  by (simp add: as_current_def)

lemma parent_open_frame [simp]:
  "parent_open (as_current q ctx) p = parent_open ctx p" "parent_open (completeCycle ctx) p = parent_open ctx p"
  by (simp_all add: parent_open_def split: list.splits)

text \<open>A pointed-to tracker keeps its parent open when it is replaced.\<close>

lemma parent_open_put: "parent_open ctx p \<Longrightarrow> has_tracker ctx p t \<Longrightarrow> parent_open (put p t' ctx) p"
proof (cases p)
  case (Cons k q)
  assume "parent_open ctx p"
  then obtain u where u: "has_tracker ctx q u" "t_state u = ExecutingChildren" using Cons by (auto simp: parent_open_def)
  have "has_tracker (put p t' ctx) q (set_children ((t_children u)[k := t']) u)"
    unfolding Cons put_child [OF u(1)] by (rule has_tracker_put [OF u(1)])
  then show ?thesis using u Cons by (auto simp: parent_open_def)
qed (simp add: parent_open_def)

lemma openChild_spec:
  assumes "has_tracker ctx p t" "parent_open ctx p"
  shows "openChild p ctx = Inr (put p (set_state ExecutingChildren t) ctx)"
proof (cases "t_state t = ExecutingChildren")
  case True
  then have "set_state ExecutingChildren t = t" by (metis set_simps(12))
  then show ?thesis using True assms(1) by (cases p) (simp_all add: has_tracker_deref put_same)
next
  case False
  note ch = change_put [OF assms(1), of "set_state ExecutingChildren"]
  show ?thesis
  proof (cases p)
    case Nil
    then show ?thesis using False assms(1) ch by (simp add: has_tracker_deref)
  next
    case (Cons k q)
    obtain u where u: "has_tracker (put p (set_state ExecutingChildren t) ctx) q u" "t_state u = ExecutingChildren"
      using parent_open_put [OF assms(2,1)] Cons by (fastforce simp: parent_open_def)
    have "openChild q (put p (set_state ExecutingChildren t) ctx) = Inr (put p (set_state ExecutingChildren t) ctx)"
      using u by (cases q) (simp_all add: has_tracker_deref)
    then show ?thesis using False assms(1) ch Cons by (simp add: has_tracker_deref)
  qed
qed

text \<open>The child of a name and the children with it.\<close>

definition with_child :: "string \<Rightarrow> tracker list \<Rightarrow> nat \<times> tracker list" where
  "with_child key cs =
     (case find_index (\<lambda>c. t_name c = key) cs of
        Some k \<Rightarrow> (k, cs) | None \<Rightarrow> (length cs, cs @ [newTracker key Section_tracker]))"

lemma with_child_less: "with_child key cs = (k, cs') \<Longrightarrow> k < length cs'"
  by (auto simp: with_child_def dest: find_index_Some split: option.splits)

lemma find_or_add_spec:
  assumes "has_tracker ctx p t" "with_child key (t_children t) = (k, cs)" "list_all isSectionTracker (t_children t)"
  shows "find_or_add key Section_tracker isSectionTracker p ctx = Inr (k # p, put p (set_children cs t) ctx)"
proof (cases "find_index (\<lambda>c. t_name c = key) (t_children t)")
  case None
  then show ?thesis
    using assms(1,2) change_put [OF assms(1), of "addChild (newTracker key Section_tracker)"]
    by (simp add: find_or_add_def has_tracker_deref findChild_def with_child_def addChild_def)
next
  case (Some i)
  then have "isSectionTracker (t_children t ! i)"
    using assms(3) find_index_Some [OF Some] by (auto simp: list_all_length)
  moreover have "cs = t_children t" "k = i" using assms(2) Some by (auto simp: with_child_def)
  ultimately show ?thesis
    using assms(1) Some by (simp add: find_or_add_def has_tracker_deref findChild_def put_same)
qed

lemma completedCycle_put [simp]: "completedCycle (change p f ctx) = completedCycle ctx"
  by (simp add: completedCycle_def)

lemma acquire_spec:
  assumes "has_tracker ctx p t" "currentTracker ctx = Some p" "parent_open ctx p"
    and "with_child key (t_children t) = (k, cs)" "list_all isSectionTracker (t_children t)"
  shows "acquire_section key ctx = Inr (k # p,
    if \<not> completedCycle ctx \<and> \<not> isComplete (cs ! k)
    then as_current (k # p) (put p (set_state ExecutingChildren (set_children (cs[k := set_state Executing (cs ! k)]) t)) ctx)
    else put p (set_children cs t) ctx)"
proof -
  let ?ctx1 = "put p (set_children cs t) ctx"
  have k: "k < length cs" using with_child_less [OF assms(4)] .
  have t1: "has_tracker ?ctx1 p (set_children cs t)" by (rule has_tracker_put [OF assms(1)])
  have c: "has_tracker ?ctx1 (k # p) (cs ! k)" using has_child [OF t1] k by simp
  let ?t2 = "set_children (cs[k := set_state Executing (cs ! k)]) t"
  let ?ctx2 = "as_current (k # p) (put p ?t2 ctx)"
  have "(change (k # p) (set_state Executing) ?ctx1)\<lparr>currentTracker := Some (k # p)\<rparr> = ?ctx2"
    unfolding change_put [OF c] put_child [OF t1] as_current_def by simp
  moreover have "has_tracker ?ctx2 p ?t2"
    using has_tracker_put [of "as_current (k # p) ctx" p t] assms(1) by simp
  moreover have "parent_open ?ctx2 p" 
    using parent_open_put [of "as_current (k # p) ctx" p t] assms(1,3) by simp
  ultimately have "open_tracker (k # p) ?ctx1 = Inr (put p (set_state ExecutingChildren ?t2) ?ctx2)"
    by (simp add: open_tracker_def Let_def openChild_spec)
  then show ?thesis
    unfolding acquire_section_def
    using assms(2) find_or_add_spec [OF assms(1,4,5)] has_tracker_deref [OF c]
    by (simp add: current_def)
qed

text \<open>Closing the current section.\<close>

lemma close_current:
  assumes "has_tracker ctx (k # p) c" "currentTracker ctx = Some (k # p)" "closed_state c = Inr st" "isSectionTracker c"
  shows "close_tracker (k # p) ctx = Inr (completeCycle (as_current p (put (k # p) (set_state st c) ctx)))"
proof -
  have i: "index_close (set_state st c) = set_state st c" using assms(4) by (cases c) auto
  let ?ctx0 = "completeCycle (as_current p ctx)"
  have "change (k # p) (\<lambda>u. index_close (set_state st u)) ?ctx0 = put (k # p) (set_state st c) ?ctx0"
    using change_put [of ?ctx0 "k # p" c "\<lambda>u. index_close (set_state st u)"] assms(1) i by simp
  then show ?thesis
    using assms(1,2,3)
    by (simp add: close_tracker_def current_def close_this_def has_tracker_deref moveToParent_def as_current_def)
qed

section \<open>The schedule of a test\<close>

text \<open>
  The sections of a block, the number of cycles a block with sections takes, and the events of
  a cycle: \<open>Some j\<close> says that \<open>j\<close> cycles of the block are over, \<open>None\<close> that the section of this
  cycle has been left.
\<close>

datatype trace_item = Enter section_info | Leave section_info | Made source_line_info

fun secs :: "test_step list \<Rightarrow> (section_info \<times> test_step list) list" where
  "secs [] = []"
| "secs (Section si b # ss) = (si, b) # secs ss"
| "secs (Scoped_message m l t b # ss) = secs b @ secs ss"
| "secs (s # ss) = secs ss"

fun cycles_of :: "test_step list \<Rightarrow> nat" where
  "cycles_of [] = 0"
| "cycles_of (Section si b # ss) = max 1 (cycles_of b) + cycles_of ss"
| "cycles_of (Scoped_message m l t b # ss) = cycles_of b + cycles_of ss"
| "cycles_of (s # ss) = cycles_of ss"

fun site_of :: "test_step \<Rightarrow> source_line_info" where
  "site_of (Test s e) = site_line s"
| "site_of (No_throw s r) = site_line s"
| "site_of (Throws_test s a m r) = site_line s"
| "site_of (Throws_as s r) = site_line s"
| "site_of (Msg t s x) = site_line s"
| "site_of (Check_that s a m) = site_line s"
| "site_of _ = SourceLineInfo [] 0"

definition left :: "test_step list \<Rightarrow> nat option \<Rightarrow> nat option" where
  "left ss r = (case r of None \<Rightarrow> None | Some j \<Rightarrow> if j < cycles_of ss then None else Some (j - cycles_of ss))"

fun trace :: "test_step list \<Rightarrow> nat option \<Rightarrow> trace_item list" where
  "trace [] r = []"
| "trace (Section si b # ss) r =
     (case r of
        None \<Rightarrow> trace ss None
      | Some j \<Rightarrow>
          if j < max 1 (cycles_of b) then [Enter si] @ trace b (Some j) @ [Leave si] @ trace ss None
          else trace ss (Some (j - max 1 (cycles_of b))))"
| "trace (Scoped_message m l t b # ss) r = trace b r @ trace ss (left b r)"
| "trace (s # ss) r = Made (site_of s) # trace ss r"

text \<open>The trackers of the sections of a block after \<open>j\<close> cycles of it.\<close>

fun kids :: "test_step list \<Rightarrow> nat \<Rightarrow> tracker list" where
  "kids [] j = []"
| "kids (Section si b # ss) j =
     Tracker (section_key si) Section_tracker
       (if j = 0 then NotStarted else if j < max 1 (cycles_of b) then ExecutingChildren else CompletedSuccessfully)
       (if j = 0 then [] else kids b (min j (max 1 (cycles_of b))))
     # kids ss (j - max 1 (cycles_of b))"
| "kids (Scoped_message m l t b # ss) j = kids b j @ kids ss (j - cycles_of b)"
| "kids (s # ss) j = kids ss j"

text \<open>Names that are distinct within each block, and assertions that pass.\<close>

fun well_named_inside :: "test_step list \<Rightarrow> bool" where
  "well_named_inside [] = True"
| "well_named_inside (Section si b # ss) =
     (distinct (map (\<lambda>s. section_key (fst s)) (secs b)) \<and> well_named_inside b \<and> well_named_inside ss)"
| "well_named_inside (Scoped_message m l t b # ss) = (well_named_inside b \<and> well_named_inside ss)"
| "well_named_inside (s # ss) = well_named_inside ss"

definition keys :: "test_step list \<Rightarrow> string list" where
  "keys b = map (\<lambda>s. section_key (fst s)) (secs b)"

definition well_named :: "test_step list \<Rightarrow> bool" where
  "well_named b \<longleftrightarrow> distinct (keys b) \<and> well_named_inside b"

fun passing :: "run_env \<Rightarrow> test_step list \<Rightarrow> bool" where
  "passing env [] = True"
| "passing env (Section si b # ss) = (passing env b \<and> passing env ss)"
| "passing env (Scoped_message m l t b # ss) = (passing env b \<and> passing env ss)"
| "passing env (Test s e # ss) =
     ((case e of Compared op l r \<Rightarrow> compare op l r \<noteq> isFalseTest (site_disposition s)
       | Compared_strings op l r \<Rightarrow> compare_strings op l r \<noteq> isFalseTest (site_disposition s)
       | Compared_bools op l r \<Rightarrow> compare_bools op l r \<noteq> isFalseTest (site_disposition s)
       | Value v \<Rightarrow> v \<noteq> isFalseTest (site_disposition s) | Raises t \<Rightarrow> False) \<and> passing env ss)"
| "passing env (No_throw s r # ss) = (r = None \<and> passing env ss)"
| "passing env (Throws_test s a m r # ss) =
     ((allowThrows (env_config env) \<longrightarrow> (\<exists>t. r = Some t \<and> matches m t)) \<and> passing env ss)"
| "passing env (Throws_as s r # ss) =
     ((allowThrows (env_config env) \<longrightarrow> (\<exists>t. r = Some (True, t))) \<and> passing env ss)"
| "passing env (Msg t s x # ss) = (isOk t \<and> passing env ss)"
| "passing env (Check_that s a m # ss) = (matches m a \<and> passing env ss)"
| "passing env (Generate g # ss) = False"
| "passing env (Throw_exception t # ss) = False"

lemma names_kids: "map t_name (kids ss j) = keys ss"
  by (induction ss j rule: kids.induct) (auto simp: keys_def)

lemma section_kids: "list_all isSectionTracker (kids ss j)"
  by (induction ss j rule: kids.induct) auto

lemma kids_Nil: "kids ss j = [] \<longleftrightarrow> secs ss = []"
  by (induction ss j rule: kids.induct) auto

lemma cycles_of_0: "cycles_of ss = 0 \<longleftrightarrow> secs ss = []"
  by (induction ss rule: cycles_of.induct) auto

lemma last_kid: "secs ss \<noteq> [] \<Longrightarrow> isComplete (last (kids ss j)) \<longleftrightarrow> cycles_of ss \<le> j"
proof (induction ss j rule: kids.induct)
  case (2 si b ss j)
  show ?case
  proof (cases "secs ss = []")
    case True
    then have "cycles_of ss = 0" by (simp add: cycles_of_0)
    then show ?thesis using True by (auto simp: isComplete_def kids_Nil max_def)
  next
    case False
    then have "0 < cycles_of ss" using cycles_of_0 [of ss] by simp
    moreover have "isComplete (last (kids ss (j - max 1 (cycles_of b)))) \<longleftrightarrow> cycles_of ss \<le> j - max 1 (cycles_of b)"
      using 2 False by simp
    ultimately have "isComplete (last (kids ss (j - max 1 (cycles_of b)))) \<longleftrightarrow> max 1 (cycles_of b) + cycles_of ss \<le> j"
      by linarith
    then show ?thesis using False by (simp add: kids_Nil)
  qed
next
  case (3 m l t b ss j)
  then show ?case
    using cycles_of_0 [of ss] cycles_of_0 [of b]
    by (cases "secs ss = []"; cases "secs b = []") (auto simp: kids_Nil last_append)
qed auto

lemma kids_full: "cycles_of ss \<le> i \<Longrightarrow> kids ss i = kids ss (cycles_of ss)"
proof (induction ss arbitrary: i rule: cycles_of.induct)
  case (2 si b ss)
  have "kids ss (i - max 1 (cycles_of b)) = kids ss (cycles_of ss)"
    using "2.prems" by (intro "2.IH"(2)) auto
  then show ?case using "2.prems" by auto
next
  case (3 m l t b ss)
  have "kids b i = kids b (cycles_of b)" "kids b (cycles_of b + cycles_of ss) = kids b (cycles_of b)"
    "kids ss (i - cycles_of b) = kids ss (cycles_of ss)"
    using "3.prems" by (auto intro: "3.IH")
  then show ?case by simp
qed (unfold kids.simps cycles_of.simps, blast+)

section \<open>What a part of a run leaves alone\<close>

fun item_of :: "reporter_event \<Rightarrow> trace_item list" where
  "item_of (SectionStarting si) = [Enter si]"
| "item_of (SectionEnded si c missing) = [Leave si]"
| "item_of (AssertionEnded r ms t) = [Made (ai_lineInfo (m_info r))]"
| "item_of e = []"

definition trace_of :: "run_context \<Rightarrow> trace_item list" where
  "trace_of rc = concat (map item_of (rc_events rc))"

text \<open>From one state to another: the trackers and the trace are given, the failures and the stack are kept.\<close>

definition goes :: "run_context \<Rightarrow> run_context \<Rightarrow> tracker_context \<Rightarrow> trace_item list \<Rightarrow> bool" where
  "goes rc rc' ctx tr \<longleftrightarrow>
     rc_tracker rc' = ctx \<and> trace_of rc' = trace_of rc @ tr
     \<and> failed (run_counts rc') = failed (run_counts rc) \<and> failedButOk (run_counts rc') = failedButOk (run_counts rc)
     \<and> testCases (rc_totals rc') = testCases (rc_totals rc)
     \<and> rc_unfinished rc' = rc_unfinished rc \<and> rc_activeSections rc' = rc_activeSections rc
     \<and> rc_testCaseTracker rc' = rc_testCaseTracker rc \<and> rc_activeTest rc' = rc_activeTest rc
     \<and> rc_generators rc' = rc_generators rc"

lemma goes_trans: "goes rc rc1 ctx1 tr1 \<Longrightarrow> goes rc1 rc2 ctx2 tr2 \<Longrightarrow> goes rc rc2 ctx2 (tr1 @ tr2)"
  by (simp add: goes_def)

lemma goes_refl: "goes rc rc (rc_tracker rc) []"
  by (simp add: goes_def)

lemma goes_aborting: "goes rc rc' ctx tr \<Longrightarrow> aborting env rc' = aborting env rc"
  by (simp add: goes_def aborting_def)

lemma assertion_passes:
  assumes "isOk (resultType (m_resultData r))"
  shows "\<exists>rc'. handleResult env r b rc = (b, rc') \<and> goes rc rc' (rc_tracker rc) [Made (ai_lineInfo (m_info r))]"
proof -
  obtain ms n where "stats_messages r (rc_messages rc) (rc_messageCount rc) = (ms, n)" by force
  then show ?thesis
    using assms
    by (auto simp: handleResult_def result_isOk_def goes_def assertionEnded_def Let_def report_def on_counts_def
        count_result_def trace_of_def getResultType_def)
qed

lemma capture_passes:
  assumes "build b = Inr r" "isOk (resultType (m_resultData r))" "\<not> m_shouldThrow b"
  shows "\<exists>rc'. map_sum id react (captureExpression env b rc) = Inr (Completed, rc')
    \<and> goes rc rc' (rc_tracker rc) [Made (ai_lineInfo (m_info r))]"
  using assertion_passes [OF assms(2), of env b rc] assms(1,3)
  by (auto simp: captureExpression_def react_def)

lemma getName_op: "getName op \<noteq> []" "getName op \<noteq> ''!''"
  by (cases op; simp)+

lemma build_ok:
  assumes "resultType (m_data b) \<noteq> Unknown" "op_name b \<noteq> ''!''"
  shows "\<exists>r. build b = Inr r \<and> m_info r = m_assertionInfo b
    \<and> resultType (m_resultData r) = (if testFalse b then flip_result (resultType (m_data b)) else resultType (m_data b))"
  using assms by (auto simp: build_def reconstructExpression_def Let_def)

lemma builder_passes:
  assumes "resultType (m_data b) \<noteq> Unknown" "op_name b \<noteq> ''!''" "\<not> m_shouldThrow b"
    and "isOk (if testFalse b then flip_result (resultType (m_data b)) else resultType (m_data b))"
    and "ai_lineInfo (m_assertionInfo b) = l"
  shows "\<exists>rc'. map_sum id react (captureExpression env b rc) = Inr (Completed, rc') \<and> goes rc rc' (rc_tracker rc) [Made l]"
proof -
  obtain r where r: "build b = Inr r" "m_info r = m_assertionInfo b"
    "resultType (m_resultData r) = (if testFalse b then flip_result (resultType (m_data b)) else resultType (m_data b))"
    using build_ok [OF assms(1,2)] by auto
  show ?thesis using capture_passes [OF r(1) _ assms(3)] r assms(4,5) by simp
qed

lemmas site_simps = site_builder_def newResultBuilder_def newAssertionResultData_def setResultBool_def
  setResultType_def streamInto_def captureComparison_def captureStrings_def captureBools_def captureValue_def endExpression_flag_def getName_op

lemma step_passes:
  assumes "passing env [s]" "\<And>si b. s \<noteq> Section si b" "\<And>m l t b. s \<noteq> Scoped_message m l t b"
  shows "\<exists>rc'. run_step env s rc = Inr (Completed, rc') \<and> goes rc rc' (rc_tracker rc) [Made (site_of s)]"
proof (cases s)
  case (Test st e)
  show ?thesis
  proof (cases e)
    case (Compared op l r)
    show ?thesis
      unfolding Test Compared run_step.simps test_macro_def evaluated.case endExpression_def
      using assms(1) Test Compared by (intro builder_passes) (auto simp: site_simps)
  next
    case (Compared_strings op l r)
    show ?thesis
      unfolding Test Compared_strings run_step.simps test_macro_def evaluated.case endExpression_def
      using assms(1) Test Compared_strings by (intro builder_passes) (auto simp: site_simps)
  next
    case (Compared_bools op l r)
    show ?thesis
      unfolding Test Compared_bools run_step.simps test_macro_def evaluated.case endExpression_def
      using assms(1) Test Compared_bools by (intro builder_passes) (auto simp: site_simps)
  next
    case (Value v)
    show ?thesis
      unfolding Test Value run_step.simps test_macro_def evaluated.case endExpression_def
      using assms(1) Test Value by (intro builder_passes) (auto simp: site_simps)
  qed (use assms(1) Test in simp)
next
  case (No_throw st r)
  then have "r = None" using assms(1) by simp
  then show ?thesis
    unfolding No_throw by (simp add: no_throw_macro_def captureResult_def) (intro builder_passes; simp add: site_simps)
next
  case (Throws_test st a m r)
  show ?thesis
  proof (cases "allowThrows (env_config env)")
    case True
    then obtain t where t: "r = Some t" "matches m t" using assms(1) Throws_test by auto
    then show ?thesis
      using True assertion_passes [of "expected_exception_result m t (site_builder st a)" env "site_builder st a" rc]
      unfolding Throws_test
      by (auto simp: throws_macro_def captureExpectedException_def expected_exception_result_def site_simps react_def)
  next
    case False
    then show ?thesis
      unfolding Throws_test by (simp add: throws_macro_def captureResult_def) (intro builder_passes; simp add: site_simps)
  qed
next
  case (Throws_as st r)
  then show ?thesis
    using assms(1)
    by (auto simp: throws_as_macro_def captureResult_def intro!: builder_passes simp: site_simps)
next
  case (Msg t st x)
  then show ?thesis
    using assms(1) by (auto simp: msg_macro_def captureResult_def intro!: builder_passes simp: site_simps)
next
  case (Check_that st a m)
  then show ?thesis
    using assms(1) by (auto simp: check_that_macro_def intro!: builder_passes simp: site_simps)
qed (use assms in auto)

section \<open>A block in a cycle\<close>

text \<open>
  A block runs in the tracker at \<open>p\<close>, whose children are those of the sections before the block,
  of the block and of the sections behind it; in the first cycle the latter two do not exist yet.
\<close>

definition block_pre ::
  "test_step list \<Rightarrow> nat option \<Rightarrow> tracker_path \<Rightarrow> tracker list \<Rightarrow> tracker list \<Rightarrow> tracker list \<Rightarrow> tracker
   \<Rightarrow> tracker_context \<Rightarrow> bool" where
  "block_pre ss r p pre mid post t ctx \<longleftrightarrow>
     has_tracker ctx p t \<and> currentTracker ctx = Some p \<and> parent_open ctx p
     \<and> t_children t = pre @ mid @ post \<and> list_all isSectionTracker (t_children t)
     \<and> set (keys ss) \<inter> t_name ` set pre = {}
     \<and> (mid = kids ss (case r of None \<Rightarrow> 0 | Some j \<Rightarrow> j) \<or> mid = [] \<and> post = [] \<and> (r = None \<or> r = Some 0))
     \<and> (case r of
          None \<Rightarrow> contextState ctx = Context_completed_cycle
        | Some j \<Rightarrow> contextState ctx = Context_executing \<and> t_state t = Executing)"

lemma block_preD:
  assumes "block_pre ss r p pre mid post t ctx"
  shows "has_tracker ctx p t" "currentTracker ctx = Some p" "parent_open ctx p"
    "t_children t = pre @ mid @ post" "list_all isSectionTracker (t_children t)"
    "set (keys ss) \<inter> t_name ` set pre = {}"
    "mid = kids ss (case r of None \<Rightarrow> 0 | Some j \<Rightarrow> j) \<or> mid = [] \<and> post = [] \<and> (r = None \<or> r = Some 0)"
    "case r of None \<Rightarrow> contextState ctx = Context_completed_cycle
       | Some j \<Rightarrow> contextState ctx = Context_executing \<and> t_state t = Executing"
  using assms unfolding block_pre_def by - (elim conjE, assumption)+

definition after :: "test_step list \<Rightarrow> nat option \<Rightarrow> nat" where
  "after ss r = (case r of None \<Rightarrow> 0 | Some j \<Rightarrow> if j < cycles_of ss then j + 1 else j)"

definition block_tracker ::
  "test_step list \<Rightarrow> nat option \<Rightarrow> tracker list \<Rightarrow> tracker list \<Rightarrow> tracker \<Rightarrow> tracker" where
  "block_tracker ss r pre post t =
     set_state (if r \<noteq> None \<and> left ss r = None then ExecutingChildren else t_state t)
       (set_children (pre @ kids ss (after ss r) @ post) t)"

definition block_ctx ::
  "test_step list \<Rightarrow> nat option \<Rightarrow> tracker_path \<Rightarrow> tracker list \<Rightarrow> tracker list \<Rightarrow> tracker \<Rightarrow> tracker_context
   \<Rightarrow> tracker_context" where
  "block_ctx ss r p pre post t ctx =
     put p (block_tracker ss r pre post t) (if left ss r = None then completeCycle ctx else ctx)"

definition block_ok :: "run_env \<Rightarrow> test_step list \<Rightarrow> bool" where
  "block_ok env ss \<longleftrightarrow>
     (\<forall>r p pre mid post t rc. block_pre ss r p pre mid post t (rc_tracker rc) \<longrightarrow>
       (\<exists>rc'. run_steps env ss rc = Inr (Completed, rc')
          \<and> goes rc rc' (block_ctx ss r p pre post t (rc_tracker rc)) (trace ss r)))"

lemma block_okD:
  "block_ok env ss \<Longrightarrow> block_pre ss r p pre mid post t (rc_tracker rc) \<Longrightarrow>
     \<exists>rc'. run_steps env ss rc = Inr (Completed, rc')
       \<and> goes rc rc' (block_ctx ss r p pre post t (rc_tracker rc)) (trace ss r)"
  by (simp add: block_ok_def)

lemma kids_append: "kids (xs @ ys) j = kids xs j @ kids ys (j - cycles_of xs)"
  by (induction xs j rule: kids.induct) auto

lemma cycles_append: "cycles_of (xs @ ys) = cycles_of xs + cycles_of ys"
  by (induction xs rule: cycles_of.induct) auto

lemma keys_append: "keys (xs @ ys) = keys xs @ keys ys"
  by (induction xs rule: cycles_of.induct) (auto simp: keys_def)

lemma left_None [simp]: "left ss None = None"
  by (simp add: left_def)

lemma left_append: "left (xs @ ys) r = left ys (left xs r)"
  by (auto simp: left_def cycles_append split: option.splits)

lemma trace_append: "trace (xs @ ys) r = trace xs r @ trace ys (left xs r)"
proof (induction xs r rule: trace.induct)
  case (1 r)
  show ?case by (cases r) (auto simp: left_def)
next
  case (2 si b ss r)
  show ?case
  proof (cases r)
    case None
    then show ?thesis using 2 by simp
  next
    case (Some j)
    then show ?thesis using 2 by (cases "j < max 1 (cycles_of b)") (auto simp: left_def)
  qed
next
  case (3 m l t b ss r)
  have "left (Scoped_message m l t b # ss) r = left ss (left b r)"
    by (auto simp: left_def split: option.splits)
  then show ?case using 3 by simp
qed (simp_all add: left_def cong: option.case_cong if_cong)

lemma run_steps_append:
  "run_steps env (xs @ ys) rc =
     bindR (run_steps env xs rc) (\<lambda>(c, rc1). case c of Completed \<Rightarrow> run_steps env ys rc1 | _ \<Rightarrow> Inr (c, rc1))"
proof (induction xs arbitrary: rc)
  case (Cons x xs)
  show ?case
  proof (cases "run_step env x rc")
    case (Inr cr)
    then show ?thesis using Cons by (cases cr; cases "fst cr") auto
  qed simp
qed simp

lemma children_state: "set_children cs (set_state st t) = set_state st (set_children cs t)"
  by (cases t) simp

lemma complete_again: "contextState ctx = Context_completed_cycle \<Longrightarrow> completeCycle ctx = ctx"
  by (simp add: completeCycle_def)

text \<open>A statement without sections leaves the trackers as they are.\<close>

lemma block_ctx_plain:
  assumes "block_pre ss r p pre mid post t ctx" "secs ss = []"
  shows "block_ctx ss r p pre post t ctx = ctx"
proof -
  have k: "kids ss i = []" for i using assms(2) by (simp add: kids_Nil)
  then have "mid = []" using assms(1) by (auto simp: block_pre_def)
  then have t: "t_children t = pre @ post" "has_tracker ctx p t" using assms(1) by (auto simp: block_pre_def)
  have l: "left ss r = r" using assms(2) cycles_of_0 [of ss] by (auto simp: left_def split: option.splits)
  have "set_state (t_state t) (set_children (pre @ post) t) = t" unfolding t(1) [symmetric] by simp
  then have "block_tracker ss r pre post t = t" unfolding block_tracker_def l k by (cases r) simp_all
  moreover have "completeCycle ctx = ctx" if "r = None"
    using assms(1) that complete_again by (simp add: block_pre_def)
  ultimately show ?thesis using t(2) by (simp add: block_ctx_def l put_same)
qed

lemma block_ok_plain:
  assumes "secs ss = []" "\<And>rc r. \<exists>rc'. run_steps env ss rc = Inr (Completed, rc') \<and> goes rc rc' (rc_tracker rc) (trace ss r)"
  shows "block_ok env ss"
  unfolding block_ok_def using assms(2) block_ctx_plain [OF _ assms(1)] by metis

lemma block_ok_Nil: "block_ok env []"
  using goes_refl by (intro block_ok_plain) auto

lemma block_ok_step:
  assumes "passing env [s]" "\<And>si b. s \<noteq> Section si b" "\<And>m l t b. s \<noteq> Scoped_message m l t b"
  shows "block_ok env [s]"
proof (rule block_ok_plain)
  show "secs [s] = []" using assms by (cases s) auto
  show "\<exists>rc'. run_steps env [s] rc = Inr (Completed, rc') \<and> goes rc rc' (rc_tracker rc) (trace [s] r)" for rc r
  proof -
    have "trace [s] r = [Made (site_of s)]" using assms by (cases s) auto
    then show ?thesis using step_passes [OF assms, of rc] by auto
  qed
qed

text \<open>A block whose messages have a scope.\<close>

lemma goes_messages:
  fixes rc rc' :: run_context
  shows "goes (rc\<lparr>rc_messageCount := n, rc_messages := ms\<rparr>) rc' ctx tr \<Longrightarrow> goes rc (rc'\<lparr>rc_messages := ms'\<rparr>) ctx tr"
  by (simp add: goes_def trace_of_def)

lemma block_ok_scoped:
  assumes "block_ok env b"
  shows "block_ok env [Scoped_message m l txt b]"
  unfolding block_ok_def
proof (intro allI impI)
  fix r p pre mid post t and rc :: run_context
  assume pre: "block_pre [Scoped_message m l txt b] r p pre mid post t (rc_tracker rc)"
  have k: "kids [Scoped_message m l txt b] i = kids b i" for i by simp
  have eqs: "keys [Scoped_message m l txt b] = keys b" "left [Scoped_message m l txt b] r = left b r"
    "after [Scoped_message m l txt b] r = after b r" "trace [Scoped_message m l txt b] r = trace b r"
    by (simp_all add: keys_def left_def after_def cong: option.case_cong if_cong)
  obtain msg n where mn: "newMessageInfo m l Info txt (rc_messageCount rc) = (msg, n)" by force
  let ?rc1 = "pushScopedMessage msg (rc\<lparr>rc_messageCount := n\<rparr>)"
  have "rc_tracker ?rc1 = rc_tracker rc" by (simp add: pushScopedMessage_def)
  moreover have "block_pre b r p pre mid post t (rc_tracker rc)"
    using pre unfolding block_pre_def k eqs .
  ultimately obtain rc2 where rc2: "run_steps env b ?rc1 = Inr (Completed, rc2)"
    "goes ?rc1 rc2 (block_ctx b r p pre post t (rc_tracker rc)) (trace b r)"
    using assms unfolding block_ok_def by metis
  have "goes rc (popScopedMessage msg rc2) (block_ctx b r p pre post t (rc_tracker rc)) (trace b r)"
    using rc2(2) goes_messages [where rc = rc and n = n and ms = "rc_messages rc @ [msg]" and rc' = rc2] by (simp add: pushScopedMessage_def popScopedMessage_def)
  moreover have "block_ctx [Scoped_message m l txt b] r p pre post t (rc_tracker rc) = block_ctx b r p pre post t (rc_tracker rc)"
    by (simp only: block_ctx_def block_tracker_def k eqs)
  ultimately show "\<exists>rc'. run_steps env [Scoped_message m l txt b] rc = Inr (Completed, rc')
      \<and> goes rc rc' (block_ctx [Scoped_message m l txt b] r p pre post t (rc_tracker rc)) (trace [Scoped_message m l txt b] r)"
    using mn rc2(1) unfolding eqs by auto
qed

lemma completeCycle_put: "completeCycle (put p t ctx) = put p t (completeCycle ctx)"
  by simp

lemma block_ctx_append:
  assumes "block_pre (xs @ ys) r p pre mid post t ctx" "distinct (keys (xs @ ys))"
  shows "\<exists>mid1 post1 mid2.
      block_pre xs r p pre mid1 post1 t ctx
    \<and> block_pre ys (left xs r) p (pre @ kids xs (after xs r)) mid2 post (block_tracker xs r pre post1 t)
        (block_ctx xs r p pre post1 t ctx)
    \<and> block_ctx ys (left xs r) p (pre @ kids xs (after xs r)) post (block_tracker xs r pre post1 t)
        (block_ctx xs r p pre post1 t ctx) = block_ctx (xs @ ys) r p pre post t ctx"
proof -
  define j where "j = (case r of None \<Rightarrow> 0 | Some j \<Rightarrow> j)"
  obtain mid1 mid2 where m: "t_children t = pre @ mid1 @ mid2 @ post"
    "mid1 = kids xs j \<and> mid2 = kids ys (j - cycles_of xs)
     \<or> mid1 = [] \<and> mid2 = [] \<and> post = [] \<and> (r = None \<or> r = Some 0)"
    using assms(1) by (auto simp: block_pre_def j_def kids_append)
  let ?t1 = "block_tracker xs r pre (mid2 @ post) t" and ?ctx1 = "block_ctx xs r p pre (mid2 @ post) t ctx"
  have pre1: "block_pre xs r p pre mid1 (mid2 @ post) t ctx"
    using assms(1) m by (auto simp: block_pre_def j_def keys_append)
  have t: "has_tracker ctx p t" and po: "parent_open ctx p" using assms(1) by (simp_all add: block_pre_def)
  have h: "has_tracker ?ctx1 p ?t1"
    using has_tracker_put [OF t] has_tracker_put [of "completeCycle ctx" p t] t by (simp add: block_ctx_def)
  have o: "parent_open ?ctx1 p"
    using parent_open_put [OF po t] parent_open_put [of "completeCycle ctx" p t] po t by (simp add: block_ctx_def)
  have "mid2 = kids ys (case left xs r of None \<Rightarrow> 0 | Some j \<Rightarrow> j)
      \<or> mid2 = [] \<and> post = [] \<and> (left xs r = None \<or> left xs r = Some 0)"
    using m(2) by (auto simp: left_def j_def split: option.splits)
  moreover have "set (keys ys) \<inter> t_name ` set (pre @ kids xs (after xs r)) = {}"
    using assms by (auto simp: block_pre_def keys_append simp flip: names_kids [of xs "after xs r"])
  moreover have "list_all isSectionTracker (t_children ?t1)"
    using assms(1) m(1) section_kids by (auto simp: block_pre_def block_tracker_def)
  moreover have "case left xs r of None \<Rightarrow> contextState ?ctx1 = Context_completed_cycle
      | Some j \<Rightarrow> contextState ?ctx1 = Context_executing \<and> t_state ?t1 = Executing"
    using assms(1) by (auto simp: block_pre_def block_ctx_def block_tracker_def left_def split: option.splits)
  moreover have "currentTracker ?ctx1 = Some p" using assms(1) by (simp add: block_pre_def block_ctx_def)
  ultimately have pre2: "block_pre ys (left xs r) p (pre @ kids xs (after xs r)) mid2 post ?t1 ?ctx1"
    using h o unfolding block_pre_def by (simp add: block_tracker_def)
  have "kids xs (after xs r) @ kids ys (after ys (left xs r)) = kids (xs @ ys) (after (xs @ ys) r)"
    using kids_full [of xs j] kids_full [of xs "Suc j"]
    by (auto simp: after_def left_def kids_append cycles_append j_def Suc_diff_le split: option.splits)
  then have "pre @ kids xs (after xs r) @ kids ys (after ys (left xs r)) @ post
      = pre @ kids (xs @ ys) (after (xs @ ys) r) @ post"
    by (metis append.assoc)
  then have e: "set_children ((pre @ kids xs (after xs r)) @ kids ys (after ys (left xs r)) @ post) u
      = set_children (pre @ kids (xs @ ys) (after (xs @ ys) r) @ post) u" for u
    by (simp only: append_assoc)
  have st: "(if left xs r \<noteq> None \<and> left ys (left xs r) = None then ExecutingChildren else t_state ?t1)
      = (if r \<noteq> None \<and> left ys (left xs r) = None then ExecutingChildren else t_state t)"
    by (auto simp: block_tracker_def)
  have "block_tracker ys (left xs r) (pre @ kids xs (after xs r)) post ?t1 = block_tracker (xs @ ys) r pre post t"
    unfolding block_tracker_def [of ys] st e unfolding block_tracker_def by (simp add: left_append children_state)
  then have "block_ctx ys (left xs r) p (pre @ kids xs (after xs r)) post ?t1 ?ctx1 = block_ctx (xs @ ys) r p pre post t ctx"
    by (auto simp: block_ctx_def left_append)
  then show ?thesis using pre1 pre2 by blast
qed

lemma block_ok_append:
  assumes "block_ok env xs" "block_ok env ys" "distinct (keys (xs @ ys))"
  shows "block_ok env (xs @ ys)"
  unfolding block_ok_def
proof (intro allI impI)
  fix r p pre mid post t and rc :: run_context
  assume "block_pre (xs @ ys) r p pre mid post t (rc_tracker rc)"
  from block_ctx_append [OF this assms(3)] obtain mid1 post1 mid2 where
    pre1: "block_pre xs r p pre mid1 post1 t (rc_tracker rc)" and
    pre2: "block_pre ys (left xs r) p (pre @ kids xs (after xs r)) mid2 post (block_tracker xs r pre post1 t)
        (block_ctx xs r p pre post1 t (rc_tracker rc))" and
    eq: "block_ctx ys (left xs r) p (pre @ kids xs (after xs r)) post (block_tracker xs r pre post1 t)
        (block_ctx xs r p pre post1 t (rc_tracker rc)) = block_ctx (xs @ ys) r p pre post t (rc_tracker rc)"
    by blast
  obtain rc1 where rc1: "run_steps env xs rc = Inr (Completed, rc1)"
    "goes rc rc1 (block_ctx xs r p pre post1 t (rc_tracker rc)) (trace xs r)"
    using assms(1) pre1 unfolding block_ok_def by blast
  then have "rc_tracker rc1 = block_ctx xs r p pre post1 t (rc_tracker rc)" by (simp add: goes_def)
  then obtain rc2 where "run_steps env ys rc1 = Inr (Completed, rc2)"
    "goes rc1 rc2 (block_ctx (xs @ ys) r p pre post t (rc_tracker rc)) (trace ys (left xs r))"
    using assms(2) pre2 eq unfolding block_ok_def by metis
  then show "\<exists>rc'. run_steps env (xs @ ys) rc = Inr (Completed, rc')
      \<and> goes rc rc' (block_ctx (xs @ ys) r p pre post t (rc_tracker rc)) (trace (xs @ ys) r)"
    using rc1 goes_trans by (fastforce simp: run_steps_append trace_append)
qed

text \<open>The child of a section that comes next.\<close>

definition kid :: "string \<Rightarrow> test_step list \<Rightarrow> nat \<Rightarrow> tracker" where
  "kid key b j = Tracker key Section_tracker
     (if j = 0 then NotStarted else if j < max 1 (cycles_of b) then ExecutingChildren else CompletedSuccessfully)
     (if j = 0 then [] else kids b (min j (max 1 (cycles_of b))))"

lemma kids_section: "kids [Section si b] j = [kid (section_key si) b j]"
  by (simp add: kid_def)

lemma find_index_first:
  "\<forall>x \<in> set pre. \<not> P x \<Longrightarrow> P y \<Longrightarrow> find_index P (pre @ y # post) = Some (length pre)"
  by (induction pre) auto

lemma with_child_section:
  assumes "block_pre [Section si b] r p pre mid post t ctx"
  shows "with_child (section_key si) (t_children t)
    = (length pre, pre @ [kid (section_key si) b (case r of None \<Rightarrow> 0 | Some j \<Rightarrow> j)] @ post)"
proof -
  have pre: "\<forall>c \<in> set pre. t_name c \<noteq> section_key si" using block_preD(6) [OF assms] by (force simp: keys_def)
  have ch: "t_children t = pre @ mid @ post" using block_preD(4) [OF assms] .
  consider "mid = [kid (section_key si) b (case r of None \<Rightarrow> 0 | Some j \<Rightarrow> j)]" | "mid = []" "post = []" "r = None \<or> r = Some 0"
    using block_preD(7) [OF assms] unfolding kids_section by blast
  then show ?thesis
  proof cases
    case 1
    then show ?thesis using find_index_first [OF pre] ch by (simp add: with_child_def kid_def)
  next
    case 2
    then have "find_index (\<lambda>c. t_name c = section_key si) (t_children t) = None"
      using pre ch by (simp add: find_index_None)
    then show ?thesis using 2 ch by (auto simp: with_child_def kid_def newTracker_def)
  qed
qed

lemma isComplete_kid: "isComplete (kid key b j) \<longleftrightarrow> max 1 (cycles_of b) \<le> j"
  by (auto simp: isComplete_def kid_def)

text \<open>A section that is not entered.\<close>

lemma section_skipped:
  assumes "block_pre [Section si b] r p pre mid post t (rc_tracker rc)"
    and "\<And>j. r = Some j \<Longrightarrow> max 1 (cycles_of b) \<le> j"
  shows "\<exists>rc'. run_steps env [Section si b] rc = Inr (Completed, rc')
    \<and> goes rc rc' (block_ctx [Section si b] r p pre post t (rc_tracker rc)) (trace [Section si b] r)"
proof -
  let ?ctx = "rc_tracker rc" and ?j = "case r of None \<Rightarrow> 0 | Some j \<Rightarrow> j"
  let ?cs = "pre @ [kid (section_key si) b ?j] @ post"
  have wc: "with_child (section_key si) (t_children t) = (length pre, ?cs)" by (rule with_child_section [OF assms(1)])
  note t = block_preD [OF assms(1)]
  let ?ctx1 = "put p (set_children ?cs t) ?ctx"
  have no: "completedCycle ?ctx \<or> isComplete (kid (section_key si) b ?j)"
  proof (cases r)
    case None
    then show ?thesis using assms(1) by (simp add: block_pre_def completedCycle_def)
  next
    case (Some j)
    then show ?thesis using assms(2) by (simp add: isComplete_kid)
  qed
  then have acq: "acquire_section (section_key si) ?ctx = Inr (length pre # p, ?ctx1)"
    using acquire_spec [OF t(1,2,3) wc t(5)] by auto
  have "has_tracker ?ctx1 (length pre # p) (kid (section_key si) b ?j)"
    using has_child [OF has_tracker_put [OF t(1), of "set_children ?cs t"], of "length pre"] by simp
  moreover have "\<not> isOpen (kid (section_key si) b ?j)"
    using assms(2) by (cases r) (auto simp: isOpen_def isComplete_kid, simp add: kid_def)
  ultimately have ss: "sectionStarted si rc = Inr (None, rc\<lparr>rc_tracker := ?ctx1\<rparr>)"
    using acq by (simp add: sectionStarted_def has_tracker_deref)
  have "trace [Section si b] r = []" using assms(2) by (cases r) auto
  moreover have "block_ctx [Section si b] r p pre post t ?ctx = ?ctx1"
  proof (cases r)
    case None
    then have "completeCycle ?ctx = ?ctx" using assms(1) complete_again by (simp add: block_pre_def)
    then show ?thesis
      using None by (simp add: block_ctx_def block_tracker_def after_def kids_section children_state [symmetric] del: kids.simps)
  next
    case (Some j)
    then have "left [Section si b] r = Some (j - max 1 (cycles_of b))" "after [Section si b] r = j"
      using assms(2) by (auto simp: left_def after_def)
    then show ?thesis
      using Some by (simp add: block_ctx_def block_tracker_def kids_section children_state [symmetric] del: kids.simps)
  qed
  moreover have "goes rc (rc\<lparr>rc_tracker := ?ctx1\<rparr>) ?ctx1 []" by (simp add: goes_def trace_of_def)
  ultimately show ?thesis using ss by auto
qed

text \<open>A section that is entered: opened, run, and closed again.\<close>

definition entered :: "string \<Rightarrow> test_step list \<Rightarrow> nat \<Rightarrow> tracker" where
  "entered key b j = set_state Executing (kid key b j)"

lemma t_state_entered [simp]: "t_state (entered key b j) = Executing"
  by (simp add: entered_def)

lemma block_pre_entered:
  assumes "has_tracker ctx p t" "t_children t ! k = entered key b j" "k < length (t_children t)"
    and "t_state t = ExecutingChildren" "currentTracker ctx = Some (k # p)" "contextState ctx = Context_executing"
    and "j < max 1 (cycles_of b)"
  shows "block_pre b (Some j) (k # p) [] (t_children (entered key b j)) [] (entered key b j) ctx"
proof -
  have "has_tracker ctx (k # p) (entered key b j)" using has_child [OF assms(1,3)] assms(2) by simp
  moreover have "parent_open ctx (k # p)" using assms(1,4) by (auto simp: parent_open_def)
  ultimately show ?thesis
    using assms(5,6,7) section_kids [of b j] by (auto simp: block_pre_def entered_def kid_def min_def)
qed

lemma closed_section:
  assumes "j < max 1 (cycles_of b)"
  shows "closed_state (block_tracker b (Some j) [] [] (entered key b j)) = Inr (t_state (kid key b (j + 1)))"
    and "set_state (t_state (kid key b (j + 1))) (block_tracker b (Some j) [] [] (entered key b j)) = kid key b (j + 1)"
proof -
  let ?t = "block_tracker b (Some j) [] [] (entered key b j)"
  have k: "kids b (after b (Some j)) = kids b (min (j + 1) (max 1 (cycles_of b)))"
  proof (cases "cycles_of b = 0")
    case True
    then have "kids b i = []" for i by (simp add: cycles_of_0 kids_Nil)
    then show ?thesis by simp
  next
    case False
    then show ?thesis using assms by (simp add: after_def min_def)
  qed
  show "set_state (t_state (kid key b (j + 1))) ?t = kid key b (j + 1)"
    by (simp add: block_tracker_def k entered_def) (simp add: kid_def)
  show "closed_state ?t = Inr (t_state (kid key b (j + 1)))"
  proof (cases "cycles_of b = 0")
    case True
    then show ?thesis using assms by (simp add: closed_state_def block_tracker_def left_def kid_def)
  next
    case False
    then have s: "secs b \<noteq> []" by (simp add: cycles_of_0)
    then have "kids b (j + 1) \<noteq> []" by (simp add: kids_Nil)
    moreover have "left b (Some j) = None" "after b (Some j) = j + 1"
      using assms False by (auto simp: left_def after_def max_def split: if_splits)
    ultimately show ?thesis
      using last_kid [OF s, of "j + 1"] assms False
      by (auto simp: closed_state_def block_tracker_def kid_def max_def split: if_splits)
  qed
qed

lemma sectionEnded_quiet:
  assumes "\<not> warnNoAssertions (cfg_data (env_config env))" "rc_activeSections rc = ps @ [p]"
    and "close_tracker p (rc_tracker rc) = Inr ctx"
  shows "\<exists>rc'. sectionEnded env e rc = Inr rc' \<and> rc_tracker rc' = ctx \<and> rc_activeSections rc' = ps
    \<and> trace_of rc' = trace_of rc @ [Leave (sei_sectionInfo e)] \<and> rc_totals rc' = rc_totals rc
    \<and> rc_unfinished rc' = rc_unfinished rc \<and> rc_testCaseTracker rc' = rc_testCaseTracker rc
    \<and> rc_activeTest rc' = rc_activeTest rc \<and> rc_generators rc' = rc_generators rc"
  using assms
  by (auto simp: sectionEnded_def testForMissingAssertions_def close_active_def report_def trace_of_def)

lemma section_entered:
  assumes "block_pre [Section si b] (Some j) p pre mid post t (rc_tracker rc)" "j < max 1 (cycles_of b)"
    and "block_ok env b" "\<not> warnNoAssertions (cfg_data (env_config env))"
  shows "\<exists>rc'. run_steps env [Section si b] rc = Inr (Completed, rc')
    \<and> goes rc rc' (block_ctx [Section si b] (Some j) p pre post t (rc_tracker rc)) (trace [Section si b] (Some j))"
proof -
  let ?ctx = "rc_tracker rc" and ?c = "entered (section_key si) b j" and ?k = "length pre"
  note t = block_preD [OF assms(1)]
  have wc: "with_child (section_key si) (t_children t) = (?k, pre @ [kid (section_key si) b j] @ post)"
    using with_child_section [OF assms(1)] by simp
  let ?T = "set_state ExecutingChildren (set_children (pre @ [?c] @ post) t)"
  let ?ctx1 = "as_current (?k # p) (put p ?T ?ctx)"
  have exec: "contextState ?ctx = Context_executing" using t(8) by simp
  have "\<not> isComplete (kid (section_key si) b j)" using assms(2) by (auto simp: isComplete_kid)
  then have acq: "acquire_section (section_key si) ?ctx = Inr (?k # p, ?ctx1)"
    using acquire_spec [OF t(1,2,3) wc t(5)] exec assms(2)
    by (simp add: completedCycle_def entered_def)
  have T: "has_tracker ?ctx1 p ?T" using has_tracker_put [of "as_current (?k # p) ?ctx" p t] t(1) by simp
  let ?rc1 = "report (SectionStarting si) (rc\<lparr>rc_tracker := ?ctx1, rc_activeSections := rc_activeSections rc @ [?k # p],
      rc_lastAssertionInfo := (rc_lastAssertionInfo rc)\<lparr>ai_lineInfo := si_lineInfo si\<rparr>\<rparr>)"
  have "has_tracker ?ctx1 (?k # p) ?c" using has_child [OF T, of ?k] by simp
  then have started: "sectionStarted si rc = Inr (Some (run_counts rc), ?rc1)"
    using acq by (simp add: sectionStarted_def has_tracker_deref isOpen_def isComplete_def)
  have r1: "rc_tracker ?rc1 = ?ctx1" by (simp add: report_def)
  have "block_pre b (Some j) (?k # p) [] (t_children ?c) [] ?c ?ctx1"
    using exec assms(2) by (intro block_pre_entered [OF T]) simp_all
  then obtain rc2 where rc2: "run_steps env b ?rc1 = Inr (Completed, rc2)"
    "goes ?rc1 rc2 (block_ctx b (Some j) (?k # p) [] [] ?c ?ctx1) (trace b (Some j))"
    using block_okD [OF assms(3), of _ _ _ _ _ _ ?rc1] unfolding r1 by blast
  let ?t2 = "block_tracker b (Some j) [] [] ?c" and ?u = "kid (section_key si) b (j + 1)"
  let ?ctx2 = "block_ctx b (Some j) (?k # p) [] [] ?c ?ctx1"
  have c0: "has_tracker ?ctx1 (?k # p) ?c" using has_child [OF T, of ?k] by simp
  then have c1: "has_tracker (if left b (Some j) = None then completeCycle ?ctx1 else ?ctx1) (?k # p) ?c"
    by (simp only: has_tracker_frame simp_thms split: if_split)
  have h2: "has_tracker ?ctx2 (?k # p) ?t2" unfolding block_ctx_def by (rule has_tracker_put [OF c1])
  have "isSectionTracker ?t2" by (simp add: block_tracker_def entered_def kid_def)
  then have close: "close_tracker (?k # p) ?ctx2 = Inr (completeCycle (as_current p (put (?k # p) ?u ?ctx2)))"
    using close_current [OF h2 _ closed_section(1) [OF assms(2)]] closed_section(2) [OF assms(2)]
    by (simp add: block_ctx_def)
  have ctx3: "completeCycle (as_current p (put (?k # p) ?u ?ctx2))
      = block_ctx [Section si b] (Some j) p pre post t ?ctx"
  proof -
    have "completeCycle (as_current p (put (?k # p) ?u ?ctx2)) = put (?k # p) ?u (completeCycle (as_current p ?ctx1))"
      by (simp add: block_ctx_def)
    also have "completeCycle (as_current p ?ctx1) = completeCycle (put p ?T ?ctx)"
      using as_current_same [OF t(2)] by simp
    also have "put (?k # p) ?u (completeCycle (put p ?T ?ctx))
        = put p (set_children ((t_children ?T)[?k := ?u]) ?T) (completeCycle (put p ?T ?ctx))"
      by (rule put_child) (simp only: has_tracker_frame has_tracker_put [OF t(1)])
    also have "\<dots> = block_ctx [Section si b] (Some j) p pre post t ?ctx"
      using assms(2)
      by (simp add: block_ctx_def block_tracker_def left_def after_def kids_section children_state del: kids.simps)
    finally show ?thesis .
  qed
  have rc2': "rc_tracker rc2 = ?ctx2" "rc_activeSections rc2 = rc_activeSections rc @ [?k # p]"
    using rc2(2) by (simp_all add: goes_def report_def)
  obtain rc3 where rc3: "sectionEnded env \<lparr>sei_sectionInfo = si, sei_prevAssertions = run_counts rc\<rparr> rc2 = Inr rc3"
    "rc_tracker rc3 = block_ctx [Section si b] (Some j) p pre post t ?ctx" "rc_activeSections rc3 = rc_activeSections rc"
    "trace_of rc3 = trace_of rc2 @ [Leave si]" "rc_totals rc3 = rc_totals rc2" "rc_unfinished rc3 = rc_unfinished rc2"
    "rc_testCaseTracker rc3 = rc_testCaseTracker rc2" "rc_activeTest rc3 = rc_activeTest rc2" "rc_generators rc3 = rc_generators rc2"
    using sectionEnded_quiet [OF assms(4) rc2'(2), of _ "\<lparr>sei_sectionInfo = si, sei_prevAssertions = run_counts rc\<rparr>"]
      close ctx3 rc2'(1) by fastforce
  have "goes rc rc3 (block_ctx [Section si b] (Some j) p pre post t ?ctx) (trace [Section si b] (Some j))"
    using rc2(2) rc3 assms(2) by (simp add: goes_def report_def trace_of_def)
  moreover have "run_steps env [Section si b] rc = Inr (Completed, rc3)"
    using started rc2(1) rc3(1) by (simp add: leave_section_def)
  ultimately show ?thesis by blast
qed

lemma block_ok_section:
  assumes "block_ok env b" "\<not> warnNoAssertions (cfg_data (env_config env))"
  shows "block_ok env [Section si b]"
  unfolding block_ok_def
proof (intro allI impI)
  fix r p pre mid post t and rc :: run_context
  assume pre: "block_pre [Section si b] r p pre mid post t (rc_tracker rc)"
  show "\<exists>rc'. run_steps env [Section si b] rc = Inr (Completed, rc')
      \<and> goes rc rc' (block_ctx [Section si b] r p pre post t (rc_tracker rc)) (trace [Section si b] r)"
  proof (cases "\<exists>j. r = Some j \<and> j < max 1 (cycles_of b)")
    case True
    then show ?thesis using section_entered [OF _ _ assms] pre by blast
  next
    case False
    then show ?thesis by (intro section_skipped [OF pre]) auto
  qed
qed

lemma block_ok_passing:
  assumes "\<not> warnNoAssertions (cfg_data (env_config env))"
  shows "passing env ss \<Longrightarrow> well_named_inside ss \<Longrightarrow> distinct (keys ss) \<Longrightarrow> block_ok env ss"
proof (induction ss rule: cycles_of.induct)
  case 1
  show ?case by (rule block_ok_Nil)
next
  case (2 si b ss)
  have ss: "block_ok env ss" and "block_ok env b"
    using 2 by (auto simp: keys_def)
  from this(2) have "block_ok env [Section si b]" by (rule block_ok_section [OF _ assms])
  note this ss
  then show ?case using block_ok_append [of env "[Section si b]" ss] "2.prems"(3) by simp
next
  case (3 m l t b ss)
  have k: "keys (Scoped_message m l t b # ss) = keys b @ keys ss" by (simp add: keys_def)
  then have "block_ok env [Scoped_message m l t b]" "block_ok env ss"
    using 3 by (auto intro: block_ok_scoped)
  then show ?case using block_ok_append [of env "[Scoped_message m l t b]" ss] "3.prems"(3) by simp
qed (auto intro!: block_ok_append [of env "[_]", simplified] block_ok_step simp: keys_def split: evaluated.splits)

section \<open>The cycles of a test\<close>

definition rounds :: "test_step list \<Rightarrow> nat" where
  "rounds b = max 1 (cycles_of b)"

definition root_after :: "string \<Rightarrow> test_step list \<Rightarrow> nat \<Rightarrow> tracker" where
  "root_after key b j = Tracker ''{root}'' Section_tracker (if j = 0 then NotStarted else ExecutingChildren)
     (if j = 0 then [] else [kid key b j])"

lemma test_acquired:
  assumes "rootTracker ctx = Some (root_after key b j)" "j < rounds b"
  defines "ctx' \<equiv> as_current [0] (put [] (set_state ExecutingChildren (set_children [entered key b j] (root_after key b j)))
    (startCycle ctx))"
  shows "acquire_section key (startCycle ctx) = Inr ([0], ctx')"
    and "block_pre b (Some j) [0] [] (t_children (entered key b j)) [] (entered key b j) ctx'"
proof -
  let ?s = "startCycle ctx" and ?t = "root_after key b j"
  have root: "has_tracker ?s [] ?t" "currentTracker ?s = Some []" "contextState ?s = Context_executing"
    using assms(1) by (simp_all add: has_tracker_def startCycle_def)
  have wc: "with_child key (t_children ?t) = (0, [kid key b j])"
    by (simp add: with_child_def root_after_def kid_def newTracker_def)
  have "list_all isSectionTracker (t_children ?t)" by (simp add: root_after_def kid_def)
  moreover have "\<not> isComplete (kid key b j)" using assms(2) by (auto simp: isComplete_kid rounds_def)
  ultimately show "acquire_section key ?s = Inr ([0], ctx')"
    using acquire_spec [OF root(1,2) _ wc] root(3) unfolding ctx'_def
    by (simp add: parent_open_def completedCycle_def entered_def)
  have "has_tracker ctx' [] (set_state ExecutingChildren (set_children [entered key b j] ?t))"
    using has_tracker_put [of "as_current [0] ?s" "[]" ?t] root(1) by (simp add: ctx'_def)
  then show "block_pre b (Some j) [0] [] (t_children (entered key b j)) [] (entered key b j) ctx'"
    by (rule block_pre_entered) (use root(3) assms(2) in \<open>simp_all add: ctx'_def rounds_def\<close>)
qed

lemma test_closed:
  assumes "has_tracker ctx [0] (block_tracker b (Some j) [] [] (entered key b j))" "currentTracker ctx = Some [0]"
    and "rootTracker ctx = Some r" "t_children r = [c]" "set_children [] r = Tracker ''{root}'' Section_tracker ExecutingChildren []"
    and "j < rounds b"
  shows "\<exists>ctx'. close_tracker [0] ctx = Inr ctx' \<and> rootTracker ctx' = Some (root_after key b (j + 1))"
proof -
  have "isSectionTracker (block_tracker b (Some j) [] [] (entered key b j))"
    by (simp add: block_tracker_def entered_def kid_def)
  then have "close_tracker [0] ctx = Inr (completeCycle (as_current [] (put [0] (kid key b (j + 1)) ctx)))"
    using close_current [OF assms(1,2) closed_section(1)] closed_section(2) assms(6) by (simp add: rounds_def)
  moreover have "modify_at [0] (\<lambda>u. kid key b (j + 1)) r = root_after key b (j + 1)"
    using assms(4,5) by (cases r) (simp add: root_after_def)
  ultimately show ?thesis using assms(3) by (simp add: change_def)
qed

text \<open>The context at the end of a body in a cycle.\<close>

lemma test_context:
  assumes "rootTracker ctx = Some (root_after key b j)" "j < rounds b"
  defines "ctx' \<equiv> as_current [0] (put [] (set_state ExecutingChildren (set_children [entered key b j] (root_after key b j)))
    (startCycle ctx))"
  shows "\<exists>ctx2. close_tracker [0] (block_ctx b (Some j) [0] [] [] (entered key b j) ctx') = Inr ctx2
    \<and> rootTracker ctx2 = Some (root_after key b (j + 1))"
proof (rule test_closed [OF _ _ _ _ _ assms(2)])
  let ?r = "set_state ExecutingChildren (set_children [entered key b j] (root_after key b j))"
  have r: "rootTracker ctx' = Some ?r" by (simp add: ctx'_def change_def startCycle_def assms(1))
  then have "has_tracker ctx' [0] (entered key b j)" by (simp add: has_tracker_def)
  then have "has_tracker (if left b (Some j) = None then completeCycle ctx' else ctx') [0] (entered key b j)"
    by (simp only: has_tracker_frame simp_thms split: if_split)
  then show "has_tracker (block_ctx b (Some j) [0] [] [] (entered key b j) ctx') [0]
      (block_tracker b (Some j) [] [] (entered key b j))"
    unfolding block_ctx_def by (rule has_tracker_put)
  show "currentTracker (block_ctx b (Some j) [0] [] [] (entered key b j) ctx') = Some [0]"
    by (simp add: block_ctx_def ctx'_def)
  let ?c = "block_tracker b (Some j) [] [] (entered key b j)"
  show "rootTracker (block_ctx b (Some j) [0] [] [] (entered key b j) ctx') = Some (set_children [?c] ?r)"
    by (simp add: block_ctx_def change_def r)
  show "t_children (set_children [?c] ?r) = [?c]" by simp
  show "set_children [] (set_children [?c] ?r) = Tracker ''{root}'' Section_tracker ExecutingChildren []"
    by (simp add: root_after_def)
qed

definition cycle_trace :: "run_test_case \<Rightarrow> nat \<Rightarrow> trace_item list" where
  "cycle_trace tc j = [Enter (test_section tc)] @ trace (test_body tc) (Some j) @ [Leave (test_section tc)]"

lemma excuse_nothing: "failed c = 0 \<Longrightarrow> failedButOk c = 0 \<Longrightarrow> excuse_failures tc c rc = (c, rc)"
  by (simp add: excuse_failures_def on_counts_def Let_def)

lemma no_missing:
  "\<not> warnNoAssertions (cfg_data (env_config env)) \<Longrightarrow> testForMissingAssertions env c rc = Inr (False, c, rc)"
  by (simp add: testForMissingAssertions_def)

lemma current_test_runs:
  fixes rc :: run_context
  assumes "block_ok env (test_body tc)" "\<not> warnNoAssertions (cfg_data (env_config env))" "rc_unfinished rc = []"
    and "block_pre (test_body tc) (Some j) [0] [] mid [] c (rc_tracker rc)" "rc_testCaseTracker rc = Some [0]"
    and "close_tracker [0] (block_ctx (test_body tc) (Some j) [0] [] [] c (rc_tracker rc)) = Inr ctx"
  shows "\<exists>rc'. runCurrentTest env tc rc = Inr rc' \<and> goes rc rc' ctx (cycle_trace tc j)"
proof -
  let ?rc0 = "(report (SectionStarting (test_section tc)) rc)\<lparr>rc_lastAssertionInfo :=
          \<lparr>macroName = ''TEST_CASE'', ai_lineInfo = lineInfo tc, capturedExpression = [],
           resultDisposition = NormalDisposition\<rparr>\<rparr>"
  have r0: "rc_tracker ?rc0 = rc_tracker rc" by (simp add: report_def)
  obtain rc1 where rc1: "run_steps env (test_body tc) ?rc0 = Inr (Completed, rc1)"
    "goes ?rc0 rc1 (block_ctx (test_body tc) (Some j) [0] [] [] c (rc_tracker rc)) (trace (test_body tc) (Some j))"
    using block_okD [OF assms(1), of _ _ _ _ _ _ ?rc0] assms(4) unfolding r0 by blast
  let ?rc2 = "rc1\<lparr>rc_tracker := ctx\<rparr>" and ?c = "counts_minus (run_counts rc1) (run_counts rc)"
  have close: "close_test_case rc1 = Inr ?rc2"
    using rc1(2) assms(5,6) by (simp add: close_test_case_def goes_def report_def)
  have unf: "handleUnfinishedSections env ?rc2 = Inr (?rc2\<lparr>rc_unfinished := []\<rparr>)"
    using rc1(2) assms(3) by (simp add: handleUnfinishedSections_def goes_def report_def)
  have excuse: "excuse_failures tc ?c rc' = (?c, rc')" for rc'
    using rc1(2) by (intro excuse_nothing) (simp_all add: goes_def report_def counts_minus_def)
  have "runCurrentTest env tc rc = Inr (report (SectionEnded (test_section tc) ?c False)
      (?rc2\<lparr>rc_unfinished := [], rc_messages := []\<rparr>))"
    using rc1(1) close unf excuse assms(2)
    by (simp add: runCurrentTest_def invokeActiveTestCase_def no_missing Let_def)
  moreover have "goes rc (report (SectionEnded (test_section tc) ?c False)
      (?rc2\<lparr>rc_unfinished := [], rc_messages := []\<rparr>)) ctx (cycle_trace tc j)"
    using rc1(2) assms(3) by (simp add: goes_def report_def trace_of_def cycle_trace_def)
  ultimately show ?thesis by blast
qed

definition cycles_go :: "run_context \<Rightarrow> run_context \<Rightarrow> trace_item list \<Rightarrow> bool" where
  "cycles_go rc rc' tr \<longleftrightarrow> goes (rc\<lparr>rc_testCaseTracker := Some [0]\<rparr>) rc' (rc_tracker rc') tr"

lemma cycle_runs:
  fixes rc :: run_context
  assumes "block_ok env (test_body tc)" "\<not> warnNoAssertions (cfg_data (env_config env))" "rc_unfinished rc = []"
    and "rootTracker (rc_tracker rc) = Some (root_after (tc_name tc) (test_body tc) j)" "j < rounds (test_body tc)"
    and "\<not> aborting env rc"
  shows "\<exists>rc'. run_cycle env tc rc = Inr (j + 1 < rounds (test_body tc), rc') \<and> cycles_go rc rc' (cycle_trace tc j)
    \<and> rootTracker (rc_tracker rc') = Some (root_after (tc_name tc) (test_body tc) (j + 1))"
proof -
  let ?b = "test_body tc" and ?e = "entered (tc_name tc) (test_body tc) j"
  let ?ctx = "as_current [0] (put [] (set_state ExecutingChildren (set_children [?e] (root_after (tc_name tc) ?b j)))
    (startCycle (rc_tracker rc)))"
  let ?rc1 = "rc\<lparr>rc_tracker := ?ctx, rc_testCaseTracker := Some [0]\<rparr>"
  note acq = test_acquired [OF assms(4,5)]
  obtain ctx2 where ctx2: "close_tracker [0] (block_ctx ?b (Some j) [0] [] [] ?e ?ctx) = Inr ctx2"
    "rootTracker ctx2 = Some (root_after (tc_name tc) ?b (j + 1))"
    using test_context [OF assms(4,5)] by blast
  obtain rc2 where rc2: "runCurrentTest env tc ?rc1 = Inr rc2" "goes ?rc1 rc2 ctx2 (cycle_trace tc j)"
    using current_test_runs [OF assms(1,2), of ?rc1 j _ ?e ctx2] assms(3) acq(2) ctx2(1) by auto
  have tr: "rc_tracker rc2 = ctx2" using rc2(2) by (simp add: goes_def)
  then have "has_tracker (rc_tracker rc2) [0] (kid (tc_name tc) ?b (j + 1))"
    using ctx2(2) by (simp add: has_tracker_def root_after_def)
  moreover have "\<not> aborting env rc2" using goes_aborting [OF rc2(2)] assms(6) by (simp add: aborting_def)
  moreover have "isSuccessfullyCompleted (kid (tc_name tc) ?b (j + 1)) \<longleftrightarrow> rounds ?b \<le> j + 1"
    by (auto simp: isSuccessfullyCompleted_def kid_def rounds_def)
  ultimately have "run_cycle env tc rc = Inr (j + 1 < rounds ?b, rc2)"
    using acq(1) rc2(1) by (auto simp: run_cycle_def has_tracker_deref)
  moreover have "cycles_go rc rc2 (cycle_trace tc j)"
    using rc2(2) tr by (simp add: cycles_go_def goes_def trace_of_def)
  ultimately show ?thesis using tr ctx2(2) by auto
qed

definition cycle_traces :: "run_test_case \<Rightarrow> nat \<Rightarrow> nat \<Rightarrow> trace_item list" where
  "cycle_traces tc i n = concat (map (cycle_trace tc) [i..<n])"

lemma cycles_go_trans: "cycles_go rc rc1 tr1 \<Longrightarrow> cycles_go rc1 rc2 tr2 \<Longrightarrow> cycles_go rc rc2 (tr1 @ tr2)"
  by (simp add: cycles_go_def goes_def trace_of_def)

lemma cycles_run:
  fixes rc :: run_context
  assumes "block_ok env (test_body tc)" "\<not> warnNoAssertions (cfg_data (env_config env))"
    and "rc_unfinished rc = []" "rootTracker (rc_tracker rc) = Some (root_after (tc_name tc) (test_body tc) j)"
    and "j < rounds (test_body tc)" "\<not> aborting env rc"
  shows "\<exists>rc'. run_cycles env tc rc = Some (Inr rc') \<and> cycles_go rc rc' (cycle_traces tc j (rounds (test_body tc)))"
  using assms(3-)
proof (induction "rounds (test_body tc) - j" arbitrary: j rc rule: less_induct)
  case less
  let ?n = "rounds (test_body tc)"
  obtain rc1 where rc1: "run_cycle env tc rc = Inr (j + 1 < ?n, rc1)" "cycles_go rc rc1 (cycle_trace tc j)"
    "rootTracker (rc_tracker rc1) = Some (root_after (tc_name tc) (test_body tc) (j + 1))"
    using cycle_runs [OF assms(1,2) less.prems] by blast
  have tr: "cycle_traces tc j ?n = cycle_trace tc j @ cycle_traces tc (j + 1) ?n"
    using less.prems(3) by (simp add: cycle_traces_def upt_conv_Cons)
  show ?case
  proof (cases "j + 1 < ?n")
    case False
    then have "cycle_traces tc (j + 1) ?n = []" by (simp add: cycle_traces_def)
    then show ?thesis using rc1 False tr by (simp add: run_cycles.simps)
  next
    case True
    have "rc_unfinished rc1 = []" "\<not> aborting env rc1"
      using rc1(2) less.prems(1,4) by (simp_all add: cycles_go_def goes_def aborting_def)
    then obtain rc2 where "run_cycles env tc rc1 = Some (Inr rc2)" "cycles_go rc1 rc2 (cycle_traces tc (j + 1) ?n)"
      using less.hyps [OF _ _ rc1(3)] diff_less_mono2 [of j "j + 1" ?n] True by fastforce
    then show ?thesis using rc1 True tr cycles_go_trans by (auto simp: run_cycles.simps)
  qed
qed

lemma generators_run:
  fixes rc :: run_context
  assumes "block_ok env (test_body tc)" "\<not> warnNoAssertions (cfg_data (env_config env))"
    and "rc_unfinished rc = []" "\<not> aborting env rc" "rc_generators rc (getCurrentTestName rc) = None"
  shows "\<exists>rc'. run_generators env tc rc = Some (Inr rc') \<and> cycles_go rc rc' (cycle_traces tc 0 (rounds (test_body tc)))"
proof -
  let ?rc = "rc\<lparr>rc_tracker := startRun (rc_tracker rc)\<rparr>"
  have "rootTracker (rc_tracker ?rc) = Some (root_after (tc_name tc) (test_body tc) 0)"
    by (simp add: startRun_def root_after_def newTracker_def)
  moreover have "0 < rounds (test_body tc)" by (simp add: rounds_def)
  ultimately obtain rc1 where rc1: "run_cycles env tc ?rc = Some (Inr rc1)"
    "cycles_go ?rc rc1 (cycle_traces tc 0 (rounds (test_body tc)))"
    using cycles_run [OF assms(1,2), of ?rc 0] assms(3,4) by (auto simp: aborting_def)
  then have "advance_generators rc1 = (False, rc1)"
    using assms(5)
    by (simp add: advance_generators_def advanceGeneratorsForCurrentTest_def cycles_go_def goes_def getCurrentTestName_def)
  then show ?thesis
    using rc1 by (subst run_generators.simps) (simp add: cycles_go_def goes_def trace_of_def)
qed

section \<open>Every leaf section is entered once\<close>

text \<open>The paths to the sections of a block that have no sections inside, in the order of the source.\<close>

fun leaf_paths :: "test_step list \<Rightarrow> section_info list list" where
  "leaf_paths [] = []"
| "leaf_paths (Section si b # ss) = map ((#) si) (if leaf_paths b = [] then [[]] else leaf_paths b) @ leaf_paths ss"
| "leaf_paths (Scoped_message m l t b # ss) = leaf_paths b @ leaf_paths ss"
| "leaf_paths (s # ss) = leaf_paths ss"

fun entered_in :: "trace_item list \<Rightarrow> section_info list" where
  "entered_in [] = []"
| "entered_in (Enter si # tr) = si # entered_in tr"
| "entered_in (x # tr) = entered_in tr"

lemma entered_append [simp]: "entered_in (xs @ ys) = entered_in xs @ entered_in ys"
  by (induction xs rule: entered_in.induct) auto

lemma length_leaf_paths: "length (leaf_paths b) = cycles_of b"
proof (induction b rule: cycles_of.induct)
  case (2 si b ss)
  then show ?case by (cases "leaf_paths b") (auto simp: max_def)
qed auto

lemma entered_None: "entered_in (trace b None) = []"
  by (induction b "None :: nat option" rule: trace.induct) (auto simp: left_def)

lemma entered_late: "cycles_of b \<le> j \<Longrightarrow> entered_in (trace b (Some j)) = []"
proof (induction b "Some j" arbitrary: j rule: trace.induct)
  case (3 m l t b ss)
  then show ?case by (auto simp: left_def)
qed (auto simp: max_def split: if_splits)

lemma entered_leaf: "j < cycles_of b \<Longrightarrow> entered_in (trace b (Some j)) = leaf_paths b ! j"
proof (induction b "Some j" arbitrary: j rule: trace.induct)
  case (2 si b ss)
  moreover have "leaf_paths b = [] \<longleftrightarrow> cycles_of b = 0"
    using length_leaf_paths [of b] by (cases "leaf_paths b") auto
  ultimately show ?case
    using length_leaf_paths [of b]
    by (cases "cycles_of b = 0") (auto simp: nth_append entered_None max_def entered_late split: if_splits)
next
  case (3 m l t b ss)
  then show ?case
    using length_leaf_paths [of b] by (auto simp: left_def nth_append entered_None entered_late)
qed auto

lemma entered_in_cycles:
  "map (\<lambda>j. entered_in (trace b (Some j))) [0..<rounds b] = (if leaf_paths b = [] then [[]] else leaf_paths b)"
proof (cases "leaf_paths b")
  case Nil
  then have "cycles_of b = 0" using length_leaf_paths [of b] by simp
  then show ?thesis using Nil by (simp add: rounds_def entered_late)
next
  case (Cons q qs)
  then have "rounds b = length (leaf_paths b)" using length_leaf_paths [of b] by (simp add: rounds_def)
  then have "map (\<lambda>j. entered_in (trace b (Some j))) [0..<rounds b] = leaf_paths b"
    by (intro nth_equalityI) (simp_all add: entered_leaf length_leaf_paths)
  then show ?thesis using Cons by simp
qed

text \<open>The run of a passing test, with what it keeps.\<close>

lemma passing_test_runs:
  fixes rc :: run_context
  assumes "passing env (test_body tc)" "well_named (test_body tc)"
    and "\<not> warnNoAssertions (cfg_data (env_config env))" "\<not> expectedToFail tc"
    and "rc_unfinished rc = []" "\<not> aborting env rc" "rc_generators rc (tc_name tc) = None"
  shows "\<exists>d rc' cycles. runTest env tc rc = Some (Inr (d, rc'))
    \<and> trace_of rc' = trace_of rc @ concat (map (\<lambda>c. [Enter (test_section tc)] @ c @ [Leave (test_section tc)]) cycles)
    \<and> map entered_in cycles = (if leaf_paths (test_body tc) = [] then [[]] else leaf_paths (test_body tc))
    \<and> testCases (rc_totals rc') = counts_plus (testCases (rc_totals rc)) \<lparr>passed = 1, failed = 0, failedButOk = 0\<rparr>
    \<and> rc_unfinished rc' = [] \<and> rc_generators rc' = rc_generators rc
    \<and> failed (run_counts rc') = failed (run_counts rc) \<and> failed (assertions d) = 0"
proof -
  let ?rc0 = "(report (TestCaseStarting (tc_name tc)) rc)\<lparr>rc_activeTest := Some (tc_name tc)\<rparr>"
  let ?n = "rounds (test_body tc)" and ?cs = "map (\<lambda>j. trace (test_body tc) (Some j)) [0..<rounds (test_body tc)]"
  have "block_ok env (test_body tc)"
    using block_ok_passing [OF assms(3,1)] assms(2) by (simp add: well_named_def)
  then obtain rc1 where rc1: "run_generators env tc ?rc0 = Some (Inr rc1)" "cycles_go ?rc0 rc1 (cycle_traces tc 0 ?n)"
    using generators_run [OF _ assms(3), of tc ?rc0] assms(5,6,7)
    by (auto simp: report_def getCurrentTestName_def aborting_def)
  have "failed (assertions (delta (rc_totals rc1) (rc_totals rc))) = 0" "passed (testCases (delta (rc_totals rc1) (rc_totals rc))) = 1"
    and d: "testCases (delta (rc_totals rc1) (rc_totals rc)) = \<lparr>passed = 1, failed = 0, failedButOk = 0\<rparr>"
    using rc1(2) by (auto simp: delta_def Let_def cycles_go_def goes_def report_def totals_minus_def counts_minus_def)
  moreover have "cycle_traces tc 0 ?n
      = concat (map (\<lambda>c. [Enter (test_section tc)] @ c @ [Leave (test_section tc)]) ?cs)"
    by (simp add: cycle_traces_def cycle_trace_def [abs_def] comp_def)
  moreover have "map entered_in ?cs = (if leaf_paths (test_body tc) = [] then [[]] else leaf_paths (test_body tc))"
    using entered_in_cycles by (simp add: comp_def)
  ultimately show ?thesis
    using rc1 assms(4,5)
    by (intro exI [of _ "delta (rc_totals rc1) (rc_totals rc)"]
        exI [of _ "snd (finish_test env tc (rc_totals rc) rc1)"] exI [of _ ?cs])
      (auto simp: runTest_def finish_test_def Let_def report_def trace_of_def cycles_go_def goes_def)
qed

text \<open>
  C25. A test whose assertions pass is run in as many cycles as it has leaf sections (one when it
  has no section), and the run comes to an end; the \<open>n\<close>th cycle enters the sections on the path
  to the \<open>n\<close>th leaf in the order of the source and no other; and the test counts as one that has
  passed.
\<close>

theorem every_leaf_section_once:
  fixes rc :: run_context
  assumes "passing env (test_body tc)" "well_named (test_body tc)"
    and "\<not> warnNoAssertions (cfg_data (env_config env))" "\<not> expectedToFail tc"
    and "rc_unfinished rc = []" "\<not> aborting env rc" "rc_generators rc (tc_name tc) = None"
  shows "\<exists>d rc' cycles. runTest env tc rc = Some (Inr (d, rc'))
    \<and> trace_of rc' = trace_of rc @ concat (map (\<lambda>c. [Enter (test_section tc)] @ c @ [Leave (test_section tc)]) cycles)
    \<and> map entered_in cycles = (if leaf_paths (test_body tc) = [] then [[]] else leaf_paths (test_body tc))
    \<and> testCases (rc_totals rc') = counts_plus (testCases (rc_totals rc)) \<lparr>passed = 1, failed = 0, failedButOk = 0\<rparr>"
  using passing_test_runs [OF assms] by blast

text \<open>A test with an assertion, a section with two sections inside, and a last section.\<close>

definition example_site :: assertion_site where
  "example_site = \<lparr>site_macro = ''CHECK'', site_line = SourceLineInfo ''utils_test.cpp'' 12, site_text = ''x == 1'',
     site_disposition = ContinueOnFailure\<rparr>"

definition example_section :: "string \<Rightarrow> section_info" where
  "example_section n = \<lparr>si_name = n, si_description = [], si_lineInfo = SourceLineInfo ''utils_test.cpp'' 20\<rparr>"

definition example_body :: "test_step list" where
  "example_body =
     [Test example_site (Compared IsEqualTo (Op_int 1) (Op_int 1)),
      Section (example_section ''a'')
        [Section (example_section ''b'') [Msg Warning example_site ''so far''], Section (example_section ''c'') []],
      Section (example_section ''d'') []]"

definition example_test :: run_test_case where
  "example_test = \<lparr>tc_name = ''sections'', className = [], description = [], tags = {}, lcaseTags = {},
     tagsAsString = [], lineInfo = SourceLineInfo ''utils_test.cpp'' 10, properties = 0, test_body = example_body\<rparr>"

definition example_env :: run_env where
  "example_env = \<lparr>env_config = \<lparr>cfg_data = newConfigData, cfg_stream = Cout_stream, m_testSpec = []\<rparr>,
     env_clears = (\<lambda>r m t. True)\<rparr>"

lemma example_passes: "passing env (test_body example_test)"
  by (simp add: example_test_def example_body_def example_site_def
      isFalseTest_def ContinueOnFailure_def FalseTest_def compare_def applyEvaluator_def)

lemma example_well_named: "well_named (test_body example_test)" "\<not> expectedToFail example_test"
  by (simp_all add: example_test_def example_body_def well_named_def keys_def example_section_def section_key_def
      expectedToFail_def)

lemma every_leaf_section_once_witness:
  "\<exists>d rc' cycles. runTest example_env example_test (newRunContext example_env) = Some (Inr (d, rc'))
    \<and> trace_of rc' = concat (map (\<lambda>c. [Enter (test_section example_test)] @ c @ [Leave (test_section example_test)]) cycles)
    \<and> map entered_in cycles = [[example_section ''a'', example_section ''b''],
         [example_section ''a'', example_section ''c''], [example_section ''d'']]
    \<and> testCases (rc_totals rc') = \<lparr>passed = 1, failed = 0, failedButOk = 0\<rparr>"
proof -
  note example_passes [of example_env] example_well_named
  moreover have "\<not> warnNoAssertions (cfg_data (env_config example_env))"
    by (simp add: example_env_def newConfigData_def)
  moreover have "rc_unfinished (newRunContext example_env) = []" "\<not> aborting example_env (newRunContext example_env)"
    "rc_generators (newRunContext example_env) (tc_name example_test) = None" "trace_of (newRunContext example_env) = []"
    "testCases (rc_totals (newRunContext example_env)) = \<lparr>passed = 0, failed = 0, failedButOk = 0\<rparr>"
    by (simp_all add: newRunContext_def report_def aborting_def no_totals_def no_counts_def example_env_def
        newConfigData_def trace_of_def)
  moreover have "leaf_paths (test_body example_test) = [[example_section ''a'', example_section ''b''],
         [example_section ''a'', example_section ''c''], [example_section ''d'']]"
    by (simp add: example_test_def example_body_def)
  ultimately show ?thesis
    using every_leaf_section_once [of example_env example_test "newRunContext example_env"]
    by (simp add: counts_plus_def)
qed

end
