(* ===== verification/Catch_Text.thy ===== *)
theory Catch_Text
  imports Catch_Tracker Catch_Expression "HOL-Library.Sublist"
begin

text \<open>
  The text of the console (\<open>Tbc::Text\<close> in \<open>include/catch.h\<close>): a string is broken into lines no
  wider than a width, at a newline, behind the last character that may end a line, or with a
  hyphen; a tab moves the indent of what follows. Positions are natural numbers, and a difference
  of them is one of \<open>size_t\<close>, which wraps.
\<close>

section \<open>Attributes\<close>

record text_attributes =
  initialIndent :: "nat option"
  indent :: nat
  attr_width :: nat
  tabChar :: char

definition consoleWidth :: nat where "consoleWidth = 80"

definition newTextAttributes :: text_attributes where
  "newTextAttributes = \<lparr>initialIndent = None, indent = 0, attr_width = consoleWidth - 1, tabChar = CHR 0x09\<rparr>"

definition setInitialIndent :: "nat \<Rightarrow> text_attributes \<Rightarrow> text_attributes" where
  "setInitialIndent v a = a\<lparr>initialIndent := Some v\<rparr>"

definition setIndent :: "nat \<Rightarrow> text_attributes \<Rightarrow> text_attributes" where
  "setIndent v a = a\<lparr>indent := v\<rparr>"

definition setWidth :: "nat \<Rightarrow> text_attributes \<Rightarrow> text_attributes" where
  "setWidth v a = a\<lparr>attr_width := v\<rparr>"

definition setTabChar :: "char \<Rightarrow> text_attributes \<Rightarrow> text_attributes" where
  "setTabChar v a = a\<lparr>tabChar := v\<rparr>"

section \<open>Breaking lines\<close>

text \<open>A difference of two values of \<open>size_t\<close>.\<close>

definition size_minus :: "nat \<Rightarrow> nat \<Rightarrow> nat" where
  "size_minus a b = (if b \<le> a then a - b else 2 ^ 64 + a - b)"

text \<open>Reading a character: behind the last one stands a null character, and nothing after it.\<close>

definition char_at :: "string \<Rightarrow> nat \<Rightarrow> char res" where
  "char_at s i = (if i < length s then Inr (s ! i) else if i = length s then Inr (CHR 0x00) else Inl (Undefined Buffer_overread))"

text \<open>\<open>find_last_of\<close> up to a position.\<close>

fun find_last_of :: "string \<Rightarrow> string \<Rightarrow> nat \<Rightarrow> nat option" where
  "find_last_of s cs 0 = (if s \<noteq> [] \<and> s ! 0 \<in> set cs then Some 0 else None)"
| "find_last_of s cs (Suc i) = (if Suc i < length s \<and> s ! Suc i \<in> set cs then Some (Suc i) else find_last_of s cs i)"

definition wrappableChars :: string where
  "wrappableChars = '' [({.,/|'' @ [CHR 0x5C] @ ''-''"

text \<open>Cutting a line off; a position past the end is an exception of \<open>substr\<close>.\<close>

definition spliceLine :: "nat \<Rightarrow> string \<Rightarrow> nat \<Rightarrow> string list \<Rightarrow> (string list \<times> string) res" where
  "spliceLine ind rest pos lines =
     (if pos \<le> length rest then Inr (lines @ [replicate ind (CHR '' '') @ take pos rest], drop pos rest)
      else Inl (Throws (Exn ''basic_string::substr'')))"

text \<open>The tab, if there is one in the line, is taken out; yields its position, the width and the rest.\<close>

definition take_tab :: "char \<Rightarrow> nat \<Rightarrow> string \<Rightarrow> (nat option \<times> nat \<times> string) res" where
  "take_tab t_char width rest =
     (case find_last_of rest [t_char] (min width (length rest)) of
        None \<Rightarrow> Inr (None, width, rest)
      | Some t \<Rightarrow> bindR (char_at rest width) (\<lambda>c.
          Inr (Some t, if c = newline then size_minus width 1 else width, take t rest @ drop (t + 1) rest)))"

text \<open>Breaking within a line: behind the last character that may end it, or with a hyphen.\<close>

definition break_line :: "nat \<Rightarrow> string \<Rightarrow> nat \<Rightarrow> string list \<Rightarrow> (string list \<times> string) res" where
  "break_line ind r w lines =
     (case find_last_of r wrappableChars w of
        Some (Suc k) \<Rightarrow>
          bindR (spliceLine ind r (Suc k) lines) (\<lambda>(ls, r').
          bindR (char_at r' 0) (\<lambda>c. Inr (ls, if c = CHR '' '' then drop 1 r' else r')))
      | _ \<Rightarrow>
          bindR (spliceLine ind r (size_minus w 1) lines) (\<lambda>(ls, r').
            Inr (butlast ls @ [last ls @ ''-''], r')))"

text \<open>One line, from a remainder that is not empty: the indent of the next line, the rest and the lines.\<close>

definition first_width :: "text_attributes \<Rightarrow> nat \<Rightarrow> string \<Rightarrow> nat" where
  "first_width attr ind rest =
     (let w = min (length rest) (size_minus (attr_width attr) ind)
      in case find_index (\<lambda>c. c = newline) rest of Some i \<Rightarrow> if i \<le> w then i else w | None \<Rightarrow> w)"

definition wrap_line ::
  "text_attributes \<Rightarrow> nat \<Rightarrow> string \<Rightarrow> string list \<Rightarrow> (nat \<times> string \<times> string list) res" where
  "wrap_line attr ind rest lines =
     bindR (take_tab (tabChar attr) (first_width attr ind rest) rest) (\<lambda>(tabPos, w, r).
       if w = length r then bindR (spliceLine ind r w lines) (\<lambda>(ls, r'). Inr (ind, r', ls))
       else bindR (char_at r w) (\<lambda>c.
         if c = newline then
           bindR (spliceLine ind r w lines) (\<lambda>(ls, r').
             Inr (indent attr, if w \<le> 1 \<or> length r' \<noteq> 1 then drop 1 r' else r', ls))
         else
           bindR (break_line ind r w lines) (\<lambda>(ls, r').
             let ind1 = (if length ls = 1 then indent attr else ind)
             in Inr (case tabPos of Some t \<Rightarrow> ind1 + t | None \<Rightarrow> ind1, r', ls))))"

lemma spliceLine_length: "spliceLine ind r w lines = Inr (ls, r') \<Longrightarrow> length ls = Suc (length lines)"
  by (auto simp: spliceLine_def split: if_splits)

lemma break_line_length: "break_line ind r w lines = Inr (ls, r') \<Longrightarrow> length ls = Suc (length lines)"
  by (auto simp: break_line_def bindR_eq_Inr dest: spliceLine_length split: option.splits nat.splits if_splits)

lemma wrap_line_grows:
  "wrap_line attr ind rest lines = Inr (ind', rest', lines') \<Longrightarrow> length lines' = Suc (length lines)"
  unfolding wrap_line_def bindR_eq_Inr
  by (auto simp: bindR_eq_Inr Let_def dest: spliceLine_length break_line_length split: if_splits)

function wrap_loop :: "text_attributes \<Rightarrow> nat \<Rightarrow> string \<Rightarrow> string list \<Rightarrow> string list res" where
  "wrap_loop attr ind rest lines =
     (if rest = [] then Inr lines
      else if length lines \<ge> 1000 then Inr (lines @ [''... message truncated due to excessive size''])
      else bindR (wrap_line attr ind rest lines) (\<lambda>(ind', rest', lines'). wrap_loop attr ind' rest' lines'))"
  by pat_completeness auto
termination
proof (relation "measure (\<lambda>(attr, ind, rest, lines). 1000 - length lines)")
  fix attr ind rest lines x ind' y rest' lines'
  assume "\<not> 1000 \<le> length lines" "wrap_line attr ind rest lines = Inr x" "(ind', y) = x" "(rest', lines') = y"
  then show "((attr, ind', rest', lines'), (attr, ind, rest, lines)) \<in> measure (\<lambda>(attr, ind, rest, lines). 1000 - length lines)"
    using wrap_line_grows by fastforce
qed simp

declare wrap_loop.simps [simp del]

definition text_lines :: "string \<Rightarrow> text_attributes \<Rightarrow> string list res" where
  "text_lines str attr =
     wrap_loop attr (case initialIndent attr of Some i \<Rightarrow> i | None \<Rightarrow> indent attr) str []"

definition show_text :: "string list \<Rightarrow> string" where
  "show_text lines = separated [newline] lines"

section \<open>Lines fit and keep the text\<close>

lemma find_last_of_Some: "find_last_of s cs i = Some j \<Longrightarrow> j \<le> i \<and> j < length s \<and> s ! j \<in> set cs"
  by (induction s cs i rule: find_last_of.induct) (auto split: if_splits)

lemma find_last_of_None: "set s \<inter> set cs = {} \<Longrightarrow> find_last_of s cs i = None"
  by (induction s cs i rule: find_last_of.induct) (auto simp: disjoint_iff)

lemma first_width_bounds:
  assumes "rest \<noteq> []" "ind < attr_width attr" "rest ! first_width attr ind rest \<noteq> newline"
  shows "0 < first_width attr ind rest"
  using assms find_index_Some [of "\<lambda>c. c = newline" rest]
  by (auto simp: first_width_def Let_def size_minus_def split: option.splits)

lemma first_width_le:
  "ind < attr_width attr \<Longrightarrow> first_width attr ind rest \<le> length rest \<and> ind + first_width attr ind rest \<le> attr_width attr"
  by (auto simp: first_width_def Let_def size_minus_def split: option.splits)

text \<open>What a line cuts off, and what may be left out between it and the rest.\<close>

definition cuts :: "text_attributes \<Rightarrow> nat \<Rightarrow> string \<Rightarrow> string list \<Rightarrow> nat \<times> string \<times> string list \<Rightarrow> bool" where
  "cuts attr ind rest lines res \<longleftrightarrow>
     (\<exists>d hyphen gap rest' ind'. res = (ind', rest', lines @ [replicate ind (CHR '' '') @ d @ hyphen])
        \<and> rest = d @ gap @ rest' \<and> set gap \<subseteq> {CHR '' '', newline} \<and> ind' \<in> {ind, indent attr}
        \<and> ind + length d + length hyphen \<le> attr_width attr)"

lemma cutsI:
  "rest = d @ gap @ rest' \<Longrightarrow> set gap \<subseteq> {CHR '' '', newline} \<Longrightarrow> ind' \<in> {ind, indent attr}
     \<Longrightarrow> ind + length d + length hyphen \<le> attr_width attr
     \<Longrightarrow> cuts attr ind rest lines (ind', rest', lines @ [replicate ind (CHR '' '') @ d @ hyphen])"
  unfolding cuts_def by blast

lemma break_line_cuts:
  assumes "w < length r" "0 < w" "ind + w \<le> attr_width attr"
  shows "\<exists>ls r'. break_line ind r w lines = Inr (ls, r') \<and> (\<forall>i \<in> {ind, indent attr}. cuts attr ind r lines (i, r', ls))"
proof -
  consider k where "find_last_of r wrappableChars w = Some (Suc k)"
    | "find_last_of r wrappableChars w = None \<or> find_last_of r wrappableChars w = Some 0"
    by (cases "find_last_of r wrappableChars w") (auto, metis old.nat.exhaust)
  then show ?thesis
  proof cases
    case 1
    let ?d = "take (Suc k) r" and ?r = "drop (Suc k) r"
    have k: "Suc k \<le> w" using find_last_of_Some [OF 1] by simp
    then obtain c cs where c: "?r = c # cs" using assms(1) by (cases ?r) auto
    let ?b = "if c = CHR '' '' then cs else c # cs"
    have "break_line ind r w lines = Inr (lines @ [replicate ind (CHR '' '') @ ?d], ?b)"
      using 1 k assms(1) c by (simp add: break_line_def spliceLine_def char_at_def)
    moreover have "r = ?d @ (if c = CHR '' '' then [c] else []) @ ?b"
      using append_take_drop_id [of "Suc k" r] unfolding c by (auto dest: sym)
    then have "cuts attr ind r lines (i, ?b, lines @ [replicate ind (CHR '' '') @ ?d @ []])" if "i \<in> {ind, indent attr}" for i
      using that k assms(3) by (intro cutsI) auto
    ultimately show ?thesis by auto
  next
    case 2
    let ?d = "take (w - 1) r" and ?r = "drop (w - 1) r"
    have "break_line ind r w lines = Inr (lines @ [replicate ind (CHR '' '') @ ?d @ ''-''], ?r)"
      using 2 assms by (auto simp: break_line_def spliceLine_def size_minus_def)
    moreover have "cuts attr ind r lines (i, ?r, lines @ [replicate ind (CHR '' '') @ ?d @ ''-''])"
      if "i \<in> {ind, indent attr}" for i
      using that assms by (intro cutsI [of _ _ "[]"]) auto
    ultimately show ?thesis by blast
  qed
qed

lemma wrap_line_cuts:
  assumes "tabChar attr \<notin> set rest" "rest \<noteq> []" "ind < attr_width attr"
  shows "\<exists>res. wrap_line attr ind rest lines = Inr res \<and> cuts attr ind rest lines res"
proof -
  let ?w = "first_width attr ind rest"
  note le = first_width_le [OF assms(3), of rest]
  have tab: "take_tab (tabChar attr) ?w rest = Inr (None, ?w, rest)"
    using assms(1) by (simp add: take_tab_def find_last_of_None)
  consider "?w = length rest" | "?w < length rest" "rest ! ?w = newline" | "?w < length rest" "rest ! ?w \<noteq> newline"
    using le by linarith
  then show ?thesis
  proof cases
    case 1
    have "cuts attr ind rest lines (ind, [], lines @ [replicate ind (CHR '' '') @ rest @ []])"
      using le 1 by (intro cutsI [of _ _ "[]"]) auto
    then show ?thesis using tab 1 by (simp add: wrap_line_def spliceLine_def)
  next
    case 2
    obtain cs where cs: "drop ?w rest = newline # cs" using 2 by (metis Cons_nth_drop_Suc)
    let ?b = "if ?w \<le> 1 \<or> length (drop ?w rest) \<noteq> 1 then cs else drop ?w rest"
    have "wrap_line attr ind rest lines = Inr (indent attr, ?b, lines @ [replicate ind (CHR '' '') @ take ?w rest])"
      using tab 2 cs by (simp add: wrap_line_def spliceLine_def char_at_def)
    moreover have "rest = take ?w rest @ (if ?b = cs then [newline] else []) @ ?b"
      using cs append_take_drop_id [of ?w rest] by auto
    then have "cuts attr ind rest lines (indent attr, ?b, lines @ [replicate ind (CHR '' '') @ take ?w rest @ []])"
      using le by (intro cutsI) auto
    ultimately show ?thesis by auto
  next
    case 3
    obtain ls r' where br: "break_line ind rest ?w lines = Inr (ls, r')"
      "\<forall>i \<in> {ind, indent attr}. cuts attr ind rest lines (i, r', ls)"
      using break_line_cuts [OF 3(1) first_width_bounds [OF assms(2,3) 3(2)]] le by blast
    then show ?thesis using tab 3 by (simp add: wrap_line_def char_at_def)
  qed
qed

definition truncated :: string where
  "truncated = ''... message truncated due to excessive size''"

definition is_gap :: "char \<Rightarrow> bool" where
  "is_gap c \<longleftrightarrow> c = CHR '' '' \<or> c = newline"

lemma filter_gap: "set gap \<subseteq> {CHR '' '', newline} \<Longrightarrow> filter (\<lambda>c. \<not> is_gap c) gap = []"
  by (auto simp: is_gap_def filter_empty_conv)

lemma subseq_filter_mono: "subseq (filter P xs) zs \<Longrightarrow> subseq (filter P (d @ xs)) ((a @ d @ b) @ zs)"
  by (simp only: filter_append)
    (intro list_emb_append_mono list_emb_append2 list_emb_prefix subseq_filter_left; simp)

lemma wrap_loop_spec:
  assumes "tabChar attr \<notin> set rest" "ind < attr_width attr" "indent attr < attr_width attr"
    and "\<forall>l\<in>set lines. length l \<le> attr_width attr" "length lines \<le> 1000"
  shows "\<exists>ls. wrap_loop attr ind rest lines = Inr ls \<and> length ls \<le> 1001
    \<and> (\<forall>l\<in>set ls. length l \<le> attr_width attr \<or> l = truncated)
    \<and> (length ls \<le> 1000 \<longrightarrow> (\<exists>new. ls = lines @ new \<and> subseq (filter (\<lambda>c. \<not> is_gap c) rest) (concat new)))"
  using assms
proof (induction attr ind rest lines rule: wrap_loop.induct)
  case (1 attr ind rest lines)
  consider "rest = []" | "rest \<noteq> []" "1000 \<le> length lines" | "rest \<noteq> []" "\<not> 1000 \<le> length lines" by blast
  then show ?case
  proof cases
    case 1
    then show ?thesis using "1.prems" by (subst wrap_loop.simps) auto
  next
    case 2
    then show ?thesis using "1.prems" by (subst wrap_loop.simps) (auto simp: truncated_def)
  next
    case 3
    obtain res where res: "wrap_line attr ind rest lines = Inr res" "cuts attr ind rest lines res"
      using wrap_line_cuts [OF "1.prems"(1) 3(1) "1.prems"(2)] by blast
    then obtain d hyphen gap rest' ind' where c:
      "res = (ind', rest', lines @ [replicate ind (CHR '' '') @ d @ hyphen])"
      "rest = d @ gap @ rest'" "set gap \<subseteq> {CHR '' '', newline}" "ind' \<in> {ind, indent attr}"
      "ind + length d + length hyphen \<le> attr_width attr"
      unfolding cuts_def by blast
    let ?l = "replicate ind (CHR '' '') @ d @ hyphen"
    obtain ls where ls: "wrap_loop attr ind' rest' (lines @ [?l]) = Inr ls"
      "length ls \<le> 1001" "\<forall>l\<in>set ls. length l \<le> attr_width attr \<or> l = truncated"
      "length ls \<le> 1000 \<longrightarrow> (\<exists>new. ls = (lines @ [?l]) @ new \<and> subseq (filter (\<lambda>c. \<not> is_gap c) rest') (concat new))"
      using "1.IH" [OF 3 res(1) c(1) [symmetric] refl] "1.prems" c not_less_eq_eq 3(2) by auto
    have "\<exists>new. ls = lines @ new \<and> subseq (filter (\<lambda>c. \<not> is_gap c) rest) (concat new)" if le: "length ls \<le> 1000"
    proof -
      obtain new where new: "ls = (lines @ [?l]) @ new" "subseq (filter (\<lambda>c. \<not> is_gap c) rest') (concat new)"
        using ls(4) le by blast
      then have "subseq (filter (\<lambda>c. \<not> is_gap c) rest) (?l @ concat new)"
        using subseq_filter_mono [of "\<lambda>c. \<not> is_gap c" rest' "concat new" d] filter_gap [OF c(3)] c(2) by simp
      then show ?thesis using new(1) by (intro exI [of _ "?l # new"]) simp
    qed
    moreover have "wrap_loop attr ind rest lines = Inr ls"
      using 3 res(1) c(1) ls(1) by (subst wrap_loop.simps) simp
    ultimately show ?thesis using ls(2,3) 3(2) by auto
  qed
qed

text \<open>
  A text without a tab, laid out with indents below the width, becomes at most 1001 lines no
  longer than the width (but for the last one, when it says that the rest is left out); and
  unless it was left out, every character of the text but spaces and newlines is in the lines, in
  its order.
\<close>

lemma text_fits:
  assumes "tabChar attr \<notin> set str" "indent attr < attr_width attr"
    and "\<forall>i. initialIndent attr = Some i \<longrightarrow> i < attr_width attr"
  shows "\<exists>ls. text_lines str attr = Inr ls \<and> length ls \<le> 1001
    \<and> (\<forall>l\<in>set ls. length l \<le> attr_width attr \<or> l = truncated)
    \<and> (length ls \<le> 1000 \<longrightarrow> subseq (filter (\<lambda>c. \<not> is_gap c) str) (concat ls))"
  using wrap_loop_spec [OF assms(1), of "case initialIndent attr of Some i \<Rightarrow> i | None \<Rightarrow> indent attr" "[]"] assms(2,3)
  by (auto simp: text_lines_def split: option.splits)

lemma text_fits_witness:
  "\<exists>ls. text_lines ''the quick brown fox'' (setWidth 8 (setIndent 2 newTextAttributes)) = Inr ls
    \<and> (\<forall>l\<in>set ls. length l \<le> 8 \<or> l = truncated)"
proof -
  let ?a = "setWidth 8 (setIndent 2 newTextAttributes)"
  have a: "tabChar ?a \<notin> set ''the quick brown fox''" "indent ?a < attr_width ?a"
    "\<forall>i. initialIndent ?a = Some i \<longrightarrow> i < attr_width ?a" "attr_width ?a = 8"
    by (simp_all add: setWidth_def setIndent_def newTextAttributes_def)
  show ?thesis using text_fits [OF a(1,2,3)] unfolding a(4) by blast
qed

text \<open>
  A tab in a text that fits into one line is taken out after the width was set to the length of
  the text, so that the next read is behind the null character of the string that is left.
\<close>

lemma find_last_of_complete: "j \<le> i \<Longrightarrow> j < length s \<Longrightarrow> s ! j \<in> set cs \<Longrightarrow> find_last_of s cs i \<noteq> None"
  by (induction s cs i rule: find_last_of.induct) (auto simp: le_Suc_eq split: if_splits)

lemma tab_reads_past_the_end:
  assumes "newline \<notin> set str" "tabChar attr \<in> set str" "length str + indent attr \<le> attr_width attr" "initialIndent attr = None"
  shows "text_lines str attr = Inl (Undefined Buffer_overread)"
proof -
  have "find_index (\<lambda>c. c = newline) str = None" using assms(1) by (auto simp: find_index_None)
  then have w: "first_width attr (indent attr) str = length str"
    using assms(3) by (simp add: first_width_def size_minus_def)
  obtain j where "j < length str" "str ! j = tabChar attr" using assms(2) by (auto simp: in_set_conv_nth)
  then obtain t where t: "find_last_of str [tabChar attr] (length str) = Some t"
    using find_last_of_complete [of j "length str" str "[tabChar attr]"] by auto
  let ?r = "take t str @ drop (t + 1) str"
  have "t < length str" using find_last_of_Some [OF t] by simp
  then have r: "length ?r = length str - 1" "0 < length str" by auto
  have "take_tab (tabChar attr) (length str) str = Inr (Some t, length str, ?r)"
    using t by (simp add: take_tab_def char_at_def newline_def)
  moreover have "char_at ?r (length str) = Inl (Undefined Buffer_overread)"
    using r(2) unfolding char_at_def r(1) by (cases "length str") auto
  moreover have "length str \<noteq> length ?r" using r(2) unfolding r(1) by linarith
  ultimately have "wrap_line attr (indent attr) str [] = Inl (Undefined Buffer_overread)"
    using w by (auto simp only: wrap_line_def bindR.simps prod.case split: if_split)
  moreover have "str \<noteq> []" using r by auto
  ultimately show ?thesis
    using assms(4) by (subst text_lines_def, subst wrap_loop.simps) simp
qed

end
