(* ===== verification/Catch_Session.thy ===== *)
theory Catch_Session
  imports Catch_Cycles Catch_Text
begin

text \<open>
  A session of the test framework (\<open>include/catch.h\<close>): the reporters it makes, the tests it runs
  or lists, the exit code, and what is done when a signal ends a test. The output of a session
  is two texts; the colours and the seeds of the random numbers are left out.
\<close>

section \<open>Reporters\<close>

text \<open>The hub: the registered tests, aliases, reporters (name and description, by name) and listeners.\<close>

record hub =
  hub_tests :: "test_step list test_registry"
  hub_aliases :: alias_registry
  hub_reporters :: "(string \<times> string) list"
  hub_listeners :: "string list"

definition registerReporter :: "string \<Rightarrow> string \<Rightarrow> hub \<Rightarrow> hub" where
  "registerReporter name descr h =
     (if map_of (hub_reporters h) name = None
      then h\<lparr>hub_reporters := insort_key fst (name, descr) (hub_reporters h)\<rparr> else h)"

definition registerListener :: "string \<Rightarrow> hub \<Rightarrow> hub" where
  "registerListener descr h = h\<lparr>hub_listeners := hub_listeners h @ [descr]\<rparr>"

text \<open>A reporter is null, one reporter, or several that were joined.\<close>

datatype reporter = No_reporter | One_reporter string | Multiple_reporters "string list"

fun addReporter :: "reporter \<Rightarrow> string \<Rightarrow> reporter" where
  "addReporter No_reporter r = One_reporter r"
| "addReporter (One_reporter q) r = Multiple_reporters [q, r]"
| "addReporter (Multiple_reporters qs) r = Multiple_reporters (qs @ [r])"

definition createReporter :: "hub \<Rightarrow> string \<Rightarrow> cpp_exn + string" where
  "createReporter h name =
     (case map_of (hub_reporters h) name of
        None \<Rightarrow> Inl (Exn (''No reporter registered with name: '' @ [CHR 0x27] @ name @ [CHR 0x27]))
      | Some d \<Rightarrow> Inr name)"

fun make_reporters :: "hub \<Rightarrow> reporter \<Rightarrow> string list \<Rightarrow> cpp_exn + reporter" where
  "make_reporters h rep [] = Inr rep"
| "make_reporters h rep (n # ns) =
     (case createReporter h n of Inl e \<Rightarrow> Inl e | Inr r \<Rightarrow> make_reporters h (addReporter rep r) ns)"

definition makeReporter :: "hub \<Rightarrow> config_data \<Rightarrow> cpp_exn + reporter" where
  "makeReporter h d =
     make_reporters h No_reporter (if reporterNames d = [] then [''console''] else reporterNames d)"

definition addListeners :: "hub \<Rightarrow> reporter \<Rightarrow> reporter" where
  "addListeners h rep = fold (\<lambda>l r. addReporter r l) (hub_listeners h) rep"

fun names_of :: "reporter \<Rightarrow> string list" where
  "names_of No_reporter = []"
| "names_of (One_reporter r) = [r]"
| "names_of (Multiple_reporters rs) = rs"

section \<open>Running the tests\<close>

definition testGroupStarting :: "string \<Rightarrow> nat \<Rightarrow> nat \<Rightarrow> run_context \<Rightarrow> run_context" where
  "testGroupStarting spec i n rc = report (TestGroupStarting spec i n) rc"

definition testGroupEnded :: "run_env \<Rightarrow> string \<Rightarrow> totals \<Rightarrow> nat \<Rightarrow> nat \<Rightarrow> run_context \<Rightarrow> run_context" where
  "testGroupEnded env spec t i n rc = report (TestGroupEnded spec t i n (aborting env rc)) rc"

text \<open>The destructor of the run.\<close>

definition endRunContext :: "run_env \<Rightarrow> run_context \<Rightarrow> run_context" where
  "endRunContext env rc = report (TestRunEnded (config_name (env_config env)) (rc_totals rc) (aborting env rc)) rc"

fun run_all ::
  "run_env \<Rightarrow> test_spec \<Rightarrow> run_test_case list \<Rightarrow> totals \<Rightarrow> run_context \<Rightarrow> (totals \<times> run_context) res option" where
  "run_all env spec [] t rc = Some (Inr (t, rc))"
| "run_all env spec (tc # tcs) t rc =
     (if \<not> aborting env rc \<and> matchTest tc spec (env_config env) then
        Option.bind (runTest env tc rc) (\<lambda>r.
          case r of
            Inl f \<Rightarrow> Some (Inl f)
          | Inr (d, rc') \<Rightarrow> run_all env spec tcs (totals_plus t d) rc')
      else run_all env spec tcs t (report (SkipTest (tc_name tc)) rc))"

definition run_spec :: "alias_registry \<Rightarrow> config \<Rightarrow> test_spec" where
  "run_spec reg c = (if m_testSpec c = [] then parseTestSpec reg ''~[.]'' else m_testSpec c)"

definition as_res :: "cpp_exn + 'a \<Rightarrow> 'a res" where
  "as_res r = map_sum Throws id r"

text \<open>
  What the reporters together answer when an assertion has ended: whether one of them wants the
  messages to be cleared. \<open>clears\<close> gives the answers of the reporters and listeners.
\<close>

type_synonym answers = "string \<Rightarrow> assertion_result \<Rightarrow> message_info list \<Rightarrow> totals \<Rightarrow> bool"

definition run_env_of :: "answers \<Rightarrow> hub \<Rightarrow> reporter \<Rightarrow> config \<Rightarrow> run_env" where
  "run_env_of clears h rep c =
     \<lparr>env_config = c, env_clears = (\<lambda>r ms t. list_ex (\<lambda>n. clears n r ms t) (names_of (addListeners h rep)))\<rparr>"

text \<open>\<open>shuffle\<close> is what the random order makes of the tests.\<close>

definition runTests ::
  "(run_test_case list \<Rightarrow> run_test_case list) \<Rightarrow> answers \<Rightarrow> config \<Rightarrow> hub \<Rightarrow> (totals \<times> run_context \<times> hub) res option" where
  "runTests shuffle clears c h =
     (case as_res (makeReporter h (cfg_data c)) of
        Inl f \<Rightarrow> Some (Inl f)
      | Inr rep \<Rightarrow>
          (let env = run_env_of clears h rep c; name = config_name c;
               rc0 = testGroupStarting name 1 1 (newRunContext env)
           in case as_res (getAllTestsSorted shuffle (runOrder (cfg_data c)) (hub_tests h)) of
                Inl f \<Rightarrow> Some (Inl f)
              | Inr (tcs, reg) \<Rightarrow>
                  Option.bind (run_all env (run_spec (hub_aliases h) c) tcs no_totals rc0) (\<lambda>r.
                    Some (bindR r (\<lambda>(t, rc).
                      Inr (t, endRunContext env (testGroupEnded env name t 1 1 rc), h\<lparr>hub_tests := reg\<rparr>))))))"

section \<open>Tags from file names\<close>

definition file_tag :: "string \<Rightarrow> string" where
  "file_tag fname =
     (let f = (case find_last_of fname [CHR 0x5C, CHR ''/''] (length fname) of Some i \<Rightarrow> drop (i + 1) fname | None \<Rightarrow> fname)
      in ''#'' @ (case find_last_of f ''.'' (length f) of Some i \<Rightarrow> take i f | None \<Rightarrow> f))"

text \<open>The tests that are changed are those in the cache of the registry.\<close>

definition applyFilenamesAsTags ::
  "(run_test_case list \<Rightarrow> run_test_case list) \<Rightarrow> config \<Rightarrow> hub \<Rightarrow> hub res" where
  "applyFilenamesAsTags shuffle c h =
     bindR (as_res (getAllTestsSorted shuffle (runOrder (cfg_data c)) (hub_tests h))) (\<lambda>(tcs, reg).
       Inr (h\<lparr>hub_tests := reg\<lparr>m_sortedFunctions :=
         map (\<lambda>tc. setTags (insert (file_tag (sli_file (lineInfo tc))) (tags tc)) tc) tcs\<rparr>\<rparr>))"

section \<open>Lists\<close>

text \<open>A list is the number of its entries and what is written, after the tests were sorted.\<close>

definition endl :: string where "endl = [newline]"

definition list_spec :: "alias_registry \<Rightarrow> config \<Rightarrow> test_spec" where
  "list_spec reg c = (if m_testSpec c = [] then parseTestSpec reg ''*'' else m_testSpec c)"

definition matched_tests ::
  "(run_test_case list \<Rightarrow> run_test_case list) \<Rightarrow> config \<Rightarrow> hub \<Rightarrow> (run_test_case list \<times> hub) res" where
  "matched_tests shuffle c h =
     bindR (as_res (getAllTestsSorted shuffle (runOrder (cfg_data c)) (hub_tests h))) (\<lambda>(tcs, reg).
       Inr (filterTests tcs (list_spec (hub_aliases h) c) c, h\<lparr>hub_tests := reg\<rparr>))"

definition text_of :: "string \<Rightarrow> text_attributes \<Rightarrow> string res" where
  "text_of str attr = bindR (text_lines str attr) (\<lambda>ls. Inr (show_text ls))"

definition list_one :: "run_test_case \<Rightarrow> string res" where
  "list_one tc =
     bindR (text_of (tc_name tc) (setIndent 4 (setInitialIndent 2 newTextAttributes))) (\<lambda>n.
       if tags tc = {} then Inr (n @ endl)
       else bindR (text_of (tagsAsString tc) (setIndent 6 newTextAttributes)) (\<lambda>t. Inr (n @ endl @ t @ endl)))"

fun list_all_tests :: "run_test_case list \<Rightarrow> string res" where
  "list_all_tests [] = Inr []"
| "list_all_tests (tc # tcs) = bindR (list_one tc) (\<lambda>x. bindR (list_all_tests tcs) (\<lambda>y. Inr (x @ y)))"

definition list_tests ::
  "(run_test_case list \<Rightarrow> run_test_case list) \<Rightarrow> config \<Rightarrow> hub \<Rightarrow> (nat \<times> string \<times> hub) res" where
  "list_tests shuffle c h =
     bindR (matched_tests shuffle c h) (\<lambda>(tcs, h').
     bindR (list_all_tests tcs) (\<lambda>out.
       Inr (length tcs,
         (if m_testSpec c \<noteq> [] then ''Matching test cases:'' else ''All available test cases:'') @ endl @ out
         @ pluralise (length tcs) (if m_testSpec c = [] then ''test case'' else ''matching test case'') @ endl @ endl, h')))"

definition listTestsNamesOnly ::
  "(run_test_case list \<Rightarrow> run_test_case list) \<Rightarrow> config \<Rightarrow> hub \<Rightarrow> (nat \<times> string \<times> hub) res" where
  "listTestsNamesOnly shuffle c h =
     bindR (matched_tests shuffle c h) (\<lambda>(tcs, h').
       Inr (length tcs,
         concat (map (\<lambda>tc. if startsWith (tc_name tc) ''#'' then [quote] @ tc_name tc @ [quote] @ endl
                           else tc_name tc @ endl) tcs), h'))"

text \<open>The spellings of a tag, and how often it is used.\<close>

record tag_info =
  spellings :: "string set"
  tag_count :: nat

definition newTagInfo :: tag_info where "newTagInfo = \<lparr>spellings = {}, tag_count = 0\<rparr>"

definition tag_add :: "string \<Rightarrow> tag_info \<Rightarrow> tag_info" where
  "tag_add spelling i = i\<lparr>tag_count := tag_count i + 1, spellings := insert spelling (spellings i)\<rparr>"

definition tag_all :: "tag_info \<Rightarrow> string" where
  "tag_all i = concat (map (\<lambda>t. ''['' @ t @ '']'') (sorted_list_of_set (spellings i)))"

definition count_tag :: "string \<Rightarrow> (string \<rightharpoonup> tag_info) \<Rightarrow> (string \<rightharpoonup> tag_info)" where
  "count_tag t m =
     (let k = toLower t in m(k \<mapsto> tag_add t (case m k of None \<Rightarrow> newTagInfo | Some i \<Rightarrow> i)))"

definition tag_counts :: "run_test_case list \<Rightarrow> (string \<rightharpoonup> tag_info)" where
  "tag_counts tcs = fold (\<lambda>tc. fold count_tag (sorted_list_of_set (tags tc))) tcs Map.empty"

definition setw :: "nat \<Rightarrow> string \<Rightarrow> string" where
  "setw n s = replicate (n - length s) (CHR '' '') @ s"

definition list_tag :: "tag_info \<Rightarrow> string res" where
  "list_tag i =
     (let pre = ''  '' @ setw 2 (dec (tag_count i)) @ ''  ''
      in bindR (text_of (tag_all i) (setWidth 70 (setIndent (length pre) (setInitialIndent 0 newTextAttributes))))
           (\<lambda>t. Inr (pre @ t @ endl)))"

fun list_all_tags :: "tag_info list \<Rightarrow> string res" where
  "list_all_tags [] = Inr []"
| "list_all_tags (i # is) = bindR (list_tag i) (\<lambda>x. bindR (list_all_tags is) (\<lambda>y. Inr (x @ y)))"

definition list_tags ::
  "(run_test_case list \<Rightarrow> run_test_case list) \<Rightarrow> config \<Rightarrow> hub \<Rightarrow> (nat \<times> string \<times> hub) res" where
  "list_tags shuffle c h =
     bindR (matched_tests shuffle c h) (\<lambda>(tcs, h').
       let m = tag_counts tcs; ks = sorted_list_of_set (dom m)
       in bindR (list_all_tags (map (\<lambda>k. the (m k)) ks)) (\<lambda>out.
         Inr (length ks,
           (if m_testSpec c \<noteq> [] then ''Tags for matching test cases:'' else ''All available tags:'') @ endl @ out
           @ pluralise (length ks) ''tag'' @ endl @ endl, h')))"

fun list_all_reporters :: "nat \<Rightarrow> (string \<times> string) list \<Rightarrow> string res" where
  "list_all_reporters w [] = Inr []"
| "list_all_reporters w ((n, d) # rs) =
     bindR (text_of d (setWidth (size_minus (size_minus consoleWidth w) 8) (setIndent (7 + w) (setInitialIndent 0 newTextAttributes)))) (\<lambda>t.
     bindR (list_all_reporters w rs) (\<lambda>y.
       Inr (''  '' @ n @ '':'' @ replicate (w - length n + 2) (CHR '' '') @ t @ endl @ y)))"

definition list_reporters :: "hub \<Rightarrow> (nat \<times> string \<times> hub) res" where
  "list_reporters h =
     bindR (list_all_reporters (foldr max (map (\<lambda>r. length (fst r)) (hub_reporters h)) 0) (hub_reporters h)) (\<lambda>out.
       Inr (length (hub_reporters h), ''Available reporters:'' @ endl @ out @ endl, h))"

text \<open>The lists that are asked for, one after the other; none at all is \<open>None\<close>.\<close>

definition list_step ::
  "bool \<Rightarrow> (hub \<Rightarrow> (nat \<times> string \<times> hub) res) \<Rightarrow> nat option \<times> string \<times> hub \<Rightarrow> (nat option \<times> string \<times> hub) res" where
  "list_step wanted f st =
     (case st of (n, out, h) \<Rightarrow>
        if wanted then
          bindR (f h) (\<lambda>(k, o', h'). Inr (Some ((case n of None \<Rightarrow> 0 | Some i \<Rightarrow> i) + k), out @ o', h'))
        else Inr st)"

definition list_requests ::
  "(run_test_case list \<Rightarrow> run_test_case list) \<Rightarrow> config \<Rightarrow> hub \<Rightarrow> (nat option \<times> string \<times> hub) res" where
  "list_requests shuffle c h =
     (let d = cfg_data c
      in bindR (list_step (listTests d) (list_tests shuffle c) (None, [], h)) (\<lambda>s1.
         bindR (list_step (listTestNamesOnly d) (listTestsNamesOnly shuffle c) s1) (\<lambda>s2.
         bindR (list_step (listTags d) (list_tags shuffle c) s2) (\<lambda>s3.
           list_step (listReporters d) list_reporters s3))))"

section \<open>Sessions\<close>

record session =
  s_configData :: config_data
  s_config :: "config option"
  s_hub :: hub
  s_cout :: string
  s_cerr :: string

definition write_out :: "string \<Rightarrow> session \<Rightarrow> session" where
  "write_out x s = s\<lparr>s_cout := s_cout s @ x\<rparr>"

definition write_err :: "string \<Rightarrow> session \<Rightarrow> session" where
  "write_err x s = s\<lparr>s_cerr := s_cerr s @ x\<rparr>"

definition useConfigData :: "config_data \<Rightarrow> session \<Rightarrow> session" where
  "useConfigData d s = s\<lparr>s_configData := d, s_config := None\<rparr>"

definition session_config :: "(string \<Rightarrow> bool) \<Rightarrow> session \<Rightarrow> (config \<times> session) res" where
  "session_config writable s =
     (case s_config s of
        Some c \<Rightarrow> Inr (c, s)
      | None \<Rightarrow> bindR (as_res (makeConfig writable (hub_aliases (s_hub s)) (s_configData s))) (\<lambda>c. Inr (c, s\<lparr>s_config := Some c\<rparr>)))"

definition int_max :: int where "int_max = 2 ^ 31 - 1"

text \<open>The cast of a \<open>size_t\<close> to the \<open>int\<close> that \<open>main\<close> returns.\<close>

definition exit_code :: "64 word \<Rightarrow> int" where
  "exit_code n = sint (ucast n :: 32 word)"

text \<open>
  What a run comes to, and the session it leaves. What a failing list has written before it
  failed, and what a failing run has reported, is left out.
\<close>

definition session_body ::
  "(string \<Rightarrow> bool) \<Rightarrow> (run_test_case list \<Rightarrow> run_test_case list) \<Rightarrow> answers \<Rightarrow> session \<Rightarrow> (int res \<times> session) option" where
  "session_body writable shuffle clears s =
     (case session_config writable s of
        Inl f \<Rightarrow> Some (Inl f, s)
      | Inr (c, s1) \<Rightarrow>
          (case (if filenamesAsTags (s_configData s1) then applyFilenamesAsTags shuffle c (s_hub s1) else Inr (s_hub s1)) of
             Inl f \<Rightarrow> Some (Inl f, s1)
           | Inr h1 \<Rightarrow>
               (case list_requests shuffle c h1 of
                  Inl f \<Rightarrow> Some (Inl f, s1\<lparr>s_hub := h1\<rparr>)
                | Inr (Some n, out, h2) \<Rightarrow> Some (Inr (exit_code (of_nat n)), write_out out (s1\<lparr>s_hub := h2\<rparr>))
                | Inr (None, out, h2) \<Rightarrow>
                    map_option (\<lambda>r. case r of
                        Inl f \<Rightarrow> (Inl f, s1\<lparr>s_hub := h2\<rparr>)
                      | Inr (t, rc, h3) \<Rightarrow> (Inr (exit_code (failed (assertions t))), s1\<lparr>s_hub := h3\<rparr>))
                      (runTests shuffle clears c h2))))"

text \<open>An exception in the course of a run is shown, and gives the largest \<open>int\<close>.\<close>

definition guarded :: "int res \<times> session \<Rightarrow> int res \<times> session" where
  "guarded r =
     (case r of (Inl (Throws e), s) \<Rightarrow> (Inr int_max, write_err (what e @ endl) s) | _ \<Rightarrow> r)"

definition session_run ::
  "(string \<Rightarrow> bool) \<Rightarrow> (run_test_case list \<Rightarrow> run_test_case list) \<Rightarrow> answers \<Rightarrow> session \<Rightarrow> (int res \<times> session) option" where
  "session_run writable shuffle clears s =
     (if showHelp (s_configData s) then Some (Inr 0, s) else map_option guarded (session_body writable shuffle clears s))"

text \<open>
  The parent of the process sees the lower eight bits of the exit code.
\<close>

definition exit_status :: "int \<Rightarrow> int" where
  "exit_status code = code mod 256"

text \<open>
  The exit status of a process that returns the exit code of a session is zero, the sign of
  success, not only when no assertion failed but whenever their number is a multiple of 256.
\<close>

lemma failures_that_look_like_success:
  "exit_status (exit_code n) = 0 \<longleftrightarrow> 256 dvd unat n"
proof -
  have "take_bit 8 (sint (ucast n :: 32 word)) = take_bit 8 (uint n)"
    by (simp add: sint_uint take_bit_signed_take_bit unsigned_ucast_eq)
  then have "exit_status (exit_code n) = uint n mod 256"
    by (simp add: exit_status_def exit_code_def take_bit_eq_mod)
  also have "uint n mod 256 = 0 \<longleftrightarrow> 256 dvd unat n"
    using of_nat_dvd_iff [where 'a = int, of 256 "unat n"] by (simp add: mod_eq_0_iff_dvd)
  finally show ?thesis .
qed

text \<open>The version that the help shows.\<close>

record version =
  majorVersion :: nat
  minorVersion :: nat
  patchNumber :: nat
  branchName :: string
  buildNumber :: nat

definition show_version :: "version \<Rightarrow> string" where
  "show_version v =
     dec (majorVersion v) @ ''.'' @ dec (minorVersion v) @ ''.'' @ dec (patchNumber v)
     @ (if branchName v \<noteq> [] then ''-'' @ branchName v @ ''.'' @ dec (buildNumber v) else [])"

definition libraryVersion :: version where
  "libraryVersion = \<lparr>majorVersion = 1, minorVersion = 5, patchNumber = 8, branchName = [], buildNumber = 0\<rparr>"

section \<open>Registering test cases\<close>

text \<open>\<open>rfind\<close>: the last position up to \<open>pos\<close> at which \<open>pat\<close> occurs.\<close>

fun str_rfind :: "string \<Rightarrow> string \<Rightarrow> nat \<Rightarrow> nat option" where
  "str_rfind s pat 0 = (if occurs_at s pat 0 then Some 0 else None)"
| "str_rfind s pat (Suc i) = (if occurs_at s pat (Suc i) then Some (Suc i) else str_rfind s pat i)"

text \<open>A name without colons gives \<open>npos\<close>, from which the search goes on over the whole string.\<close>

definition extractClassName :: "string \<Rightarrow> string" where
  "extractClassName cls =
     (if startsWith cls ''&'' then
        (let lastColons = str_rfind cls ''::'' (length cls);
             upto = (case lastColons of Some i \<Rightarrow> i - 1 | None \<Rightarrow> length cls);
             penultimate = (case str_rfind cls ''::'' upto of Some i \<Rightarrow> i | None \<Rightarrow> 1)
         in case lastColons of Some i \<Rightarrow> take (i - penultimate) (drop penultimate cls) | None \<Rightarrow> drop penultimate cls)
      else cls)"

lemma extract_class:
  "extractClassName ''&Cls::test'' = ''Cls''" "extractClassName ''&ns::Cls::test'' = ''::Cls''" "extractClassName ''Cls'' = ''Cls''"
  by (simp_all add: extractClassName_def startsWith_def occurs_at_def eval_nat_numeral)

definition registerTestCase ::
  "test_step list \<Rightarrow> string \<Rightarrow> string \<Rightarrow> string \<Rightarrow> source_line_info \<Rightarrow> hub \<Rightarrow> string + hub" where
  "registerTestCase body cls name descr li h =
     (case makeTestCase body (extractClassName cls) name descr li of
        Inl msg \<Rightarrow> Inl msg
      | Inr tc \<Rightarrow> Inr (h\<lparr>hub_tests := registerTest tc (hub_tests h)\<rparr>))"

section \<open>Signals\<close>

text \<open>The signals that are handled, with their numbers on Linux.\<close>

definition signalDefs :: "(int \<times> string) list" where
  "signalDefs =
     [(2, ''SIGINT - Terminal interrupt signal''), (4, ''SIGILL - Illegal instruction signal''),
      (8, ''SIGFPE - Floating point error signal''), (11, ''SIGSEGV - Segmentation violation signal''),
      (15, ''SIGTERM - Termination request signal''), (6, ''SIGABRT - Abort (abnormal termination) signal'')]"

definition handleFatalErrorCondition ::
  "run_env \<Rightarrow> run_test_case \<Rightarrow> string \<Rightarrow> run_context \<Rightarrow> run_context res" where
  "handleFatalErrorCondition env tc msg rc =
     bindR (captureExpression env (streamInto msg (setResultType FatalErrorCondition (makeUnexpectedResultBuilder rc))) rc) (\<lambda>(b, rc1).
     bindR (handleUnfinishedSections env rc1) (\<lambda>rc2.
       let rc3 = report (SectionEnded (test_section tc) \<lparr>passed = 0, failed = 1, failedButOk = 0\<rparr> False) rc2;
           d = no_totals\<lparr>testCases := no_counts\<lparr>failed := 1\<rparr>\<rparr>;
           rc4 = report (TestCaseEnded (tc_name tc) (className tc) d False) rc3;
           rc5 = rc4\<lparr>rc_totals := (rc_totals rc4)\<lparr>testCases := (testCases (rc_totals rc4))
             \<lparr>failed := failed (testCases (rc_totals rc4)) + 1\<rparr>\<rparr>\<rparr>;
           rc6 = testGroupEnded env [] (rc_totals rc5) 1 1 rc5
       in Inr (report (TestRunEnded (config_name (env_config env)) (rc_totals rc6) False) rc6)))"

text \<open>The handler reports the condition and exits with the negated number of the signal.\<close>

definition handleSignal ::
  "run_env \<Rightarrow> run_test_case \<Rightarrow> int \<Rightarrow> run_context \<Rightarrow> (process_end \<times> run_context) res" where
  "handleSignal env tc sig rc =
     bindR (handleFatalErrorCondition env tc
       (case map_of signalDefs sig of Some n \<Rightarrow> n | None \<Rightarrow> ''<unknown signal>'') rc) (\<lambda>rc'. Inr (Exit (- sig), rc'))"

section \<open>Which tests are started\<close>

text \<open>The tests a run has started or skipped, in order.\<close>

fun verdict_of :: "reporter_event \<Rightarrow> (bool \<times> string) list" where
  "verdict_of (TestCaseStarting n) = [(True, n)]"
| "verdict_of (SkipTest n) = [(False, n)]"
| "verdict_of e = []"

definition verdicts :: "run_context \<Rightarrow> (bool \<times> string) list" where
  "verdicts rc = concat (map verdict_of (rc_events rc))"

text \<open>What running a test keeps: these, and the counts of the test cases.\<close>

definition kept :: "run_context \<Rightarrow> (bool \<times> string) list \<times> counts" where
  "kept rc = (verdicts rc, testCases (rc_totals rc))"

lemma kept_simps [simp]:
  "verdict_of e = [] \<Longrightarrow> kept (report e rc) = kept rc" "kept (on_counts f rc) = kept rc"
  "kept (rc\<lparr>rc_tracker := x1\<rparr>) = kept rc" "kept (rc\<lparr>rc_messages := x2\<rparr>) = kept rc"
  "kept (rc\<lparr>rc_activeSections := x3\<rparr>) = kept rc" "kept (rc\<lparr>rc_generators := x4\<rparr>) = kept rc"
  "kept (rc\<lparr>rc_unfinished := x5\<rparr>) = kept rc" "kept (rc\<lparr>rc_lastAssertionInfo := x6\<rparr>) = kept rc"
  "kept (rc\<lparr>rc_lastResult := x7\<rparr>) = kept rc" "kept (rc\<lparr>rc_messageCount := x8\<rparr>) = kept rc"
  "kept (rc\<lparr>rc_activeTest := x10\<rparr>) = kept rc" "kept (rc\<lparr>rc_testCaseTracker := x11\<rparr>) = kept rc"
  by (simp_all add: kept_def verdicts_def report_def on_counts_def)

lemma assertionEnded_kept [simp]: "kept (assertionEnded env r rc) = kept rc"
  by (simp add: assertionEnded_def Let_def split: prod.split)

lemma capture_kept: "captureExpression env b rc = Inr (b', rc') \<Longrightarrow> kept rc' = kept rc"
  by (auto simp: captureExpression_def bindR_eq_Inr handleResult_def Let_def)

lemma map_sum_Inr: "map_sum id f x = Inr y \<longleftrightarrow> (\<exists>z. x = Inr z \<and> y = f z)"
  by (cases x) auto

lemma macros_kept:
  "test_macro env s e rc = Inr (c, rc') \<Longrightarrow> kept rc' = kept rc"
  "no_throw_macro env s x rc = Inr (c, rc') \<Longrightarrow> kept rc' = kept rc"
  "throws_macro env s a m x rc = Inr (c, rc') \<Longrightarrow> kept rc' = kept rc"
  "throws_as_macro env s y rc = Inr (c, rc') \<Longrightarrow> kept rc' = kept rc"
  "msg_macro env t s z rc = Inr (c, rc') \<Longrightarrow> kept rc' = kept rc"
  "check_that_macro env s a m rc = Inr (c, rc') \<Longrightarrow> kept rc' = kept rc"
  by (auto simp: test_macro_def no_throw_macro_def throws_macro_def throws_as_macro_def msg_macro_def check_that_macro_def
      endExpression_def useActiveException_def captureResult_def captureExpectedException_def handleResult_def
      react_def Let_def map_sum_Inr dest!: capture_kept split: evaluated.splits option.splits if_splits prod.splits)

lemma sectionStarted_kept: "sectionStarted si rc = Inr (c, rc') \<Longrightarrow> kept rc' = kept rc"
  by (auto simp: sectionStarted_def bindR_eq_Inr Let_def split: if_splits)

lemma missing_kept: "testForMissingAssertions env c rc = Inr (m, c', rc') \<Longrightarrow> kept rc' = kept rc"
  by (auto simp: testForMissingAssertions_def bindR_eq_Inr split: if_splits)

lemma close_active_kept: "close_active f rc = Inr rc' \<Longrightarrow> kept rc' = kept rc"
  by (auto simp: close_active_def bindR_eq_Inr split: list.splits)

lemma sectionEnded_kept: "sectionEnded env e rc = Inr rc' \<Longrightarrow> kept rc' = kept rc"
  by (auto simp: sectionEnded_def bindR_eq_Inr dest!: missing_kept close_active_kept split: if_splits)

lemma leave_section_kept: "leave_section env e cr = Inr (c, rc') \<Longrightarrow> kept rc' = kept (snd cr)"
  by (auto simp: leave_section_def sectionEndedEarly_def bindR_eq_Inr
      dest!: sectionEnded_kept close_active_kept split: completion.splits)

lemma handle_unfinished_kept: "handle_unfinished env es rc = Inr rc' \<Longrightarrow> kept rc' = kept rc"
  by (induction es arbitrary: rc) (auto simp: bindR_eq_Inr dest!: sectionEnded_kept)

lemma run_kept:
  "run_step env s rc = Inr (c, rc') \<Longrightarrow> kept rc' = kept rc"
  "run_steps env ss rc = Inr (c, rc') \<Longrightarrow> kept rc' = kept rc"
proof (induction env s rc and env ss rc arbitrary: c rc' and c rc' rule: run_step_run_steps.induct)
  case (7 env macro line tx body rc)
  then show ?case
    by (auto simp: map_sum_Inr pushScopedMessage_def popScopedMessage_def Let_def split: prod.splits)
next
  case (8 env si body rc)
  then show ?case
    by (auto simp: bindR_eq_Inr dest!: sectionStarted_kept leave_section_kept split: option.splits)
next
  case (9 env g rc)
  then show ?case by (auto simp: Let_def split: prod.splits sum.splits failure.splits)
next
  case (12 env s ss rc)
  obtain c1 rc1 where one: "run_step env s rc = Inr (c1, rc1)"
    and two: "(case c1 of Completed \<Rightarrow> run_steps env ss rc1 | _ \<Rightarrow> Inr (c1, rc1)) = Inr (c, rc')"
    using 12(3) by (auto simp: bindR_eq_Inr)
  show ?case
    using 12(1) [OF one] two 12(2) [OF one refl] by (cases c1) auto
qed (auto dest: macros_kept)

lemma invoke_kept: "invokeActiveTestCase env tc rc = Inr rc' \<Longrightarrow> kept rc' = kept rc"
proof -
  assume "invokeActiveTestCase env tc rc = Inr rc'"
  then obtain c rc1 where rc1: "run_steps env (test_body tc) rc = Inr (c, rc1)"
    and c: "(case c of Completed \<Rightarrow> Inr rc1 | Test_failure \<Rightarrow> Inr rc1
      | Raised x \<Rightarrow> map_sum id snd (useActiveException env NormalDisposition x (makeUnexpectedResultBuilder rc1) rc1)) = Inr rc'"
    unfolding invokeActiveTestCase_def bindR_eq_Inr by auto
  show ?thesis
  proof (cases c)
    case (Raised x)
    then show ?thesis
      using c run_kept(2) [OF rc1]
      by (auto simp: map_sum_Inr useActiveException_def captureResult_def dest!: capture_kept)
  qed (use c run_kept(2) [OF rc1] in auto)
qed

lemma excuse_kept [simp]: "kept (snd (excuse_failures tc c rc)) = kept rc"
  by (simp add: excuse_failures_def Let_def)

lemma current_test_kept: "runCurrentTest env tc rc = Inr rc' \<Longrightarrow> kept rc' = kept rc"
  unfolding runCurrentTest_def bindR_eq_Inr Let_def
  by (auto simp: bindR_eq_Inr close_test_case_def handleUnfinishedSections_def case_prod_unfold
      dest!: invoke_kept handle_unfinished_kept missing_kept split: option.splits)

lemma run_cycle_kept: "run_cycle env tc rc = Inr (again, rc') \<Longrightarrow> kept rc' = kept rc"
  by (auto simp: run_cycle_def bindR_eq_Inr dest!: current_test_kept)

lemma run_cycles_kept: "run_cycles env tc rc = Some r \<Longrightarrow> \<forall>rc'. r = Inr rc' \<longrightarrow> kept rc' = kept rc"
proof (induction rule: run_cycles.raw_induct [rotated, consumes 1])
  case (1 f env tc rc r)
  show ?case
  proof (cases "run_cycle env tc rc")
    case (Inr a)
    then show ?thesis
      using 1 run_cycle_kept [of env tc rc] by (cases a) (auto split: if_splits)
  qed (use 1(2) in auto)
qed

lemma run_generators_kept:
  "run_generators env tc rc = Some r \<Longrightarrow> \<forall>rc'. r = Inr rc' \<longrightarrow> kept rc' = kept rc"
proof (induction rule: run_generators.raw_induct [rotated, consumes 1])
  case (1 f env tc rc r)
  obtain r1 where r1: "run_cycles env tc (rc\<lparr>rc_tracker := startRun (rc_tracker rc)\<rparr>) = Some r1"
    using 1(2) by (cases "run_cycles env tc (rc\<lparr>rc_tracker := startRun (rc_tracker rc)\<rparr>)") auto
  show ?case
  proof (cases r1)
    case (Inl e)
    then show ?thesis using 1(2) r1 by auto
  next
    case (Inr rc1)
    obtain moved rc2 where adv: "advance_generators rc1 = (moved, rc2)" by fastforce
    have "kept rc1 = kept rc" using run_cycles_kept [OF r1] Inr by simp
    moreover have "kept rc2 = kept rc1"
      using adv by (auto simp: advance_generators_def Let_def split: prod.splits)
    ultimately show ?thesis using 1 r1 Inr adv by (auto split: if_splits)
  qed
qed

lemma delta_counts_one:
  "testCases t = testCases prev \<Longrightarrow> total (testCases (delta t prev)) = 1"
  by (simp add: delta_def Let_def totals_minus_def counts_minus_def total_def)

lemma finish_test_spec:
  assumes "finish_test env tc prev rc = (d, rc')" "testCases (rc_totals rc) = testCases prev"
  shows "verdicts rc' = verdicts rc" "total (testCases d) = 1"
proof -
  show "verdicts rc' = verdicts rc"
    using assms(1) by (auto simp: finish_test_def Let_def verdicts_def report_def)
  show "total (testCases d) = 1"
    using assms(1) delta_counts_one [OF assms(2)]
    by (auto simp: finish_test_def Let_def total_def algebra_simps split: if_splits)
qed

lemma runTest_verdicts:
  assumes "runTest env tc rc = Some (Inr (d, rc'))"
  shows "verdicts rc' = verdicts rc @ [(True, tc_name tc)] \<and> total (testCases d) = 1"
proof -
  let ?rc0 = "(report (TestCaseStarting (tc_name tc)) rc)\<lparr>rc_activeTest := Some (tc_name tc)\<rparr>"
  obtain rc1 where rc1: "run_generators env tc ?rc0 = Some (Inr rc1)" "finish_test env tc (rc_totals rc) rc1 = (d, rc')"
    using assms by (auto simp: runTest_def Option.bind_eq_Some_conv bindR_eq_Inr)
  have "kept rc1 = kept ?rc0" using run_generators_kept [OF rc1(1)] by simp
  moreover have "kept ?rc0 = (verdicts rc @ [(True, tc_name tc)], testCases (rc_totals rc))"
    by (simp add: kept_def verdicts_def report_def)
  ultimately show ?thesis using finish_test_spec [OF rc1(2)] by (simp add: kept_def)
qed

definition counted :: "(bool \<times> string) list \<Rightarrow> 64 word" where
  "counted vs = of_nat (length (filter fst vs))"

text \<open>
  A test is started when it is selected and the failures in the tests before it have not reached the
  number at which the run is to stop.
\<close>

definition starts_after :: "run_env \<Rightarrow> test_spec \<Rightarrow> totals \<Rightarrow> run_context \<Rightarrow> run_test_case list \<Rightarrow> run_test_case \<Rightarrow> bool \<Rightarrow> bool" where
  "starts_after env spec t rc before tc started \<longleftrightarrow>
     (\<exists>t' rc'. run_all env spec before t rc = Some (Inr (t', rc'))
       \<and> (started \<longleftrightarrow> matchTest tc spec (env_config env)
            \<and> failed (assertions (rc_totals rc')) \<noteq> word_of_int (abortAfter (cfg_data (env_config env)))))"

lemma starts_after_Cons:
  assumes "\<And>us. run_all env spec (tc # us) t rc = run_all env spec us t1 rc1"
    and "\<forall>i<length tcs. starts_after env spec t1 rc1 (take i tcs) (tcs ! i) (fst (vs ! i))"
    and "started \<longleftrightarrow> \<not> aborting env rc \<and> matchTest tc spec (env_config env)"
  shows "\<forall>i<length (tc # tcs). starts_after env spec t rc (take i (tc # tcs)) ((tc # tcs) ! i) (fst (((started, n) # vs) ! i))"
proof (intro allI impI)
  fix i assume i: "i < length (tc # tcs)"
  show "starts_after env spec t rc (take i (tc # tcs)) ((tc # tcs) ! i) (fst (((started, n) # vs) ! i))"
  proof (cases i)
    case 0
    then show ?thesis using assms(3) by (auto simp: starts_after_def aborting_def)
  next
    case (Suc j)
    then show ?thesis using assms(2) i by (simp add: starts_after_def assms(1) del: run_all.simps)
  qed
qed

lemma run_all_verdicts:
  "run_all env spec tcs t rc = Some (Inr (t', rc')) \<Longrightarrow>
     \<exists>vs. verdicts rc' = verdicts rc @ vs \<and> map snd vs = map tc_name tcs
       \<and> (\<forall>i<length tcs. starts_after env spec t rc (take i tcs) (tcs ! i) (fst (vs ! i)))
       \<and> total (testCases t') = total (testCases t) + counted vs"
proof (induction tcs arbitrary: t rc)
  case Nil
  then show ?case by (simp add: counted_def)
next
  case (Cons tc tcs)
  show ?case
  proof (cases "\<not> aborting env rc \<and> matchTest tc spec (env_config env)")
    case True
    then obtain r where r: "runTest env tc rc = Some r" using Cons.prems by (cases "runTest env tc rc") auto
    moreover from this obtain d rc1 where "r = Inr (d, rc1)" using Cons.prems True by (cases r) auto
    ultimately have run: "runTest env tc rc = Some (Inr (d, rc1))"
      "run_all env spec tcs (totals_plus t d) rc1 = Some (Inr (t', rc'))"
      using Cons.prems True by auto
    obtain vs where vs: "verdicts rc' = verdicts rc1 @ vs" "map snd vs = map tc_name tcs"
      "\<forall>i<length tcs. starts_after env spec (totals_plus t d) rc1 (take i tcs) (tcs ! i) (fst (vs ! i))"
      "total (testCases t') = total (testCases (totals_plus t d)) + counted vs"
      using Cons.IH [OF run(2)] by blast
    have "total (testCases (totals_plus t d)) = total (testCases t) + total (testCases d)"
      by (simp add: totals_plus_def counts_plus_def total_def)
    moreover have "run_all env spec (tc # us) t rc = run_all env spec us (totals_plus t d) rc1" for us
      using True run(1) by simp
    note starts_after_Cons [OF this vs(3), of True "tc_name tc"]
    ultimately show ?thesis
      using vs runTest_verdicts [OF run(1)] True
      by (intro exI [of _ "(True, tc_name tc) # vs"]) (simp add: counted_def)
  next
    case False
    let ?rc = "report (SkipTest (tc_name tc)) rc"
    obtain vs where vs: "verdicts rc' = verdicts ?rc @ vs" "map snd vs = map tc_name tcs"
      "\<forall>i<length tcs. starts_after env spec t ?rc (take i tcs) (tcs ! i) (fst (vs ! i))"
      "total (testCases t') = total (testCases t) + counted vs"
      using Cons.IH [of t ?rc] Cons.prems False by (auto split: if_splits)
    moreover have "run_all env spec (tc # us) t rc = run_all env spec us t ?rc" for us
      using False by auto
    note starts_after_Cons [OF this vs(3), of False "tc_name tc"]
    ultimately show ?thesis using False
      by (intro exI [of _ "(False, tc_name tc) # vs"]) (simp add: counted_def verdicts_def report_def)
  qed
qed

lemma runTests_verdicts:
  assumes "runTests shuffle clears c h = Some (Inr (t, rc, h'))"
  shows "\<exists>tcs reg rep. getAllTestsSorted shuffle (runOrder (cfg_data c)) (hub_tests h) = Inr (tcs, reg)
    \<and> makeReporter h (cfg_data c) = Inr rep \<and> map snd (verdicts rc) = map tc_name tcs
    \<and> (\<forall>i<length tcs. starts_after (run_env_of clears h rep c) (run_spec (hub_aliases h) c) no_totals
          (testGroupStarting (config_name c) 1 1 (newRunContext (run_env_of clears h rep c))) (take i tcs) (tcs ! i)
          (fst (verdicts rc ! i)))
    \<and> total (testCases t) = counted (verdicts rc)"
proof -
  obtain rep where rep: "makeReporter h (cfg_data c) = Inr rep"
    using assms by (cases "makeReporter h (cfg_data c)") (auto simp: runTests_def as_res_def)
  let ?env = "run_env_of clears h rep c"
  let ?rc0 = "testGroupStarting (config_name c) 1 1 (newRunContext ?env)"
  obtain tcs reg where g: "getAllTestsSorted shuffle (runOrder (cfg_data c)) (hub_tests h) = Inr (tcs, reg)"
    using assms rep
    by (cases "getAllTestsSorted shuffle (runOrder (cfg_data c)) (hub_tests h)") (auto simp: runTests_def as_res_def Let_def)
  obtain r where r: "run_all ?env (run_spec (hub_aliases h) c) tcs no_totals ?rc0 = Some r"
    and r': "bindR r (\<lambda>(t, rc). Inr (t, endRunContext ?env (testGroupEnded ?env (config_name c) t 1 1 rc),
      h\<lparr>hub_tests := reg\<rparr>)) = Inr (t, rc, h')"
    using assms rep g by (auto simp: runTests_def as_res_def Let_def Option.bind_eq_Some_conv)
  obtain rc1 where rc1: "r = Inr (t, rc1)" "rc = endRunContext ?env (testGroupEnded ?env (config_name c) t 1 1 rc1)"
    using r' by (auto simp: bindR_eq_Inr)
  have "verdicts ?rc0 = []" by (simp add: verdicts_def testGroupStarting_def report_def newRunContext_def)
  moreover have "verdicts rc = verdicts rc1"
    by (simp add: rc1(2) endRunContext_def testGroupEnded_def verdicts_def report_def)
  moreover have "total (testCases no_totals) = 0" by (simp add: no_totals_def no_counts_def total_def)
  ultimately show ?thesis using run_all_verdicts [OF r [unfolded rc1(1)]] g rep by auto
qed

text \<open>
  C32. A run that comes to its end has started or skipped every registered test exactly once, in
  the order that was asked for: as registered, by name, or as they were shuffled. It has started a test
  exactly when the specification selects it and, after the tests before it, the failed assertions are
  not as many as the run is to stop at. The counts of its totals add up to the number of the tests that
  were started.
\<close>

theorem tests_are_started_or_skipped:
  assumes "runTests shuffle clears c h = Some (Inr (t, rc, h'))"
    and "registry_ok shuffle (hub_tests h)" "\<And>tcs. mset (shuffle tcs) = mset tcs"
  shows "\<exists>tcs rep. mset tcs = mset (m_functions (hub_tests h)) \<and> distinct (map tc_name tcs)
    \<and> (runOrder (cfg_data c) = InDeclarationOrder \<longrightarrow> tcs = m_functions (hub_tests h))
    \<and> (runOrder (cfg_data c) = InLexicographicalOrder \<longrightarrow> sorted (map tc_name tcs))
    \<and> (runOrder (cfg_data c) = InRandomOrder \<longrightarrow> tcs = shuffle (m_functions (hub_tests h)))
    \<and> makeReporter h (cfg_data c) = Inr rep \<and> map snd (verdicts rc) = map tc_name tcs
    \<and> (\<forall>i<length tcs. \<exists>ti rci.
          run_all (run_env_of clears h rep c) (run_spec (hub_aliases h) c) (take i tcs) no_totals
            (testGroupStarting (config_name c) 1 1 (newRunContext (run_env_of clears h rep c))) = Some (Inr (ti, rci))
        \<and> (fst (verdicts rc ! i) \<longleftrightarrow> matchTest (tcs ! i) (run_spec (hub_aliases h) c) c
              \<and> failed (assertions (rc_totals rci)) \<noteq> word_of_int (abortAfter (cfg_data c))))
    \<and> total (testCases t) = counted (verdicts rc)"
proof -
  obtain tcs reg rep where r: "getAllTestsSorted shuffle (runOrder (cfg_data c)) (hub_tests h) = Inr (tcs, reg)"
    "makeReporter h (cfg_data c) = Inr rep" "map snd (verdicts rc) = map tc_name tcs"
    "\<forall>i<length tcs. starts_after (run_env_of clears h rep c) (run_spec (hub_aliases h) c) no_totals
          (testGroupStarting (config_name c) 1 1 (newRunContext (run_env_of clears h rep c))) (take i tcs) (tcs ! i)
          (fst (verdicts rc ! i))"
    "total (testCases t) = counted (verdicts rc)"
    using runTests_verdicts [OF assms(1)] by blast
  note tcs = sorted_tests_in_order [OF assms(2) r(1)]
  have perm: "mset tcs = mset (m_functions (hub_tests h))"
    using assms(3) by (simp add: tcs(1) sortTests_def split: run_order.splits)
  have "distinct (map tc_name tcs)"
    using tcs(2) mset_eq_imp_distinct_iff [of "map tc_name tcs" "map tc_name (m_functions (hub_tests h))"] perm by simp
  moreover have "env_config (run_env_of clears h rep c) = c" by (simp add: run_env_of_def)
  ultimately show ?thesis using r(2-5) perm
    unfolding starts_after_def by (intro exI [of _ tcs] exI [of _ rep]) (simp add: tcs(1) sortTests_def)
qed

section \<open>A session whose tests pass\<close>

definition good_test :: "run_env \<Rightarrow> run_test_case \<Rightarrow> bool" where
  "good_test env tc \<longleftrightarrow> passing env (test_body tc) \<and> well_named (test_body tc) \<and> \<not> expectedToFail tc"

lemma run_all_passing:
  fixes rc :: run_context
  assumes "\<forall>tc\<in>set tcs. matchTest tc spec (env_config env) \<longrightarrow> good_test env tc"
    and "\<not> warnNoAssertions (cfg_data (env_config env))"
    and "rc_unfinished rc = []" "\<not> aborting env rc" "rc_generators rc = (\<lambda>n. None)"
  shows "\<exists>t' rc'. run_all env spec tcs t rc = Some (Inr (t', rc'))
    \<and> verdicts rc' = verdicts rc @ map (\<lambda>tc. (matchTest tc spec (env_config env), tc_name tc)) tcs
    \<and> failed (assertions t') = failed (assertions t)"
  using assms
proof (induction tcs arbitrary: t rc)
  case Nil
  then show ?case by simp
next
  case (Cons tc tcs)
  show ?case
  proof (cases "matchTest tc spec (env_config env)")
    case True
    then have good: "passing env (test_body tc)" "well_named (test_body tc)" "\<not> expectedToFail tc"
      using Cons.prems(1) by (auto simp: good_test_def)
    obtain d rc1 where run: "runTest env tc rc = Some (Inr (d, rc1))" "rc_unfinished rc1 = []"
      "rc_generators rc1 = rc_generators rc" "failed (run_counts rc1) = failed (run_counts rc)" "failed (assertions d) = 0"
      using passing_test_runs [OF good(1,2) Cons.prems(2) good(3) Cons.prems(3,4)] Cons.prems(5) by auto
    have ok: "\<not> aborting env rc1" using Cons.prems(4) run(4) by (simp add: aborting_def)
    obtain t' rc' where rest: "run_all env spec tcs (totals_plus t d) rc1 = Some (Inr (t', rc'))"
      "verdicts rc' = verdicts rc1 @ map (\<lambda>tc. (matchTest tc spec (env_config env), tc_name tc)) tcs"
      "failed (assertions t') = failed (assertions (totals_plus t d))"
      using Cons.IH [of rc1 "totals_plus t d"] Cons.prems run ok by auto
    have "failed (assertions (totals_plus t d)) = failed (assertions t)"
      using run(5) by (simp add: totals_plus_def counts_plus_def)
    then show ?thesis using run(1) rest runTest_verdicts [OF run(1)] True Cons.prems(4) by auto
  next
    case False
    let ?rc = "report (SkipTest (tc_name tc)) rc"
    have keep: "rc_unfinished ?rc = []" "\<not> aborting env ?rc" "rc_generators ?rc = (\<lambda>n. None)"
      using Cons.prems by (simp_all add: report_def aborting_def)
    obtain t' rc' where "run_all env spec tcs t ?rc = Some (Inr (t', rc'))"
      "verdicts rc' = verdicts ?rc @ map (\<lambda>tc. (matchTest tc spec (env_config env), tc_name tc)) tcs"
      "failed (assertions t') = failed (assertions t)"
      using Cons.IH [OF _ Cons.prems(2) keep, of t] Cons.prems(1) by (meson list.set_intros(2))
    then show ?thesis using False by (simp add: verdicts_def report_def)
  qed
qed

lemma runTests_passing:
  assumes "makeReporter h (cfg_data c) = Inr rep"
    and "getAllTestsSorted shuffle (runOrder (cfg_data c)) (hub_tests h) = Inr (tcs, reg)"
    and "\<forall>tc\<in>set tcs. matchTest tc (run_spec (hub_aliases h) c) c \<longrightarrow> good_test (run_env_of clears h rep c) tc"
    and "\<not> warnNoAssertions (cfg_data c)" "(word_of_int (abortAfter (cfg_data c)) :: 64 word) \<noteq> 0"
  shows "\<exists>t rc. runTests shuffle clears c h = Some (Inr (t, rc, h\<lparr>hub_tests := reg\<rparr>))
    \<and> verdicts rc = map (\<lambda>tc. (matchTest tc (run_spec (hub_aliases h) c) c, tc_name tc)) tcs
    \<and> failed (assertions t) = 0"
proof -
  let ?env = "run_env_of clears h rep c"
  let ?rc0 = "testGroupStarting (config_name c) 1 1 (newRunContext ?env)"
  have env: "env_config ?env = c" by (simp add: run_env_of_def)
  have rc0: "rc_unfinished ?rc0 = []" "\<not> aborting ?env ?rc0" "rc_generators ?rc0 = (\<lambda>n. None)" "verdicts ?rc0 = []"
    using assms(5) by (auto simp: testGroupStarting_def newRunContext_def report_def aborting_def verdicts_def
        no_totals_def no_counts_def env)
  obtain t rc where run: "run_all ?env (run_spec (hub_aliases h) c) tcs no_totals ?rc0 = Some (Inr (t, rc))"
    "verdicts rc = map (\<lambda>tc. (matchTest tc (run_spec (hub_aliases h) c) c, tc_name tc)) tcs"
    "failed (assertions t) = 0"
    using run_all_passing [of tcs "run_spec (hub_aliases h) c" ?env ?rc0 no_totals] assms(3,4) rc0
    by (auto simp: env no_totals_def no_counts_def)
  then show ?thesis
    using assms(1,2) unfolding runTests_def Let_def
    by (simp add: as_res_def endRunContext_def testGroupEnded_def verdicts_def report_def)
qed

lemma list_requests_none:
  assumes "\<not> listTests (cfg_data c)" "\<not> listTestNamesOnly (cfg_data c)" "\<not> listTags (cfg_data c)" "\<not> listReporters (cfg_data c)"
  shows "list_requests shuffle c h = Inr (None, [], h)"
  using assms by (simp add: list_requests_def list_step_def Let_def)

text \<open>
  C30. A session without requests for lists or tags of file names, whose reporters are registered,
  whose tests have different names and whose selected tests all pass, ends with exit code 0 after
  it has run every test that is selected, and no other.
\<close>

theorem passing_session_returns_zero:
  assumes "session_config writable s = Inr (c, s1)" "\<not> showHelp (s_configData s)"
    and "\<not> filenamesAsTags (s_configData s1)"
    and "\<not> listTests (cfg_data c)" "\<not> listTestNamesOnly (cfg_data c)" "\<not> listTags (cfg_data c)" "\<not> listReporters (cfg_data c)"
    and "makeReporter (s_hub s1) (cfg_data c) = Inr rep"
    and "getAllTestsSorted shuffle (runOrder (cfg_data c)) (hub_tests (s_hub s1)) = Inr (tcs, reg)"
    and "\<forall>tc\<in>set tcs. matchTest tc (run_spec (hub_aliases (s_hub s1)) c) c \<longrightarrow> good_test (run_env_of clears (s_hub s1) rep c) tc"
    and "\<not> warnNoAssertions (cfg_data c)" "(word_of_int (abortAfter (cfg_data c)) :: 64 word) \<noteq> 0"
  shows "session_run writable shuffle clears s = Some (Inr 0, s1\<lparr>s_hub := (s_hub s1)\<lparr>hub_tests := reg\<rparr>\<rparr>)
    \<and> (\<exists>t rc h'. runTests shuffle clears c (s_hub s1) = Some (Inr (t, rc, h'))
        \<and> verdicts rc = map (\<lambda>tc. (matchTest tc (run_spec (hub_aliases (s_hub s1)) c) c, tc_name tc)) tcs)"
proof -
  obtain t rc where run: "runTests shuffle clears c (s_hub s1) = Some (Inr (t, rc, (s_hub s1)\<lparr>hub_tests := reg\<rparr>))"
    "verdicts rc = map (\<lambda>tc. (matchTest tc (run_spec (hub_aliases (s_hub s1)) c) c, tc_name tc)) tcs"
    "failed (assertions t) = 0"
    using runTests_passing [OF assms(8,9,10,11,12)] by blast
  have "session_body writable shuffle clears s = Some (Inr 0, s1\<lparr>s_hub := (s_hub s1)\<lparr>hub_tests := reg\<rparr>\<rparr>)"
    using assms(1,3) list_requests_none [OF assms(4,5,6,7)] run(1,3) by (simp add: session_body_def exit_code_def)
  then show ?thesis using assms(2) run(1,2) by (simp add: session_run_def guarded_def)
qed

text \<open>A session with one test, whose selection is the default one.\<close>

definition example_hub :: hub where
  "example_hub = registerReporter ''console'' ''Reports test results as plain lines of text''
     \<lparr>hub_tests = registerTest example_test newTestRegistry, hub_aliases = Map.empty, hub_reporters = [], hub_listeners = []\<rparr>"

definition example_session :: session where
  "example_session = \<lparr>s_configData = newConfigData, s_config = None, s_hub = example_hub, s_cout = [], s_cerr = []\<rparr>"

definition example_config :: config where
  "example_config = \<lparr>cfg_data = newConfigData, cfg_stream = Cout_stream, m_testSpec = []\<rparr>"

lemma example_facts:
  "makeReporter example_hub newConfigData = Inr (One_reporter ''console'')"
  "getAllTestsSorted rev InDeclarationOrder (hub_tests example_hub)
     = Inr ([example_test], (hub_tests example_hub)\<lparr>m_sortedFunctions := [example_test]\<rparr>)"
  by (simp_all add: makeReporter_def createReporter_def example_hub_def newConfigData_def registerReporter_def
      getAllTestsSorted_def newTestRegistry_def registerTest_def example_test_def enforceNoDuplicateTestCases_def
      sortTests_def)

lemma example_good: "good_test env example_test"
  by (simp add: good_test_def example_passes example_well_named)

lemma passing_session_returns_zero_witness:
  "\<exists>s'. session_run (\<lambda>_. True) rev (\<lambda>n r ms t. True) example_session = Some (Inr 0, s')"
proof -
  let ?s = "example_session\<lparr>s_config := Some example_config\<rparr>"
  have "session_config (\<lambda>_. True) example_session = Inr (example_config, ?s)"
    by (simp add: session_config_def example_session_def makeConfig_def openStream_def newConfigData_def as_res_def
        example_config_def)
  moreover have "cfg_data example_config = newConfigData" "s_hub ?s = example_hub" "s_configData example_session = newConfigData"
    by (simp_all add: example_config_def example_session_def)
  moreover have "\<not> showHelp newConfigData" "\<not> filenamesAsTags newConfigData" "\<not> listTests newConfigData"
    "\<not> listTestNamesOnly newConfigData" "\<not> listTags newConfigData" "\<not> listReporters newConfigData"
    "\<not> warnNoAssertions newConfigData" "(word_of_int (abortAfter newConfigData) :: 64 word) \<noteq> 0"
    "runOrder newConfigData = InDeclarationOrder"
    by (simp_all add: newConfigData_def)
  ultimately show ?thesis
    using passing_session_returns_zero [of "\<lambda>_. True" example_session example_config ?s "One_reporter ''console''" rev] example_facts example_good
    by simp
qed

lemma tests_are_started_or_skipped_witness:
  "\<exists>t rc h'. runTests rev (\<lambda>n r ms t. True) example_config example_hub = Some (Inr (t, rc, h'))
    \<and> verdicts rc = [(True, ''sections'')]"
proof -
  have c: "cfg_data example_config = newConfigData" "\<not> warnNoAssertions newConfigData"
    "(word_of_int (abortAfter newConfigData) :: 64 word) \<noteq> 0" "runOrder newConfigData = InDeclarationOrder"
    by (simp_all add: example_config_def newConfigData_def)
  obtain t rc where run: "runTests rev (\<lambda>n r ms t. True) example_config example_hub = Some (Inr (t, rc, example_hub\<lparr>hub_tests
      := (hub_tests example_hub)\<lparr>m_sortedFunctions := [example_test]\<rparr>\<rparr>))"
    using runTests_passing [of example_hub example_config "One_reporter ''console''" rev "[example_test]"
        "(hub_tests example_hub)\<lparr>m_sortedFunctions := [example_test]\<rparr>" "\<lambda>n r ms t. True"]
      example_facts example_good c by auto
  have n: "tc_name example_test = ''sections''" by (simp add: example_test_def)
  have reg: "m_functions (hub_tests example_hub) = [example_test]" "m_sortedFunctions (hub_tests example_hub) = []"
    using n by (simp_all add: example_hub_def registerReporter_def registerTest_def newTestRegistry_def)
  have "matchTest example_test (run_spec (hub_aliases example_hub) example_config) example_config"
    by (simp add: run_spec_def example_config_def example_hub_def registerReporter_def parse_printed_default matchTest_def
        allowThrows_def newConfigData_def example_test_def makeTagPattern_def toLower_def)
  moreover have "failed (assertions (rc_totals (testGroupStarting m i j (newRunContext env)))) = 0" for m i j env
    by (simp add: testGroupStarting_def newRunContext_def report_def no_totals_def no_counts_def)
  ultimately show ?thesis using tests_are_started_or_skipped [OF run] reg n c run
    by (auto simp: registry_ok_def length_Suc_conv)
qed

end
