(* ===== verification/Own_Tests.thy ===== *)
theory Own_Tests
  imports Service Client Catch_Session
begin

text \<open>
  The program's own tests (\<open>test/sys_info_tests.cpp\<close>) as test cases of the modelled test framework: what
  each statement of a test comes to is computed by the models of the functions it calls. The files, the
  database, the network and the contents of uninitialised arrays are arguments. A test is the list of
  its statements that use the framework; every cycle evaluates the others alike. What a test prints is
  left out. The theorem is that all of them pass.
\<close>

section \<open>Statements of the tests\<close>

definition test_file :: string where
  "test_file = ''test/sys_info_tests.cpp''"

definition require :: "nat \<Rightarrow> string \<Rightarrow> evaluated \<Rightarrow> test_step" where
  "require line expr e =
     Test \<lparr>site_macro = ''REQUIRE'', site_line = SourceLineInfo test_file line, site_text = expr,
       site_disposition = NormalDisposition\<rparr> e"

definition test_block :: "nat \<Rightarrow> string \<Rightarrow> test_step list \<Rightarrow> test_step" where
  "test_block line name body =
     Section \<lparr>si_name = name, si_description = [], si_lineInfo = SourceLineInfo test_file line\<rparr> body"

text \<open>A call in a test: an exception leaves the block it stands in, anything worse ends the test program.\<close>

definition calling :: "'a res \<Rightarrow> ('a \<Rightarrow> test_step list res) \<Rightarrow> test_step list res" where
  "calling r f =
     (case r of
        Inl (Throws e) \<Rightarrow> Inr [Throw_exception (what e)]
      | Inl u \<Rightarrow> Inl u
      | Inr x \<Rightarrow> f x)"

definition in_section :: "nat \<Rightarrow> string \<Rightarrow> test_step list res \<Rightarrow> test_step res" where
  "in_section line name body = bindR body (\<lambda>b. Inr (test_block line name b))"

fun all_of :: "test_step res list \<Rightarrow> test_step list res" where
  "all_of [] = Inr []"
| "all_of (r # rs) = bindR r (\<lambda>s. bindR (all_of rs) (\<lambda>ss. Inr (s # ss)))"

definition dq :: string where
  "dq = [CHR 0x22]"

abbreviation config_path :: string where
  "config_path \<equiv> ''../test/resources/server_config.xml''"

section \<open>The configuration files\<close>

definition server_config_test :: "'pt ptree_api \<Rightarrow> test_step list res" where
  "server_config_test api =
     calling (get_authorized_clients_and_details api config_path) (\<lambda>clients.
       let jill = fst (map_index clients ''jill''); c_config = fst (map_index clients ''mary'')
       in Inr
        [test_block 19 ''Number of authorized clients should be three.''
           [require 20 ''authorized_clients.size() == 3''
              (Compared IsEqualTo (Op_ulong (of_nat (card (dom clients)))) (Op_int 3))],
         test_block 23 ''Entry with key [jill] should have an email of jill@jill.com''
           [require 24 (''authorized_clients['' @ dq @ ''jill'' @ dq @ ''].email == '' @ dq @ ''jill@jill.com'' @ dq)
              (Compared_strings IsEqualTo (email jill) ''jill@jill.com'')],
         test_block 27 ''Entry with key [mary] should have limits of memory: 27, cpu: 24, processes: 45''
           [require 29 ''c_config.memory_limit == 27'' (Compared IsEqualTo (Op_ulong (memory_limit c_config)) (Op_int 27)),
            require 30 ''c_config.cpu_limit == 36'' (Compared IsEqualTo (Op_ulong (cpu_limit c_config)) (Op_int 36)),
            require 31 ''c_config.processes_limit == 45''
              (Compared IsEqualTo (Op_ulong (processes_limit c_config)) (Op_int 45))]])"

definition expected_connection :: string where
  "expected_connection = ''dbname=hector user=mkts password=password hostaddr=192.6.6.6 port=1111''"

text \<open>Here the call stands in the expression of the assertion, which reports an exception.\<close>

definition db_settings_test :: "'pt ptree_api \<Rightarrow> test_step list res" where
  "db_settings_test api =
     (let check = require 38
            (''get_connection_string('' @ dq @ ''../test/resources/db_settings.xml'' @ dq @ '') == connection_string'')
      in case get_connection_string api ''../test/resources/db_settings.xml'' of
           Inl (Throws e) \<Rightarrow> Inr [check (Raises (what e))]
         | Inl u \<Rightarrow> Inl u
         | Inr s \<Rightarrow> Inr [check (Compared_strings IsEqualTo s expected_connection)])"

section \<open>The functions on clients\<close>

definition example_line :: string where
  "example_line = ''xxx|16|88|25|Sat Nov 26 18:31:34 2016''"

definition expected_insert :: string where
  "expected_insert =
     ''INSERT INTO CLIENT_INFO (CLIENT_KEY, MEMORY_PCT, CPU_PCT, NO_PROCESSES, DT_TIME) VALUES ('' @ [CHR 0x27]
     @ ''xxx'' @ [CHR 0x27] @ '', 16, 88, 25, '' @ [CHR 0x27] @ ''Sat Nov 26 18:31:34 2016'' @ [CHR 0x27] @ '');''"

definition parse_section :: "string_algo \<Rightarrow> test_step list res" where
  "parse_section alg =
     calling (parse_to_client_detail alg example_line) (\<lambda>c_detail. Inr
       [require 55 (''c_detail.client_key == '' @ dq @ ''xxx'' @ dq)
          (Compared_strings IsEqualTo (client_key c_detail) ''xxx''),
        require 56 ''c_detail.curr_memory_pct == 16''
          (Compared IsEqualTo (Op_ulong (curr_memory_pct c_detail)) (Op_int 16)),
        require 57 ''c_detail.curr_cpu_pct == 88'' (Compared IsEqualTo (Op_ulong (curr_cpu_pct c_detail)) (Op_int 88)),
        require 58 ''c_detail.curr_processes_cnt == 25''
          (Compared IsEqualTo (Op_ulong (curr_processes_cnt c_detail)) (Op_int 25)),
        require 59 (''c_detail.str_dt_time == '' @ dq @ ''Sat Nov 26 18:31:34 2016'' @ dq)
          (Compared_strings IsEqualTo (str_dt_time c_detail) ''Sat Nov 26 18:31:34 2016'')])"

definition insert_section :: "string_algo \<Rightarrow> test_step list res" where
  "insert_section alg =
     calling (parse_to_client_detail alg example_line) (\<lambda>c_detail. Inr
       [require 67 ''generate_insert_str_for(c_detail) == insert_query''
          (Compared_strings IsEqualTo (generate_insert_str_for c_detail) expected_insert)])"

text \<open>The map is changed by the first call, if the key is not in it, before the second one.\<close>

definition mail_section :: "'pt ptree_api \<Rightarrow> string_algo \<Rightarrow> test_step list res" where
  "mail_section api alg =
     calling (get_authorized_clients_and_details api config_path) (\<lambda>clients.
     calling (parse_to_client_detail alg ''jill|16|20|23|Sat Nov 26 18:31:34 2016'') (\<lambda>c_detail1.
     calling (parse_to_client_detail alg ''mary|28|35|44|Sat Nov 26 18:31:34 2016'') (\<lambda>c_detail2.
       let (alert1, clients1) = should_send_email clients (client_key c_detail1) c_detail1;
           (alert2, clients2) = should_send_email clients1 (client_key c_detail2) c_detail2
       in Inr
        [require 75 ''should_send_email(authorized_clients, c_detail1.client_key, c_detail1) == false''
           (Compared_bools IsEqualTo alert1 False),
         require 76 ''should_send_email(authorized_clients, c_detail2.client_key, c_detail2) == true''
           (Compared_bools IsEqualTo alert2 True)])))"

definition utils_test :: "'pt ptree_api \<Rightarrow> string_algo \<Rightarrow> test_step list res" where
  "utils_test api alg =
     calling (get_authorized_clients_and_details api config_path) (\<lambda>clients. all_of
       [in_section 45 ''Client with client_key [ssss] should not be authorized.''
          (Inr [require 46 (''is_client_authorized(authorized_clients, '' @ dq @ ''ssss'' @ dq @ '') == false'')
             (Compared_bools IsEqualTo (is_client_authorized clients ''ssss'') False)]),
        in_section 49 ''Client with client_key [jack] should be authorized.''
          (Inr [require 50 (''is_client_authorized(authorized_clients, '' @ dq @ ''jack'' @ dq @ '') == true'')
             (Compared_bools IsEqualTo (is_client_authorized clients ''jack'') True)]),
        in_section 53 ''Client details  should be parsed successfully.'' (parse_section alg),
        in_section 62 ''INSERT SQL should be generated from client_detail struct.'' (insert_section alg),
        in_section 70 ''Mail should be sent when alerts cross threshold'' (mail_section api alg)])"

section \<open>The database adapter\<close>

definition test_create :: string where
  "test_create = ''CREATE TABLE IF NOT EXISTS CLIENT_INFO_TEST_DATA( ID SERIAL PRIMARY KEY, CLIENT_KEY TEXT, ''
     @ ''MEMORY_PCT INTEGER, CPU_PCT INTEGER, NO_PROCESSES INTEGER, DT_TIME TEXT);''"

definition test_drop :: string where
  "test_drop = ''DROP TABLE CLIENT_INFO_TEST_DATA;''"

definition test_insert :: "client_detail \<Rightarrow> string" where
  "test_insert c_detail = generate_insert_str_for_table c_detail ''CLIENT_INFO_TEST_DATA''"

definition test_select :: "client_detail \<Rightarrow> string" where
  "test_select c_detail =
     ''SELECT ID FROM CLIENT_INFO_TEST_DATA WHERE CLIENT_KEY='' @ [CHR 0x27] @ client_key c_detail @ [CHR 0x27]
     @ '' AND DT_TIME = '' @ [CHR 0x27] @ str_dt_time c_detail @ [CHR 0x27] @ '';''"

text \<open>The body of the section: its statements, whether it runs to its end, and the adapter after it.\<close>

definition rows_section ::
  "'c pqxx_api \<Rightarrow> string_algo \<Rightarrow> 'c pg_db_adapter \<Rightarrow> (test_step list \<times> bool \<times> 'c pg_db_adapter) res" where
  "rows_section px alg db =
     (case parse_to_client_detail alg example_line of
        Inl (Throws e) \<Rightarrow> Inr ([Throw_exception (what e)], False, db)
      | Inl u \<Rightarrow> Inl u
      | Inr c_detail1 \<Rightarrow>
          (case pg_execute px (test_insert c_detail1) db of
             (Some e, db1) \<Rightarrow> Inr ([Throw_exception (what e)], False, db1)
           | (None, db1) \<Rightarrow>
               (let check = require 93 ''db_handle.query_returned_row(select_query) == true''
                in case pg_query_returned_row px (test_select c_detail1) db1 of
                     (Inl e, db2) \<Rightarrow> Inr ([check (Raises (what e))], False, db2)
                   | (Inr b, db2) \<Rightarrow> Inr ([check (Compared_bools IsEqualTo b True)], b, db2))))"

text \<open>
  The test, and the adapter it leaves: there is one section, so it runs once. What leaves the section
  early also skips the statement that drops the table.
\<close>

definition adapter_test ::
  "'pt ptree_api \<Rightarrow> 'c pqxx_api \<Rightarrow> string_algo \<Rightarrow> console \<Rightarrow> (test_step list \<times> 'c pg_db_adapter option) res" where
  "adapter_test api px alg con =
     (case bindR (get_connection_string api ''../db_settings.xml'') (\<lambda>s. pg_construct px s con) of
        Inl (Throws e) \<Rightarrow> Inr ([Throw_exception (what e)], None)
      | Inl u \<Rightarrow> Inl u
      | Inr (db0, con1) \<Rightarrow>
          (case pg_execute px test_create db0 of
             (Some e, db1) \<Rightarrow> Inr ([Throw_exception (what e)], Some db1)
           | (None, db1) \<Rightarrow>
               bindR (rows_section px alg db1) (\<lambda>(body, completed, db2).
                 let block = test_block 87 ''Check if rows are inserted correctly'' body
                 in if \<not> completed then Inr ([block], Some db2)
                    else case pg_execute px test_drop db2 of
                      (Some e, db3) \<Rightarrow> Inr ([block, Throw_exception (what e)], Some db3)
                    | (None, db3) \<Rightarrow> Inr ([block], Some db3))))"

section \<open>Server and client together\<close>

text \<open>
  One request: the server's session reads the line, which arrives in one piece, answers, and reads
  again when the answer is out. Yields the answer.
\<close>

definition exchange ::
  "'d session_env \<Rightarrow> launch \<Rightarrow> string \<Rightarrow> 'd conf \<Rightarrow> (string \<times> 'd conf) res" where
  "exchange env policy line c =
     bindR (read_handler env policy None line c) (\<lambda>(s, w).
       Inr (case pending s of
              Write_pending answer \<Rightarrow> (answer, write_handler None (length answer) (s, w))
            | _ \<Rightarrow> ([], (s, w))))"

text \<open>The client reads one character of the answer into an array of three that is not initialised.\<close>

definition reply_of :: "char \<times> char \<times> char \<Rightarrow> string \<Rightarrow> string" where
  "reply_of garbage answer = take 1 answer @ drop (length (take 1 answer)) (reply_array garbage)"

text \<open>\<open>strcmp\<close>: the sign of the number for strings that differ is not looked at.\<close>

definition strcmp_result :: "string \<Rightarrow> operand res" where
  "strcmp_result reply = bindR (strcmp_eq reply (literal ''0'')) (\<lambda>same. Inr (Op_int (if same then 0 else 1)))"

definition reply_section :: "nat \<Rightarrow> string \<Rightarrow> operator \<Rightarrow> operand \<Rightarrow> test_step" where
  "reply_section line expr op n =
     test_block line ''Check if data written and read from the server correctly''
       [require (line + 2) expr (Compared op n (Op_int 0))]"

definition line1 :: string where "line1 = ''jill|44|89|11|Sat Nov 26 17:25:44 2016''"
definition line2 :: string where "line2 = ''mary|14|65|30|Sat Nov 26 17:28:44 2016''"
definition line3 :: string where "line3 = ''xxx|14|65|30|Sat Nov 26 17:28:44 2016''"

text \<open>
  The test with the server that has been started. An assertion that fails unwinds the stack over
  \<open>s_service\<close>, whose thread is running, and that ends the process.
\<close>

definition replies_test ::
  "'d session_env \<Rightarrow> launch \<Rightarrow> (nat \<Rightarrow> char \<times> char \<times> char) \<Rightarrow> 'd conf \<Rightarrow> test_step list res" where
  "replies_test env policy garbage c0 =
     bindR (exchange env policy line1 c0) (\<lambda>(a1, c1).
     bindR (exchange env policy line2 c1) (\<lambda>(a2, c2).
     bindR (exchange env policy line3 c2) (\<lambda>(a3, c3).
     bindR (strcmp_result (reply_of (garbage 1) a1)) (\<lambda>n1.
     bindR (strcmp_result (reply_of (garbage 2) a2)) (\<lambda>n2.
     bindR (strcmp_result (reply_of (garbage 3) a3)) (\<lambda>n3.
       if compare IsEqualTo n1 (Op_int 0) \<and> compare IsEqualTo n2 (Op_int 0) \<and> compare IsNotEqualTo n3 (Op_int 0)
       then Inr
         [reply_section 122 (''strcmp(reply1, '' @ dq @ ''0'' @ dq @ '') == 0'') IsEqualTo n1,
          reply_section 133 (''strcmp(reply2, '' @ dq @ ''0'' @ dq @ '') == 0'') IsEqualTo n2,
          reply_section 144 (''strcmp(reply3, '' @ dq @ ''0'' @ dq @ '') != 0'') IsNotEqualTo n3]
       else Inl Terminated))))))"

text \<open>Before the server is started, an exception just leaves the test: its statements are known then.\<close>

definition preparing :: "'a res \<Rightarrow> ('a \<Rightarrow> (test_step list + 'b) res) \<Rightarrow> (test_step list + 'b) res" where
  "preparing r f =
     (case r of
        Inl (Throws e) \<Rightarrow> Inr (Inl [Throw_exception (what e)])
      | Inl u \<Rightarrow> Inl u
      | Inr x \<Rightarrow> f x)"

definition start_of_test ::
  "'pt ptree_api \<Rightarrow> 'c pqxx_api \<Rightarrow> (port_num \<Rightarrow> cpp_exn option) \<Rightarrow> string \<Rightarrow> console
   \<Rightarrow> (test_step list + 'c pg_db_adapter server_service \<times> 'c pg_db_adapter conf) res" where
  "start_of_test api px listen data con =
     preparing (get_authorized_clients_and_details api config_path) (\<lambda>clients.
     preparing (get_connection_string api ''../tests_db_settings.xml'') (\<lambda>conn_string.
     preparing (pg_construct px conn_string con) (\<lambda>(db_handle, con1).
     bindR (service_start server_service_construct) (\<lambda>s_service.
     bindR (atoi ''1335'') (\<lambda>port.
       case start_server listen port clients db_handle con1 s_service of
         Inl f \<Rightarrow> Inl Terminated
       | Inr s_service1 \<Rightarrow>
           (case server s_service1 of
              None \<Rightarrow> Inl (Undefined Null_deref)
            | Some S \<Rightarrow> Inr (Inr (s_service1, Session.start (new_session data, shared_state S)))))))))"

text \<open>
  The end: the service is stopped and its thread joined, which may wait for ever (\<open>None\<close>); the
  adapter is deleted, which only closes its connection.
\<close>

definition end_of_test :: "'d server_service \<Rightarrow> test_step list \<Rightarrow> test_step list res option" where
  "end_of_test s_service b =
     (case finish_work_before_quiting (service_stop s_service) of
        None \<Rightarrow> None
      | Some (Inl (Throws e)) \<Rightarrow> Some (Inr (b @ [Throw_exception (what e)]))
      | Some (Inl u) \<Rightarrow> Some (Inl u)
      | Some (Inr s_service1) \<Rightarrow> Some (Inr b))"

definition integration_test ::
  "'pt ptree_api \<Rightarrow> 'c pqxx_api \<Rightarrow> string_algo \<Rightarrow> (port_num \<Rightarrow> cpp_exn option) \<Rightarrow> launch
   \<Rightarrow> (nat \<Rightarrow> char \<times> char \<times> char) \<Rightarrow> string \<Rightarrow> console \<Rightarrow> test_step list res option" where
  "integration_test api px alg listen policy garbage data con =
     (case start_of_test api px listen data con of
        Inl u \<Rightarrow> Some (Inl u)
      | Inr (Inl b) \<Rightarrow> Some (Inr b)
      | Inr (Inr (s_service, c0)) \<Rightarrow>
          (case replies_test \<lparr>algo = alg, adapter = pg_vtable px\<rparr> policy garbage c0 of
             Inl u \<Rightarrow> Some (Inl u)
           | Inr b \<Rightarrow> end_of_test s_service b))"

section \<open>The test program\<close>

record test_spot =
  spot_line :: nat
  spot_name :: string
  spot_tags :: string

definition spots :: "test_spot list" where
  "spots =
     [\<lparr>spot_line = 16, spot_name = ''Server config settings read from server_config.xml'',
        spot_tags = ''[Parsing server_config.xml]''\<rparr>,
      \<lparr>spot_line = 35, spot_name = ''Database settings read from db_settings.xml'',
        spot_tags = ''[Parsing db_settings.xml]''\<rparr>,
      \<lparr>spot_line = 41, spot_name = ''Check various functions defined in utils.h'', spot_tags = ''[Testing utils.h]''\<rparr>,
      \<lparr>spot_line = 80, spot_name = ''Check pg_db_adapter functionality'', spot_tags = ''[Testing pg_db_adapter]''\<rparr>,
      \<lparr>spot_line = 99, spot_name = ''Server and Client integeration tests'',
        spot_tags = ''[Server and Client integration tests]''\<rparr>]"

definition own_bodies ::
  "'pt ptree_api \<Rightarrow> 'c pqxx_api \<Rightarrow> string_algo \<Rightarrow> (port_num \<Rightarrow> cpp_exn option) \<Rightarrow> launch
   \<Rightarrow> (nat \<Rightarrow> char \<times> char \<times> char) \<Rightarrow> string \<Rightarrow> console \<Rightarrow> test_step list list res option" where
  "own_bodies api px alg listen policy garbage data con =
     map_option (\<lambda>last_test.
       bindR (server_config_test api) (\<lambda>b1.
       bindR (db_settings_test api) (\<lambda>b2.
       bindR (utils_test api alg) (\<lambda>b3.
       bindR (adapter_test api px alg con) (\<lambda>(b4, db).
       bindR last_test (\<lambda>b5. Inr [b1, b2, b3, b4, b5]))))))
     (integration_test api px alg listen policy garbage data con)"

text \<open>The static objects of the test program register the tests in the order of the file.\<close>

fun register_tests :: "(test_spot \<times> test_step list) list \<Rightarrow> hub \<Rightarrow> string + hub" where
  "register_tests [] h = Inr h"
| "register_tests ((t, body) # ts) h =
     (case Catch_Session.registerTestCase body [] (spot_name t) (spot_tags t) (SourceLineInfo test_file (spot_line t)) h of
        Inl msg \<Rightarrow> Inl msg
      | Inr h' \<Rightarrow> register_tests ts h')"

definition framework_hub :: hub where
  "framework_hub =
     registerReporter ''compact'' ''Reports test results on a single line, suitable for IDEs''
      (registerReporter ''console'' ''Reports test results as plain lines of text''
       (registerReporter ''junit''
          (''Reports test results in an XML format that looks like Ant'' @ [CHR 0x27] @ ''s junitreport target'')
        (registerReporter ''xml'' ''Reports test results as an XML document''
         \<lparr>hub_tests = newTestRegistry, hub_aliases = Map.empty, hub_reporters = [], hub_listeners = []\<rparr>)))"

definition own_session :: "hub \<Rightarrow> Catch_Session.session" where
  "own_session h =
     \<lparr>s_configData = newConfigData, s_config = None, s_hub = h, s_cout = [], s_cerr = []\<rparr>"

section \<open>Property trees\<close>

text \<open>
  The documented behaviour of Boost's property trees: \<open>tree\<close> is what a tree object stands for, and
  \<open>files\<close> the contents of the files.
\<close>

locale property_trees =
  fixes api :: "'pt ptree_api" and tree :: "'pt \<Rightarrow> ptree" and files :: "string \<Rightarrow> ptree option"
  assumes reads: "files f = Some t \<Longrightarrow> \<exists>pt. read_xml api f = Inr pt \<and> tree pt = t"
    and children: "map (\<lambda>(k, pt). (k, tree pt)) (entries api pt) = node_children (tree pt)"
    and child: "child_ref (tree pt) path = Inr t \<Longrightarrow> \<exists>pt'. get_child api pt path = Inr pt' \<and> tree pt' = t"
    and string_at: "string_ref (tree pt) path = Inr s \<Longrightarrow> get_string api pt path = Inr s"
    and size_at: "size_ref (tree pt) path = Inr n \<Longrightarrow> get_size api pt path = Inr n"
begin

lemma client_read:
  assumes "read_client (xml_ref files) (tree pt) = Inr c"
  shows "read_client api pt = Inr c"
proof -
  obtain a where a: "child_ref (tree pt) ''alerts'' = Inr a"
    using assms by (auto simp: read_client_def xml_ref_def bindR_eq_Inr)
  obtain pa where "get_child api pt ''alerts'' = Inr pa" "tree pa = a" using child [OF a] by blast
  with assms a show ?thesis
    by (auto simp: read_client_def xml_ref_def bindR_eq_Inr string_at size_at)
qed

lemma clients_read:
  "read_clients (xml_ref files) (map (\<lambda>(k, pt). (k, tree pt)) es) m = Inr m'
   \<Longrightarrow> read_clients api es m = Inr m'"
  by (induction es arbitrary: m) (auto simp: bindR_eq_Inr client_read split: if_splits)

lemma configuration_read:
  assumes "get_authorized_clients_and_details (xml_ref files) f = Inr m"
  shows "get_authorized_clients_and_details api f = Inr m"
proof -
  obtain t top where t: "files f = Some t" "child_ref t ''clients'' = Inr top"
    "read_clients (xml_ref files) (node_children top) Map.empty = Inr m"
    using assms by (auto simp: get_authorized_clients_and_details_def bindR_eq_Inr xml_ref_def split: option.splits)
  then obtain pt where pt: "read_xml api f = Inr pt" "tree pt = t" using reads by blast
  then obtain ptop where "get_child api pt ''clients'' = Inr ptop" "tree ptop = top" using child t(2) by blast
  with pt t(3) show ?thesis
    using clients_read [of "entries api ptop" Map.empty m]
    by (simp add: get_authorized_clients_and_details_def children)
qed

lemma connection_read:
  assumes "get_connection_string (xml_ref files) f = Inr s"
  shows "get_connection_string api f = Inr s"
proof -
  obtain t where t: "files f = Some t"
    using assms by (auto simp: get_connection_string_def bindR_eq_Inr xml_ref_def split: option.splits)
  obtain pt where "read_xml api f = Inr pt" "tree pt = t" using reads [OF t] by blast
  with assms t show ?thesis by (auto simp: get_connection_string_def bindR_eq_Inr xml_ref_def string_at)
qed

end

interpretation trees: property_trees "xml_ref files" "\<lambda>t. t" files for files
  by unfold_locales (auto simp: xml_ref_def)

text \<open>What a file gives does not depend on the name it has.\<close>

lemma read_clients_anywhere: "read_clients (xml_ref f) es m = read_clients (xml_ref g) es m"
proof -
  have "read_client (xml_ref f) = read_client (xml_ref g)" by (simp add: read_client_def xml_ref_def fun_eq_iff)
  then show ?thesis by (induction es arbitrary: m) (auto intro!: arg_cong2 [of _ _ _ _ bindR])
qed

lemma configuration_anywhere:
  "f p = g q \<Longrightarrow> f p \<noteq> None \<Longrightarrow>
     get_authorized_clients_and_details (xml_ref f) p = get_authorized_clients_and_details (xml_ref g) q"
  using read_clients_anywhere [of f _ Map.empty g]
  by (auto simp: get_authorized_clients_and_details_def xml_ref_def split: option.splits)

lemma connection_anywhere:
  "f p = g q \<Longrightarrow> f p \<noteq> None \<Longrightarrow> get_connection_string (xml_ref f) p = get_connection_string (xml_ref g) q"
  by (auto simp: get_connection_string_def xml_ref_def split: option.splits)

section \<open>Every test passes\<close>

definition own_files :: "(string \<Rightarrow> ptree option) \<Rightarrow> bool" where
  "own_files files \<longleftrightarrow>
     files config_path = test_files ''server_config.xml''
     \<and> files ''../test/resources/db_settings.xml'' = test_files ''db_settings.xml''"

lemma test_file_trees: "test_files ''server_config.xml'' \<noteq> None" "test_files ''db_settings.xml'' \<noteq> None"
  by (simp_all add: test_files_def)

lemma own_files_read:
  assumes "property_trees api tree files" "own_files files"
  shows "get_authorized_clients_and_details api config_path = Inr test_clients"
    and "get_connection_string api ''../test/resources/db_settings.xml'' = Inr expected_connection"
proof -
  have "get_authorized_clients_and_details (xml_ref files) config_path = Inr test_clients"
    using assms(2) configuration_anywhere [of files config_path test_files "''server_config.xml''"] test_file_trees(1)
    by (simp add: own_files_def test_clients_load)
  then show "get_authorized_clients_and_details api config_path = Inr test_clients"
    by (rule property_trees.configuration_read [OF assms(1)])
  have "get_connection_string (xml_ref files) ''../test/resources/db_settings.xml'' = Inr expected_connection"
    using assms(2) connection_anywhere [of files "''../test/resources/db_settings.xml''" test_files "''db_settings.xml''"]
      test_file_trees(2)
    by (simp add: own_files_def test_connection_string expected_connection_def)
  then show "get_connection_string api ''../test/resources/db_settings.xml'' = Inr expected_connection"
    by (rule property_trees.connection_read [OF assms(1)])
qed

lemma passing_require [simp]:
  "passing env (require line expr (Compared op l r) # ss) \<longleftrightarrow> compare op l r \<and> passing env ss"
  "passing env (require line expr (Compared_strings op s t) # ss) \<longleftrightarrow> compare_strings op s t \<and> passing env ss"
  "passing env (require line expr (Compared_bools op a b) # ss) \<longleftrightarrow> compare_bools op a b \<and> passing env ss"
  by (simp_all add: require_def NormalDisposition_def isFalseTest_def FalseTest_def)

lemma passing_block [simp]:
  "passing env (test_block line name body # ss) \<longleftrightarrow> passing env body \<and> passing env ss"
  by (simp add: test_block_def)

lemma well_named_simps [simp]:
  "well_named_inside (require line expr e # ss) = well_named_inside ss"
  "keys (require line expr e # ss) = keys ss" "keys [] = []"
  "well_named_inside (test_block line name body # ss) = (well_named body \<and> well_named_inside ss)"
  "keys (test_block line name body # ss) = section_key \<lparr>si_name = name, si_description = [], si_lineInfo = SourceLineInfo test_file line\<rparr> # keys ss"
  by (auto simp: require_def test_block_def keys_def well_named_def)

lemma compare_equal [simp]:
  "compare_strings IsEqualTo s t \<longleftrightarrow> s = t" "compare_bools IsEqualTo a b \<longleftrightarrow> a = b"
  by (simp_all add: compare_bools_def)

lemma compare_ints [simp]:
  "compare IsEqualTo (Op_ulong w) (Op_int v) \<longleftrightarrow> w = ucast v"
  "compare IsEqualTo (Op_int u) (Op_int v) \<longleftrightarrow> u = v"
  "compare IsNotEqualTo (Op_int u) (Op_int v) \<longleftrightarrow> u \<noteq> v"
proof -
  have "uint (ucast v :: 64 word) = uint v" by (simp add: uint_up_ucast is_up)
  then have eq: "uint w = uint v \<longleftrightarrow> w = ucast v" by (simp add: word_uint_eq_iff)
  have "uint w < 2 ^ 64" "uint v < 2 ^ 64" using uint_lt2p [of w] uint_lt2p [of v] by simp_all
  then have "uint w mod 2 ^ 64 = uint w" "uint v mod 2 ^ 64 = uint v" by simp_all
  then show "compare IsEqualTo (Op_ulong w) (Op_int v) \<longleftrightarrow> w = ucast v"
    by (simp add: compare_def applyEvaluator_def eq)
qed (auto simp: compare_def applyEvaluator_def intro: signed_word_eqI)

abbreviation accepted :: "run_env \<Rightarrow> test_step list \<Rightarrow> bool" where
  "accepted env b \<equiv> passing env b \<and> well_named b"

lemma test_clients_known:
  "test_clients ''jill'' = Some (test_config ''jill'' ''jill@jill.com'' 18 24 30)"
  "test_clients ''mary'' = Some (test_config ''mary'' ''mary@mary.com'' 27 36 45)"
  "test_clients ''jack'' = Some (test_config ''jack'' ''jack@jack.com'' 24 32 40)"
  "test_clients ''ssss'' = None" "test_clients ''xxx'' = None" "card (dom test_clients) = 3"
  by (simp_all add: test_clients_simps)

lemma server_config_accepted:
  assumes "get_authorized_clients_and_details api config_path = Inr test_clients"
  shows "\<exists>b. server_config_test api = Inr b \<and> (\<forall>env. accepted env b)"
  using assms
  by (simp add: server_config_test_def calling_def map_index_def test_clients_known test_config_def Let_def
      well_named_def section_key_def)

lemma db_settings_accepted:
  assumes "get_connection_string api ''../test/resources/db_settings.xml'' = Inr expected_connection"
  shows "\<exists>b. db_settings_test api = Inr b \<and> (\<forall>env. accepted env b)"
  using assms by (simp add: db_settings_test_def Let_def well_named_def)

lemma test_lines_read:
  assumes "string_algorithms alg"
  shows "parse_to_client_detail alg example_line = Inr test_detail"
    and "parse_to_client_detail alg ''jill|16|20|23|Sat Nov 26 18:31:34 2016'' =
      Inr (detail_of ''jill'' 16 20 23 ''Sat Nov 26 18:31:34 2016'')"
    and "parse_to_client_detail alg ''mary|28|35|44|Sat Nov 26 18:31:34 2016'' =
      Inr (detail_of ''mary'' 28 35 44 ''Sat Nov 26 18:31:34 2016'')"
    and "parse_to_client_detail alg line1 = Inr (detail_of ''jill'' 44 89 11 ''Sat Nov 26 17:25:44 2016'')"
    and "parse_to_client_detail alg line2 = Inr (detail_of ''mary'' 14 65 30 ''Sat Nov 26 17:28:44 2016'')"
    and "parse_to_client_detail alg line3 = Inr (detail_of ''xxx'' 14 65 30 ''Sat Nov 26 17:28:44 2016'')"
  using string_algorithms.parse_fields [OF assms]
  by (simp_all add: example_line_def line1_def line2_def line3_def test_detail_def
      atoi_def atoi_value_def is_space_def is_digit_def read_dec_def digit_val_def
      int_in_range_def detail_of_def size_of_int_def)

lemma test_alerts:
  "should_send_email test_clients (client_key (detail_of ''jill'' 16 20 23 t)) (detail_of ''jill'' 16 20 23 t) = (False, test_clients)"
  "should_send_email test_clients (client_key (detail_of ''mary'' 28 35 44 t)) (detail_of ''mary'' 28 35 44 t) = (True, test_clients)"
  by (simp_all add: should_send_email_def map_index_def detail_of_def test_clients_known test_config_def
      size_of_int_def Let_def)

lemma sections_read:
  assumes "get_authorized_clients_and_details api config_path = Inr test_clients" "string_algorithms alg"
  shows "\<exists>b. parse_section alg = Inr b \<and> (\<forall>env. accepted env b)"
    and "\<exists>b. insert_section alg = Inr b \<and> (\<forall>env. accepted env b)"
    and "\<exists>b. mail_section api alg = Inr b \<and> (\<forall>env. accepted env b)"
proof -
  note lines = test_lines_read [OF assms(2)]
  show "\<exists>b. parse_section alg = Inr b \<and> (\<forall>env. accepted env b)"
    by (simp add: parse_section_def calling_def lines(1) test_detail_def well_named_def)
  show "\<exists>b. insert_section alg = Inr b \<and> (\<forall>env. accepted env b)"
    by (simp add: insert_section_def calling_def lines(1) generate_test_insert expected_insert_def well_named_def)
  show "\<exists>b. mail_section api alg = Inr b \<and> (\<forall>env. accepted env b)"
    by (simp add: mail_section_def calling_def assms(1) lines(2,3) test_alerts Let_def well_named_def)
qed

lemma utils_accepted:
  assumes "get_authorized_clients_and_details api config_path = Inr test_clients" "string_algorithms alg"
  shows "\<exists>b. utils_test api alg = Inr b \<and> (\<forall>env. accepted env b)"
proof -
  obtain b1 b2 b3 where b: "parse_section alg = Inr b1" "insert_section alg = Inr b2" "mail_section api alg = Inr b3"
    and ok: "\<forall>env. accepted env b1" "\<forall>env. accepted env b2" "\<forall>env. accepted env b3"
    using sections_read [OF assms] by blast
  have "\<not> is_client_authorized test_clients ''ssss''" "is_client_authorized test_clients ''jack''"
    by (simp_all add: is_client_authorized_def test_clients_known)
  with assms(1) b show ?thesis
    by (simp add: utils_test_def calling_def in_section_def ok well_named_def section_key_def)
       (simp add: ok well_named_def [symmetric])
qed

text \<open>
  The database of the adapter's test: it can be reached, and takes the statements of the test in their
  order; the query finds a row.
\<close>

fun taken_in_turn :: "'c pqxx_api \<Rightarrow> (string \<times> (string list list \<Rightarrow> bool)) list \<Rightarrow> 'c \<Rightarrow> bool" where
  "taken_in_turn px [] c = True"
| "taken_in_turn px ((sql, good) # qs) c =
     (case px_exec px sql c of (Inl e, c') \<Rightarrow> False | (Inr table, c') \<Rightarrow> good table \<and> taken_in_turn px qs c')"

definition test_database :: "'c pqxx_api \<Rightarrow> string \<Rightarrow> bool" where
  "test_database px s \<longleftrightarrow>
     (case px_connection px s of
        Inl e \<Rightarrow> False
      | Inr c \<Rightarrow> taken_in_turn px
          [(test_create, \<lambda>_. True), (test_insert test_detail, \<lambda>_. True), (test_select test_detail, \<lambda>table. table \<noteq> []),
           (test_drop, \<lambda>_. True)] c)"

lemma taken_one: "taken_in_turn px ((sql, good) # qs) c \<Longrightarrow> \<exists>table c'. px_exec px sql c = (Inr table, c') \<and> good table \<and> taken_in_turn px qs c'"
  by (auto split: prod.splits sum.splits)

lemma test_database_steps:
  assumes "test_database px s"
  obtains c0 t1 c1 t2 c2 t3 c3 t4 c4 where "px_connection px s = Inr c0" "px_exec px test_create c0 = (Inr t1, c1)"
    "px_exec px (test_insert test_detail) c1 = (Inr t2, c2)" "px_exec px (test_select test_detail) c2 = (Inr t3, c3)"
    "t3 \<noteq> []" "px_exec px test_drop c3 = (Inr t4, c4)"
  using assms unfolding test_database_def by (auto split: sum.splits dest!: taken_one simp del: taken_in_turn.simps)

lemma adapter_accepted:
  assumes "test_database px s" "string_algorithms alg"
    and "get_connection_string api ''../db_settings.xml'' = Inr s"
  shows "\<exists>b db. adapter_test api px alg con = Inr (b, db) \<and> (\<forall>env. accepted env b)"
proof -
  obtain c0 t1 c1 t2 c2 t3 c3 t4 c4 where ran: "px_connection px s = Inr c0" "px_exec px test_create c0 = (Inr t1, c1)"
    "px_exec px (test_insert test_detail) c1 = (Inr t2, c2)" "px_exec px (test_select test_detail) c2 = (Inr t3, c3)"
    "t3 \<noteq> []" "px_exec px test_drop c3 = (Inr t4, c4)"
    using assms(1) by (rule test_database_steps)
  then show ?thesis
    using assms(3) test_lines_read(1) [OF assms(2)]
    by (simp add: adapter_test_def pg_construct_def pg_execute_def pg_query_returned_row_def rows_section_def Let_def well_named_def)
qed

section \<open>The server answers the three lines\<close>

lemma exchange_answer:
  assumes "parse_to_client_detail (algo env) line = Inr d"
    and "authorized_clients (snd c) = clients"
  shows "\<exists>c'. exchange env policy line c = Inr (if is_client_authorized clients (client_key d) then ''0'' else ''2'', c')
    \<and> authorized_clients (snd c') = clients"
proof (cases "is_client_authorized clients (client_key d)")
  case True
  then obtain w' where "read_handler env policy None line (fst c, snd c) = Inr (buffered line ''0'' (fst c), w')"
    "authorized_clients w' = clients"
    using read_handler_authorized [OF assms(1), of "snd c" policy "fst c"] assms(2) by auto
  with True show ?thesis by (simp add: exchange_def write_handler_simps)
next
  case False
  then obtain w' where "read_handler env policy None line (fst c, snd c) = Inr (buffered line ''2'' (fst c), w')"
    "authorized_clients w' = clients"
    using read_handler_unauthorized [OF assms(1), of "snd c" policy "fst c"] assms(2) by auto
  with False show ?thesis by (simp add: exchange_def write_handler_simps)
qed

lemma three_answers:
  assumes "string_algorithms (algo env)" "authorized_clients (snd c0) = test_clients"
  shows "\<exists>c1 c2 c3. exchange env policy line1 c0 = Inr (''0'', c1) \<and> exchange env policy line2 c1 = Inr (''0'', c2)
    \<and> exchange env policy line3 c2 = Inr (''2'', c3)"
proof -
  note lines = test_lines_read(4,5,6) [OF assms(1)]
  have known: "is_client_authorized test_clients ''jill''" "is_client_authorized test_clients ''mary''"
    "\<not> is_client_authorized test_clients ''xxx''"
    by (simp_all add: is_client_authorized_def test_clients_known)
  obtain c1 where c1: "exchange env policy line1 c0 = Inr (''0'', c1)" "authorized_clients (snd c1) = test_clients"
    using exchange_answer [OF lines(1) assms(2), of policy] known by (auto simp: detail_of_def)
  obtain c2 where c2: "exchange env policy line2 c1 = Inr (''0'', c2)" "authorized_clients (snd c2) = test_clients"
    using exchange_answer [OF lines(2) c1(2), of policy] known by (auto simp: detail_of_def)
  obtain c3 where "exchange env policy line3 c2 = Inr (''2'', c3)"
    using exchange_answer [OF lines(3) c2(2), of policy] known by (auto simp: detail_of_def)
  with c1 c2 show ?thesis by blast
qed

text \<open>What \<open>strcmp\<close> says of an answer depends on the second character of the array.\<close>

definition terminated_reply :: "char \<times> char \<times> char \<Rightarrow> bool" where
  "terminated_reply g \<longleftrightarrow> fst (snd g) = NUL"

lemma strcmp_results:
  "strcmp_result (reply_of g ''0'') = Inr (Op_int (if terminated_reply g then 0 else 1))"
  "strcmp_result (reply_of g ''2'') = Inr (Op_int 1)"
  by (cases g; simp add: strcmp_result_def reply_of_def reply_array.simps literal_def terminated_reply_def)+

lemma replies_accepted:
  assumes "string_algorithms (algo env)" "authorized_clients (snd c0) = test_clients"
    and "terminated_reply (garbage 1)" "terminated_reply (garbage 2)"
  shows "\<exists>b. replies_test env policy garbage c0 = Inr b \<and> (\<forall>renv. accepted renv b)"
proof -
  obtain c1 c2 c3 where "exchange env policy line1 c0 = Inr (''0'', c1)" "exchange env policy line2 c1 = Inr (''0'', c2)"
    "exchange env policy line3 c2 = Inr (''2'', c3)"
    using three_answers [OF assms(1,2)] by blast
  moreover have "well_named
     [reply_section 122 t1 op1 n1, reply_section 133 t2 op2 n2, reply_section 144 t3 op3 n3]" for t1 op1 n1 t2 op2 n2 t3 op3 n3
    by (simp add: well_named_def reply_section_def section_key_def show_source_line_def dec.simps digit_def
        char_of_def bit_Suc_0_iff)
  ultimately show ?thesis
    using assms(3,4) by (simp add: replies_test_def strcmp_results) (simp add: reply_section_def well_named_def)
qed

lemma garbage_ends_the_test:
  assumes "string_algorithms (algo env)" "authorized_clients (snd c0) = test_clients"
    and "\<not> (terminated_reply (garbage 1) \<and> terminated_reply (garbage 2))"
  shows "replies_test env policy garbage c0 = Inl Terminated"
proof -
  obtain c1 c2 c3 where "exchange env policy line1 c0 = Inr (''0'', c1)" "exchange env policy line2 c1 = Inr (''0'', c2)"
    "exchange env policy line3 c2 = Inr (''2'', c3)"
    using three_answers [OF assms(1,2)] by blast
  with assms(3) show ?thesis by (auto simp: replies_test_def strcmp_results)
qed

lemma integration_setup:
  assumes "get_authorized_clients_and_details api config_path = Inr test_clients"
    and "get_connection_string api ''../tests_db_settings.xml'' = Inr s" "px_connection px s = Inr c"
    and "listen (port_of_int 1335) = None"
  shows "\<exists>c0. authorized_clients (snd c0) = test_clients
    \<and> integration_test api px alg listen policy garbage data con
        = Some (replies_test \<lparr>algo = alg, adapter = pg_vtable px\<rparr> policy garbage c0)"
proof -
  let ?c0 = "Session.start (new_session data, \<lparr>authorized_clients = test_clients,
          database = \<lparr>connection_string = s, pg_connection = c\<rparr>, streams = say ''pg_db_adapter constructed.'' con\<rparr>)"
  have "\<exists>s_service. start_of_test api px listen data con = Inr (Inr (s_service, ?c0))
      \<and> service_thread s_service = Running"
    using assms
    by (simp add: start_of_test_def preparing_def pg_construct_def service_start_def init_new_thread_for_service_def
      server_service_construct_def atoi_1335 start_server_def sys_info_server_construct_def do_accept_def)
  then obtain s_service where st: "start_of_test api px listen data con = Inr (Inr (s_service, ?c0))"
    "service_thread s_service = Running" by blast
  have "end_of_test s_service b = Some (Inr b)" for b
    by (simp add: end_of_test_def finish_work_before_quiting_def service_stop_def st(2))
  then have "integration_test api px alg listen policy garbage data con
        = Some (replies_test \<lparr>algo = alg, adapter = pg_vtable px\<rparr> policy garbage ?c0)"
    by (simp add: integration_test_def st(1) split: sum.split)
  moreover have "authorized_clients (snd ?c0) = test_clients" by (simp add: Session.start_def do_read_def new_session_def)
  ultimately show ?thesis by blast
qed

text \<open>What the tests find where they run.\<close>

definition test_surroundings ::
  "'pt ptree_api \<Rightarrow> 'c pqxx_api \<Rightarrow> string_algo \<Rightarrow> (port_num \<Rightarrow> cpp_exn option) \<Rightarrow> bool" where
  "test_surroundings api px alg listen \<longleftrightarrow>
     string_algorithms alg \<and> (\<exists>tree files. property_trees api tree files \<and> own_files files)
     \<and> listen (port_of_int 1335) = None
     \<and> (\<exists>s. get_connection_string api ''../db_settings.xml'' = Inr s \<and> test_database px s)
     \<and> (\<exists>s c. get_connection_string api ''../tests_db_settings.xml'' = Inr s \<and> px_connection px s = Inr c)"

lemma own_bodies_shape:
  assumes "test_surroundings api px alg listen"
  obtains b1 b2 b3 b4 c0 where "\<forall>b\<in>{b1, b2, b3, b4}. \<forall>env. accepted env b" "authorized_clients (snd c0) = test_clients"
    "own_bodies api px alg listen policy garbage data con =
        Some (bindR (replies_test \<lparr>algo = alg, adapter = pg_vtable px\<rparr> policy garbage c0) (\<lambda>b5. Inr [b1, b2, b3, b4, b5]))"
proof -
  obtain tree files s1 s2 c where alg: "string_algorithms alg"
    and trees: "property_trees api tree files" "own_files files" and db: "test_database px s1"
    and port: "listen (port_of_int 1335) = None" and c: "px_connection px s2 = Inr c"
    and strings: "get_connection_string api ''../db_settings.xml'' = Inr s1"
      "get_connection_string api ''../tests_db_settings.xml'' = Inr s2"
    using assms by (auto simp: test_surroundings_def)
  obtain c0 where c0: "authorized_clients (snd c0) = test_clients"
    "integration_test api px alg listen policy garbage data con
        = Some (replies_test \<lparr>algo = alg, adapter = pg_vtable px\<rparr> policy garbage c0)"
    using integration_setup [where api = api and px = px and listen = listen,
        OF own_files_read(1) [OF trees] strings(2) c port] by blast
  obtain b1 where b1: "server_config_test api = Inr b1" "\<forall>env. accepted env b1"
    using server_config_accepted [OF own_files_read(1) [OF trees]] by blast
  obtain b2 where b2: "db_settings_test api = Inr b2" "\<forall>env. accepted env b2"
    using db_settings_accepted [OF own_files_read(2) [OF trees]] by blast
  obtain b3 where b3: "utils_test api alg = Inr b3" "\<forall>env. accepted env b3"
    using utils_accepted [OF own_files_read(1) [OF trees] alg] by blast
  obtain b4 a where b4: "adapter_test api px alg con = Inr (b4, a)" "\<forall>env. accepted env b4"
    using adapter_accepted [OF db alg strings(1), of con] by blast
  have "own_bodies api px alg listen policy garbage data con =
      Some (bindR (replies_test \<lparr>algo = alg, adapter = pg_vtable px\<rparr> policy garbage c0) (\<lambda>b5. Inr [b1, b2, b3, b4, b5]))"
    by (simp add: own_bodies_def b1(1) b2(1) b3(1) b4(1) c0(2))
  moreover have "\<forall>b\<in>{b1, b2, b3, b4}. \<forall>env. accepted env b" using b1(2) b2(2) b3(2) b4(2) by blast
  ultimately show ?thesis using that c0(1) by blast
qed

lemma own_bodies_accepted:
  assumes "test_surroundings api px alg listen" "terminated_reply (garbage 1)" "terminated_reply (garbage 2)"
  shows "\<exists>bodies. own_bodies api px alg listen policy garbage data con = Some (Inr bodies)
    \<and> length bodies = 5 \<and> (\<forall>b\<in>set bodies. \<forall>env. accepted env b)"
proof -
  have alg: "string_algorithms alg" using assms(1) by (simp add: test_surroundings_def)
  obtain b1 b2 b3 b4 c0 where shape: "\<forall>b\<in>{b1, b2, b3, b4}. \<forall>env. accepted env b" "authorized_clients (snd c0) = test_clients"
    "own_bodies api px alg listen policy garbage data con =
        Some (bindR (replies_test \<lparr>algo = alg, adapter = pg_vtable px\<rparr> policy garbage c0) (\<lambda>b5. Inr [b1, b2, b3, b4, b5]))"
    by (rule own_bodies_shape [OF assms(1)])
  obtain b5 where b5: "replies_test \<lparr>algo = alg, adapter = pg_vtable px\<rparr> policy garbage c0 = Inr b5" "\<forall>env. accepted env b5"
    using replies_accepted [of "\<lparr>algo = alg, adapter = pg_vtable px\<rparr>" c0 garbage policy] alg shape(2) assms(2,3) by auto
  show ?thesis
    by (intro exI [of _ "[b1, b2, b3, b4, b5]"]) (simp add: shape(3) b5(1), use shape(1) b5(2) in blast)
qed

text \<open>
  Whatever else is in order: when a character that is not NUL follows one of the first two answers
  on the stack, the test program is terminated, and none of the results is reported.
\<close>

lemma garbage_aborts_the_tests:
  assumes "test_surroundings api px alg listen" "\<not> (terminated_reply (garbage 1) \<and> terminated_reply (garbage 2))"
  shows "own_bodies api px alg listen policy garbage data con = Some (Inl Terminated)"
proof -
  have alg: "string_algorithms alg" using assms(1) by (simp add: test_surroundings_def)
  obtain b1 b2 b3 b4 c0 where shape: "\<forall>b\<in>{b1, b2, b3, b4}. \<forall>env. accepted env b" "authorized_clients (snd c0) = test_clients"
    "own_bodies api px alg listen policy garbage data con =
        Some (bindR (replies_test \<lparr>algo = alg, adapter = pg_vtable px\<rparr> policy garbage c0) (\<lambda>b5. Inr [b1, b2, b3, b4, b5]))"
    by (rule own_bodies_shape [OF assms(1)])
  with garbage_ends_the_test [of "\<lparr>algo = alg, adapter = pg_vtable px\<rparr>" c0 garbage policy] alg assms(2)
  show ?thesis by simp
qed

text \<open>
  An adapter's test that fails, because the row is not found, leaves its table in the database: the
  only statements executed are the first two and the query.
\<close>

lemma failed_test_keeps_table:
  assumes "string_algorithms alg" "pqxx_session px executed"
    and "get_connection_string api ''../db_settings.xml'' = Inr s" "px_connection px s = Inr c0"
    and "px_exec px test_create c0 = (Inr t1, c1)" "px_exec px (test_insert test_detail) c1 = (Inr t2, c2)"
    and "px_exec px (test_select test_detail) c2 = (Inr [], c3)"
  shows "\<exists>b db. adapter_test api px alg con = Inr (b, Some db)
    \<and> executed (pg_connection db) = executed c0 @ [test_create, test_insert test_detail, test_select test_detail]"
proof -
  note ran = assms(5-7) [THEN pqxx_session.exec_returns [OF assms(2)]]
  show ?thesis
    using assms(3-7) ran test_lines_read(1) [OF assms(1)]
    by (simp add: adapter_test_def pg_construct_def pg_execute_def pg_query_returned_row_def rows_section_def Let_def)
qed

section \<open>The session of the test program\<close>

definition own_case :: "test_spot \<Rightarrow> string \<Rightarrow> test_step list \<Rightarrow> run_test_case" where
  "own_case t tag body =
     makeTestCaseInfo (spot_name t) [] [] {tag} (SourceLineInfo test_file (spot_line t)) body"

definition own_tags :: "string list" where
  "own_tags = [''Parsing server_config.xml'', ''Parsing db_settings.xml'', ''Testing utils.h'', ''Testing pg_db_adapter'',
     ''Server and Client integration tests'']"

lemma own_case_simps [simp]:
  "tc_name (own_case t tag body) = spot_name t" "test_body (own_case t tag body) = body"
  by (simp_all add: own_case_def makeTestCaseInfo_def setTags_def Let_def)

lemma own_cases_made:
  "list_all2 (\<lambda>t tag. makeTestCase body (extractClassName []) (spot_name t) (spot_tags t) (SourceLineInfo test_file (spot_line t))
      = Inr (own_case t tag body)) spots own_tags"
  by (simp add: spots_def own_tags_def own_case_def makeTestCase_def isReservedTag_def enforceNotReservedTag_def parseSpecialTag_def
      IsHidden_def isalnum_def is_upper_def is_digit_def startsWith_def Let_def extractClassName_def)

definition own_cases :: "test_step list list \<Rightarrow> run_test_case list" where
  "own_cases bodies = map (\<lambda>((t, tag), body). own_case t tag body) (zip (zip spots own_tags) bodies)"

lemma plain_tag:
  assumes "tag \<noteq> []" "hd tag \<in> {CHR ''P'', CHR ''T'', CHR ''S''}"
  shows "parseSpecialTag (toLower tag) = 0" "parseSpecialTag tag = 0"
proof -
  obtain c cs where tag: "tag = c # cs" using assms(1) by (cases tag) auto
  have "toLowerCh c \<in> {CHR ''p'', CHR ''t'', CHR ''s''}"
    using assms(2) by (auto simp: tag toLowerCh_def is_upper_def char_of_eq_iff)
  then show "parseSpecialTag (toLower tag) = 0" "parseSpecialTag tag = 0"
    using assms(2) by (auto simp: tag parseSpecialTag_def startsWith_def toLower_def)
qed

lemma own_spots_plain:
  "list_all2 (\<lambda>t tag. tag \<noteq> [] \<and> hd tag \<in> {CHR ''P'', CHR ''T'', CHR ''S''} \<and> \<not> startsWith (spot_name t) ''./'') spots own_tags"
  by (simp add: spots_def own_tags_def startsWith_def)

lemma own_cases_plain:
  assumes "tc \<in> set (own_cases bodies)"
  shows "\<not> expectedToFail tc" "matchTest tc (parseTestSpec Map.empty ''~[.]'') c" "test_body tc \<in> set bodies"
proof -
  obtain t tag body where tc: "tc = own_case t tag body" "(t, tag) \<in> set (zip spots own_tags)" "body \<in> set bodies"
    using assms by (auto simp: own_cases_def dest: set_zip_leftD set_zip_rightD)
  from tc(2) have tag: "parseSpecialTag (toLower tag) = 0" "parseSpecialTag tag = 0" "\<not> startsWith (spot_name t) ''./''"
    using own_spots_plain plain_tag [of tag] by (auto simp: list_all2_iff)
  have "makeTestCase body (extractClassName []) (spot_name t) (spot_tags t) (SourceLineInfo test_file (spot_line t)) = Inr tc"
    using own_cases_made [of body] tc(2) by (auto simp: tc(1) list_all2_iff)
  from default_selection [OF this] have "spec_matches (parseTestSpec Map.empty ''~[.]'') tc"
    using tag by (simp add: tc(1) own_case_def IsHidden_def)
  moreover have flags: "\<not> expectedToFail tc" "\<not> throws_exception tc"
    using tag(1) by (simp_all add: tc(1) own_case_def expectedToFail_def throws_exception_def properties_of_tags
        ShouldFail_def ThrowsException_def)
  ultimately show "\<not> expectedToFail tc" "matchTest tc (parseTestSpec Map.empty ''~[.]'') c" "test_body tc \<in> set bodies"
    using tc(1,3) by (simp_all add: matchTest_def)
qed

lemma length_5E:
  assumes "length xs = 5"
  obtains a b c d e where "xs = [a, b, c, d, e]"
  using assms by (auto simp: eval_nat_numeral length_Suc_conv)

lemma own_tests_registered:
  assumes "length bodies = 5"
  shows "register_tests (zip spots bodies) framework_hub =
      Inr (framework_hub\<lparr>hub_tests := newTestRegistry\<lparr>m_functions := own_cases bodies\<rparr>\<rparr>)"
proof -
  obtain a b c d e where bodies: "bodies = [a, b, c, d, e]" using assms by (rule length_5E)
  note made = own_cases_made [of a] own_cases_made [of b] own_cases_made [of c] own_cases_made [of d] own_cases_made [of e]
  show ?thesis
    using made
    by (simp add: bodies spots_def own_tags_def own_cases_def Catch_Session.registerTestCase_def registerTest_def
        framework_hub_def registerReporter_def newTestRegistry_def)
qed

lemma own_cases_sorted:
  assumes "length bodies = 5"
  shows "\<exists>reg. getAllTestsSorted shuffle InDeclarationOrder (newTestRegistry\<lparr>m_functions := own_cases bodies\<rparr>)
     = Inr (own_cases bodies, reg)"
proof -
  obtain a b c d e where bodies: "bodies = [a, b, c, d, e]" using assms by (rule length_5E)
  show ?thesis
    by (simp add: bodies spots_def own_tags_def own_cases_def getAllTestsSorted_def newTestRegistry_def
        enforceNoDuplicateTestCases_def test_case_less_def sortTests_def Let_def)
qed

abbreviation default_config :: config where
  "default_config \<equiv> \<lparr>cfg_data = newConfigData, cfg_stream = Cout_stream, m_testSpec = []\<rparr>"

lemma console_registered: "map_of (hub_reporters framework_hub) ''console'' \<noteq> None"
  by (simp add: framework_hub_def registerReporter_def)

lemma framework_hub_simps:
  "hub_listeners framework_hub = []" "hub_aliases framework_hub = Map.empty"
  by (simp_all add: framework_hub_def registerReporter_def)

lemma own_session_passes:
  assumes "length bodies = 5" "\<forall>b\<in>set bodies. \<forall>env. accepted env b"
    and "register_tests (zip spots bodies) framework_hub = Inr h"
  shows "\<exists>t rc h' s'. session_run writable shuffle clears (own_session h) = Some (Inr 0, s')
    \<and> runTests shuffle clears default_config h = Some (Inr (t, rc, h'))
    \<and> verdicts rc = map (\<lambda>t. (True, spot_name t)) spots"
proof -
  let ?reg = "newTestRegistry\<lparr>m_functions := own_cases bodies\<rparr>"
  have h: "h = framework_hub\<lparr>hub_tests := ?reg\<rparr>" using assms(1,3) by (simp add: own_tests_registered)
  obtain reg where sorted: "getAllTestsSorted shuffle InDeclarationOrder ?reg = Inr (own_cases bodies, reg)"
    using own_cases_sorted [OF assms(1)] by blast
  have rep: "makeReporter h newConfigData = Inr (One_reporter ''console'')"
    using console_registered by (auto simp: makeReporter_def createReporter_def h newConfigData_def split: option.splits)
  have c: "runOrder newConfigData = InDeclarationOrder" "\<not> warnNoAssertions newConfigData"
    "(word_of_int (abortAfter newConfigData) :: 64 word) \<noteq> 0" "\<not> showHelp newConfigData"
    "\<not> filenamesAsTags newConfigData" "\<not> listTests newConfigData" "\<not> listTestNamesOnly newConfigData"
    "\<not> listTags newConfigData" "\<not> listReporters newConfigData"
    by (simp_all add: newConfigData_def)
  have spec: "run_spec (hub_aliases h) default_config = parseTestSpec Map.empty ''~[.]''"
    by (simp add: run_spec_def h framework_hub_simps)
  have good: "\<forall>tc\<in>set (own_cases bodies). good_test env tc" for env
    using own_cases_plain assms(2) by (auto simp: good_test_def)
  obtain t rc where run: "runTests shuffle clears default_config h = Some (Inr (t, rc, h\<lparr>hub_tests := reg\<rparr>))"
    "verdicts rc = map (\<lambda>tc. (matchTest tc (run_spec (hub_aliases h) default_config) default_config, tc_name tc)) (own_cases bodies)"
    "failed (assertions t) = 0"
    using runTests_passing [of h default_config "One_reporter ''console''" shuffle "own_cases bodies" reg clears]
      rep sorted c good by (auto simp: h)
  have "verdicts rc = map (\<lambda>tc. (True, tc_name tc)) (own_cases bodies)"
    using run(2) own_cases_plain(2) by (simp add: spec)
  moreover have "map (\<lambda>tc. (True, tc_name tc)) (own_cases bodies) = map (\<lambda>t. (True, spot_name t)) spots"
    using assms(1) by (auto simp: own_cases_def spots_def own_tags_def elim!: length_5E)
  moreover have "session_config writable (own_session h) = Inr (default_config, (own_session h)\<lparr>s_config := Some default_config\<rparr>)"
    by (simp add: session_config_def own_session_def makeConfig_def openStream_def newConfigData_def as_res_def)
  then have "session_run writable shuffle clears (own_session h)
      = Some (Inr 0, (own_session h)\<lparr>s_config := Some default_config, s_hub := h\<lparr>hub_tests := reg\<rparr>\<rparr>)"
    using c run(1,3) list_requests_none [of default_config shuffle h]
    by (simp add: session_run_def session_body_def guarded_def exit_code_def own_session_def)
  ultimately show ?thesis using run(1) by auto
qed

text \<open>
  C31. What becomes of the program's own tests where their files are in place, the database takes the
  statements of the adapter's test and the port is free is decided by what was on the stack: when the
  characters behind the server's first two answers are NUL, every test of the file is started, all pass
  and the test program ends with exit code 0; otherwise it is terminated before any result is reported.
\<close>

theorem own_tests_pass:
  assumes "test_surroundings api px alg listen"
  shows "if terminated_reply (garbage 1) \<and> terminated_reply (garbage 2)
    then \<exists>bodies h t rc h' s'. own_bodies api px alg listen policy garbage data con = Some (Inr bodies)
      \<and> register_tests (zip spots bodies) framework_hub = Inr h
      \<and> session_run writable shuffle clears (own_session h) = Some (Inr 0, s')
      \<and> runTests shuffle clears default_config h = Some (Inr (t, rc, h'))
      \<and> verdicts rc = map (\<lambda>t. (True, spot_name t)) spots
    else own_bodies api px alg listen policy garbage data con = Some (Inl Terminated)"
proof (cases "terminated_reply (garbage 1) \<and> terminated_reply (garbage 2)")
  case True
  obtain bodies where bodies: "own_bodies api px alg listen policy garbage data con = Some (Inr bodies)"
    "length bodies = 5" "\<forall>b\<in>set bodies. \<forall>env. accepted env b"
    using own_bodies_accepted [OF assms] True by blast
  obtain h where "register_tests (zip spots bodies) framework_hub = Inr h"
    using own_tests_registered [OF bodies(2)] by blast
  with own_session_passes [OF bodies(2,3) this] bodies(1) True show ?thesis
    by (simp del: split_paired_Ex)
qed (use garbage_aborts_the_tests [OF assms] in auto)

section \<open>Instances\<close>

definition ref_files :: "string \<Rightarrow> ptree option" where
  "ref_files = test_files
     (config_path := test_files ''server_config.xml'', ''../test/resources/db_settings.xml'' := test_files ''db_settings.xml'',
      ''../db_settings.xml'' := test_files ''db_settings.xml'', ''../tests_db_settings.xml'' := test_files ''db_settings.xml'')"

text \<open>A database that answers every statement with one row.\<close>

definition one_row :: "string list pqxx_api" where
  "one_row = \<lparr>px_connection = (\<lambda>s. Inr []), px_exec = (\<lambda>sql c. (Inr [[''1'']], c @ [sql])), px_disconnect = (\<lambda>c. c)\<rparr>"

interpretation one_row: pqxx_session one_row "\<lambda>c. c"
  by unfold_locales (auto simp: one_row_def)

lemma ref_surroundings: "test_surroundings (xml_ref ref_files) one_row boost_ref (\<lambda>p. None)"
proof -
  have "\<exists>s. get_connection_string (xml_ref ref_files) p = Inr s" if "ref_files p = test_files ''db_settings.xml''" for p
    using connection_anywhere [of ref_files p test_files "''db_settings.xml''"] that test_file_trees(2)
    by (simp add: test_connection_string)
  moreover have "own_files ref_files" "ref_files ''../db_settings.xml'' = test_files ''db_settings.xml''"
    "ref_files ''../tests_db_settings.xml'' = test_files ''db_settings.xml''"
    by (simp_all add: own_files_def ref_files_def)
  moreover have "test_database one_row s" "\<exists>c. px_connection one_row s = Inr c" for s
    by (simp_all add: test_database_def one_row_def)
  ultimately show ?thesis
    using trees.property_trees_axioms boost.string_algorithms_axioms unfolding test_surroundings_def by blast
qed

lemma own_tests_pass_witness:
  "\<exists>bodies h s'. own_bodies (xml_ref ref_files) one_row boost_ref (\<lambda>p. None) Launch_async (\<lambda>n. (CHR ''x'', NUL, CHR ''x'')) [] silent
      = Some (Inr bodies)
    \<and> register_tests (zip spots bodies) framework_hub = Inr h
    \<and> session_run (\<lambda>_. False) rev (\<lambda>n r ms t. True) (own_session h) = Some (Inr 0, s')"
  using own_tests_pass [OF ref_surroundings, of "\<lambda>n. (CHR ''x'', NUL, CHR ''x'')" Launch_async "[]" silent "\<lambda>_. False" rev "\<lambda>n r ms t. True"]
  unfolding terminated_reply_def by (simp del: split_paired_Ex) blast

end
