(* ===== verification/Catch_Reporter.thy ===== *)
theory Catch_Reporter
  imports Catch_Session
begin

text \<open>
  What a reporter may rely on (\<open>IStreamingReporter\<close>, \<open>StreamingReporterBase\<close> and \<open>RunContext\<close> in
  \<open>include/catch.h\<close>): the events of a run are nested, whatever the tests do. The contract between a
  run and its reporter is a locale that each reporter interprets.
\<close>

section \<open>The state all streaming reporters keep\<close>

text \<open>A value that may not be there yet, and whether it was used.\<close>

record 'a lazy_stat =
  stat :: "'a option"
  used :: bool

definition no_stat :: "'a lazy_stat" where "no_stat = \<lparr>stat = None, used = False\<rparr>"

definition new_stat :: "'a \<Rightarrow> 'a lazy_stat" where "new_stat x = \<lparr>stat = Some x, used = False\<rparr>"

record group_info =
  group_name :: string
  groupIndex :: nat
  groupsCounts :: nat

record streaming_base =
  currentTestRunInfo :: "string lazy_stat"
  currentGroupInfo :: "group_info lazy_stat"
  currentTestCaseInfo :: "string lazy_stat"
  m_sectionStack :: "section_info list"

definition newStreamingBase :: streaming_base where
  "newStreamingBase =
     \<lparr>currentTestRunInfo = no_stat, currentGroupInfo = no_stat, currentTestCaseInfo = no_stat, m_sectionStack = []\<rparr>"

fun base_event :: "reporter_event \<Rightarrow> streaming_base \<Rightarrow> streaming_base res" where
  "base_event (TestRunStarting n) b = Inr (b\<lparr>currentTestRunInfo := new_stat n\<rparr>)"
| "base_event (TestGroupStarting n i k) b =
     Inr (b\<lparr>currentGroupInfo := new_stat \<lparr>group_name = n, groupIndex = i, groupsCounts = k\<rparr>\<rparr>)"
| "base_event (TestCaseStarting n) b = Inr (b\<lparr>currentTestCaseInfo := new_stat n\<rparr>)"
| "base_event (SectionStarting si) b = Inr (b\<lparr>m_sectionStack := m_sectionStack b @ [si]\<rparr>)"
| "base_event (AssertionEnded r ms t) b = Inr b"
| "base_event (SectionEnded si c missing) b =
     (if m_sectionStack b = [] then Inl (Undefined Vector_index)
      else Inr (b\<lparr>m_sectionStack := butlast (m_sectionStack b)\<rparr>))"
| "base_event (TestCaseEnded n cls t a) b = Inr (b\<lparr>currentTestCaseInfo := no_stat\<rparr>)"
| "base_event (TestGroupEnded n t i k a) b = Inr (b\<lparr>currentGroupInfo := no_stat\<rparr>)"
| "base_event (TestRunEnded n t a) b =
     Inr (b\<lparr>currentTestCaseInfo := no_stat, currentGroupInfo := no_stat, currentTestRunInfo := no_stat\<rparr>)"
| "base_event (SkipTest n) b = Inr b"

section \<open>The order of the events\<close>

text \<open>
  Where in a run the events are: in no run, in a run, in a group, in a test that was started, or in
  a test that is so many sections deep.
\<close>

datatype nesting = Outside | In_run | In_group | In_test | In_case nat

fun nest :: "reporter_event \<Rightarrow> nesting \<Rightarrow> nesting option" where
  "nest (TestRunStarting n) p = (if p = Outside then Some In_run else None)"
| "nest (TestGroupStarting n i k) p = (if p = In_run then Some In_group else None)"
| "nest (TestCaseStarting n) p = (if p = In_group then Some In_test else None)"
| "nest (SectionStarting si) p = (case p of In_test \<Rightarrow> Some (In_case 1) | In_case k \<Rightarrow> Some (In_case (Suc k)) | _ \<Rightarrow> None)"
| "nest (AssertionEnded r ms t) p = (case p of In_case (Suc k) \<Rightarrow> Some p | _ \<Rightarrow> None)"
| "nest (SectionEnded si c missing) p = (case p of In_case (Suc k) \<Rightarrow> Some (In_case k) | _ \<Rightarrow> None)"
| "nest (TestCaseEnded n cls t a) p = (if p = In_case 0 then Some In_group else None)"
| "nest (TestGroupEnded n t i k a) p = (if p = In_group then Some In_run else None)"
| "nest (TestRunEnded n t a) p = (if p = In_run then Some Outside else None)"
| "nest (SkipTest n) p = (if p = In_group then Some p else None)"

fun nest_all :: "reporter_event list \<Rightarrow> nesting \<Rightarrow> nesting option" where
  "nest_all [] p = Some p"
| "nest_all (e # es) p = Option.bind (nest e p) (nest_all es)"

fun sections_open :: "nesting \<Rightarrow> nat" where
  "sections_open (In_case k) = k"
| "sections_open p = 0"

text \<open>
  What a reporter comes to when it is told of all events. With each event there may be what a run
  measures and the model of a run leaves out, such as a duration.
\<close>

text \<open>A reporter that never comes back from an event is \<open>None\<close>.\<close>

fun report_all ::
  "('x \<Rightarrow> reporter_event \<Rightarrow> 'r \<Rightarrow> 'r res option) \<Rightarrow> (nat \<Rightarrow> 'x) \<Rightarrow> reporter_event list \<Rightarrow> 'r \<Rightarrow> 'r res option" where
  "report_all f x [] r = Some (Inr r)"
| "report_all f x (e # es) r =
     Option.bind (f (x (length es)) e r) (\<lambda>v. case v of Inl d \<Rightarrow> Some (Inl d) | Inr r' \<Rightarrow> report_all f x es r')"

section \<open>The events of a run are nested\<close>

text \<open>What was reported, as a place, and the sections whose end is still to be reported.\<close>

definition level :: "run_context \<Rightarrow> nesting option \<times> nat" where
  "level rc = (nest_all (rc_events rc) Outside, length (rc_unfinished rc))"

lemma nest_all_append: "nest_all (es @ fs) p = Option.bind (nest_all es p) (nest_all fs)"
  by (induction es arbitrary: p) (auto intro: Option.bind_cong)

lemma nest_all_one: "nest_all [e] = nest e"
proof (rule ext)
  show "nest_all [e] p = nest e p" for p by (cases "nest e p") simp_all
qed

lemma level_report: "level (report e rc) = (Option.bind (fst (level rc)) (nest e), snd (level rc))"
  by (simp add: level_def report_def nest_all_append nest_all_one del: nest_all.simps)

lemma level_simps [simp]:
  "level (rc\<lparr>rc_totals := x0\<rparr>) = level rc" "level (on_counts f rc) = level rc"
  "level (rc\<lparr>rc_tracker := x1\<rparr>) = level rc" "level (rc\<lparr>rc_messages := x2\<rparr>) = level rc"
  "level (rc\<lparr>rc_activeSections := x3\<rparr>) = level rc" "level (rc\<lparr>rc_generators := x4\<rparr>) = level rc"
  "level (rc\<lparr>rc_unfinished := us\<rparr>) = (fst (level rc), length us)" "level (rc\<lparr>rc_lastAssertionInfo := x6\<rparr>) = level rc"
  "level (rc\<lparr>rc_lastResult := x7\<rparr>) = level rc" "level (rc\<lparr>rc_messageCount := x8\<rparr>) = level rc"
  "level (rc\<lparr>rc_activeTest := x10\<rparr>) = level rc" "level (rc\<lparr>rc_testCaseTracker := x11\<rparr>) = level rc"
  by (simp_all add: level_def on_counts_def)

text \<open>In a test, so many sections deep that are not to be ended late.\<close>

definition within :: "nat \<Rightarrow> run_context \<Rightarrow> bool" where
  "within d rc \<longleftrightarrow> fst (level rc) = Some (In_case (d + snd (level rc)))"

lemma within_simps [simp]:
  "within d (on_counts f rc) = within d rc"
  "within d (rc\<lparr>rc_tracker := x1\<rparr>) = within d rc" "within d (rc\<lparr>rc_messages := x2\<rparr>) = within d rc"
  "within d (rc\<lparr>rc_activeSections := x3\<rparr>) = within d rc" "within d (rc\<lparr>rc_generators := x4\<rparr>) = within d rc"
  "within d (rc\<lparr>rc_lastAssertionInfo := x6\<rparr>) = within d rc"
  "within d (rc\<lparr>rc_lastResult := x7\<rparr>) = within d rc" "within d (rc\<lparr>rc_messageCount := x8\<rparr>) = within d rc"
  by (simp_all add: within_def)

lemma within_report [simp]:
  "within (Suc d) rc \<Longrightarrow> within (Suc d) (report (AssertionEnded r ms t) rc)"
  "within d rc \<Longrightarrow> within (Suc d) (report (SectionStarting si) rc)"
  "within (Suc d) rc \<Longrightarrow> within d (report (SectionEnded si c m) rc)"
  by (simp_all add: within_def level_report)

lemma assertionEnded_within: "within (Suc d) rc \<Longrightarrow> within (Suc d) (assertionEnded env r rc)"
  by (simp add: assertionEnded_def Let_def split: prod.split)

lemma capture_within: "captureExpression env b rc = Inr (b', rc') \<Longrightarrow> within (Suc d) rc \<Longrightarrow> within (Suc d) rc'"
  by (auto simp: captureExpression_def bindR_eq_Inr handleResult_def Let_def assertionEnded_within)

lemma macros_within:
  "test_macro env s e rc = Inr (c, rc') \<Longrightarrow> within (Suc d) rc \<Longrightarrow> within (Suc d) rc'"
  "no_throw_macro env s x rc = Inr (c, rc') \<Longrightarrow> within (Suc d) rc \<Longrightarrow> within (Suc d) rc'"
  "throws_macro env s a m x rc = Inr (c, rc') \<Longrightarrow> within (Suc d) rc \<Longrightarrow> within (Suc d) rc'"
  "throws_as_macro env s y rc = Inr (c, rc') \<Longrightarrow> within (Suc d) rc \<Longrightarrow> within (Suc d) rc'"
  "msg_macro env t s z rc = Inr (c, rc') \<Longrightarrow> within (Suc d) rc \<Longrightarrow> within (Suc d) rc'"
  "check_that_macro env s a m rc = Inr (c, rc') \<Longrightarrow> within (Suc d) rc \<Longrightarrow> within (Suc d) rc'"
  by (auto simp: test_macro_def no_throw_macro_def throws_macro_def throws_as_macro_def msg_macro_def check_that_macro_def
      endExpression_def useActiveException_def captureResult_def captureExpectedException_def handleResult_def assertionEnded_within
      react_def Let_def map_sum_Inr dest!: capture_within split: evaluated.splits option.splits if_splits prod.splits)

lemma sectionStarted_within:
  "sectionStarted si rc = Inr (c, rc') \<Longrightarrow> within d rc \<Longrightarrow> within (if c = None then d else Suc d) rc'"
  by (auto simp: sectionStarted_def bindR_eq_Inr Let_def split: if_splits)

lemma missing_level: "testForMissingAssertions env c rc = Inr (m, c', rc') \<Longrightarrow> level rc' = level rc"
  by (auto simp: testForMissingAssertions_def bindR_eq_Inr split: if_splits)

lemma close_active_level: "close_active f rc = Inr rc' \<Longrightarrow> level rc' = level rc \<and> rc_unfinished rc' = rc_unfinished rc"
  by (auto simp: close_active_def bindR_eq_Inr split: list.splits)

lemma sectionEnded_level:
  "sectionEnded env e rc = Inr rc' \<Longrightarrow> fst (level rc) = Some (In_case (Suc k)) \<Longrightarrow> level rc' = (Some (In_case k), snd (level rc))"
  by (auto simp: sectionEnded_def bindR_eq_Inr level_report dest!: missing_level close_active_level split: if_splits)

lemma leave_section_within: "leave_section env e cr = Inr (c, rc') \<Longrightarrow> within (Suc d) (snd cr) \<Longrightarrow> within d rc'"
  by (auto simp: leave_section_def sectionEndedEarly_def bindR_eq_Inr within_def
      dest!: sectionEnded_level close_active_level split: completion.splits)
    (simp_all add: level_def)

lemma handle_unfinished_level:
  "handle_unfinished env es rc = Inr rc' \<Longrightarrow> fst (level rc) = Some (In_case (d + length es)) \<Longrightarrow> fst (level rc') = Some (In_case d)"
  by (induction es arbitrary: rc) (auto simp: bindR_eq_Inr dest!: sectionEnded_level)

lemma run_within:
  "run_step env s rc = Inr (c, rc') \<Longrightarrow> within (Suc d) rc \<Longrightarrow> within (Suc d) rc'"
  "run_steps env ss rc = Inr (c, rc') \<Longrightarrow> within (Suc d) rc \<Longrightarrow> within (Suc d) rc'"
proof (induction env s rc and env ss rc arbitrary: c rc' d and c rc' d rule: run_step_run_steps.induct)
  case (7 env macro line tx body rc)
  then show ?case
    by (auto simp: map_sum_Inr pushScopedMessage_def popScopedMessage_def Let_def split: prod.splits)
next
  case (8 env si body rc)
  obtain entered rc1 where st: "sectionStarted si rc = Inr (entered, rc1)" using 8(2) by (auto simp: bindR_eq_Inr)
  show ?case
  proof (cases entered)
    case None
    then show ?thesis using 8(2) st sectionStarted_within [OF st 8(3)] by simp
  next
    case (Some prev)
    then obtain cr where cr: "run_steps env body rc1 = Inr cr"
      "leave_section env \<lparr>sei_sectionInfo = si, sei_prevAssertions = prev\<rparr> cr = Inr (c, rc')"
      using 8(2) st by (auto simp: bindR_eq_Inr)
    have "within (Suc (Suc d)) (snd cr)"
      using 8(1) [OF st refl Some, of "fst cr" "snd cr"] cr(1) sectionStarted_within [OF st 8(3)] Some by simp
    then show ?thesis by (rule leave_section_within [OF cr(2)])
  qed
next
  case (9 env g rc)
  then show ?case by (auto simp: Let_def split: prod.splits sum.splits failure.splits)
next
  case (12 env s ss rc)
  obtain c1 rc1 where one: "run_step env s rc = Inr (c1, rc1)"
    and two: "(case c1 of Completed \<Rightarrow> run_steps env ss rc1 | _ \<Rightarrow> Inr (c1, rc1)) = Inr (c, rc')"
    using 12(3) by (auto simp: bindR_eq_Inr)
  show ?case
    using 12(1) [OF one 12(4)] two 12(2) [OF one refl] by (cases c1) auto
qed (auto dest: macros_within)

lemma invoke_within: "invokeActiveTestCase env tc rc = Inr rc' \<Longrightarrow> within (Suc d) rc \<Longrightarrow> within (Suc d) rc'"
proof -
  assume inv: "invokeActiveTestCase env tc rc = Inr rc'" and w: "within (Suc d) rc"
  obtain c rc1 where rc1: "run_steps env (test_body tc) rc = Inr (c, rc1)"
    and c: "(case c of Completed \<Rightarrow> Inr rc1 | Test_failure \<Rightarrow> Inr rc1
      | Raised x \<Rightarrow> map_sum id snd (useActiveException env NormalDisposition x (makeUnexpectedResultBuilder rc1) rc1)) = Inr rc'"
    using inv unfolding invokeActiveTestCase_def bindR_eq_Inr by auto
  show ?thesis
    using c run_within(2) [OF rc1 w]
    by (cases c) (auto simp: map_sum_Inr useActiveException_def captureResult_def dest!: capture_within)
qed

text \<open>Between two cycles of a test: in the test, with no section open or due.\<close>

definition idle :: "run_context \<Rightarrow> bool" where
  "idle rc \<longleftrightarrow> level rc = (Some (In_case 0), 0)"

text \<open>Before the first cycle no section was opened yet.\<close>

definition ready :: "run_context \<Rightarrow> bool" where
  "ready rc \<longleftrightarrow> level rc = (Some In_test, 0) \<or> idle rc"

lemma idle_ready: "idle rc \<Longrightarrow> ready rc"
  by (simp add: ready_def)

lemma idle_simps [simp]:
  "idle (rc\<lparr>rc_tracker := x1\<rparr>) = idle rc" "idle (rc\<lparr>rc_testCaseTracker := x2\<rparr>) = idle rc"
  "idle (rc\<lparr>rc_generators := x3\<rparr>) = idle rc"
  "ready (rc\<lparr>rc_tracker := x1\<rparr>) = ready rc" "ready (rc\<lparr>rc_testCaseTracker := x2\<rparr>) = ready rc"
  by (simp_all add: idle_def ready_def)

lemma excuse_level [simp]: "level (snd (excuse_failures tc c rc)) = level rc"
  by (simp add: excuse_failures_def Let_def)

lemma current_test_between: "runCurrentTest env tc rc = Inr rc' \<Longrightarrow> ready rc \<Longrightarrow> idle rc'"
proof -
  assume run: "runCurrentTest env tc rc = Inr rc'" and b: "ready rc"
  let ?rc = "(report (SectionStarting (test_section tc)) rc)\<lparr>rc_lastAssertionInfo :=
    \<lparr>macroName = ''TEST_CASE'', ai_lineInfo = lineInfo tc, capturedExpression = [], resultDisposition = NormalDisposition\<rparr>\<rparr>"
  obtain rc1 rc2 rc3 m c rc4 where steps: "invokeActiveTestCase env tc ?rc = Inr rc1" "close_test_case rc1 = Inr rc2"
    "handleUnfinishedSections env rc2 = Inr rc3"
    "testForMissingAssertions env (counts_minus (run_counts rc3) (run_counts rc)) (rc3\<lparr>rc_messages := []\<rparr>) = Inr (m, c, rc4)"
    "rc' = report (SectionEnded (test_section tc) (fst (excuse_failures tc c rc4)) m) (snd (excuse_failures tc c rc4))"
    using run unfolding runCurrentTest_def bindR_eq_Inr Let_def by (auto simp: bindR_eq_Inr case_prod_unfold)
  have "within (Suc 0) ?rc" using b by (auto simp: ready_def idle_def within_def level_report)
  then have "within (Suc 0) rc1" by (rule invoke_within [OF steps(1)])
  then have "within (Suc 0) rc2" using steps(2) by (auto simp: close_test_case_def bindR_eq_Inr split: option.splits)
  then have "fst (level rc2) = Some (In_case (Suc 0 + length (rev (rc_unfinished rc2))))" by (simp add: within_def level_def)
  moreover obtain rc2' where "handle_unfinished env (rev (rc_unfinished rc2)) rc2 = Inr rc2'" "rc3 = rc2'\<lparr>rc_unfinished := []\<rparr>"
    using steps(3) by (auto simp: handleUnfinishedSections_def bindR_eq_Inr)
  ultimately have "level rc3 = (Some (In_case (Suc 0)), 0)" using handle_unfinished_level by simp
  then have "level rc4 = (Some (In_case (Suc 0)), 0)" using missing_level [OF steps(4)] by simp
  then show ?thesis by (simp add: idle_def steps(5) level_report)
qed

lemma run_cycle_between: "run_cycle env tc rc = Inr (again, rc') \<Longrightarrow> ready rc \<Longrightarrow> idle rc'"
proof -
  assume "run_cycle env tc rc = Inr (again, rc')" and b: "ready rc"
  then obtain p ctx where "runCurrentTest env tc (rc\<lparr>rc_tracker := ctx, rc_testCaseTracker := Some p\<rparr>) = Inr rc'"
    by (auto simp: run_cycle_def bindR_eq_Inr)
  then show "idle rc'" by (rule current_test_between) (simp add: b)
qed

lemma run_cycles_between: "run_cycles env tc rc = Some r \<Longrightarrow> ready rc \<longrightarrow> (\<forall>rc'. r = Inr rc' \<longrightarrow> idle rc')"
proof (induction rule: run_cycles.raw_induct [rotated, consumes 1])
  case (1 f env tc rc r)
  show ?case
  proof (cases "run_cycle env tc rc")
    case (Inr a)
    obtain again rc1 where a: "a = (again, rc1)" by (cases a)
    then have step: "ready rc \<Longrightarrow> idle rc1" using Inr run_cycle_between [of env tc rc again rc1] by simp
    show ?thesis
    proof (cases again)
      case True
      then have "f env tc rc1 = Some r" using 1(2) Inr a by simp
      from 1(1) [OF this] step idle_ready show ?thesis by blast
    next
      case False
      then have "r = Inr rc1" using 1(2) Inr a by simp
      then show ?thesis using step by simp
    qed
  qed (use 1(2) in auto)
qed

lemma run_generators_between:
  "run_generators env tc rc = Some r \<Longrightarrow> ready rc \<longrightarrow> (\<forall>rc'. r = Inr rc' \<longrightarrow> idle rc')"
proof (induction rule: run_generators.raw_induct [rotated, consumes 1])
  case (1 f env tc rc r)
  obtain r1 where r1: "run_cycles env tc (rc\<lparr>rc_tracker := startRun (rc_tracker rc)\<rparr>) = Some r1"
    using 1(2) by (cases "run_cycles env tc (rc\<lparr>rc_tracker := startRun (rc_tracker rc)\<rparr>)") auto
  show ?case
  proof (cases r1)
    case (Inl e)
    then show ?thesis using 1(2) r1 by auto
  next
    case (Inr rc1)
    obtain moved rc2 where adv: "advance_generators rc1 = (moved, rc2)" by fastforce
    have "ready rc \<Longrightarrow> idle rc1" using run_cycles_between [OF r1] Inr by simp
    moreover have "idle rc1 = idle rc2"
      using adv by (auto simp: advance_generators_def Let_def split: prod.splits)
    ultimately have step: "ready rc \<Longrightarrow> idle rc2" by simp
    show ?thesis
    proof (cases "moved \<and> \<not> aborting env rc2")
      case True
      then have "f env tc rc2 = Some r" using 1(2) r1 Inr adv by simp
      from 1(1) [OF this] step idle_ready show ?thesis by blast
    next
      case False
      then have "r = Inr rc2" using 1(2) r1 Inr adv by (auto split: if_splits)
      then show ?thesis using step by simp
    qed
  qed
qed

definition in_group :: "run_context \<Rightarrow> bool" where
  "in_group rc \<longleftrightarrow> level rc = (Some In_group, 0)"

lemma runTest_in_group:
  assumes "runTest env tc rc = Some (Inr (d, rc'))" "in_group rc"
  shows "in_group rc'"
proof -
  let ?rc0 = "(report (TestCaseStarting (tc_name tc)) rc)\<lparr>rc_activeTest := Some (tc_name tc)\<rparr>"
  obtain rc1 where rc1: "run_generators env tc ?rc0 = Some (Inr rc1)" "finish_test env tc (rc_totals rc) rc1 = (d, rc')"
    using assms by (auto simp: runTest_def Option.bind_eq_Some_conv bindR_eq_Inr)
  have "ready ?rc0" using assms(2) by (simp add: in_group_def ready_def level_report)
  then have "idle rc1" using run_generators_between [OF rc1(1)] by simp
  then show ?thesis using rc1(2) by (auto simp: finish_test_def Let_def idle_def in_group_def level_report)
qed

lemma run_all_in_group:
  "run_all env spec tcs t rc = Some (Inr (t', rc')) \<Longrightarrow> in_group rc \<Longrightarrow> in_group rc'"
proof (induction tcs arbitrary: t rc)
  case Nil
  then show ?case by simp
next
  case (Cons tc tcs)
  show ?case
  proof (cases "\<not> aborting env rc \<and> matchTest tc spec (env_config env)")
    case True
    then obtain r where r: "runTest env tc rc = Some r" using Cons.prems by (cases "runTest env tc rc") auto
    moreover from this obtain d rc1 where "r = Inr (d, rc1)" using Cons.prems True by (cases r) auto
    ultimately have run: "runTest env tc rc = Some (Inr (d, rc1))"
      "run_all env spec tcs (totals_plus t d) rc1 = Some (Inr (t', rc'))"
      using Cons.prems True by auto
    show ?thesis by (rule Cons.IH [OF run(2) runTest_in_group [OF run(1) Cons.prems(2)]])
  next
    case False
    then have "run_all env spec tcs t (report (SkipTest (tc_name tc)) rc) = Some (Inr (t', rc'))"
      using Cons.prems by (auto split: if_splits)
    moreover have "in_group (report (SkipTest (tc_name tc)) rc)"
      using Cons.prems(2) by (simp add: in_group_def level_report)
    ultimately show ?thesis by (rule Cons.IH)
  qed
qed

lemma runTests_nested:
  assumes "runTests shuffle clears c h = Some (Inr (t, rc, h'))"
  shows "nest_all (rc_events rc) Outside = Some Outside"
proof -
  obtain rep tcs reg where "as_res (makeReporter h (cfg_data c)) = Inr rep"
    "as_res (getAllTestsSorted shuffle (runOrder (cfg_data c)) (hub_tests h)) = Inr (tcs, reg)"
    using assms by (auto simp: runTests_def Let_def split: sum.splits)
  moreover define env where "env = run_env_of clears h rep c"
  moreover define rc0 where "rc0 = testGroupStarting (config_name c) 1 1 (newRunContext env)"
  ultimately obtain rc1 where run: "run_all env (run_spec (hub_aliases h) c) tcs no_totals rc0 = Some (Inr (t, rc1))"
    and rc: "rc = endRunContext env (testGroupEnded env (config_name c) t 1 1 rc1)"
    using assms by (auto simp: runTests_def Let_def Option.bind_eq_Some_conv bindR_eq_Inr)
  have "in_group rc0" by (simp add: rc0_def in_group_def testGroupStarting_def newRunContext_def level_report) (simp add: level_def)
  then have "in_group rc1" by (rule run_all_in_group [OF run])
  then have "fst (level rc) = Some Outside"
    by (simp add: rc in_group_def endRunContext_def testGroupEnded_def level_report)
  then show ?thesis by (simp add: level_def)
qed

text \<open>Several reporters are told of an event one after the other.\<close>

fun multi_event ::
  "('x \<Rightarrow> reporter_event \<Rightarrow> 'r \<Rightarrow> 'r res option) \<Rightarrow> 'x \<Rightarrow> reporter_event \<Rightarrow> 'r list \<Rightarrow> 'r list res option" where
  "multi_event f x e [] = Some (Inr [])"
| "multi_event f x e (r # rs) =
     Option.bind (f x e r) (\<lambda>v. case v of Inl d \<Rightarrow> Some (Inl d)
       | Inr r' \<Rightarrow> map_option (\<lambda>v. bindR v (\<lambda>rs'. Inr (r' # rs'))) (multi_event f x e rs))"

section \<open>The contract of a reporter\<close>

text \<open>
  A reporter comes back from every event it accepts, whenever such an event may come; its state
  is in order for the place the run has reached.
\<close>

locale streaming_reporter =
  fixes on_event :: "'x \<Rightarrow> reporter_event \<Rightarrow> 'r \<Rightarrow> 'r res option"
    and accepts :: "reporter_event \<Rightarrow> bool"
    and ok :: "'r \<Rightarrow> nesting \<Rightarrow> bool"
  assumes event_ok: "ok r p \<Longrightarrow> nest e p = Some p' \<Longrightarrow> accepts e \<Longrightarrow> \<exists>r'. on_event x e r = Some (Inr r') \<and> ok r' p'"
begin

lemma events_ok:
  "ok r p \<Longrightarrow> nest_all es p = Some p' \<Longrightarrow> list_all accepts es \<Longrightarrow>
     \<exists>r'. report_all on_event x es r = Some (Inr r') \<and> ok r' p'"
proof (induction es arbitrary: r p)
  case Nil
  then show ?case by simp
next
  case (Cons e es)
  obtain q where q: "nest e p = Some q" "nest_all es q = Some p'" using Cons.prems(2) by (auto simp: Option.bind_eq_Some_conv)
  obtain r1 where "on_event (x (length es)) e r = Some (Inr r1)" "ok r1 q"
    using event_ok [OF Cons.prems(1) q(1)] Cons.prems(3) by auto
  then show ?case using Cons.IH [OF _ q(2)] Cons.prems(3) by simp
qed

lemma run_is_reported:
  assumes "runTests shuffle clears c h = Some (Inr (t, rc, h'))" "ok r Outside" "list_all accepts (rc_events rc)"
  shows "\<exists>r'. report_all on_event x (rc_events rc) r = Some (Inr r') \<and> ok r' Outside"
  by (rule events_ok [OF assms(2) runTests_nested [OF assms(1)] assms(3)])

lemma multi_ok:
  "list_all (\<lambda>r. ok r p) rs \<Longrightarrow> nest e p = Some p' \<Longrightarrow> accepts e \<Longrightarrow>
     \<exists>rs'. multi_event on_event x e rs = Some (Inr rs') \<and> list_all (\<lambda>r. ok r p') rs' \<and> length rs' = length rs"
proof (induction rs)
  case Nil
  then show ?case by simp
next
  case (Cons r rs)
  obtain r' where "on_event x e r = Some (Inr r')" "ok r' p'" using event_ok Cons.prems by fastforce
  then show ?case using Cons by auto
qed

end

text \<open>
  The part all reporters share has one entry for each section that is open, and knows the run, the
  group and the test it is in.
\<close>

definition base_ok :: "streaming_base \<Rightarrow> nesting \<Rightarrow> bool" where
  "base_ok b p \<longleftrightarrow> length (m_sectionStack b) = sections_open p
     \<and> (p \<noteq> Outside \<longrightarrow> stat (currentTestRunInfo b) \<noteq> None)
     \<and> (p \<notin> {Outside, In_run} \<longrightarrow> stat (currentGroupInfo b) \<noteq> None)
     \<and> (p \<notin> {Outside, In_run, In_group} \<longrightarrow> stat (currentTestCaseInfo b) \<noteq> None)"

lemma base_event_ok:
  assumes "base_ok b p" "nest e p = Some p'"
  shows "\<exists>b'. base_event e b = Inr b' \<and> base_ok b' p'"
  using assms by (cases e) (auto simp: base_ok_def new_stat_def split: if_splits nesting.splits nat.splits)

interpretation base: streaming_reporter "\<lambda>x :: unit. \<lambda>e b. Some (base_event e b)" "\<lambda>e. True" base_ok
  by unfold_locales (simp add: base_event_ok)

section \<open>Sections that end late\<close>

text \<open>
  Sections left by an exception are reported as ended from the outermost to the innermost, since
  the innermost was noted first and the list is read backwards: each end carries the name and the
  counts of a section other than the one that is open in the report.
\<close>

fun ended_section :: "reporter_event \<Rightarrow> section_info list" where
  "ended_section (SectionEnded si c missing) = [si]"
| "ended_section e = []"

lemma sectionEnded_event:
  "sectionEnded env e rc = Inr rc' \<Longrightarrow> \<exists>c m. rc_events rc' = rc_events rc @ [SectionEnded (sei_sectionInfo e) c m]"
  by (auto simp: sectionEnded_def bindR_eq_Inr report_def testForMissingAssertions_def close_active_def on_counts_def
      split: if_splits list.splits)

lemma unfinished_outermost_first:
  "handle_unfinished env es rc = Inr rc' \<Longrightarrow>
     concat (map ended_section (rc_events rc')) = concat (map ended_section (rc_events rc)) @ map sei_sectionInfo es"
  by (induction es arbitrary: rc) (auto simp: bindR_eq_Inr dest!: sectionEnded_event)

end
