(* ===== verification/Catch_Console.thy ===== *)
theory Catch_Console
  imports Catch_Reporter
begin

text \<open>
  The console reporter (\<open>ConsoleReporter\<close> in \<open>include/catch.h\<close>): what it prints for each event,
  without colours. The text of a duration comes with the event. A failed \<open>assert\<close> ends the process.
\<close>

section \<open>Printing an assertion\<close>

text \<open>The word for the result, and what stands in front of the messages.\<close>

fun console_labels :: "result_was \<Rightarrow> assertion_result \<Rightarrow> nat \<Rightarrow> string \<times> string" where
  "console_labels Ok r n = (''PASSED'', if n = 1 then ''with message'' else if n > 1 then ''with messages'' else [])"
| "console_labels ExpressionFailed r n =
     (if result_isOk r then ''FAILED - but was ok'' else ''FAILED'',
      if n = 1 then ''with message'' else if n > 1 then ''with messages'' else [])"
| "console_labels ThrewException r n = (''FAILED'', ''due to unexpected exception with message'')"
| "console_labels FatalErrorCondition r n = (''FAILED'', ''due to a fatal error condition'')"
| "console_labels DidntThrowException r n = (''FAILED'', ''because no exception was thrown where one was expected'')"
| "console_labels Info r n = ([], ''info'')"
| "console_labels Warning r n = ([], ''warning'')"
| "console_labels ExplicitFailure r n =
     (''FAILED'', if n = 1 then ''explicitly with message'' else if n > 1 then ''explicitly with messages'' else [])"
| "console_labels t r n = (''** internal error **'', [])"

definition indented_text :: "string \<Rightarrow> string res" where
  "indented_text s = bindR (text_of s (setIndent 2 newTextAttributes)) (\<lambda>t. Inr (t @ endl))"

definition console_source :: "assertion_result \<Rightarrow> string" where
  "console_source r = show_source_line (ai_lineInfo (m_info r)) @ '': ''"

definition console_type :: "string \<Rightarrow> string" where
  "console_type passOrFail = (if passOrFail = [] then [] else passOrFail @ '':'' @ endl)"

definition console_original :: "assertion_result \<Rightarrow> string" where
  "console_original r = (if hasExpression r then ''  '' @ getExpressionInMacro r @ endl else [])"

definition console_reconstructed :: "assertion_result \<Rightarrow> string res" where
  "console_reconstructed r =
     (if hasExpandedExpression r
      then bindR (indented_text (getExpandedExpression r)) (\<lambda>t. Inr (''with expansion:'' @ endl @ t))
      else Inr [])"

fun console_messages :: "bool \<Rightarrow> message_info list \<Rightarrow> string res" where
  "console_messages infos [] = Inr []"
| "console_messages infos (m # ms) =
     (if infos \<or> mi_type m \<noteq> Info
      then bindR (indented_text (mi_message m)) (\<lambda>t. bindR (console_messages infos ms) (\<lambda>u. Inr (t @ u)))
      else console_messages infos ms)"

definition console_message :: "bool \<Rightarrow> string \<Rightarrow> message_info list \<Rightarrow> string res" where
  "console_message infos label ms =
     bindR (console_messages infos ms) (\<lambda>u. Inr ((if label = [] then [] else label @ '':'' @ endl) @ u))"

definition console_print :: "bool \<Rightarrow> assertion_result \<Rightarrow> message_info list \<Rightarrow> totals \<Rightarrow> string res" where
  "console_print infos r ms t =
     (let (passOrFail, label) = console_labels (getResultType r) r (length ms)
      in bindR (if total (assertions t) > 0
                then bindR (console_reconstructed r) (\<lambda>e.
                  Inr ((if result_isOk r then endl else []) @ console_type passOrFail @ console_original r @ e))
                else Inr endl) (\<lambda>body.
         bindR (console_message infos label ms) (\<lambda>m. Inr (console_source r @ body @ m))))"

section \<open>Headers\<close>

definition getLineOfChars :: "char \<Rightarrow> string" where
  "getLineOfChars c = replicate (consoleWidth - 1) c"

text \<open>The lines after the first are indented to what follows a colon.\<close>

definition header_indent :: "string \<Rightarrow> nat" where
  "header_indent s = (case str_find s '': '' 0 of Some i \<Rightarrow> i + 2 | None \<Rightarrow> 0)"

definition header_string :: "string \<Rightarrow> nat \<Rightarrow> string res" where
  "header_string s ind =
     bindR (text_of s (setInitialIndent ind (setIndent (ind + header_indent s) newTextAttributes))) (\<lambda>t. Inr (t @ endl))"

definition open_header :: "string \<Rightarrow> string res" where
  "open_header s = bindR (header_string s 0) (\<lambda>t. Inr (getLineOfChars (CHR ''-'') @ endl @ t))"

definition closed_header :: "string \<Rightarrow> string res" where
  "closed_header s = bindR (open_header s) (\<lambda>t. Inr (t @ getLineOfChars (CHR ''.'') @ endl))"

fun section_headers :: "section_info list \<Rightarrow> string res" where
  "section_headers [] = Inr []"
| "section_headers (si # sis) =
     bindR (header_string (si_name si) 2) (\<lambda>t. bindR (section_headers sis) (\<lambda>u. Inr (t @ u)))"

definition the_stat :: "'a lazy_stat \<Rightarrow> 'a res" where
  "the_stat s = (case stat s of None \<Rightarrow> Inl (Undefined Null_deref) | Some x \<Rightarrow> Inr x)"

definition test_header :: "streaming_base \<Rightarrow> string res" where
  "test_header b =
     (case m_sectionStack b of
        [] \<Rightarrow> Inl Terminated
      | si # sis \<Rightarrow>
          bindR (the_stat (currentTestCaseInfo b)) (\<lambda>n.
          bindR (open_header n) (\<lambda>h.
          bindR (section_headers sis) (\<lambda>s.
            Inr (h @ s
              @ (if source_line_empty (si_lineInfo si) then []
                 else getLineOfChars (CHR ''-'') @ endl @ show_source_line (si_lineInfo si) @ endl)
              @ getLineOfChars (CHR ''.'') @ endl @ endl)))))"

section \<open>The reporter's state\<close>

record console_reporter =
  k_base :: streaming_base
  m_headerPrinted :: bool
  k_stream :: string

definition newConsoleReporter :: "string \<Rightarrow> console_reporter" where
  "newConsoleReporter out = \<lparr>k_base = newStreamingBase, m_headerPrinted = False, k_stream = out\<rparr>"

definition print_console :: "string \<Rightarrow> console_reporter \<Rightarrow> console_reporter" where
  "print_console s k = k\<lparr>k_stream := k_stream k @ s\<rparr>"

definition lazyPrintRunInfo :: "config \<Rightarrow> console_reporter \<Rightarrow> console_reporter res" where
  "lazyPrintRunInfo c k =
     bindR (the_stat (currentTestRunInfo (k_base k))) (\<lambda>n.
       Inr ((print_console
         (endl @ getLineOfChars (CHR ''~'') @ endl @ n @ '' is a Catch v'' @ show_version libraryVersion @ '' host application.'' @ endl
           @ ''Run with -? for options'' @ endl @ endl
           @ (if cfg_rngSeed (cfg_data c) \<noteq> 0 then ''Randomness seeded to: '' @ dec (cfg_rngSeed (cfg_data c)) @ endl @ endl else [])) k)
        \<lparr>k_base := (k_base k)\<lparr>currentTestRunInfo := (currentTestRunInfo (k_base k))\<lparr>used := True\<rparr>\<rparr>\<rparr>))"

definition lazyPrintGroupInfo :: "console_reporter \<Rightarrow> console_reporter res" where
  "lazyPrintGroupInfo k =
     bindR (the_stat (currentGroupInfo (k_base k))) (\<lambda>g.
       if group_name g \<noteq> [] \<and> groupsCounts g > 1
       then bindR (closed_header (''Group: '' @ group_name g)) (\<lambda>h.
         Inr ((print_console h k)
           \<lparr>k_base := (k_base k)\<lparr>currentGroupInfo := (currentGroupInfo (k_base k))\<lparr>used := True\<rparr>\<rparr>\<rparr>))
       else Inr k)"

definition lazyPrint :: "config \<Rightarrow> console_reporter \<Rightarrow> console_reporter res" where
  "lazyPrint c k0 =
     bindR (if used (currentTestRunInfo (k_base k0)) then Inr k0 else lazyPrintRunInfo c k0) (\<lambda>k1.
     bindR (if used (currentGroupInfo (k_base k1)) then Inr k1 else lazyPrintGroupInfo k1) (\<lambda>k2.
       if m_headerPrinted k2 then Inr k2
       else bindR (test_header (k_base k2)) (\<lambda>h. Inr ((print_console h k2)\<lparr>m_headerPrinted := True\<rparr>))))"

section \<open>The totals\<close>

record summary_column =
  col_label :: string
  rows :: "string list"

definition newSummaryColumn :: "string \<Rightarrow> summary_column" where
  "newSummaryColumn label = \<lparr>col_label = label, rows = []\<rparr>"

definition pad_to :: "nat \<Rightarrow> string \<Rightarrow> string" where
  "pad_to n s = replicate (n - length s) (CHR '' '') @ s"

text \<open>A new row and the rows before it are made equally long.\<close>

fun pad_rows :: "string list \<Rightarrow> string \<Rightarrow> string list \<times> string" where
  "pad_rows [] row = ([], row)"
| "pad_rows (r # rs) row =
     (let r' = pad_to (length row) r; (rs', row') = pad_rows rs (pad_to (length r') row) in (r' # rs', row'))"

definition addRow :: "count \<Rightarrow> summary_column \<Rightarrow> summary_column" where
  "addRow n col = (let (rs, row) = pad_rows (rows col) (dec (unat n)) in col\<lparr>rows := rs @ [row]\<rparr>)"

definition string_at :: "string list \<Rightarrow> nat \<Rightarrow> string res" where
  "string_at xs i = (if i < length xs then Inr (xs ! i) else Inl (Undefined Vector_index))"

fun summary_cells :: "string \<Rightarrow> summary_column list \<Rightarrow> nat \<Rightarrow> string res" where
  "summary_cells label [] i = Inr []"
| "summary_cells label (col # cols) i =
     bindR (string_at (rows col) i) (\<lambda>v.
     bindR (summary_cells label cols i) (\<lambda>rest.
       Inr ((if col_label col = [] then label @ '': '' @ (if v \<noteq> ''0'' then v else ''- none -'')
             else if v \<noteq> ''0'' then '' | '' @ v @ '' '' @ col_label col else []) @ rest)))"

definition summary_row :: "string \<Rightarrow> summary_column list \<Rightarrow> nat \<Rightarrow> string res" where
  "summary_row label cols i = bindR (summary_cells label cols i) (\<lambda>s. Inr (s @ endl))"

definition summary_columns :: "totals \<Rightarrow> summary_column list" where
  "summary_columns t =
     (let tc = testCases t; as = assertions t
      in [addRow (total as) (addRow (total tc) (newSummaryColumn [])),
          addRow (passed as) (addRow (passed tc) (newSummaryColumn ''passed'')),
          addRow (failed as) (addRow (failed tc) (newSummaryColumn ''failed'')),
          addRow (failedButOk as) (addRow (failedButOk tc) (newSummaryColumn ''failed as expected''))])"

definition console_totals :: "totals \<Rightarrow> string res" where
  "console_totals t =
     (if total (testCases t) = 0 then Inr (''No tests ran'' @ endl)
      else if total (assertions t) > 0 \<and> allPassed (testCases t) then
        Inr (''All tests passed'' @ '' ('' @ pluralise (unat (passed (assertions t))) ''assertion'' @ '' in ''
          @ pluralise (unat (passed (testCases t))) ''test case'' @ '')'' @ endl)
      else bindR (summary_row ''test cases'' (summary_columns t) 0) (\<lambda>a.
           bindR (summary_row ''assertions'' (summary_columns t) 1) (\<lambda>b. Inr (a @ b))))"

section \<open>The divider\<close>

text \<open>All of it is counted in \<open>size_t\<close>.\<close>

definition makeRatio :: "count \<Rightarrow> count \<Rightarrow> count" where
  "makeRatio number all =
     (let ratio = (if all > 0 then of_nat consoleWidth * number div all else 0)
      in if ratio = 0 \<and> number > 0 then 1 else ratio)"

type_synonym ratios = "count \<times> count \<times> count"

text \<open>The largest of three is changed.\<close>

definition on_max :: "(count \<Rightarrow> count) \<Rightarrow> ratios \<Rightarrow> ratios" where
  "on_max f r = (case r of (i, j, k) \<Rightarrow>
     if i > j \<and> i > k then (f i, j, k) else if j > k then (i, f j, k) else (i, j, f k))"

definition ratio_sum :: "ratios \<Rightarrow> count" where
  "ratio_sum r = (case r of (i, j, k) \<Rightarrow> i + j + k)"

lemma ratio_sum_on_max:
  "ratio_sum (on_max (\<lambda>x. x + 1) r) = ratio_sum r + 1" "ratio_sum (on_max (\<lambda>x. x - 1) r) = ratio_sum r - 1"
  by (cases r; simp add: on_max_def ratio_sum_def)+

definition line_width :: count where "line_width = of_nat (consoleWidth - 1)"

function fill_up :: "ratios \<Rightarrow> ratios" where
  "fill_up r = (if ratio_sum r < line_width then fill_up (on_max (\<lambda>x. x + 1) r) else r)"
  by pat_completeness auto
termination
proof (relation "measure (\<lambda>r. unat line_width - unat (ratio_sum r))")
  fix r assume "ratio_sum r < line_width"
  then have "unat (ratio_sum r) < unat line_width" "unat (ratio_sum r + 1) = Suc (unat (ratio_sum r))"
    by (simp_all add: word_less_nat_alt unat_word_ariths(1) line_width_def consoleWidth_def)
  then show "(on_max (\<lambda>x. x + 1) r, r) \<in> measure (\<lambda>r. unat line_width - unat (ratio_sum r))"
    by (simp add: ratio_sum_on_max)
qed simp

function cut_down :: "ratios \<Rightarrow> ratios" where
  "cut_down r = (if ratio_sum r > line_width then cut_down (on_max (\<lambda>x. x - 1) r) else r)"
  by pat_completeness auto
termination
proof (relation "measure (\<lambda>r. unat (ratio_sum r))")
  fix r assume "ratio_sum r > line_width"
  then have "ratio_sum r \<noteq> 0" by auto
  then show "(on_max (\<lambda>x. x - 1) r, r) \<in> measure (\<lambda>r. unat (ratio_sum r))"
    by (simp add: ratio_sum_on_max unat_minus_one unat_gt_0)
qed simp

declare fill_up.simps [simp del] cut_down.simps [simp del]

definition divider_ratios :: "counts \<Rightarrow> ratios" where
  "divider_ratios tc =
     cut_down (fill_up (makeRatio (failed tc) (total tc), makeRatio (failedButOk tc) (total tc), makeRatio (passed tc) (total tc)))"

definition string_of_char :: "count \<Rightarrow> char \<Rightarrow> string res" where
  "string_of_char n c =
     (if n < 2 ^ 63 - 1 then Inr (replicate (unat n) c) else Inl (Throws (Exn ''basic_string::_M_create'')))"

definition totals_divider :: "totals \<Rightarrow> string res" where
  "totals_divider t =
     (if total (testCases t) > 0 then
        (case divider_ratios (testCases t) of (f, b, p) \<Rightarrow>
          bindR (string_of_char f (CHR ''='')) (\<lambda>x. bindR (string_of_char b (CHR ''='')) (\<lambda>y.
          bindR (string_of_char p (CHR ''='')) (\<lambda>z. Inr (x @ y @ z @ endl)))))
      else Inr (replicate (consoleWidth - 1) (CHR ''='') @ endl))"

section \<open>The events\<close>

definition console_drops :: "config \<Rightarrow> assertion_result \<Rightarrow> bool" where
  "console_drops c r \<longleftrightarrow> \<not> showSuccessfulTests (cfg_data c) \<and> result_isOk r \<and> getResultType r \<noteq> Warning"

definition shows_durations :: "config \<Rightarrow> bool" where
  "shows_durations c \<longleftrightarrow> cfg_showDurations (cfg_data c) = Always"

definition missing_note :: "section_info \<Rightarrow> bool \<Rightarrow> string" where
  "missing_note si nested =
     endl @ (if nested then ''No assertions in section'' else ''No assertions in test case'')
       @ '' '' @ [CHR 0x27] @ si_name si @ [CHR 0x27] @ endl @ endl"

fun console_write :: "config \<Rightarrow> string \<Rightarrow> reporter_event \<Rightarrow> console_reporter \<Rightarrow> console_reporter res" where
  "console_write c elapsed (AssertionEnded res ms t) k =
     (if console_drops c res then Inr k
      else bindR (lazyPrint c k) (\<lambda>k1.
           bindR (console_print (showSuccessfulTests (cfg_data c) \<or> \<not> result_isOk res) res ms t) (\<lambda>s.
             Inr (print_console (s @ endl) k1))))"
| "console_write c elapsed (SectionStarting si) k = Inr (k\<lparr>m_headerPrinted := False\<rparr>)"
| "console_write c elapsed (SectionEnded si cnt missing) k =
     bindR (if missing
            then bindR (lazyPrint c k) (\<lambda>k1. Inr (print_console (missing_note si (length (m_sectionStack (k_base k1)) > 1)) k1))
            else Inr k) (\<lambda>k2.
       Inr (if m_headerPrinted k2
            then (if shows_durations c then print_console (''Completed in '' @ elapsed @ ''s'' @ endl) k2 else k2)\<lparr>m_headerPrinted := False\<rparr>
            else if shows_durations c then print_console (si_name si @ '' completed in '' @ elapsed @ ''s'' @ endl) k2 else k2))"
| "console_write c elapsed (TestCaseEnded n cls t a) k = Inr (k\<lparr>m_headerPrinted := False\<rparr>)"
| "console_write c elapsed (TestGroupEnded n t i g a) k =
     (if used (currentGroupInfo (k_base k)) then
        bindR (console_totals t) (\<lambda>s.
          Inr (print_console (getLineOfChars (CHR ''-'') @ endl @ ''Summary for group '' @ [CHR 0x27] @ n @ [CHR 0x27] @ '':'' @ endl
            @ s @ endl @ endl) k))
      else Inr k)"
| "console_write c elapsed (TestRunEnded n t a) k =
     bindR (totals_divider t) (\<lambda>d. bindR (console_totals t) (\<lambda>s. Inr (print_console (d @ s @ endl) k)))"
| "console_write c elapsed e k = Inr k"

definition console_event :: "config \<Rightarrow> string \<Rightarrow> reporter_event \<Rightarrow> console_reporter \<Rightarrow> console_reporter res" where
  "console_event c elapsed e k =
     bindR (console_write c elapsed e k) (\<lambda>k1. bindR (base_event e (k_base k1)) (\<lambda>b. Inr (k1\<lparr>k_base := b\<rparr>)))"

section \<open>The divider fills its line\<close>

definition widths :: "ratios \<Rightarrow> nat" where
  "widths r = (case r of (i, j, k) \<Rightarrow> unat i + unat j + unat k)"

text \<open>Which of the three there is something of.\<close>

definition present :: "ratios \<Rightarrow> bool \<times> bool \<times> bool" where
  "present r = (case r of (i, j, k) \<Rightarrow> (i \<noteq> 0, j \<noteq> 0, k \<noteq> 0))"

lemma unat_up: "unat (x :: count) < 100 \<Longrightarrow> unat (x + 1) = Suc (unat x)"
  by (simp add: unat_word_ariths(1))

lemma unat_down: "unat (x :: count) > 1 \<Longrightarrow> unat (x - 1) = unat x - 1 \<and> x - 1 \<noteq> 0"
proof -
  assume x: "unat x > 1"
  then have "x \<noteq> 0" by auto
  then have "unat (x - 1) = unat x - 1" by (rule unat_minus_one)
  moreover from this x have "unat (x - 1) > 0" by simp
  ultimately show ?thesis by auto
qed

lemma ratio_sum_small: "widths r < 100 \<Longrightarrow> unat (ratio_sum r) = widths r"
  by (cases r) (simp add: widths_def ratio_sum_def unat_word_ariths(1))

lemma less_unat: "(x :: count) < y \<longleftrightarrow> unat x < unat y"
  by (rule word_less_nat_alt)

lemma nonzero_unat: "(x :: count) \<noteq> 0 \<longleftrightarrow> unat x > 0"
  by (simp add: unat_gt_0)

lemma max_up:
  assumes "0 < widths r" "widths r < 99"
  shows "widths (on_max (\<lambda>x. x + 1) r) = Suc (widths r) \<and> present (on_max (\<lambda>x. x + 1) r) = present r"
proof -
  obtain i j k where r: "r = (i, j, k)" by (cases r)
  have "unat i < 99" "unat j < 99" "unat k < 99" using assms(2) by (simp_all add: r widths_def)
  then have "unat (i + 1) = Suc (unat i)" "unat (j + 1) = Suc (unat j)" "unat (k + 1) = Suc (unat k)"
    by (simp_all add: unat_up)
  then show ?thesis using assms(1) by (auto simp: r on_max_def widths_def present_def less_unat nonzero_unat)
qed

lemma max_down:
  assumes "79 < widths r" "widths r < 99"
  shows "widths (on_max (\<lambda>x. x - 1) r) = widths r - 1 \<and> present (on_max (\<lambda>x. x - 1) r) = present r"
proof -
  obtain i j k where r: "r = (i, j, k)" by (cases r)
  have w: "79 < unat i + unat j + unat k" using assms(1) by (simp add: r widths_def)
  consider (i) "i > j \<and> i > k" | (j) "\<not> (i > j \<and> i > k)" "j > k" | (k) "\<not> (i > j \<and> i > k)" "\<not> j > k" by blast
  then show ?thesis
  proof cases
    case i
    then have "unat i > 1" using w by (simp add: less_unat)
    then show ?thesis using i w unat_down [of i] by (auto simp: r on_max_def widths_def present_def)
  next
    case j
    then have "unat j > 1" using w by (auto simp: less_unat)
    then show ?thesis using j w unat_down [of j] by (auto simp: r on_max_def widths_def present_def)
  next
    case k
    then have "unat k > 1" using w by (auto simp: less_unat)
    then show ?thesis using k w unat_down [of k] by (auto simp: r on_max_def widths_def present_def)
  qed
qed

lemma line_width_unat: "unat line_width = 79"
  by (simp add: line_width_def consoleWidth_def)

lemma fill_up_spec:
  "0 < widths r \<Longrightarrow> widths r < 99 \<Longrightarrow> widths (fill_up r) = max 79 (widths r) \<and> present (fill_up r) = present r"
proof (induction r rule: fill_up.induct)
  case (1 r)
  have u: "unat (ratio_sum r) = widths r" using 1(3) by (simp add: ratio_sum_small)
  show ?case
  proof (cases "ratio_sum r < line_width")
    case True
    then have "widths r < 79" using u by (simp add: less_unat line_width_unat)
    then show ?thesis using 1(1) [OF True] max_up [OF 1(2,3)] True by (subst (1 2) fill_up.simps) auto
  next
    case False
    then have "79 \<le> widths r" using u by (simp add: less_unat line_width_unat)
    then show ?thesis using False by (subst (1 2) fill_up.simps) auto
  qed
qed

lemma cut_down_spec:
  "79 \<le> widths r \<Longrightarrow> widths r < 99 \<Longrightarrow> widths (cut_down r) = 79 \<and> present (cut_down r) = present r"
proof (induction r rule: cut_down.induct)
  case (1 r)
  have u: "unat (ratio_sum r) = widths r" using 1(3) by (simp add: ratio_sum_small)
  show ?case
  proof (cases "ratio_sum r > line_width")
    case True
    then have w: "79 < widths r" using u by (simp add: less_unat line_width_unat)
    then show ?thesis using 1(1) [OF True] max_down [OF w 1(3)] 1(3) True by (subst (1 2) cut_down.simps) auto
  next
    case False
    then have "widths r \<le> 79" using u by (simp add: less_unat line_width_unat)
    then show ?thesis using False 1(2) by (subst (1 2) cut_down.simps) auto
  qed
qed

text \<open>The shares of three numbers, before they are made to fill the line.\<close>

definition small_counts :: "counts \<Rightarrow> bool" where
  "small_counts c \<longleftrightarrow> unat (passed c) + unat (failed c) + unat (failedButOk c) < 2 ^ 57"

definition share :: "nat \<Rightarrow> nat \<Rightarrow> nat" where
  "share n all = (let q = 80 * n div all in if q = 0 \<and> n > 0 then 1 else q)"

lemma quotients_bound:
  assumes "0 < t" "t = a + b + (c :: nat)"
  shows "80 * a div t + 80 * b div t + 80 * c div t \<le> 80"
proof -
  have q: "t * (80 * n div t) \<le> 80 * n" for n by simp
  have "t * (80 * a div t + 80 * b div t + 80 * c div t) = t * (80 * a div t) + t * (80 * b div t) + t * (80 * c div t)"
    by (simp only: distrib_left)
  also have "\<dots> \<le> 80 * a + 80 * b + 80 * c" by (intro add_mono q)
  also have "\<dots> = t * 80" by (simp add: assms(2))
  finally show ?thesis using assms(1) by (simp only: mult_le_cancel1)
qed

lemma shares_bound:
  assumes "0 < t" "t = a + b + (c :: nat)"
  shows "0 < share a t + share b t + share c t \<and> share a t + share b t + share c t < 99"
proof -
  have "share n t \<le> 80 * n div t + 1" for n by (simp add: share_def Let_def)
  from this [of a] this [of b] this [of c] have "share a t + share b t + share c t < 99"
    using quotients_bound [OF assms] by linarith
  moreover have "n > 0 \<Longrightarrow> share n t > 0" for n by (simp add: share_def Let_def)
  ultimately show ?thesis using assms by (metis add_gr_0)
qed

lemma ratio_is_share:
  assumes "unat n < 2 ^ 57" "all > 0"
  shows "unat (makeRatio n all) = share (unat n) (unat all)" "makeRatio n all \<noteq> 0 \<longleftrightarrow> n \<noteq> 0"
proof -
  have "unat (of_nat consoleWidth * n) = 80 * unat n"
    using assms(1) by (simp add: unat_word_ariths(2) consoleWidth_def)
  then have q: "unat (of_nat consoleWidth * n div all) = 80 * unat n div unat all" by (simp add: unat_div)
  then have z: "of_nat consoleWidth * n div all = 0 \<longleftrightarrow> 80 * unat n div unat all = 0" by (metis unat_eq_zero)
  show "unat (makeRatio n all) = share (unat n) (unat all)"
    using assms(2) q z by (simp add: makeRatio_def share_def Let_def less_unat)
  then have "unat (makeRatio n all) = 0 \<longleftrightarrow> n = 0"
    by (auto simp: share_def Let_def unat_eq_zero)
  then show "makeRatio n all \<noteq> 0 \<longleftrightarrow> n \<noteq> 0" by (simp add: unat_eq_zero)
qed

lemma divider_spec:
  assumes "small_counts c" "total c > 0"
  shows "widths (divider_ratios c) = 79 \<and> present (divider_ratios c) = (failed c \<noteq> 0, failedButOk c \<noteq> 0, passed c \<noteq> 0)"
proof -
  let ?r = "(makeRatio (failed c) (total c), makeRatio (failedButOk c) (total c), makeRatio (passed c) (total c))"
  have small: "unat (passed c) < 2 ^ 57" "unat (failed c) < 2 ^ 57" "unat (failedButOk c) < 2 ^ 57"
    using assms(1) by (simp_all add: small_counts_def)
  have t: "unat (total c) = unat (failed c) + unat (failedButOk c) + unat (passed c)"
    using assms(1) by (simp add: small_counts_def total_def unat_word_ariths(1))
  have "0 < widths ?r \<and> widths ?r < 99"
    using shares_bound [OF _ t] assms(2) small by (simp add: widths_def ratio_is_share less_unat)
  moreover have "present ?r = (failed c \<noteq> 0, failedButOk c \<noteq> 0, passed c \<noteq> 0)"
    using assms(2) small by (simp add: present_def ratio_is_share)
  ultimately show ?thesis
    using fill_up_spec [of ?r] cut_down_spec [of "fill_up ?r"] by (simp add: divider_ratios_def)
qed

lemma totals_divider_line:
  assumes "small_counts (testCases t)"
  shows "totals_divider t = Inr (replicate 79 (CHR ''='') @ endl)"
proof (cases "total (testCases t) > 0")
  case True
  obtain f b p where r: "divider_ratios (testCases t) = (f, b, p)" by (cases "divider_ratios (testCases t)")
  then have w: "unat f + unat b + unat p = 79" using divider_spec [OF assms True] by (simp add: widths_def)
  then have "f < 2 ^ 63 - 1" "b < 2 ^ 63 - 1" "p < 2 ^ 63 - 1" by (simp_all add: less_unat)
  then show ?thesis using True r w
    by (simp add: totals_divider_def string_of_char_def replicate_add [symmetric] flip: append_assoc)
next
  case False
  then show ?thesis by (simp add: totals_divider_def consoleWidth_def)
qed

text \<open>
  The line above the totals of a run has 79 signs: the loops that widen and narrow the largest
  of its three parts come to an end, and a part is there exactly if there are test cases of its
  kind, however few of how many.
\<close>

lemma divider_fills_line:
  assumes "small_counts (testCases t)" "total (testCases t) > 0"
  shows "\<exists>f b p. divider_ratios (testCases t) = (f, b, p) \<and> unat f + unat b + unat p = 79
    \<and> (f \<noteq> 0 \<longleftrightarrow> failed (testCases t) \<noteq> 0) \<and> (b \<noteq> 0 \<longleftrightarrow> failedButOk (testCases t) \<noteq> 0)
    \<and> (p \<noteq> 0 \<longleftrightarrow> passed (testCases t) \<noteq> 0)
    \<and> totals_divider t = Inr (replicate 79 (CHR ''='') @ endl)"
  using divider_spec [OF assms] totals_divider_line [OF assms(1)]
  by (cases "divider_ratios (testCases t)") (simp add: widths_def present_def)

lemma divider_fills_line_witness:
  "\<exists>f b p. divider_ratios \<lparr>passed = 100000, failed = 1, failedButOk = 0\<rparr> = (f, b, p) \<and> unat f + unat b + unat p = 79 \<and> f \<noteq> 0 \<and> b = 0"
proof -
  let ?t = "\<lparr>assertions = no_counts, testCases = \<lparr>passed = 100000, failed = 1, failedButOk = 0\<rparr>\<rparr>"
  have "small_counts (testCases ?t)" "total (testCases ?t) > 0" by (simp_all add: small_counts_def total_def)
  from divider_fills_line [OF this] show ?thesis by auto
qed

section \<open>What the reporter accepts\<close>

text \<open>A text without tabs, with room behind its indents, can be laid out.\<close>

lemma text_without_tab:
  assumes "CHR 0x09 \<notin> set s" "i < 79" "j < 79"
  shows "\<exists>t. text_of s (setInitialIndent i (setIndent j newTextAttributes)) = Inr t" "\<exists>t. text_of s (setIndent j newTextAttributes) = Inr t"
proof -
  let ?a = "setInitialIndent i (setIndent j newTextAttributes)" and ?b = "setIndent j newTextAttributes"
  have a: "tabChar ?a \<notin> set s" "i < attr_width ?a" "indent ?a < attr_width ?a" "initialIndent ?a = Some i"
    and b: "tabChar ?b \<notin> set s" "indent ?b < attr_width ?b" "initialIndent ?b = None"
    using assms by (simp_all add: setInitialIndent_def setIndent_def newTextAttributes_def consoleWidth_def)
  show "\<exists>t. text_of s ?a = Inr t"
    using wrap_loop_spec [OF a(1-3), of "[]"] a(4) by (auto simp: text_of_def text_lines_def)
  show "\<exists>t. text_of s ?b = Inr t"
    using wrap_loop_spec [OF b(1,2,2), of "[]"] b(3) by (auto simp: text_of_def text_lines_def)
qed

definition header_ok :: "nat \<Rightarrow> string \<Rightarrow> bool" where
  "header_ok ind s \<longleftrightarrow> CHR 0x09 \<notin> set s \<and> ind + header_indent s < consoleWidth - 1"

lemma header_string_ok: "header_ok ind s \<Longrightarrow> \<exists>t. header_string s ind = Inr t"
  using text_without_tab(1) [of s ind "ind + header_indent s"]
  by (auto simp: header_ok_def header_string_def consoleWidth_def)

lemma section_headers_ok: "list_all (\<lambda>si. header_ok 2 (si_name si)) sis \<Longrightarrow> \<exists>t. section_headers sis = Inr t"
  by (induction sis) (auto dest: header_string_ok)

definition group_fits :: "group_info \<Rightarrow> bool" where
  "group_fits g \<longleftrightarrow> group_name g \<noteq> [] \<and> groupsCounts g > 1 \<longrightarrow> header_ok 0 (''Group: '' @ group_name g)"

definition assertion_fits :: "assertion_result \<Rightarrow> message_info list \<Rightarrow> bool" where
  "assertion_fits r ms \<longleftrightarrow>
     CHR 0x09 \<notin> set (getExpandedExpression r) \<and> list_all (\<lambda>m. CHR 0x09 \<notin> set (mi_message m)) ms"

fun console_accepts :: "reporter_event \<Rightarrow> bool" where
  "console_accepts (TestGroupStarting n i k) \<longleftrightarrow> group_fits \<lparr>group_name = n, groupIndex = i, groupsCounts = k\<rparr>"
| "console_accepts (TestCaseStarting n) \<longleftrightarrow> header_ok 0 n"
| "console_accepts (SectionStarting si) \<longleftrightarrow> header_ok 2 (si_name si)"
| "console_accepts (AssertionEnded r ms t) \<longleftrightarrow> assertion_fits r ms"
| "console_accepts (TestRunEnded n t a) \<longleftrightarrow> small_counts (testCases t)"
| "console_accepts e \<longleftrightarrow> True"

lemma indented_text_ok: "CHR 0x09 \<notin> set s \<Longrightarrow> \<exists>t. indented_text s = Inr t"
  using text_without_tab(2) [of s 0 2] by (auto simp: indented_text_def)

lemma console_messages_ok: "list_all (\<lambda>m. CHR 0x09 \<notin> set (mi_message m)) ms \<Longrightarrow> \<exists>u. console_messages infos ms = Inr u"
  by (induction ms) (auto dest: indented_text_ok)

lemma console_print_ok:
  assumes "assertion_fits r ms"
  shows "\<exists>s. console_print infos r ms t = Inr s"
proof -
  obtain u where "console_messages infos ms = Inr u" using console_messages_ok assms by (auto simp: assertion_fits_def)
  moreover obtain e where "console_reconstructed r = Inr e"
    using indented_text_ok [of "getExpandedExpression r"] assms by (cases "hasExpandedExpression r") (auto simp: assertion_fits_def console_reconstructed_def)
  ultimately show ?thesis by (simp add: console_print_def console_message_def case_prod_unfold Let_def)
qed

lemma columns_ok: "col \<in> set (summary_columns t) \<Longrightarrow> length (rows col) = 2"
  by (auto simp: summary_columns_def addRow_def newSummaryColumn_def Let_def)

lemma summary_cells_ok: "list_all (\<lambda>col. i < length (rows col)) cols \<Longrightarrow> \<exists>s. summary_cells label cols i = Inr s"
  by (induction cols) (auto simp: string_at_def)

lemma console_totals_ok: "\<exists>s. console_totals t = Inr s"
proof -
  have "\<exists>s. summary_row label (summary_columns t) i = Inr s" if "i < 2" for label i
    using summary_cells_ok [of i "summary_columns t" label] columns_ok that by (fastforce simp: summary_row_def list_all_iff)
  from this [of 0 "''test cases''"] this [of 1 "''assertions''"] show ?thesis by (auto simp: console_totals_def)
qed

text \<open>The names it keeps are such that their headers can be laid out.\<close>

definition names_fit :: "streaming_base \<Rightarrow> bool" where
  "names_fit b \<longleftrightarrow> (\<forall>n. stat (currentTestCaseInfo b) = Some n \<longrightarrow> header_ok 0 n)
     \<and> (\<forall>g. stat (currentGroupInfo b) = Some g \<longrightarrow> group_fits g)
     \<and> list_all (\<lambda>si. header_ok 2 (si_name si)) (m_sectionStack b)"

definition console_ok :: "console_reporter \<Rightarrow> nesting \<Rightarrow> bool" where
  "console_ok k p \<longleftrightarrow> base_ok (k_base k) p \<and> names_fit (k_base k)"

text \<open>What of the common state may be changed: that something was used.\<close>

definition same_base :: "streaming_base \<Rightarrow> streaming_base \<Rightarrow> bool" where
  "same_base b b' \<longleftrightarrow> m_sectionStack b' = m_sectionStack b \<and> stat (currentTestRunInfo b') = stat (currentTestRunInfo b)
     \<and> stat (currentGroupInfo b') = stat (currentGroupInfo b) \<and> stat (currentTestCaseInfo b') = stat (currentTestCaseInfo b)"

lemma same_base_ok: "same_base b b' \<Longrightarrow> base_ok b' p = base_ok b p" "same_base b b' \<Longrightarrow> names_fit b' = names_fit b"
  by (simp_all add: same_base_def base_ok_def names_fit_def)

lemma same_base_refl [simp]: "same_base b b"
  by (simp add: same_base_def)

lemma print_console_simps [simp]:
  "k_base (print_console s k) = k_base k" "m_headerPrinted (print_console s k) = m_headerPrinted k"
  by (simp_all add: print_console_def)

lemma test_header_ok:
  assumes "base_ok b (In_case (Suc j))" "names_fit b"
  shows "\<exists>h. test_header b = Inr h"
proof -
  obtain si sis where st: "m_sectionStack b = si # sis" using assms(1) by (cases "m_sectionStack b") (auto simp: base_ok_def)
  obtain n where n: "stat (currentTestCaseInfo b) = Some n" using assms(1) by (auto simp: base_ok_def)
  obtain h where "open_header n = Inr h" using header_string_ok [of 0 n] assms(2) n by (auto simp: names_fit_def open_header_def)
  moreover obtain s where "section_headers sis = Inr s" using section_headers_ok [of sis] assms(2) st by (auto simp: names_fit_def)
  ultimately show ?thesis using st n by (simp add: test_header_def the_stat_def)
qed

lemma lazyPrint_ok:
  assumes "base_ok (k_base k) (In_case (Suc j))" "names_fit (k_base k)"
  shows "\<exists>k'. lazyPrint c k = Inr k' \<and> same_base (k_base k) (k_base k')"
proof -
  have "\<exists>k1. (if used (currentTestRunInfo (k_base k)) then Inr k else lazyPrintRunInfo c k) = Inr k1
      \<and> same_base (k_base k) (k_base k1)"
    using assms(1) by (auto simp: lazyPrintRunInfo_def the_stat_def base_ok_def same_base_def)
  then obtain k1 where k1: "(if used (currentTestRunInfo (k_base k)) then Inr k else lazyPrintRunInfo c k) = Inr k1"
    "same_base (k_base k) (k_base k1)" by blast
  have b1: "base_ok (k_base k1) (In_case (Suc j))" "names_fit (k_base k1)" using assms same_base_ok [OF k1(2)] by simp_all
  then obtain g where g: "stat (currentGroupInfo (k_base k1)) = Some g" "group_fits g"
    by (auto simp: base_ok_def names_fit_def)
  have "group_name g \<noteq> [] \<and> groupsCounts g > 1 \<Longrightarrow> \<exists>h. closed_header (''Group: '' @ group_name g) = Inr h"
    using g(2) header_string_ok by (fastforce simp: group_fits_def closed_header_def open_header_def)
  then have "\<exists>k2. (if used (currentGroupInfo (k_base k1)) then Inr k1 else lazyPrintGroupInfo k1) = Inr k2
      \<and> same_base (k_base k1) (k_base k2)"
    using g(1) by (auto simp: lazyPrintGroupInfo_def the_stat_def same_base_def)
  then obtain k2 where k2: "(if used (currentGroupInfo (k_base k1)) then Inr k1 else lazyPrintGroupInfo k1) = Inr k2"
    "same_base (k_base k1) (k_base k2)" by blast
  have "base_ok (k_base k2) (In_case (Suc j))" "names_fit (k_base k2)" using b1 same_base_ok [OF k2(2)] by simp_all
  then obtain h where "test_header (k_base k2) = Inr h" using test_header_ok by blast
  moreover have "same_base (k_base k) (k_base k2)" using k1(2) k2(2) by (simp add: same_base_def)
  ultimately show ?thesis using k1(1) k2(1) by (cases "m_headerPrinted k2") (simp_all add: lazyPrint_def)
qed

lemma console_write_ok:
  assumes "console_ok k p" "nest e p = Some p'" "console_accepts e"
  shows "\<exists>k'. console_write c elapsed e k = Inr k' \<and> same_base (k_base k) (k_base k')"
proof (cases e)
  case (AssertionEnded res ms t)
  then obtain j where "p = In_case (Suc j)" using assms(2) by (auto split: nesting.splits nat.splits)
  then obtain k1 where "lazyPrint c k = Inr k1" "same_base (k_base k) (k_base k1)"
    using lazyPrint_ok [of k j c] assms(1) by (auto simp: console_ok_def)
  moreover obtain s where "console_print (showSuccessfulTests (cfg_data c) \<or> \<not> result_isOk res) res ms t = Inr s"
    using console_print_ok assms(3) AssertionEnded by fastforce
  ultimately show ?thesis using AssertionEnded by simp
next
  case (SectionEnded si cnt missing)
  then obtain j where "p = In_case (Suc j)" using assms(2) by (auto split: nesting.splits nat.splits)
  then obtain k1 where "lazyPrint c k = Inr k1" "same_base (k_base k) (k_base k1)"
    using lazyPrint_ok [of k j c] assms(1) by (auto simp: console_ok_def)
  then show ?thesis using SectionEnded by (cases missing) auto
next
  case (TestGroupEnded n t i g a)
  then show ?thesis using console_totals_ok [of t] by auto
next
  case (TestRunEnded n t a)
  then show ?thesis using console_totals_ok [of t] totals_divider_line [of t] assms(3) by auto
qed simp_all

lemma names_fit_event:
  assumes "names_fit b" "console_accepts e" "base_event e b = Inr b'"
  shows "names_fit b'"
  using assms
  by (cases e) (auto simp: names_fit_def new_stat_def no_stat_def list_all_iff dest!: in_set_butlastD split: if_splits)

lemma console_event_ok:
  assumes "console_ok k p" "nest e p = Some p'" "console_accepts e"
  shows "\<exists>k'. console_event c elapsed e k = Inr k' \<and> console_ok k' p'"
proof -
  obtain k1 where k1: "console_write c elapsed e k = Inr k1" "same_base (k_base k) (k_base k1)"
    using console_write_ok [OF assms] by blast
  have b: "base_ok (k_base k1) p" "names_fit (k_base k1)" using assms(1) same_base_ok [OF k1(2)] by (simp_all add: console_ok_def)
  then obtain b' where "base_event e (k_base k1) = Inr b'" "base_ok b' p'" using base_event_ok [OF b(1) assms(2)] by blast
  then show ?thesis using k1(1) names_fit_event [OF b(2) assms(3)] by (auto simp: console_event_def console_ok_def)
qed

interpretation console: streaming_reporter "\<lambda>x e k. Some (console_event c x e k)" console_accepts console_ok
  by unfold_locales (simp add: console_event_ok)

lemma new_console_ok: "console_ok (newConsoleReporter out) Outside"
  by (simp add: console_ok_def newConsoleReporter_def newStreamingBase_def base_ok_def names_fit_def no_stat_def)

end
