(* ===== verification/Catch_Compact.thy ===== *)
theory Catch_Compact
  imports Catch_Reporter
begin

text \<open>
  The compact reporter (\<open>CompactReporter\<close> in \<open>include/catch.h\<close>): what it prints for an assertion and
  at the end of a run, without colours. The loop over the messages may not end, so it is a partial
  function, and the theorems say exactly when it does.
\<close>

section \<open>Printing an assertion\<close>

definition quoted_message :: "message_info \<Rightarrow> string" where
  "quoted_message m = '' '' @ [CHR 0x27] @ mi_message m @ [CHR 0x27]"

definition compact_source :: "assertion_result \<Rightarrow> string" where
  "compact_source r = show_source_line (ai_lineInfo (m_info r)) @ '':''"

definition compact_type :: "string \<Rightarrow> string" where
  "compact_type passOrFail = (if passOrFail = [] then [] else '' '' @ passOrFail @ '':'')"

definition compact_issue :: "string \<Rightarrow> string" where
  "compact_issue issue = '' '' @ issue"

definition compact_original :: "assertion_result \<Rightarrow> string" where
  "compact_original r = (if hasExpression r then '' '' @ getExpression r else [])"

definition compact_expression_was :: "assertion_result \<Rightarrow> string" where
  "compact_expression_was r = (if hasExpression r then '';'' @ '' expression was:'' @ compact_original r else [])"

definition compact_reconstructed :: "assertion_result \<Rightarrow> string" where
  "compact_reconstructed r = (if hasExpandedExpression r then '' for: '' @ getExpandedExpression r else [])"

text \<open>The messages that are left are an iterator; printing one moves it on.\<close>

fun compact_message :: "message_info list \<Rightarrow> string \<times> message_info list" where
  "compact_message [] = ([], [])"
| "compact_message (m # ms) = (quoted_message m, ms)"

text \<open>The loop moves on only where it prints.\<close>

partial_function (option) remaining_loop :: "bool \<Rightarrow> message_info list \<Rightarrow> string \<Rightarrow> string option" where
  "remaining_loop infos ms out =
     (case ms of
        [] \<Rightarrow> Some out
      | m # ms' \<Rightarrow>
          if infos \<or> mi_type m \<noteq> Info
          then remaining_loop infos ms' (out @ quoted_message m @ (if ms' \<noteq> [] then '' and'' else []))
          else remaining_loop infos ms out)"

definition compact_remaining :: "bool \<Rightarrow> message_info list \<Rightarrow> string option" where
  "compact_remaining infos ms =
     (if ms = [] then Some []
      else remaining_loop infos ms ('' with '' @ pluralise (length ms) ''message'' @ '':''))"

definition failedString :: string where "failedString = ''failed''"
definition passedString :: string where "passedString = ''passed''"

text \<open>What stands between the position and the remaining messages, and which messages remain.\<close>

fun compact_body :: "result_was \<Rightarrow> assertion_result \<Rightarrow> message_info list \<Rightarrow> string \<times> message_info list" where
  "compact_body Ok r ms = (compact_type passedString @ compact_original r @ compact_reconstructed r, ms)"
| "compact_body ExpressionFailed r ms =
     (compact_type (if result_isOk r then failedString @ '' - but was ok'' else failedString)
        @ compact_original r @ compact_reconstructed r, ms)"
| "compact_body ThrewException r ms =
     (let (s, rest) = compact_message ms
      in (compact_type failedString @ compact_issue ''unexpected exception with message:'' @ s @ compact_expression_was r, rest))"
| "compact_body FatalErrorCondition r ms =
     (let (s, rest) = compact_message ms
      in (compact_type failedString @ compact_issue ''fatal error condition with message:'' @ s @ compact_expression_was r, rest))"
| "compact_body DidntThrowException r ms =
     (compact_type failedString @ compact_issue ''expected exception, got none'' @ compact_expression_was r, ms)"
| "compact_body Info r ms = (let (s, rest) = compact_message ms in (compact_type ''info'' @ s, rest))"
| "compact_body Warning r ms = (let (s, rest) = compact_message ms in (compact_type ''warning'' @ s, rest))"
| "compact_body ExplicitFailure r ms = (compact_type failedString @ compact_issue ''explicitly'', ms)"
| "compact_body t r ms = (compact_type ''** internal error **'', [])"

definition compact_print :: "bool \<Rightarrow> assertion_result \<Rightarrow> message_info list \<Rightarrow> string option" where
  "compact_print infos r ms =
     (let (s, rest) = compact_body (getResultType r) r ms
      in map_option (\<lambda>m. compact_source r @ s @ m) (compact_remaining infos rest))"

section \<open>The totals\<close>

definition bothOrAll :: "count \<Rightarrow> string" where
  "bothOrAll n = (if n = 1 then [] else if n = 2 then ''both '' else ''all '')"

definition compact_totals :: "totals \<Rightarrow> string" where
  "compact_totals t =
     (let tc = testCases t; as = assertions t
      in if total tc = 0 then ''No tests ran.''
         else if failed tc = total tc then
           ''Failed '' @ bothOrAll (failed tc) @ pluralise (unat (failed tc)) ''test case'' @ '', ''
             @ ''failed '' @ (if failed as = total as then bothOrAll (failed as) else [])
             @ pluralise (unat (failed as)) ''assertion'' @ ''.''
         else if total as = 0 then
           ''Passed '' @ bothOrAll (total tc) @ pluralise (unat (total tc)) ''test case'' @ '' (no assertions).''
         else if failed as \<noteq> 0 then
           ''Failed '' @ pluralise (unat (failed tc)) ''test case'' @ '', ''
             @ ''failed '' @ pluralise (unat (failed as)) ''assertion'' @ ''.''
         else
           ''Passed '' @ bothOrAll (passed tc) @ pluralise (unat (passed tc)) ''test case''
             @ '' with '' @ pluralise (unat (passed as)) ''assertion'' @ ''.'')"

section \<open>The reporter\<close>

record compact_reporter =
  c_base :: streaming_base
  c_stream :: string

definition newCompactReporter :: "string \<Rightarrow> compact_reporter" where
  "newCompactReporter out = \<lparr>c_base = newStreamingBase, c_stream = out\<rparr>"

definition print_compact :: "string \<Rightarrow> compact_reporter \<Rightarrow> compact_reporter" where
  "print_compact s r = r\<lparr>c_stream := c_stream r @ s\<rparr>"

text \<open>Of a result that is in order only warnings are shown, and of their messages not the infos.\<close>

definition drops :: "config \<Rightarrow> assertion_result \<Rightarrow> bool" where
  "drops c r \<longleftrightarrow> \<not> showSuccessfulTests (cfg_data c) \<and> result_isOk r \<and> getResultType r \<noteq> Warning"

definition shows_infos :: "config \<Rightarrow> assertion_result \<Rightarrow> bool" where
  "shows_infos c r \<longleftrightarrow> showSuccessfulTests (cfg_data c) \<or> \<not> result_isOk r"

fun compact_write :: "config \<Rightarrow> reporter_event \<Rightarrow> compact_reporter \<Rightarrow> compact_reporter option" where
  "compact_write c (AssertionEnded res ms t) r =
     (if drops c res then Some r
      else map_option (\<lambda>s. print_compact (s @ endl) r) (compact_print (shows_infos c res) res ms))"
| "compact_write c (TestRunEnded n t a) r = Some (print_compact (compact_totals t @ endl @ endl) r)"
| "compact_write c e r = Some r"

definition compact_event :: "config \<Rightarrow> unit \<Rightarrow> reporter_event \<Rightarrow> compact_reporter \<Rightarrow> compact_reporter res option" where
  "compact_event c x e r =
     map_option (\<lambda>r1. bindR (base_event e (c_base r1)) (\<lambda>b. Inr (r1\<lparr>c_base := b\<rparr>))) (compact_write c e r)"

text \<open>Whether the messages are cleared is what it answers to an assertion.\<close>

definition compact_answer :: "config \<Rightarrow> assertion_result \<Rightarrow> bool" where
  "compact_answer c r \<longleftrightarrow> \<not> drops c r"

section \<open>When the loop ends\<close>

lemma remaining_loop_simps [simp]:
  "remaining_loop infos [] out = Some out"
  "infos \<or> mi_type m \<noteq> Info \<Longrightarrow> remaining_loop infos (m # ms) out
     = remaining_loop infos ms (out @ quoted_message m @ (if ms \<noteq> [] then '' and'' else []))"
  by (simp_all add: remaining_loop.simps)

lemma remaining_loop_ends: "infos \<or> (\<forall>m\<in>set ms. mi_type m \<noteq> Info) \<Longrightarrow> \<exists>s. remaining_loop infos ms out = Some s"
  by (induction ms arbitrary: out) auto

lemma remaining_loop_stays:
  "remaining_loop infos ms out = Some s \<Longrightarrow> infos \<or> (\<forall>m\<in>set ms. mi_type m \<noteq> Info)"
proof (induction rule: remaining_loop.raw_induct [rotated, consumes 1])
  case (1 f infos ms out s)
  show ?case
  proof (cases ms)
    case (Cons m ms')
    show ?thesis
    proof (cases "infos \<or> mi_type m \<noteq> Info")
      case True
      then have "f infos ms' (out @ quoted_message m @ (if ms' \<noteq> [] then '' and'' else [])) = Some s"
        using 1(2) Cons by simp
      then show ?thesis using 1(1) True Cons by fastforce
    next
      case False
      then have "f infos (m # ms') out = Some s" using 1(2) Cons by simp
      then show ?thesis using 1(1) Cons by blast
    qed
  qed simp
qed

lemma remaining_loop_iff: "remaining_loop infos ms out = None \<longleftrightarrow> \<not> infos \<and> (\<exists>m\<in>set ms. mi_type m = Info)"
  using remaining_loop_ends [of infos ms out] remaining_loop_stays [of infos ms out]
  by (cases "remaining_loop infos ms out") auto

lemma compact_remaining_iff: "compact_remaining infos ms = None \<longleftrightarrow> \<not> infos \<and> (\<exists>m\<in>set ms. mi_type m = Info)"
  by (auto simp: compact_remaining_def remaining_loop_iff)

lemma compact_remaining_infos [simp]: "\<exists>z. compact_remaining True ms = Some z"
  using compact_remaining_iff [of True ms] by auto

lemma warning_messages: "snd (compact_body Warning r ms) = tl ms"
  by (cases ms) auto

text \<open>Only for a warning the infos are left out, so only then the loop can stay where it is.\<close>

definition hangs :: "config \<Rightarrow> reporter_event \<Rightarrow> bool" where
  "hangs c e = (case e of
     AssertionEnded r ms t \<Rightarrow>
       \<not> showSuccessfulTests (cfg_data c) \<and> getResultType r = Warning \<and> (\<exists>m\<in>set (tl ms). mi_type m = Info)
   | _ \<Rightarrow> False)"

lemma compact_write_iff: "compact_write c e r = None \<longleftrightarrow> hangs c e"
proof (cases e)
  case (AssertionEnded res ms t)
  show ?thesis
  proof (cases "getResultType res = Warning")
    case True
    then have "result_isOk res" by (simp add: result_isOk_def getResultType_def)
    then show ?thesis
      using True AssertionEnded
      by (auto simp: hangs_def drops_def shows_infos_def compact_print_def case_prod_unfold Let_def compact_remaining_iff warning_messages
          simp del: compact_body.simps)
  next
    case False
    then show ?thesis
      using AssertionEnded
      by (auto simp: hangs_def drops_def shows_infos_def compact_print_def case_prod_unfold Let_def compact_remaining_iff
          simp del: compact_body.simps)
  qed
qed (simp_all add: hangs_def)

lemma compact_event_iff: "compact_event c x e r = None \<longleftrightarrow> hangs c e"
  by (simp add: compact_event_def compact_write_iff)

lemma compact_write_base: "compact_write c e r = Some r' \<Longrightarrow> c_base r' = c_base r"
  by (cases e) (auto simp: print_compact_def split: if_splits)

lemma compact_event_ok:
  assumes "base_ok (c_base r) p" "nest e p = Some p'" "\<not> hangs c e"
  shows "\<exists>r'. compact_event c x e r = Some (Inr r') \<and> base_ok (c_base r') p'"
proof -
  obtain r1 where r1: "compact_write c e r = Some r1" using assms(3) compact_write_iff [of c e r] by (cases "compact_write c e r") auto
  then show ?thesis
    using base_event_ok [OF assms(1,2)] compact_write_base [OF r1] by (auto simp: compact_event_def)
qed

interpretation compact: streaming_reporter "compact_event c" "\<lambda>e. \<not> hangs c e" "\<lambda>r. base_ok (c_base r)"
  by unfold_locales (rule compact_event_ok)

section \<open>Warnings in a run\<close>

lemma warn_event:
  assumes "tx \<noteq> []"
  shows "\<exists>r m rc'. msg_macro env Warning s tx rc = Inr (Completed, rc')
    \<and> rc_events rc' = rc_events rc @ [AssertionEnded r (rc_messages rc @ [m]) (rc_totals rc)]
    \<and> getResultType r = Warning \<and> mi_type m = Warning"
  using assms
  by (auto simp: msg_macro_def captureResult_def captureExpression_def setResultType_def streamInto_def site_builder_def
      newResultBuilder_def newAssertionResultData_def build_def reconstructExpression_def handleResult_def react_def
      assertionEnded_def stats_messages_def hasMessage_def newMessageInfo_def report_def on_counts_def count_result_def
      getResultType_def result_isOk_def Let_def)

text \<open>
  C35. A warning in a test is reported with the messages that are in scope and its own. When
  successful assertions are not shown, the compact reporter comes back from it exactly if no
  message in scope but the first was given with \<open>INFO\<close>: with two such messages the run stands
  still for ever. Otherwise it comes back and the run goes on.
\<close>

theorem compact_stands_still:
  assumes "tx \<noteq> []" "base_ok (c_base p) (In_case (Suc k))"
  shows "\<exists>e rc'. msg_macro env Warning s tx rc = Inr (Completed, rc') \<and> rc_events rc' = rc_events rc @ [e]
    \<and> (if \<not> showSuccessfulTests (cfg_data c) \<and> (\<exists>m\<in>set (tl (rc_messages rc)). mi_type m = Info)
       then compact_event c x e p = None
       else \<exists>p'. compact_event c x e p = Some (Inr p') \<and> base_ok (c_base p') (In_case (Suc k)))"
proof -
  obtain r m rc' where e: "msg_macro env Warning s tx rc = Inr (Completed, rc')"
    "rc_events rc' = rc_events rc @ [AssertionEnded r (rc_messages rc @ [m]) (rc_totals rc)]"
    "getResultType r = Warning" "mi_type m = Warning"
    using warn_event [OF assms(1)] by blast
  let ?e = "AssertionEnded r (rc_messages rc @ [m]) (rc_totals rc)"
  have hangs: "hangs c ?e \<longleftrightarrow> \<not> showSuccessfulTests (cfg_data c) \<and> (\<exists>m\<in>set (tl (rc_messages rc)). mi_type m = Info)"
    using e(3,4) by (cases "rc_messages rc") (auto simp: hangs_def)
  have "nest ?e (In_case (Suc k)) = Some (In_case (Suc k))" by simp
  then show ?thesis
    using e(1,2) hangs compact_event_iff [of c x ?e p] compact_event_ok [OF assms(2), of ?e] by auto
qed

lemma compact_stands_still_witness:
  "\<exists>e rc'. msg_macro example_env Warning example_site ''careful''
      ((newRunContext example_env)\<lparr>rc_messages :=
        map (\<lambda>n. \<lparr>mi_macroName = ''INFO'', mi_lineInfo = site_line example_site, mi_type = Info, mi_message = [], mi_sequence = n\<rparr>) [1, 2]\<rparr>)
      = Inr (Completed, rc')
    \<and> compact_event example_config () e \<lparr>c_base = \<lparr>currentTestRunInfo = new_stat ''r'',
        currentGroupInfo = new_stat \<lparr>group_name = ''r'', groupIndex = 1, groupsCounts = 1\<rparr>,
        currentTestCaseInfo = new_stat ''sections'', m_sectionStack = [test_section example_test]\<rparr>, c_stream = []\<rparr> = None"
proof -
  let ?p = "\<lparr>c_base = \<lparr>currentTestRunInfo = new_stat ''r'',
    currentGroupInfo = new_stat \<lparr>group_name = ''r'', groupIndex = 1, groupsCounts = 1\<rparr>,
    currentTestCaseInfo = new_stat ''sections'', m_sectionStack = [test_section example_test]\<rparr>, c_stream = []\<rparr>"
  let ?rc = "(newRunContext example_env)\<lparr>rc_messages := map (\<lambda>n. \<lparr>mi_macroName = ''INFO'', mi_lineInfo = site_line example_site,
    mi_type = Info, mi_message = [], mi_sequence = n\<rparr>) [1, 2]\<rparr>"
  have p: "base_ok (c_base ?p) (In_case (Suc 0))" by (simp add: base_ok_def new_stat_def)
  have "\<not> showSuccessfulTests (cfg_data example_config)" "\<exists>m\<in>set (tl (rc_messages ?rc)). mi_type m = Info"
    by (simp_all add: example_config_def newConfigData_def)
  then show ?thesis
    using compact_stands_still [OF _ p, of "''careful''" example_env example_site ?rc example_config "()"] by auto
qed

text \<open>
  At the end of a run the totals of assertions count no failure for a test that passes although it
  should fail, and it is they that are looked at.
\<close>

lemma finish_keeps_assertions: "assertions (rc_totals (snd (finish_test env tc prev rc))) = assertions (rc_totals rc)"
  by (simp add: finish_test_def Let_def report_def)

lemma compact_hides_failure:
  assumes "total (testCases t) \<noteq> 0" "failed (testCases t) \<noteq> total (testCases t)" "failed (assertions t) = 0"
  shows "startsWith (compact_totals t) ''Passed ''"
  using assms by (simp add: compact_totals_def Let_def startsWith_def)

end
