(* ===== verification/Catch_Xml.thy ===== *)
theory Catch_Xml
  imports Catch_Reporter
begin

text \<open>
  The XML reporter (\<open>XmlEncode\<close>, \<open>XmlWriter\<close> and \<open>XmlReporter\<close> in
  \<open>include/catch.h\<close>): what it writes for each event of a run. The texts of the durations are
  arguments, and what the tests print is left out. A reader of tags, independent of the writer,
  says what a well nested document is.
\<close>

section \<open>Encoding\<close>

definition upper_digit :: "nat \<Rightarrow> char" where
  "upper_digit d = (if d < 10 then char_of (48 + d) else char_of (55 + d))"

fun upper_hex :: "nat \<Rightarrow> string" where
  "upper_hex n = (if n < 16 then [upper_digit n] else upper_hex (n div 16) @ [upper_digit (n mod 16)])"

declare upper_hex.simps [simp del]

definition char_reference :: "char \<Rightarrow> string" where
  "char_reference c =
     (let h = upper_hex (nat (to_uint (char_value c)))
      in ''&#x'' @ replicate (2 - length h) (CHR ''0'') @ h @ '';'')"

definition encode_char :: "bool \<Rightarrow> string \<Rightarrow> nat \<Rightarrow> string" where
  "encode_char forAttributes s i =
     (let c = s ! i
      in if c = CHR ''<'' then ''&lt;''
         else if c = CHR ''&'' then ''&amp;''
         else if c = CHR ''>'' then
           (if i > 2 \<and> s ! (i - 1) = CHR '']'' \<and> s ! (i - 2) = CHR '']'' then ''&gt;'' else [c])
         else if c = quote then (if forAttributes then ''&quot;'' else [c])
         else if char_value c < 9 \<or> (char_value c > 13 \<and> char_value c < 32) \<or> char_value c = 127 then char_reference c
         else [c])"

definition xml_encode :: "bool \<Rightarrow> string \<Rightarrow> string" where
  "xml_encode forAttributes s = concat (map (encode_char forAttributes s) [0..<length s])"

section \<open>The writer\<close>

text \<open>The streams that can be written to, by their kind.\<close>

record xml_writer =
  m_tagIsOpen :: bool
  m_needsNewline :: bool
  m_tags :: "string list"
  m_indent :: string
  m_os :: stream_kind
  streams :: "stream_kind \<Rightarrow> string"

definition put_xml :: "string \<Rightarrow> xml_writer \<Rightarrow> xml_writer" where
  "put_xml x w = w\<lparr>streams := (streams w)(m_os w := streams w (m_os w) @ x)\<rparr>"

definition xml_declaration :: string where
  "xml_declaration = ''<?xml version='' @ [quote] @ ''1.1'' @ [quote] @ '' encoding='' @ [quote] @ ''UTF-8'' @ [quote] @ ''?>'' @ endl"

definition newXmlWriter :: "stream_kind \<Rightarrow> (stream_kind \<Rightarrow> string) \<Rightarrow> xml_writer" where
  "newXmlWriter os ss =
     put_xml xml_declaration \<lparr>m_tagIsOpen = False, m_needsNewline = False, m_tags = [], m_indent = [], m_os = os, streams = ss\<rparr>"

definition setStream :: "stream_kind \<Rightarrow> xml_writer \<Rightarrow> xml_writer" where
  "setStream os w = w\<lparr>m_os := os\<rparr>"

definition ensureTagClosed :: "xml_writer \<Rightarrow> xml_writer" where
  "ensureTagClosed w = (if m_tagIsOpen w then (put_xml (''>'' @ endl) w)\<lparr>m_tagIsOpen := False\<rparr> else w)"

definition newlineIfNecessary :: "xml_writer \<Rightarrow> xml_writer" where
  "newlineIfNecessary w = (if m_needsNewline w then (put_xml endl w)\<lparr>m_needsNewline := False\<rparr> else w)"

definition startElement :: "string \<Rightarrow> xml_writer \<Rightarrow> xml_writer" where
  "startElement name w0 =
     (let w1 = newlineIfNecessary (ensureTagClosed w0); w2 = put_xml (m_indent w1 @ ''<'' @ name) w1
      in w2\<lparr>m_tags := m_tags w2 @ [name], m_indent := m_indent w2 @ ''  '', m_tagIsOpen := True\<rparr>)"

text \<open>Without an open element the list of tags has no last one to take.\<close>

definition endElement :: "xml_writer \<Rightarrow> xml_writer res" where
  "endElement w0 =
     (let w1 = newlineIfNecessary w0; w2 = w1\<lparr>m_indent := take (size_minus (length (m_indent w1)) 2) (m_indent w1)\<rparr>
      in if m_tags w2 = [] then Inl (Undefined Vector_index)
         else let w3 = (if m_tagIsOpen w2 then (put_xml (''/>'' @ endl) w2)\<lparr>m_tagIsOpen := False\<rparr>
                        else put_xml (m_indent w2 @ ''</'' @ last (m_tags w2) @ ''>'' @ endl) w2)
              in Inr (w3\<lparr>m_tags := butlast (m_tags w3)\<rparr>))"

definition writeAttribute :: "string \<Rightarrow> string \<Rightarrow> xml_writer \<Rightarrow> xml_writer" where
  "writeAttribute name attribute w =
     (if name \<noteq> [] \<and> attribute \<noteq> []
      then put_xml ('' '' @ name @ ''='' @ [quote] @ xml_encode True attribute @ [quote]) w else w)"

definition writeAttribute_bool :: "string \<Rightarrow> bool \<Rightarrow> xml_writer \<Rightarrow> xml_writer" where
  "writeAttribute_bool name attribute w =
     put_xml ('' '' @ name @ ''='' @ [quote] @ (if attribute then ''true'' else ''false'') @ [quote]) w"

text \<open>Anything else is written to a text first.\<close>

definition writeAttribute_nat :: "string \<Rightarrow> nat \<Rightarrow> xml_writer \<Rightarrow> xml_writer" where
  "writeAttribute_nat name attribute w = writeAttribute name (dec attribute) w"

definition writeText :: "string \<Rightarrow> bool \<Rightarrow> xml_writer \<Rightarrow> xml_writer" where
  "writeText tx indented w0 =
     (if tx = [] then w0
      else let w1 = ensureTagClosed w0; w2 = (if m_tagIsOpen w0 \<and> indented then put_xml (m_indent w1) w1 else w1)
           in (put_xml (xml_encode False tx) w2)\<lparr>m_needsNewline := True\<rparr>)"

definition writeComment :: "string \<Rightarrow> xml_writer \<Rightarrow> xml_writer" where
  "writeComment tx w0 =
     (let w1 = ensureTagClosed w0 in (put_xml (m_indent w1 @ ''<!--'' @ tx @ ''-->'') w1)\<lparr>m_needsNewline := True\<rparr>)"

definition writeBlankLine :: "xml_writer \<Rightarrow> xml_writer" where
  "writeBlankLine w = put_xml endl (ensureTagClosed w)"

text \<open>An element that ends with its scope.\<close>

definition scopedElement :: "string \<Rightarrow> (xml_writer \<Rightarrow> xml_writer) \<Rightarrow> xml_writer \<Rightarrow> xml_writer res" where
  "scopedElement name f w = endElement (f (startElement name w))"

text \<open>What the operations leave alone.\<close>

lemma put_xml_simps [simp]:
  "m_tagIsOpen (put_xml x w) = m_tagIsOpen w" "m_needsNewline (put_xml x w) = m_needsNewline w"
  "m_tags (put_xml x w) = m_tags w" "m_indent (put_xml x w) = m_indent w" "m_os (put_xml x w) = m_os w"
  by (simp_all add: put_xml_def)

lemma closed_simps [simp]:
  "\<not> m_tagIsOpen (ensureTagClosed w)" "m_needsNewline (ensureTagClosed w) = m_needsNewline w"
  "m_tags (ensureTagClosed w) = m_tags w" "m_indent (ensureTagClosed w) = m_indent w" "m_os (ensureTagClosed w) = m_os w"
  by (simp_all add: ensureTagClosed_def)

lemma newline_simps [simp]:
  "m_tagIsOpen (newlineIfNecessary w) = m_tagIsOpen w" "\<not> m_needsNewline (newlineIfNecessary w)"
  "m_tags (newlineIfNecessary w) = m_tags w" "m_indent (newlineIfNecessary w) = m_indent w"
  "m_os (newlineIfNecessary w) = m_os w"
  by (simp_all add: newlineIfNecessary_def)

lemma endElement_iff: "endElement w = Inl e \<longleftrightarrow> m_tags w = [] \<and> e = Undefined Vector_index"
  by (auto simp: endElement_def Let_def)

lemma endElement_tags: "endElement w = Inr w' \<Longrightarrow> m_tags w' = butlast (m_tags w) \<and> \<not> m_tagIsOpen w' \<and> m_os w' = m_os w"
  by (auto simp: endElement_def Let_def split: if_splits)

text \<open>The destructor ends what is open.\<close>

function end_all :: "xml_writer \<Rightarrow> xml_writer res" where
  "end_all w = (if m_tags w = [] then Inr w else bindR (endElement w) end_all)"
  by pat_completeness auto
termination
  by (relation "measure (\<lambda>w. length (m_tags w))") (auto dest: endElement_tags)

declare end_all.simps [simp del]

section \<open>The XML reporter\<close>

record xml_reporter =
  x_base :: streaming_base
  m_xml :: xml_writer
  m_sectionDepth :: int

text \<open>The writer starts on the standard output, whatever stream the configuration names.\<close>

definition newXmlReporter :: "(stream_kind \<Rightarrow> string) \<Rightarrow> xml_reporter" where
  "newXmlReporter ss = \<lparr>x_base = newStreamingBase, m_xml = newXmlWriter Cout_stream ss, m_sectionDepth = 0\<rparr>"

definition on_xml :: "(xml_writer \<Rightarrow> xml_writer) \<Rightarrow> xml_reporter \<Rightarrow> xml_reporter" where
  "on_xml f r = r\<lparr>m_xml := f (m_xml r)\<rparr>"

definition on_xml_res :: "(xml_writer \<Rightarrow> xml_writer res) \<Rightarrow> xml_reporter \<Rightarrow> xml_reporter res" where
  "on_xml_res f r = bindR (f (m_xml r)) (\<lambda>w. Inr (r\<lparr>m_xml := w\<rparr>))"

definition write_counts :: "counts \<Rightarrow> xml_writer \<Rightarrow> xml_writer" where
  "write_counts c w =
     writeAttribute_nat ''expectedFailures'' (unat (failedButOk c))
       (writeAttribute_nat ''failures'' (unat (failed c)) (writeAttribute_nat ''successes'' (unat (passed c)) w))"

definition write_source :: "source_line_info \<Rightarrow> xml_writer \<Rightarrow> xml_writer" where
  "write_source li w = writeAttribute_nat ''line'' (sli_line li) (writeAttribute ''filename'' (sli_file li) w)"

definition write_duration :: "config \<Rightarrow> string \<Rightarrow> xml_writer \<Rightarrow> xml_writer" where
  "write_duration c elapsed w =
     (if cfg_showDurations (cfg_data c) = Always then writeAttribute ''durationInSeconds'' elapsed w else w)"

definition write_message :: "message_info \<Rightarrow> xml_writer \<Rightarrow> xml_writer res" where
  "write_message m w =
     (if mi_type m = Info then scopedElement ''Info'' (writeText (mi_message m) True) w
      else if mi_type m = Warning then scopedElement ''Warning'' (writeText (mi_message m) True) w
      else Inr w)"

fun write_messages :: "message_info list \<Rightarrow> xml_writer \<Rightarrow> xml_writer res" where
  "write_messages [] w = Inr w"
| "write_messages (m # ms) w = bindR (write_message m w) (write_messages ms)"

definition write_expression :: "assertion_result \<Rightarrow> xml_writer \<Rightarrow> xml_writer res" where
  "write_expression r w =
     bindR (scopedElement ''Original'' (writeText (getExpression r) True)
       (write_source (ai_lineInfo (m_info r))
         (writeAttribute ''type'' (macroName (m_info r))
           (writeAttribute_bool ''success'' (succeeded r) (startElement ''Expression'' w)))))
       (scopedElement ''Expanded'' (writeText (getExpandedExpression r) True))"

definition write_result :: "assertion_result \<Rightarrow> xml_writer \<Rightarrow> xml_writer res" where
  "write_result r w =
     (let msg = message (m_resultData r); li = ai_lineInfo (m_info r)
      in case getResultType r of
           ThrewException \<Rightarrow> scopedElement ''Exception'' (\<lambda>v. writeText msg True (write_source li v)) w
         | FatalErrorCondition \<Rightarrow> scopedElement ''FatalErrorCondition'' (\<lambda>v. writeText msg True (write_source li v)) w
         | Info \<Rightarrow> scopedElement ''Info'' (writeText msg True) w
         | ExplicitFailure \<Rightarrow> scopedElement ''Failure'' (writeText msg True) w
         | _ \<Rightarrow> Inr w)"

definition write_assertion :: "config \<Rightarrow> assertion_result \<Rightarrow> message_info list \<Rightarrow> xml_writer \<Rightarrow> xml_writer res" where
  "write_assertion c r ms w0 =
     bindR (if getResultType r \<noteq> Ok then write_messages ms w0 else Inr w0) (\<lambda>w1.
       if \<not> showSuccessfulTests (cfg_data c) \<and> isOk (getResultType r) then Inr w1
       else bindR (if hasExpression r then write_expression r w1 else Inr w1) (\<lambda>w2.
            bindR (write_result r w2) (\<lambda>w3.
              if hasExpression r then endElement w3 else Inr w3)))"

text \<open>What is written for an event, after the common state was changed.\<close>

fun xml_write :: "config \<Rightarrow> string \<Rightarrow> reporter_event \<Rightarrow> xml_reporter \<Rightarrow> xml_reporter res" where
  "xml_write c elapsed (TestRunStarting n) r =
     Inr (on_xml (\<lambda>w. let w1 = startElement ''Catch'' (setStream (cfg_stream c) w)
        in if config_name c \<noteq> [] then writeAttribute ''name'' (config_name c) w1 else w1) r)"
| "xml_write c elapsed (TestGroupStarting n i k) r = Inr (on_xml (\<lambda>w. writeAttribute ''name'' n (startElement ''Group'' w)) r)"
| "xml_write c elapsed (TestCaseStarting n) r = Inr (on_xml (\<lambda>w. writeAttribute ''name'' n (startElement ''TestCase'' w)) r)"
| "xml_write c elapsed (SectionStarting si) r =
     (let r1 = r\<lparr>m_sectionDepth := m_sectionDepth r + 1\<rparr>
      in if m_sectionDepth r > 0
         then Inr (on_xml (\<lambda>w. writeAttribute ''description'' (si_description si)
                (writeAttribute ''name'' (trim (si_name si)) (startElement ''Section'' w))) r1)
         else Inr r1)"
| "xml_write c elapsed (AssertionEnded res ms t) r = on_xml_res (write_assertion c res ms) r"
| "xml_write c elapsed (SectionEnded si cnt missing) r =
     (let r1 = r\<lparr>m_sectionDepth := m_sectionDepth r - 1\<rparr>
      in if m_sectionDepth r1 > 0
         then on_xml_res (\<lambda>w. bindR (endElement (write_duration c elapsed (write_counts cnt (startElement ''OverallResults'' w)))) endElement) r1
         else Inr r1)"
| "xml_write c elapsed (TestCaseEnded n cls t a) r =
     on_xml_res (\<lambda>w. bindR (endElement (write_duration c elapsed
       (writeAttribute_bool ''success'' (allOk (assertions t)) (startElement ''OverallResult'' w)))) endElement) r"
| "xml_write c elapsed (TestGroupEnded n t i k a) r =
     on_xml_res (\<lambda>w. bindR (scopedElement ''OverallResults'' (write_counts (assertions t)) w) endElement) r"
| "xml_write c elapsed (TestRunEnded n t a) r =
     on_xml_res (\<lambda>w. bindR (scopedElement ''OverallResults'' (write_counts (assertions t)) w) endElement) r"
| "xml_write c elapsed (SkipTest n) r = Inr r"

definition xml_event :: "config \<Rightarrow> string \<Rightarrow> reporter_event \<Rightarrow> xml_reporter \<Rightarrow> xml_reporter res" where
  "xml_event c elapsed e r =
     bindR (base_event e (x_base r)) (\<lambda>b. xml_write c elapsed e (r\<lparr>x_base := b\<rparr>))"

section \<open>A reader of tags\<close>

text \<open>
  What is inside of the text that was read: between tags, or in a tag of some name, with the
  names of the elements that are open, innermost first. \<open>Broken\<close> is a tag that ends the wrong
  element, or a character that may not stand where it does.
\<close>

datatype xml_mode =
    In_text | Tag_open | Name string | Attrs string | Value string | Slash string | End_name string | Decl | Broken

fun read_char :: "char \<Rightarrow> xml_mode \<times> string list \<Rightarrow> xml_mode \<times> string list" where
  "read_char c (In_text, st) = (if c = CHR ''<'' then Tag_open else In_text, st)"
| "read_char c (Tag_open, st) =
     (if c = CHR ''/'' then End_name [] else if c = CHR ''?'' then Decl
      else if c \<in> {CHR ''<'', CHR ''>'', CHR '' '', CHR ''!''} then Broken else Name [c], st)"
| "read_char c (Name n, st) =
     (if c = CHR ''>'' then (In_text, n # st) else if c = CHR ''/'' then (Slash n, st)
      else if c = CHR '' '' then (Attrs n, st) else if c = CHR ''<'' then (Broken, st) else (Name (n @ [c]), st))"
| "read_char c (Attrs n, st) =
     (if c = CHR ''>'' then (In_text, n # st) else if c = CHR ''/'' then (Slash n, st)
      else if c = quote then (Value n, st) else if c = CHR ''<'' then (Broken, st) else (Attrs n, st))"
| "read_char c (Value n, st) = (if c = quote then Attrs n else if c = CHR ''<'' then Broken else Value n, st)"
| "read_char c (Slash n, st) = (if c = CHR ''>'' then In_text else Broken, st)"
| "read_char c (End_name n, st) =
     (if c = CHR ''>'' then (case st of [] \<Rightarrow> (Broken, st) | m # ms \<Rightarrow> (if m = n then In_text else Broken, ms))
      else (End_name (n @ [c]), st))"
| "read_char c (Decl, st) = (if c = CHR ''>'' then In_text else Decl, st)"
| "read_char c (Broken, st) = (Broken, st)"

definition read_tags :: "string \<Rightarrow> xml_mode \<times> string list \<Rightarrow> xml_mode \<times> string list" where
  "read_tags s = fold read_char s"

lemma read_tags_simps [simp]:
  "read_tags [] m = m" "read_tags (c # s) m = read_tags s (read_char c m)" "read_tags (s @ t) m = read_tags t (read_tags s m)"
  by (simp_all add: read_tags_def)

text \<open>Pieces of a document.\<close>

lemma read_plain: "CHR ''<'' \<notin> set x \<Longrightarrow> read_tags x (In_text, st) = (In_text, st)"
  by (induction x) auto

lemma read_value: "CHR ''<'' \<notin> set x \<Longrightarrow> quote \<notin> set x \<Longrightarrow> read_tags x (Value n, st) = (Value n, st)"
  by (induction x) auto

definition tag_char :: "char \<Rightarrow> bool" where
  "tag_char c \<longleftrightarrow> c \<notin> {CHR ''<'', CHR ''>'', CHR '' '', CHR ''!'', CHR ''/'', CHR ''?'', quote}"

definition xml_name :: "string \<Rightarrow> bool" where
  "xml_name n \<longleftrightarrow> n \<noteq> [] \<and> list_all tag_char n"

lemma read_name_rest: "list_all tag_char x \<Longrightarrow> read_tags x (Name n, st) = (Name (n @ x), st)"
  by (induction x arbitrary: n) (auto simp: tag_char_def)

lemma read_start: "xml_name n \<Longrightarrow> read_tags (CHR ''<'' # n) (In_text, st) = (Name n, st)"
  using read_name_rest [of "tl n" "[hd n]"] by (cases n) (auto simp: xml_name_def tag_char_def)

lemma read_end_rest: "list_all tag_char x \<Longrightarrow> read_tags x (End_name n, st) = (End_name (n @ x), st)"
  by (induction x arbitrary: n) (auto simp: tag_char_def)

lemma read_end: "xml_name n \<Longrightarrow> read_tags (''</'' @ n @ ''>'') (In_text, n # st) = (In_text, st)"
  using read_end_rest [of n "[]"] by (simp add: xml_name_def)

lemma read_attr_name: "list_all tag_char x \<Longrightarrow> read_tags x (Attrs n, st) = (Attrs n, st)"
  by (induction x) (auto simp: tag_char_def)

text \<open>An encoded text has no character that could start a tag, and in an attribute none that ends it.\<close>

lemma digit_char: "d < 16 \<Longrightarrow> CHR ''<'' \<noteq> upper_digit d \<and> quote \<noteq> upper_digit d"
  unfolding upper_digit_def quote_def by (auto dest!: arg_cong [where f = "of_char :: char \<Rightarrow> nat"])

lemma upper_hex_chars: "set (upper_hex n) \<inter> {CHR ''<'', quote} = {}"
proof (induction n rule: upper_hex.induct)
  case (1 n)
  then show ?case using digit_char by (subst upper_hex.simps) auto
qed

lemma reference_chars: "CHR ''<'' \<notin> set (char_reference c) \<and> quote \<notin> set (char_reference c)"
  using upper_hex_chars by (auto simp: char_reference_def Let_def quote_def)

lemma encode_chars:
  "CHR ''<'' \<notin> set (xml_encode f s)" "quote \<notin> set (xml_encode True s)"
proof -
  have "CHR ''<'' \<notin> set (encode_char f s i)" for i
    using reference_chars by (auto simp: encode_char_def Let_def quote_def)
  then show "CHR ''<'' \<notin> set (xml_encode f s)" by (simp add: xml_encode_def)
  have "quote \<notin> set (encode_char True s i)" for i
    using reference_chars by (auto simp: encode_char_def Let_def quote_def)
  then show "quote \<notin> set (xml_encode True s)" by (simp add: xml_encode_def)
qed

section \<open>What the writer has written is nested\<close>

definition xml_state :: "xml_writer \<Rightarrow> xml_mode \<times> string list" where
  "xml_state w = read_tags (streams w (m_os w)) (In_text, [])"

lemma xml_state_simps [simp]:
  "xml_state (put_xml x w) = read_tags x (xml_state w)" "xml_state (w\<lparr>m_tagIsOpen := b\<rparr>) = xml_state w"
  "xml_state (w\<lparr>m_needsNewline := b\<rparr>) = xml_state w" "xml_state (w\<lparr>m_tags := ts\<rparr>) = xml_state w"
  "xml_state (w\<lparr>m_indent := i\<rparr>) = xml_state w"
  by (simp_all add: xml_state_def put_xml_def)

text \<open>A start tag is open, possibly with attributes; or the text is between tags.\<close>

definition in_tag :: "xml_writer \<Rightarrow> bool" where
  "in_tag w \<longleftrightarrow> m_tags w \<noteq> [] \<and> \<not> m_needsNewline w
     \<and> xml_state w \<in> {(Name (last (m_tags w)), rev (butlast (m_tags w))), (Attrs (last (m_tags w)), rev (butlast (m_tags w)))}"

definition writer_ok :: "xml_writer \<Rightarrow> bool" where
  "writer_ok w \<longleftrightarrow> list_all xml_name (m_tags w) \<and> set (m_indent w) \<subseteq> {CHR '' ''}
     \<and> (if m_tagIsOpen w then in_tag w else xml_state w = (In_text, rev (m_tags w)))"

lemma read_endl [simp]: "read_tags endl (In_text, st) = (In_text, st)"
  by (simp add: endl_def newline_def)

lemma read_indent: "set i \<subseteq> {CHR '' ''} \<Longrightarrow> read_tags i (In_text, st) = (In_text, st)"
  by (rule read_plain) auto

lemma rev_tags: "ts \<noteq> [] \<Longrightarrow> last ts # rev (butlast ts) = rev ts"
  by (metis append_butlast_last_id rev.simps(2) rev_rev_ident rev_swap)

lemma ok_closed: "writer_ok w \<Longrightarrow> writer_ok (ensureTagClosed w)"
  by (auto simp: writer_ok_def in_tag_def ensureTagClosed_def rev_tags)

lemma closed_state: "writer_ok w \<Longrightarrow> \<not> m_tagIsOpen w \<Longrightarrow> xml_state w = (In_text, rev (m_tags w))"
  by (simp add: writer_ok_def)

lemma ok_newline: "writer_ok w \<Longrightarrow> writer_ok (newlineIfNecessary w)"
  by (auto simp: writer_ok_def in_tag_def newlineIfNecessary_def)

lemma ok_start: "writer_ok w \<Longrightarrow> xml_name n \<Longrightarrow> writer_ok (startElement n w) \<and> m_tagIsOpen (startElement n w)
    \<and> m_tags (startElement n w) = m_tags w @ [n] \<and> m_os (startElement n w) = m_os w"
proof -
  assume ok: "writer_ok w" and n: "xml_name n"
  let ?w = "newlineIfNecessary (ensureTagClosed w)"
  have w: "writer_ok ?w" using ok_newline [OF ok_closed [OF ok]] .
  then have st: "xml_state ?w = (In_text, rev (m_tags w))" using closed_state [OF w] by simp
  have ind: "set (m_indent w) \<subseteq> {CHR '' ''}" using ok by (simp add: writer_ok_def)
  have "xml_state (put_xml (m_indent ?w @ ''<'' @ n) ?w) = (Name n, rev (m_tags w))"
    using read_start [OF n, of "rev (m_tags w)"] read_indent [OF ind] st by simp
  then show ?thesis
    using ok n ind by (auto simp: startElement_def Let_def writer_ok_def in_tag_def)
qed

lemma ok_end: "writer_ok w \<Longrightarrow> m_tags w \<noteq> [] \<Longrightarrow>
  \<exists>w'. endElement w = Inr w' \<and> writer_ok w' \<and> m_tags w' = butlast (m_tags w) \<and> m_os w' = m_os w"
proof -
  assume ok: "writer_ok w" and ne: "m_tags w \<noteq> []"
  let ?w = "newlineIfNecessary w"
  let ?i = "take (size_minus (length (m_indent ?w)) 2) (m_indent ?w)"
  have w: "writer_ok ?w" using ok_newline [OF ok] .
  have names: "list_all xml_name (butlast (m_tags w))" "xml_name (last (m_tags w))"
    using ok ne by (auto simp: writer_ok_def list_all_iff dest: in_set_butlastD)
  have ind: "set ?i \<subseteq> {CHR '' ''}" using w set_take_subset by (fastforce simp: writer_ok_def)
  obtain w' where e: "endElement w = Inr w'" using ne endElement_iff by (cases "endElement w") auto
  have "xml_state w' = (In_text, rev (butlast (m_tags w)))"
  proof (cases "m_tagIsOpen w")
    case True
    then have "xml_state w' = read_tags (''/>'' @ endl) (xml_state ?w)"
      using e ne by (auto simp: endElement_def Let_def)
    moreover have "in_tag ?w" using w True by (simp add: writer_ok_def)
    ultimately show ?thesis by (auto simp: in_tag_def)
  next
    case False
    then have "xml_state w' = read_tags (?i @ ''</'' @ last (m_tags w) @ ''>'' @ endl) (xml_state ?w)"
      using e ne by (auto simp: endElement_def Let_def)
    moreover have "xml_state ?w = (In_text, last (m_tags w) # rev (butlast (m_tags w)))"
      using closed_state [OF w] False rev_tags [OF ne] by simp
    ultimately show ?thesis using read_indent [OF ind] read_end [OF names(2)] by simp
  qed
  moreover have "m_indent w' = ?i" using e ne by (auto simp: endElement_def Let_def split: if_splits)
  ultimately show ?thesis using e endElement_tags [OF e] names ind by (auto simp: writer_ok_def)
qed

lemma ok_attribute_text:
  assumes "writer_ok w" "m_tagIsOpen w" "list_all tag_char n" "CHR ''<'' \<notin> set v" "quote \<notin> set v"
  defines "w' \<equiv> put_xml ('' '' @ n @ ''='' @ [quote] @ v @ [quote]) w"
  shows "writer_ok w' \<and> m_tagIsOpen w' \<and> m_tags w' = m_tags w \<and> m_os w' = m_os w"
proof -
  let ?t = "last (m_tags w)" and ?st = "rev (butlast (m_tags w))"
  have read: "read_tags ('' '' @ n @ ''='' @ [quote] @ v @ [quote]) (m, ?st) = (Attrs ?t, ?st)"
    if "m \<in> {Name ?t, Attrs ?t}" for m
    using that read_attr_name [OF assms(3)] read_value [OF assms(4,5)] by (auto simp: quote_def)
  obtain m where "m \<in> {Name ?t, Attrs ?t}" "xml_state w = (m, ?st)"
    using assms(1,2) by (auto simp: writer_ok_def in_tag_def)
  then have "xml_state w' = (Attrs ?t, ?st)" using read by (simp only: w'_def xml_state_simps)
  then show ?thesis
    using assms(1,2) by (simp add: writer_ok_def in_tag_def) (simp add: w'_def)
qed

section \<open>Operations that keep the elements that are open\<close>

text \<open>On an open start tag, staying in it; on an open start tag; and on any writer that is in order.\<close>

definition attribute_op :: "(xml_writer \<Rightarrow> xml_writer) \<Rightarrow> bool" where
  "attribute_op f \<longleftrightarrow> (\<forall>w. writer_ok w \<longrightarrow> m_tagIsOpen w \<longrightarrow>
     writer_ok (f w) \<and> m_tagIsOpen (f w) \<and> m_tags (f w) = m_tags w \<and> m_os (f w) = m_os w)"

definition content_op :: "(xml_writer \<Rightarrow> xml_writer) \<Rightarrow> bool" where
  "content_op f \<longleftrightarrow> (\<forall>w. writer_ok w \<longrightarrow> m_tagIsOpen w \<longrightarrow>
     writer_ok (f w) \<and> m_tags (f w) = m_tags w \<and> m_os (f w) = m_os w)"

definition balanced_op :: "(xml_writer \<Rightarrow> xml_writer res) \<Rightarrow> bool" where
  "balanced_op f \<longleftrightarrow> (\<forall>w. writer_ok w \<longrightarrow>
     (\<exists>w'. f w = Inr w' \<and> writer_ok w' \<and> m_tags w' = m_tags w \<and> m_os w' = m_os w))"

lemma attribute_write: "list_all tag_char n \<Longrightarrow> attribute_op (writeAttribute n v)"
  using ok_attribute_text [OF _ _ _ encode_chars(1) encode_chars(2)]
  by (auto simp: attribute_op_def writeAttribute_def)

lemma attribute_bool: "list_all tag_char n \<Longrightarrow> attribute_op (writeAttribute_bool n b)"
  using ok_attribute_text [of _ n "if b then ''true'' else ''false''"]
  by (auto simp: attribute_op_def writeAttribute_bool_def quote_def)

lemma attribute_nat: "list_all tag_char n \<Longrightarrow> attribute_op (writeAttribute_nat n k)"
  using attribute_write [of n "dec k"] by (simp add: attribute_op_def writeAttribute_nat_def)

lemma attribute_comp: "attribute_op f \<Longrightarrow> attribute_op g \<Longrightarrow> attribute_op (\<lambda>w. g (f w))"
  by (simp add: attribute_op_def)

lemma names_ok [simp]:
  "list_all tag_char ''name''" "list_all tag_char ''description''" "list_all tag_char ''successes''"
  "list_all tag_char ''failures''" "list_all tag_char ''expectedFailures''" "list_all tag_char ''line''"
  "list_all tag_char ''filename''" "list_all tag_char ''type''" "list_all tag_char ''success''"
  "list_all tag_char ''durationInSeconds''"
  "xml_name ''Catch''" "xml_name ''Group''" "xml_name ''TestCase''" "xml_name ''Section''"
  "xml_name ''OverallResults''" "xml_name ''OverallResult''" "xml_name ''Info''" "xml_name ''Warning''"
  "xml_name ''Exception''" "xml_name ''FatalErrorCondition''" "xml_name ''Failure''" "xml_name ''Original''"
  "xml_name ''Expanded''" "xml_name ''Expression''"
  by (simp_all add: xml_name_def tag_char_def quote_def)

lemma attribute_counts: "attribute_op (write_counts c)"
  unfolding write_counts_def [abs_def]
  by (rule attribute_comp [OF attribute_comp [OF attribute_nat attribute_nat] attribute_nat]; simp only: names_ok)

lemma attribute_source: "attribute_op (write_source li)"
  unfolding write_source_def [abs_def]
  by (rule attribute_comp [OF attribute_write attribute_nat]; simp only: names_ok)

lemma attribute_duration: "attribute_op (write_duration c elapsed)"
  using attribute_write [OF names_ok(10), of elapsed]
  by (auto simp: attribute_op_def write_duration_def [abs_def])

lemma content_attribute: "attribute_op f \<Longrightarrow> content_op f"
  by (simp add: attribute_op_def content_op_def)

lemma content_text: "content_op (writeText x b)"
  unfolding content_op_def
proof (intro allI impI)
  fix w assume ok: "writer_ok w" and "m_tagIsOpen w"
  let ?w = "ensureTagClosed w"
  have "writer_ok ?w" using ok_closed [OF ok] .
  then have "xml_state ?w = (In_text, rev (m_tags w))" "set (m_indent w) \<subseteq> {CHR '' ''}" "list_all xml_name (m_tags w)"
    using closed_state [of ?w] by (simp_all add: writer_ok_def)
  then show "writer_ok (writeText x b w) \<and> m_tags (writeText x b w) = m_tags w \<and> m_os (writeText x b w) = m_os w"
    using ok by (auto simp: writeText_def Let_def writer_ok_def read_indent read_plain encode_chars)
qed

lemma content_comp: "attribute_op f \<Longrightarrow> content_op g \<Longrightarrow> content_op (\<lambda>w. g (f w))"
  by (simp add: attribute_op_def content_op_def)

lemma balanced_element: "xml_name n \<Longrightarrow> content_op f \<Longrightarrow> balanced_op (scopedElement n f)"
  unfolding balanced_op_def
proof (intro allI impI)
  fix w assume n: "xml_name n" and f: "content_op f" and ok: "writer_ok w"
  let ?w = "f (startElement n w)"
  have "writer_ok ?w" "m_tags ?w = m_tags w @ [n]" "m_os ?w = m_os w"
    using f ok_start [OF ok n] by (simp_all add: content_op_def)
  then show "\<exists>w'. scopedElement n f w = Inr w' \<and> writer_ok w' \<and> m_tags w' = m_tags w \<and> m_os w' = m_os w"
    using ok_end [of ?w] by (auto simp: scopedElement_def)
qed

lemma balanced_bind: "balanced_op f \<Longrightarrow> balanced_op g \<Longrightarrow> balanced_op (\<lambda>w. bindR (f w) g)"
  unfolding balanced_op_def by (metis bindR.simps(2))

lemma balanced_Inr: "balanced_op Inr"
  by (simp add: balanced_op_def)

lemma balanced_messages: "balanced_op (write_messages ms)"
proof (induction ms)
  case Nil
  show ?case by (simp add: balanced_op_def)
next
  case (Cons m ms)
  have "balanced_op (write_message m)"
    using balanced_element [OF _ content_text] balanced_Inr
    by (simp add: balanced_op_def write_message_def)
  then show ?case using balanced_bind [OF _ Cons] by (simp add: balanced_op_def)
qed

lemma balanced_result: "balanced_op (write_result r)"
  using balanced_element [OF _ content_text] balanced_Inr
    balanced_element [OF _ content_comp [OF attribute_source content_text]]
  by (simp add: balanced_op_def write_result_def Let_def split: result_was.splits)

lemma write_expression_ok:
  assumes "writer_ok w"
  shows "\<exists>w'. write_expression r w = Inr w' \<and> writer_ok w' \<and> m_tags w' = m_tags w @ [''Expression''] \<and> m_os w' = m_os w"
proof -
  let ?f = "\<lambda>v. write_source (ai_lineInfo (m_info r)) (writeAttribute ''type'' (macroName (m_info r))
    (writeAttribute_bool ''success'' (succeeded r) v))"
  let ?w = "?f (startElement ''Expression'' w)"
  have "attribute_op ?f"
    by (rule attribute_comp [OF attribute_comp [OF attribute_bool attribute_write] attribute_source]; simp only: names_ok)
  moreover have "xml_name ''Expression''" by (simp only: names_ok)
  ultimately have w: "writer_ok ?w" "m_tags ?w = m_tags w @ [''Expression'']" "m_os ?w = m_os w"
    using ok_start [OF assms, of "''Expression''"] by (simp_all add: attribute_op_def)
  have "balanced_op (\<lambda>v. bindR (scopedElement ''Original'' (writeText (getExpression r) True) v)
      (scopedElement ''Expanded'' (writeText (getExpandedExpression r) True)))"
    by (intro balanced_bind balanced_element content_text; simp only: names_ok)
  then show ?thesis using w unfolding balanced_op_def write_expression_def by auto
qed

lemma balanced_assertion: "balanced_op (write_assertion c r ms)"
  unfolding balanced_op_def
proof (intro allI impI)
  fix w assume ok: "writer_ok w"
  obtain w1 where w1: "(if getResultType r \<noteq> Ok then write_messages ms w else Inr w) = Inr w1" "writer_ok w1"
    "m_tags w1 = m_tags w" "m_os w1 = m_os w"
    using balanced_messages [of ms, unfolded balanced_op_def, rule_format, OF ok] ok
    by (cases "getResultType r = Ok") auto
  show "\<exists>w'. write_assertion c r ms w = Inr w' \<and> writer_ok w' \<and> m_tags w' = m_tags w \<and> m_os w' = m_os w"
  proof (cases "\<not> showSuccessfulTests (cfg_data c) \<and> isOk (getResultType r)")
    case True
    then show ?thesis using w1 by (simp only: write_assertion_def bindR.simps if_True) auto
  next
    case False
    obtain w2 where w2: "(if hasExpression r then write_expression r w1 else Inr w1) = Inr w2" "writer_ok w2"
      "m_tags w2 = m_tags w @ (if hasExpression r then [''Expression''] else [])" "m_os w2 = m_os w"
      using write_expression_ok [OF w1(2)] w1 by (cases "hasExpression r") auto
    obtain w3 where w3: "write_result r w2 = Inr w3" "writer_ok w3" "m_tags w3 = m_tags w2" "m_os w3 = m_os w2"
      using balanced_result [of r] w2(2) by (auto simp: balanced_op_def)
    obtain w4 where "(if hasExpression r then endElement w3 else Inr w3) = Inr w4" "writer_ok w4"
      "m_tags w4 = m_tags w" "m_os w4 = m_os w"
      using ok_end [OF w3(2)] w2(3,4) w3 by (cases "hasExpression r") auto
    then show ?thesis
      using w1(1) w2(1) w3(1) False by (simp only: write_assertion_def bindR.simps if_False) auto
  qed
qed

section \<open>Nested events give a nested document\<close>

fun open_elements :: "nesting \<Rightarrow> string list" where
  "open_elements Outside = []"
| "open_elements In_run = [''Catch'']"
| "open_elements In_group = [''Catch'', ''Group'']"
| "open_elements In_test = [''Catch'', ''Group'', ''TestCase'']"
| "open_elements (In_case k) = [''Catch'', ''Group'', ''TestCase''] @ replicate (k - 1) ''Section''"

definition xml_ok :: "config \<Rightarrow> xml_reporter \<Rightarrow> nesting \<Rightarrow> bool" where
  "xml_ok c r p \<longleftrightarrow> writer_ok (m_xml r) \<and> m_tags (m_xml r) = open_elements p
     \<and> m_sectionDepth r = int (sections_open p) \<and> length (m_sectionStack (x_base r)) = sections_open p
     \<and> (if p = Outside then writer_ok (setStream (cfg_stream c) (m_xml r)) else m_os (m_xml r) = cfg_stream c)"

lemma attribute_after_start:
  assumes "writer_ok w" "xml_name n" "attribute_op f"
  shows "writer_ok (f (startElement n w)) \<and> m_tags (f (startElement n w)) = m_tags w @ [n] \<and> m_os (f (startElement n w)) = m_os w"
  using ok_start [OF assms(1,2)] assms(3) by (simp add: attribute_op_def)

text \<open>The result of a part, and then the end of the element it stands in.\<close>

lemma overall_ok:
  assumes "writer_ok w" "m_tags w = ts @ [n]" "xml_name m" "attribute_op f"
  shows "\<exists>w'. bindR (endElement (f (startElement m w))) endElement = Inr w' \<and> writer_ok w' \<and> m_tags w' = ts \<and> m_os w' = m_os w"
proof -
  have "balanced_op (scopedElement m f)" using balanced_element [OF assms(3) content_attribute [OF assms(4)]] .
  then obtain w1 where w1: "endElement (f (startElement m w)) = Inr w1" "writer_ok w1" "m_tags w1 = m_tags w" "m_os w1 = m_os w"
    using assms(1) by (auto simp: balanced_op_def scopedElement_def)
  then show ?thesis using ok_end [OF w1(2)] assms(2) by auto
qed

lemma xml_event_ok:
  assumes "xml_ok c r p" "nest e p = Some p'"
  shows "\<exists>r'. xml_event c elapsed e r = Inr r' \<and> xml_ok c r' p'"
proof -
  have ok: "writer_ok (m_xml r)" "m_tags (m_xml r) = open_elements p" "m_sectionDepth r = int (sections_open p)"
    "length (m_sectionStack (x_base r)) = sections_open p"
    using assms(1) by (simp_all add: xml_ok_def)
  have os: "p \<noteq> Outside \<Longrightarrow> m_os (m_xml r) = cfg_stream c" using assms(1) by (simp add: xml_ok_def)
  show ?thesis
  proof (cases e)
    case (TestRunStarting n)
    have p: "p = Outside" "p' = In_run" using assms(2) TestRunStarting by (auto split: if_splits)
    have w: "writer_ok (setStream (cfg_stream c) (m_xml r))" using assms(1) p by (simp add: xml_ok_def)
    let ?f = "\<lambda>w. if config_name c \<noteq> [] then writeAttribute ''name'' (config_name c) w else w"
    have "attribute_op ?f" using attribute_write [OF names_ok(1)] by (simp add: attribute_op_def)
    from attribute_after_start [OF w names_ok(11) this] show ?thesis
      using TestRunStarting p ok
      by (cases "config_name c = []") (auto simp: xml_event_def on_xml_def xml_ok_def Let_def setStream_def)
  next
    case (TestGroupStarting n i k)
    have p: "p = In_run" "p' = In_group" using assms(2) TestGroupStarting by (auto split: if_splits)
    show ?thesis
      using attribute_after_start [OF ok(1) names_ok(12) attribute_write [OF names_ok(1), of n]] TestGroupStarting p ok os
      by (simp add: xml_event_def on_xml_def xml_ok_def del: names_ok)
  next
    case (TestCaseStarting n)
    have p: "p = In_group" "p' = In_test" using assms(2) TestCaseStarting by (auto split: if_splits)
    show ?thesis
      using attribute_after_start [OF ok(1) names_ok(13) attribute_write [OF names_ok(1), of n]] TestCaseStarting p ok os
      by (simp add: xml_event_def on_xml_def xml_ok_def del: names_ok)
  next
    case (SectionStarting si)
    then have p: "p = In_test \<and> p' = In_case 1 \<or> (\<exists>k. p = In_case k \<and> p' = In_case (Suc k))"
      using assms(2) by (auto split: nesting.splits)
    let ?f = "\<lambda>w. writeAttribute ''description'' (si_description si) (writeAttribute ''name'' (trim (si_name si)) w)"
    have "attribute_op ?f" by (rule attribute_comp [OF attribute_write attribute_write]; simp only: names_ok)
    note opened = attribute_after_start [OF ok(1) names_ok(14) this]
    show ?thesis
    proof (cases "sections_open p")
      case 0
      then have "p' = In_case 1" "open_elements p = [''Catch'', ''Group'', ''TestCase'']" "p \<noteq> Outside" using p by auto
      then show ?thesis using SectionStarting 0 ok os by (simp add: xml_event_def xml_ok_def)
    next
      case (Suc k)
      then have "p = In_case (Suc k)" "p' = In_case (Suc (Suc k))" using p by auto
      then show ?thesis
        using SectionStarting opened ok os
        by (simp add: xml_event_def on_xml_def xml_ok_def replicate_append_same [symmetric] del: names_ok)
    qed
  next
    case (AssertionEnded res ms t)
    then obtain k where p: "p = In_case (Suc k)" "p' = p" using assms(2) by (auto split: nesting.splits nat.splits)
    obtain w where "write_assertion c res ms (m_xml r) = Inr w" "writer_ok w" "m_tags w = m_tags (m_xml r)" "m_os w = m_os (m_xml r)"
      using balanced_assertion [of c res ms] ok(1) by (auto simp: balanced_op_def)
    then show ?thesis using AssertionEnded p ok os by (simp add: xml_event_def on_xml_res_def xml_ok_def)
  next
    case (SectionEnded si cnt missing)
    then obtain k where p: "p = In_case (Suc k)" "p' = In_case k" using assms(2) by (auto split: nesting.splits nat.splits)
    have st: "m_sectionStack (x_base r) \<noteq> []" "length (butlast (m_sectionStack (x_base r))) = k" using ok(4) p by auto
    show ?thesis
    proof (cases k)
      case 0
      then have "butlast (m_sectionStack (x_base r)) = []" using st(2) by (simp only: length_0_conv)
      then show ?thesis using SectionEnded p ok os st(1) 0 by (simp add: xml_event_def xml_ok_def Let_def)
    next
      case (Suc j)
      have "attribute_op (\<lambda>w. write_duration c elapsed (write_counts cnt w))"
        by (rule attribute_comp [OF attribute_counts attribute_duration])
      moreover have "m_tags (m_xml r) = ([''Catch'', ''Group'', ''TestCase''] @ replicate j ''Section'') @ [''Section'']"
        using ok(2) p Suc by (simp add: replicate_append_same)
      ultimately obtain w' where "bindR (endElement (write_duration c elapsed (write_counts cnt (startElement ''OverallResults'' (m_xml r))))) endElement = Inr w'"
        "writer_ok w'" "m_tags w' = [''Catch'', ''Group'', ''TestCase''] @ replicate j ''Section''" "m_os w' = m_os (m_xml r)"
        using overall_ok [OF ok(1) _ names_ok(15)] by blast
      then show ?thesis using SectionEnded p ok os st Suc by (simp add: xml_event_def on_xml_res_def xml_ok_def Let_def)
    qed
  next
    case (TestCaseEnded n cls t a)
    have p: "p = In_case 0" "p' = In_group" using assms(2) TestCaseEnded by (auto split: if_splits)
    have "attribute_op (\<lambda>w. write_duration c elapsed (writeAttribute_bool ''success'' (allOk (assertions t)) w))"
      by (rule attribute_comp [OF attribute_bool attribute_duration]; simp only: names_ok)
    moreover have "m_tags (m_xml r) = [''Catch'', ''Group''] @ [''TestCase'']" using ok(2) p by simp
    ultimately obtain w' where "bindR (endElement (write_duration c elapsed (writeAttribute_bool ''success'' (allOk (assertions t))
        (startElement ''OverallResult'' (m_xml r))))) endElement = Inr w'"
      "writer_ok w'" "m_tags w' = [''Catch'', ''Group'']" "m_os w' = m_os (m_xml r)"
      using overall_ok [OF ok(1) _ names_ok(16)] by blast
    then show ?thesis using TestCaseEnded p ok os by (simp add: xml_event_def on_xml_res_def xml_ok_def)
  next
    case (TestGroupEnded n t i k a)
    have p: "p = In_group" "p' = In_run" using assms(2) TestGroupEnded by (auto split: if_splits)
    have "m_tags (m_xml r) = [''Catch''] @ [''Group'']" using ok(2) p by simp
    then obtain w' where "bindR (endElement (write_counts (assertions t) (startElement ''OverallResults'' (m_xml r)))) endElement = Inr w'"
      "writer_ok w'" "m_tags w' = [''Catch'']" "m_os w' = m_os (m_xml r)"
      using overall_ok [OF ok(1) _ names_ok(15) attribute_counts] by blast
    then show ?thesis using TestGroupEnded p ok os by (simp add: xml_event_def on_xml_res_def xml_ok_def scopedElement_def)
  next
    case (TestRunEnded n t a)
    have p: "p = In_run" "p' = Outside" using assms(2) TestRunEnded by (auto split: if_splits)
    have "m_tags (m_xml r) = [] @ [''Catch'']" using ok(2) p by simp
    then obtain w' where w': "bindR (endElement (write_counts (assertions t) (startElement ''OverallResults'' (m_xml r)))) endElement = Inr w'"
      "writer_ok w'" "m_tags w' = []" "m_os w' = m_os (m_xml r)"
      using overall_ok [OF ok(1) _ names_ok(15) attribute_counts] by blast
    moreover have "setStream (cfg_stream c) w' = w'" using w'(4) os p by (simp add: setStream_def)
    ultimately show ?thesis using TestRunEnded p ok os
      by (simp add: xml_event_def on_xml_res_def xml_ok_def scopedElement_def)
  next
    case (SkipTest n)
    have "p' = p" using assms(2) SkipTest by (auto split: if_splits)
    then show ?thesis using SkipTest assms(1) by (simp add: xml_event_def xml_ok_def)
  qed
qed

text \<open>So the reporter fulfils the contract, with the nesting as its protocol.\<close>

interpretation xml: streaming_reporter "\<lambda>x e r. Some (xml_event c x e r)" "\<lambda>e. True" "xml_ok c"
  by unfold_locales (simp add: xml_event_ok)

lemma new_xml_ok: "xml_ok c (newXmlReporter (\<lambda>k. [])) Outside"
proof -
  have d: "read_tags xml_declaration (In_text, []) = (In_text, [])"
    by (simp add: xml_declaration_def quote_def)
  have "writer_ok (newXmlWriter Cout_stream (\<lambda>k. []))"
    using d by (simp add: newXmlWriter_def writer_ok_def xml_state_def put_xml_def)
  moreover have "writer_ok (setStream k (newXmlWriter Cout_stream (\<lambda>k. [])))" for k
    using d by (simp add: newXmlWriter_def writer_ok_def xml_state_def put_xml_def setStream_def)
  moreover have "m_tags (newXmlWriter Cout_stream (\<lambda>k. [])) = []" by (simp add: newXmlWriter_def)
  ultimately show ?thesis by (simp add: xml_ok_def newXmlReporter_def newStreamingBase_def)
qed

lemma finished_document:
  assumes "xml_ok c r Outside"
  shows "read_tags (streams (m_xml r) (cfg_stream c)) (In_text, []) = (In_text, [])"
proof -
  let ?w = "setStream (cfg_stream c) (m_xml r)"
  have w: "writer_ok ?w" "m_tags ?w = []" using assms by (simp_all add: xml_ok_def setStream_def)
  then have "\<not> m_tagIsOpen ?w" by (auto simp: writer_ok_def in_tag_def)
  then have "xml_state ?w = (In_text, [])" using closed_state [OF w(1)] w(2) by simp
  then show ?thesis by (simp add: xml_state_def setStream_def)
qed

text \<open>
  The declaration goes to the standard output even when the report goes to a file.
\<close>

lemma xml_declaration_misplaced:
  assumes "cfg_stream c = File_stream f"
  shows "streams (m_xml (newXmlReporter (\<lambda>k. []))) Cout_stream = xml_declaration"
    "streams (m_xml (newXmlReporter (\<lambda>k. []))) (File_stream f) = []"
  by (simp_all add: newXmlReporter_def newXmlWriter_def put_xml_def)

text \<open>
  The escape for the end of a CDATA section is missed when the text starts with it, and a byte of
  a character outside ASCII becomes a reference to a code that no character has.
\<close>

lemma cdata_end_missed:
  "xml_encode False '']]>'' = '']]>''" "xml_encode False ''x]]>'' = ''x]]&gt;''"
  by (simp_all add: xml_encode_def encode_char_def quote_def char_value_def upt_rec Let_def)

lemma upper_hex_step:
  "n < 16 \<Longrightarrow> upper_hex n = [upper_digit n]" "16 \<le> n \<Longrightarrow> upper_hex n = upper_hex (n div 16) @ [upper_digit (n mod 16)]"
  by (simp_all add: upper_hex.simps [of n])

lemma not_ascii: "xml_encode False [CHR 0xC3] = ''&#xFFFFFFC3;''"
proof -
  have h: "upper_hex 4294967235 = ''FFFFFFC3''"
    by (simp add: upper_hex_step upper_digit_def) (simp add: char_of_def bit_iff_odd)
  have "char_value (CHR 0xC3) = - 61" by code_simp
  then show ?thesis by (simp add: xml_encode_def encode_char_def quote_def char_reference_def to_uint_def h Let_def)
qed

text \<open>
  C33. Whatever the tests do, the events of a run that comes to its end can all be reported: the XML
  reporter never ends an element that is not open, and what it has written to the stream of the
  configuration is a nested document, in which every start tag has the end tag of the same name
  and no name, attribute or text breaks a tag.
\<close>

theorem xml_report_is_nested:
  assumes "runTests shuffle clears c h = Some (Inr (t, rc, h'))"
  shows "\<exists>r. report_all (\<lambda>x e r. Some (xml_event c x e r)) elapsed (rc_events rc) (newXmlReporter (\<lambda>k. [])) = Some (Inr r)
    \<and> read_tags (streams (m_xml r) (cfg_stream c)) (In_text, []) = (In_text, [])"
  using xml.run_is_reported [OF assms new_xml_ok] finished_document by (fastforce simp: list_all_iff)

lemma xml_report_is_nested_witness:
  "\<exists>t rc h' r. runTests rev (\<lambda>n r ms t. True) example_config example_hub = Some (Inr (t, rc, h'))
    \<and> report_all (\<lambda>x e r. Some (xml_event example_config x e r)) (\<lambda>n. ''0.5'') (rc_events rc) (newXmlReporter (\<lambda>k. []))
        = Some (Inr r)
    \<and> read_tags (streams (m_xml r) Cout_stream) (In_text, []) = (In_text, [])"
proof -
  have c: "cfg_data example_config = newConfigData" "cfg_stream example_config = Cout_stream" "\<not> warnNoAssertions newConfigData"
    "(word_of_int (abortAfter newConfigData) :: 64 word) \<noteq> 0" "runOrder newConfigData = InDeclarationOrder"
    by (simp_all add: example_config_def newConfigData_def)
  obtain t rc where run: "runTests rev (\<lambda>n r ms t. True) example_config example_hub = Some (Inr (t, rc, example_hub\<lparr>hub_tests
      := (hub_tests example_hub)\<lparr>m_sortedFunctions := [example_test]\<rparr>\<rparr>))"
    using runTests_passing [of example_hub example_config "One_reporter ''console''" rev "[example_test]"
        "(hub_tests example_hub)\<lparr>m_sortedFunctions := [example_test]\<rparr>" "\<lambda>n r ms t. True"]
      example_facts example_good c by auto
  then show ?thesis
    using xml_report_is_nested [OF run(1), of "\<lambda>n. ''0.5''"] c by auto
qed

section \<open>Reports that are not finished\<close>

lemma write_tags [simp]:
  "m_tags (write_counts cnt w) = m_tags w" "m_tags (write_duration c elapsed w) = m_tags w"
  "m_tags (writeAttribute_bool n b w) = m_tags w" "m_tags (startElement n w) = m_tags w @ [n]"
  by (simp_all add: write_counts_def write_duration_def writeAttribute_nat_def writeAttribute_def writeAttribute_bool_def
      startElement_def Let_def)

lemma overall_tags:
  "endElement w = Inr w1 \<Longrightarrow> m_tags w = m_tags w0 @ [m] \<Longrightarrow> endElement w1 = Inr w' \<Longrightarrow> m_tags w' = butlast (m_tags w0)"
  by (simp add: endElement_tags)

lemma end_event_tags:
  "xml_event c elapsed (TestCaseEnded tn cls d b) r = Inr r' \<Longrightarrow> m_tags (m_xml r') = butlast (m_tags (m_xml r))"
  "xml_event c elapsed (TestGroupEnded g t i n b) r = Inr r' \<Longrightarrow> m_tags (m_xml r') = butlast (m_tags (m_xml r))"
  "xml_event c elapsed (TestRunEnded rn t b) r = Inr r' \<Longrightarrow> m_tags (m_xml r') = butlast (m_tags (m_xml r))"
  by (auto simp: xml_event_def on_xml_res_def scopedElement_def bindR_eq_Inr elim!: overall_tags)

text \<open>
  When a signal ends the process the reporter is told of the end of one section, whatever is open.
  With two sections open in the test, elements of the report are never ended.
\<close>

lemma fatal_report_unclosed:
  assumes "xml_ok c r (In_case (Suc (Suc (Suc k))))" "report_all (\<lambda>x e r. Some (xml_event c x e r)) elapsed
      [AssertionEnded a ms t, SectionEnded si n m, TestCaseEnded tn cls d b, TestGroupEnded g t' 1 1 b', TestRunEnded rn t'' b''] r = Some (Inr r')"
  shows "m_tags (m_xml r') \<noteq> []"
proof -
  obtain r1 r2 r3 r4 where s: "xml_event c (elapsed 4) (AssertionEnded a ms t) r = Inr r1"
    "xml_event c (elapsed 3) (SectionEnded si n m) r1 = Inr r2" "xml_event c (elapsed 2) (TestCaseEnded tn cls d b) r2 = Inr r3"
    "xml_event c (elapsed 1) (TestGroupEnded g t' 1 1 b') r3 = Inr r4"
    "xml_event c (elapsed 0) (TestRunEnded rn t'' b'') r4 = Inr r'"
    using assms(2) by (auto simp: eval_nat_numeral split: sum.splits)
  have "xml_ok c r1 (In_case (Suc (Suc (Suc k))))"
    using xml_event_ok [OF assms(1), of "AssertionEnded a ms t" _ "elapsed 4"] s(1) by auto
  then have "xml_ok c r2 (In_case (Suc (Suc k)))"
    using xml_event_ok [of c r1 _ "SectionEnded si n m" _ "elapsed 3"] s(2) by auto
  then have "m_tags (m_xml r2) = [''Catch'', ''Group'', ''TestCase''] @ replicate (Suc k) ''Section''"
    by (simp add: xml_ok_def)
  then have "length (m_tags (m_xml r')) = Suc k"
    by (simp add: end_event_tags(1) [OF s(3)] end_event_tags(2) [OF s(4)] end_event_tags(3) [OF s(5)])
  then show ?thesis by auto
qed

end
