(* ===== verification/Catch_Junit.thy ===== *)
theory Catch_Junit
  imports Catch_Xml "HOL-Library.Multiset"
begin

text \<open>
  The JUnit reporter (\<open>CumulativeReporterBase\<close> and \<open>JunitReporter\<close> in \<open>include/catch.h\<close>): the tree of
  sections in which the results of a test are gathered, and the document that is written from it
  at the end of a group. A pointer to a section is its path in the tree of the test. What a test
  prints and how long it takes comes with the events.
\<close>

section \<open>The tree of sections\<close>

record section_stats =
  ss_info :: section_info
  ss_counts :: counts
  ss_duration :: string
  ss_missing :: bool

record assertion_stats =
  as_result :: assertion_result
  as_messages :: "message_info list"
  as_totals :: totals

datatype section_node =
  Section_node (n_stats: section_stats) (n_assertions: "assertion_stats list") (n_out: string) (n_err: string)
    (n_children: "section_node list")

definition newSectionNode :: "section_info \<Rightarrow> section_node" where
  "newSectionNode si =
     Section_node \<lparr>ss_info = si, ss_counts = no_counts, ss_duration = ''0.0'', ss_missing = False\<rparr> [] [] [] []"

text \<open>Sections are the same when they are at the same position.\<close>

definition by_section_info :: "section_info \<Rightarrow> section_node \<Rightarrow> bool" where
  "by_section_info other n \<longleftrightarrow> si_lineInfo (ss_info (n_stats n)) = si_lineInfo other"

type_synonym node_path = "nat list"

fun node_at :: "node_path \<Rightarrow> section_node \<Rightarrow> section_node option" where
  "node_at [] n = Some n"
| "node_at (i # p) n = (if i < length (n_children n) then node_at p (n_children n ! i) else None)"

fun update_at :: "node_path \<Rightarrow> (section_node \<Rightarrow> section_node) \<Rightarrow> section_node \<Rightarrow> section_node" where
  "update_at [] f n = f n"
| "update_at (i # p) f (Section_node st as out err cs) =
     Section_node st as out err (if i < length cs then cs[i := update_at p f (cs ! i)] else cs)"

fun add_child :: "section_node \<Rightarrow> section_node \<Rightarrow> section_node" where
  "add_child c (Section_node st as out err cs) = Section_node st as out err (cs @ [c])"

fun add_assertion :: "assertion_stats \<Rightarrow> section_node \<Rightarrow> section_node" where
  "add_assertion a (Section_node st as out err cs) = Section_node st (as @ [a]) out err cs"

fun set_stats :: "section_stats \<Rightarrow> section_node \<Rightarrow> section_node" where
  "set_stats st' (Section_node st as out err cs) = Section_node st' as out err cs"

fun set_output :: "string \<Rightarrow> string \<Rightarrow> section_node \<Rightarrow> section_node" where
  "set_output out' err' (Section_node st as out err cs) = Section_node st as out' err' cs"

section \<open>Gathering the results\<close>

record test_case_node =
  tn_name :: string
  tn_class :: string
  tn_totals :: totals
  tn_children :: "section_node option list"

record test_group_node =
  gn_name :: string
  gn_totals :: totals
  gn_children :: "test_case_node list"

record test_run_node =
  rn_name :: string
  rn_totals :: totals
  rn_children :: "test_group_node list"

record cumulative_base =
  m_testCases :: "test_case_node list"
  m_testGroups :: "test_group_node list"
  m_testRuns :: "test_run_node list"
  m_rootSection :: "section_node option"
  m_deepestSection :: "node_path option"
  cb_sectionStack :: "node_path list"

definition newCumulativeBase :: cumulative_base where
  "newCumulativeBase = \<lparr>m_testCases = [], m_testGroups = [], m_testRuns = [], m_rootSection = None,
     m_deepestSection = None, cb_sectionStack = []\<rparr>"

record extras =
  x_time :: string
  x_out :: string
  x_err :: string

text \<open>Changing the section a pointer of the stack points to.\<close>

definition on_node :: "node_path \<Rightarrow> (section_node \<Rightarrow> section_node) \<Rightarrow> cumulative_base \<Rightarrow> cumulative_base res" where
  "on_node p f b =
     (case m_rootSection b of
        None \<Rightarrow> Inl (Undefined Null_deref)
      | Some n \<Rightarrow> if node_at p n = None then Inl (Undefined Null_deref)
                  else Inr (b\<lparr>m_rootSection := Some (update_at p f n)\<rparr>))"

text \<open>Where a section goes: the path, and the state with a node for it if there was none.\<close>

definition section_place :: "section_info \<Rightarrow> cumulative_base \<Rightarrow> (node_path \<times> cumulative_base) res" where
  "section_place si b =
     (if cb_sectionStack b = [] then
        Inr ([], case m_rootSection b of None \<Rightarrow> b\<lparr>m_rootSection := Some (newSectionNode si)\<rparr> | Some n \<Rightarrow> b)
      else let p = last (cb_sectionStack b)
           in case Option.bind (m_rootSection b) (node_at p) of
                None \<Rightarrow> Inl (Undefined Null_deref)
              | Some parent \<Rightarrow>
                  (case find_index (by_section_info si) (n_children parent) of
                     Some i \<Rightarrow> Inr (p @ [i], b)
                   | None \<Rightarrow> bindR (on_node p (add_child (newSectionNode si)) b) (\<lambda>b1.
                       Inr (p @ [length (n_children parent)], b1))))"

fun cumulative_event :: "extras \<Rightarrow> reporter_event \<Rightarrow> cumulative_base \<Rightarrow> cumulative_base res" where
  "cumulative_event x (SectionStarting si) b =
     bindR (section_place si b) (\<lambda>(p, b1).
       Inr (b1\<lparr>cb_sectionStack := cb_sectionStack b1 @ [p], m_deepestSection := Some p\<rparr>))"
| "cumulative_event x (AssertionEnded r ms t) b =
     (if cb_sectionStack b = [] then Inl Terminated
      else on_node (last (cb_sectionStack b)) (add_assertion \<lparr>as_result = r, as_messages = ms, as_totals = t\<rparr>) b)"
| "cumulative_event x (SectionEnded si c missing) b =
     (if cb_sectionStack b = [] then Inl Terminated
      else bindR (on_node (last (cb_sectionStack b))
             (set_stats \<lparr>ss_info = si, ss_counts = c, ss_duration = x_time x, ss_missing = missing\<rparr>) b) (\<lambda>b1.
           Inr (b1\<lparr>cb_sectionStack := butlast (cb_sectionStack b1)\<rparr>)))"
| "cumulative_event x (TestCaseEnded n cls t a) b =
     (if cb_sectionStack b \<noteq> [] then Inl Terminated
      else case m_deepestSection b of
             None \<Rightarrow> Inl Terminated
           | Some p \<Rightarrow> Inr (b\<lparr>m_testCases := m_testCases b @ [\<lparr>tn_name = n, tn_class = cls, tn_totals = t,
                 tn_children = [map_option (update_at p (set_output (x_out x) (x_err x))) (m_rootSection b)]\<rparr>],
               m_rootSection := None\<rparr>))"
| "cumulative_event x (TestGroupEnded n t i k a) b =
     Inr (b\<lparr>m_testGroups := m_testGroups b @ [\<lparr>gn_name = n, gn_totals = t, gn_children = m_testCases b\<rparr>], m_testCases := []\<rparr>)"
| "cumulative_event x (TestRunEnded n t a) b =
     Inr (b\<lparr>m_testRuns := m_testRuns b @ [\<lparr>rn_name = n, rn_totals = t, rn_children = m_testGroups b\<rparr>], m_testGroups := []\<rparr>)"
| "cumulative_event x e b = Inr b"

section \<open>Writing the document\<close>

definition junit_element :: "result_was \<Rightarrow> string" where
  "junit_element t =
     (if t \<in> {ThrewException, FatalErrorCondition} then ''error''
      else if t \<in> {ExplicitFailure, ExpressionFailed, DidntThrowException} then ''failure'' else ''internalError'')"

definition junit_text :: "assertion_stats \<Rightarrow> string" where
  "junit_text a =
     (let m = message (m_resultData (as_result a))
      in (if m \<noteq> [] then m @ endl else [])
         @ concat (map (\<lambda>i. if mi_type i = Info then mi_message i @ endl else []) (as_messages a))
         @ ''at '' @ show_source_line (ai_lineInfo (m_info (as_result a))))"

definition writeAssertion :: "assertion_stats \<Rightarrow> xml_writer \<Rightarrow> xml_writer res" where
  "writeAssertion a w =
     (let r = as_result a
      in if result_isOk r then Inr w
         else scopedElement (junit_element (getResultType r))
                (\<lambda>v. writeText (junit_text a) False
                  (writeAttribute ''type'' (macroName (m_info r)) (writeAttribute ''message'' (getExpandedExpression r) v))) w)"

fun writeAssertions :: "assertion_stats list \<Rightarrow> xml_writer \<Rightarrow> xml_writer res" where
  "writeAssertions [] w = Inr w"
| "writeAssertions (a # as) w = bindR (writeAssertion a w) (writeAssertions as)"

definition write_output :: "string \<Rightarrow> string \<Rightarrow> xml_writer \<Rightarrow> xml_writer res" where
  "write_output n out w = scopedElement n (writeText (trim out) False) w"

definition write_testcase ::
  "string \<Rightarrow> string \<Rightarrow> string \<Rightarrow> assertion_stats list \<Rightarrow> string \<Rightarrow> string \<Rightarrow> xml_writer \<Rightarrow> xml_writer res" where
  "write_testcase cls name time as out err w =
     (let w1 = writeAttribute ''time'' time
            (writeAttribute ''name'' (if cls = [] then ''root'' else name)
              (writeAttribute ''classname'' (if cls = [] then name else cls) (startElement ''testcase'' w)))
      in bindR (writeAssertions as w1) (\<lambda>w2.
         bindR (if out \<noteq> [] then write_output ''system-out'' out w2 else Inr w2) (\<lambda>w3.
         bindR (if err \<noteq> [] then write_output ''system-err'' err w3 else Inr w3) endElement)))"

fun writeSection :: "string \<Rightarrow> string \<Rightarrow> section_node \<Rightarrow> xml_writer \<Rightarrow> xml_writer res"
  and writeSections :: "string \<Rightarrow> string \<Rightarrow> section_node list \<Rightarrow> xml_writer \<Rightarrow> xml_writer res" where
  "writeSection cls root (Section_node st as out err cs) w =
     (let own = trim (si_name (ss_info st));
          name = (if root \<noteq> [] then root @ ''/'' @ own else own)
      in bindR (if as \<noteq> [] \<or> out \<noteq> [] \<or> err \<noteq> [] then write_testcase cls name (ss_duration st) as out err w else Inr w) (\<lambda>w1.
           if cls = [] then writeSections name [] cs w1 else writeSections cls name cs w1))"
| "writeSections cls root [] w = Inr w"
| "writeSections cls root (n # ns) w = bindR (writeSection cls root n w) (writeSections cls root ns)"

definition writeTestCase :: "test_case_node \<Rightarrow> xml_writer \<Rightarrow> xml_writer res" where
  "writeTestCase tn w =
     (case tn_children tn of
        [Some n] \<Rightarrow> writeSection (if tn_class tn = [] \<and> n_children n = [] then ''global'' else tn_class tn) [] n w
      | [None] \<Rightarrow> Inl (Undefined Null_deref)
      | _ \<Rightarrow> Inl Terminated)"

fun writeTestCases :: "test_case_node list \<Rightarrow> xml_writer \<Rightarrow> xml_writer res" where
  "writeTestCases [] w = Inr w"
| "writeTestCases (n # ns) w = bindR (writeTestCase n w) (writeTestCases ns)"

record junit_reporter =
  j_base :: cumulative_base
  j_xml :: xml_writer
  stdOutForSuite :: string
  stdErrForSuite :: string
  unexpectedExceptions :: "32 word"

definition newJunitReporter :: "config \<Rightarrow> (stream_kind \<Rightarrow> string) \<Rightarrow> junit_reporter" where
  "newJunitReporter c ss = \<lparr>j_base = newCumulativeBase, j_xml = newXmlWriter (cfg_stream c) ss, stdOutForSuite = [],
     stdErrForSuite = [], unexpectedExceptions = 0\<rparr>"

text \<open>The failures that are not errors, a difference of two unsigned numbers.\<close>

definition junit_failures :: "totals \<Rightarrow> 32 word \<Rightarrow> count" where
  "junit_failures t errors = failed (assertions t) - ucast errors"

definition group_attributes :: "config \<Rightarrow> string \<Rightarrow> test_group_node \<Rightarrow> junit_reporter \<Rightarrow> xml_writer \<Rightarrow> xml_writer" where
  "group_attributes c time g r w =
     writeAttribute ''timestamp'' ''tbd''
       (writeAttribute ''time'' (if cfg_showDurations (cfg_data c) = Never then [] else time)
         (writeAttribute ''hostname'' ''tbd''
           (writeAttribute_nat ''tests'' (unat (total (assertions (gn_totals g))))
             (writeAttribute_nat ''failures'' (unat (junit_failures (gn_totals g) (unexpectedExceptions r)))
               (writeAttribute_nat ''errors'' (unat (unexpectedExceptions r)) (writeAttribute ''name'' (gn_name g) w))))))"

definition writeGroup :: "config \<Rightarrow> string \<Rightarrow> test_group_node \<Rightarrow> junit_reporter \<Rightarrow> xml_writer \<Rightarrow> xml_writer res" where
  "writeGroup c time g r w =
     bindR (writeTestCases (gn_children g) (group_attributes c time g r (startElement ''testsuite'' w))) (\<lambda>w1.
     bindR (write_output ''system-out'' (stdOutForSuite r) w1) (\<lambda>w2.
     bindR (write_output ''system-err'' (stdErrForSuite r) w2) endElement))"

text \<open>What is done before the results are gathered, and after it.\<close>

fun junit_before :: "extras \<Rightarrow> reporter_event \<Rightarrow> junit_reporter \<Rightarrow> junit_reporter" where
  "junit_before x (TestGroupStarting n i k) r = r\<lparr>stdOutForSuite := [], stdErrForSuite := [], unexpectedExceptions := 0\<rparr>"
| "junit_before x (AssertionEnded res ms t) r =
     (if getResultType res = ThrewException then r\<lparr>unexpectedExceptions := unexpectedExceptions r + 1\<rparr> else r)"
| "junit_before x (TestCaseEnded n cls t a) r =
     r\<lparr>stdOutForSuite := stdOutForSuite r @ x_out x, stdErrForSuite := stdErrForSuite r @ x_err x\<rparr>"
| "junit_before x e r = r"

fun junit_after :: "config \<Rightarrow> extras \<Rightarrow> reporter_event \<Rightarrow> junit_reporter \<Rightarrow> junit_reporter res" where
  "junit_after c x (TestRunStarting n) r = Inr (r\<lparr>j_xml := startElement ''testsuites'' (j_xml r)\<rparr>)"
| "junit_after c x (TestGroupEnded n t i k a) r =
     bindR (writeGroup c (x_time x) (last (m_testGroups (j_base r))) r (j_xml r)) (\<lambda>w. Inr (r\<lparr>j_xml := w\<rparr>))"
| "junit_after c x (TestRunEnded n t a) r = bindR (endElement (j_xml r)) (\<lambda>w. Inr (r\<lparr>j_xml := w\<rparr>))"
| "junit_after c x e r = Inr r"

definition junit_event :: "config \<Rightarrow> extras \<Rightarrow> reporter_event \<Rightarrow> junit_reporter \<Rightarrow> junit_reporter res" where
  "junit_event c x e r0 =
     (let r = junit_before x e r0
      in bindR (cumulative_event x e (j_base r)) (\<lambda>b. junit_after c x e (r\<lparr>j_base := b\<rparr>)))"

section \<open>Paths stay valid\<close>

abbreviation valid_path :: "node_path \<Rightarrow> section_node \<Rightarrow> bool" where
  "valid_path p n \<equiv> node_at p n \<noteq> None"

text \<open>A change that leaves the children where they are.\<close>

definition grows :: "(section_node \<Rightarrow> section_node) \<Rightarrow> bool" where
  "grows f \<longleftrightarrow> (\<forall>n. \<exists>new. n_children (f n) = n_children n @ new)"

lemma growing: "grows (add_child c)" "grows (add_assertion a)" "grows (set_stats st)" "grows (set_output out err)"
proof -
  have "\<exists>new. n_children (add_child c n) = n_children n @ new" for n by (cases n) simp
  then show "grows (add_child c)" by (simp add: grows_def)
  have "n_children (add_assertion a n) = n_children n" for n by (cases n) simp
  then show "grows (add_assertion a)" by (simp add: grows_def)
  have "n_children (set_stats st n) = n_children n" for n by (cases n) simp
  then show "grows (set_stats st)" by (simp add: grows_def)
  have "n_children (set_output out err n) = n_children n" for n by (cases n) simp
  then show "grows (set_output out err)" by (simp add: grows_def)
qed

lemma valid_path_grown:
  assumes "n_children n' = n_children n @ new" "valid_path q n"
  shows "valid_path q n'"
proof (cases q)
  case (Cons i p)
  then show ?thesis using assms by (simp add: nth_append split: if_splits)
qed simp

lemma valid_path_update: "grows f \<Longrightarrow> valid_path q n \<Longrightarrow> valid_path q (update_at p f n)"
proof (induction p arbitrary: q n)
  case Nil
  then show ?case using valid_path_grown by (simp add: grows_def) metis
next
  case (Cons i p)
  obtain st as out err cs where n: "n = Section_node st as out err cs" by (cases n)
  show ?case
  proof (cases q)
    case q: (Cons j q')
    then show ?thesis using Cons n by (cases "i = j") (auto split: if_splits)
  qed simp
qed

lemma node_at_append: "node_at (p @ q) n = Option.bind (node_at p n) (node_at q)"
  by (induction p arbitrary: n) auto

lemma node_at_update: "node_at p n = Some m \<Longrightarrow> node_at (p @ q) (update_at p f n) = node_at q (f m)"
proof (induction p arbitrary: n)
  case (Cons i p)
  obtain st as out err cs where n: "n = Section_node st as out err cs" by (cases n)
  then show ?case using Cons by (auto split: if_splits)
qed simp

section \<open>The results that were gathered\<close>

fun node_results :: "section_node \<Rightarrow> assertion_stats multiset" where
  "node_results (Section_node st as out err cs) = mset as + sum_list (map node_results cs)"

definition case_results :: "test_case_node \<Rightarrow> assertion_stats multiset" where
  "case_results tn = sum_list (map (case_option {#} node_results) (tn_children tn))"

definition group_results :: "test_group_node \<Rightarrow> assertion_stats multiset" where
  "group_results gn = sum_list (map case_results (gn_children gn))"

definition run_results :: "test_run_node \<Rightarrow> assertion_stats multiset" where
  "run_results rn = sum_list (map group_results (rn_children rn))"

definition gathered :: "cumulative_base \<Rightarrow> assertion_stats multiset" where
  "gathered b = case_option {#} node_results (m_rootSection b) + sum_list (map case_results (m_testCases b))
     + sum_list (map group_results (m_testGroups b)) + sum_list (map run_results (m_testRuns b))"

fun reported :: "reporter_event \<Rightarrow> assertion_stats multiset" where
  "reported (AssertionEnded r ms t) = {#\<lparr>as_result = r, as_messages = ms, as_totals = t\<rparr>#}"
| "reported e = {#}"

text \<open>A change that adds some results to a section adds them to the tree.\<close>

definition adds :: "assertion_stats multiset \<Rightarrow> (section_node \<Rightarrow> section_node) \<Rightarrow> bool" where
  "adds A f \<longleftrightarrow> (\<forall>n. node_results (f n) = node_results n + A)"

lemma adding:
  "adds {#} (add_child (newSectionNode si))" "adds {#a#} (add_assertion a)" "adds {#} (set_stats st)" "adds {#} (set_output out err)"
proof -
  have "node_results (add_child (newSectionNode si) n) = node_results n" for n by (cases n) (simp add: newSectionNode_def)
  then show "adds {#} (add_child (newSectionNode si))" by (simp add: adds_def)
  have "node_results (add_assertion a n) = node_results n + {#a#}" for n by (cases n) simp
  then show "adds {#a#} (add_assertion a)" by (simp add: adds_def)
  have "node_results (set_stats st n) = node_results n" for n by (cases n) simp
  then show "adds {#} (set_stats st)" by (simp add: adds_def)
  have "node_results (set_output out err n) = node_results n" for n by (cases n) simp
  then show "adds {#} (set_output out err)" by (simp add: adds_def)
qed

lemma sum_list_changed:
  "i < length cs \<Longrightarrow> g c = g (cs ! i) + (A :: 'b multiset) \<Longrightarrow> sum_list (map g (cs[i := c])) = sum_list (map g cs) + A"
proof (induction cs arbitrary: i)
  case (Cons c' cs)
  then show ?case by (cases i) (auto simp: ac_simps)
qed simp

lemma results_update: "adds A f \<Longrightarrow> valid_path p n \<Longrightarrow> node_results (update_at p f n) = node_results n + A"
proof (induction p arbitrary: n)
  case Nil
  then show ?case by (simp add: adds_def)
next
  case (Cons i p)
  obtain st as out err cs where n: "n = Section_node st as out err cs" by (cases n)
  then have i: "i < length cs" "valid_path p (cs ! i)" using Cons.prems(2) by (auto split: if_splits)
  then show ?case using Cons.IH [OF Cons.prems(1) i(2)] n
    by (simp add: sum_list_changed add.assoc)
qed

section \<open>The base takes every event\<close>

text \<open>In a test, what the pointers of the stack point to is there; the tests that ended have their sections.\<close>

definition stack_ok :: "cumulative_base \<Rightarrow> nesting \<Rightarrow> bool" where
  "stack_ok b p \<longleftrightarrow> length (cb_sectionStack b) = sections_open p
     \<and> (case p of
          In_case k \<Rightarrow> (\<exists>n q. m_rootSection b = Some n \<and> m_deepestSection b = Some q \<and> valid_path q n
             \<and> (\<forall>q\<in>set (cb_sectionStack b). valid_path q n))
        | _ \<Rightarrow> m_rootSection b = None)"

definition case_ok :: "test_case_node \<Rightarrow> bool" where
  "case_ok tn \<longleftrightarrow> (\<exists>n. tn_children tn = [Some n])"

definition cumulative_ok :: "cumulative_base \<Rightarrow> nesting \<Rightarrow> bool" where
  "cumulative_ok b p \<longleftrightarrow> stack_ok b p \<and> list_all case_ok (m_testCases b)
     \<and> (p \<in> {Outside, In_run} \<longrightarrow> m_testCases b = []) \<and> (p = Outside \<longrightarrow> m_testGroups b = [])"

lemma on_node_ok:
  assumes "m_rootSection b = Some n" "valid_path p n" "grows f" "adds A f"
  obtains n' where "on_node p f b = Inr (b\<lparr>m_rootSection := Some n'\<rparr>)" "\<forall>q. valid_path q n \<longrightarrow> valid_path q n'"
    "node_results n' = node_results n + A" "n' = update_at p f n"
  using assms valid_path_update [OF assms(3)] results_update [OF assms(4,2)] by (simp add: on_node_def)

lemma same_root: "m_rootSection b = Some n \<Longrightarrow> b\<lparr>m_rootSection := Some n\<rparr> = b"
  by (cases b) simp

lemma gathered_root:
  "gathered (b\<lparr>m_rootSection := Some n'\<rparr>) = gathered (b\<lparr>m_rootSection := None\<rparr>) + node_results n'"
  "m_rootSection b = Some n \<Longrightarrow> gathered b = gathered (b\<lparr>m_rootSection := None\<rparr>) + node_results n"
  by (simp_all add: gathered_def)

lemma gathered_stack [simp]:
  "gathered (b\<lparr>cb_sectionStack := st\<rparr>) = gathered b" "gathered (b\<lparr>m_deepestSection := d\<rparr>) = gathered b"
  by (simp_all add: gathered_def)

lemma section_place_ok:
  assumes "stack_ok b p" "nest (SectionStarting si) p = Some p'"
  shows "\<exists>q n. section_place si b = Inr (q, b\<lparr>m_rootSection := Some n\<rparr>) \<and> valid_path q n
    \<and> (\<forall>q\<in>set (cb_sectionStack b). valid_path q n) \<and> gathered (b\<lparr>m_rootSection := Some n\<rparr>) = gathered b"
proof (cases "cb_sectionStack b = []")
  case True
  show ?thesis
  proof (cases "m_rootSection b")
    case None
    have "node_results (newSectionNode si) = {#}" by (simp add: newSectionNode_def)
    then show ?thesis using True None
      by (intro exI [of _ "[]"] exI [of _ "newSectionNode si"]) (simp add: section_place_def gathered_def)
  next
    case (Some n)
    show ?thesis using True Some
      by (intro exI [of _ "[]"] exI [of _ n]) (simp add: section_place_def same_root [OF Some])
  qed
next
  case False
  let ?q = "last (cb_sectionStack b)"
  obtain n where n: "m_rootSection b = Some n" "\<forall>q\<in>set (cb_sectionStack b). valid_path q n"
    using assms False by (auto simp: stack_ok_def split: nesting.splits)
  then have q: "valid_path ?q n" using False by simp
  then obtain parent where parent: "node_at ?q n = Some parent" by auto
  show ?thesis
  proof (cases "find_index (by_section_info si) (n_children parent)")
    case (Some i)
    then have "valid_path (?q @ [i]) n" using parent find_index_Some by (fastforce simp: node_at_append)
    then show ?thesis using False n parent Some
      by (intro exI [of _ "?q @ [i]"] exI [of _ n]) (simp add: section_place_def same_root [OF n(1)])
  next
    case None
    obtain n' where n': "on_node ?q (add_child (newSectionNode si)) b = Inr (b\<lparr>m_rootSection := Some n'\<rparr>)"
      "\<forall>q. valid_path q n \<longrightarrow> valid_path q n'" "node_results n' = node_results n + {#}"
      "n' = update_at ?q (add_child (newSectionNode si)) n"
      by (rule on_node_ok [OF n(1) q growing(1) adding(1)])
    have "valid_path (?q @ [length (n_children parent)]) n'"
      by (cases parent) (simp add: n'(4) node_at_update [OF parent])
    moreover have "gathered (b\<lparr>m_rootSection := Some n'\<rparr>) = gathered b"
      using n'(3) gathered_root(1) [of n' b] gathered_root(2) [OF n(1)] by simp
    ultimately show ?thesis using False n parent None n'(1,2)
      by (intro exI [of _ "?q @ [length (n_children parent)]"] exI [of _ n']) (simp add: section_place_def)
  qed
qed

lemma stack_change_ok:
  assumes "stack_ok b (In_case (Suc k))" "grows f" "adds A f"
  obtains n where "on_node (last (cb_sectionStack b)) f b = Inr (b\<lparr>m_rootSection := Some n\<rparr>)"
    "stack_ok (b\<lparr>m_rootSection := Some n\<rparr>) (In_case (Suc k))" "gathered (b\<lparr>m_rootSection := Some n\<rparr>) = gathered b + A"
    "cb_sectionStack b \<noteq> []"
proof -
  have ne: "cb_sectionStack b \<noteq> []" using assms(1) by (auto simp: stack_ok_def)
  obtain n where n: "m_rootSection b = Some n" "\<forall>q\<in>set (cb_sectionStack b). valid_path q n"
    using assms(1) by (auto simp: stack_ok_def)
  then have "valid_path (last (cb_sectionStack b)) n" using ne by simp
  from on_node_ok [OF n(1) this assms(2,3)] obtain n' where
    n': "on_node (last (cb_sectionStack b)) f b = Inr (b\<lparr>m_rootSection := Some n'\<rparr>)"
    "\<forall>q. valid_path q n \<longrightarrow> valid_path q n'" "node_results n' = node_results n + A" by metis
  have "gathered (b\<lparr>m_rootSection := Some n'\<rparr>) = gathered b + A"
    using n'(3) gathered_root(1) [of n' b] gathered_root(2) [OF n(1)] by (simp add: add.assoc)
  moreover have "stack_ok (b\<lparr>m_rootSection := Some n'\<rparr>) (In_case (Suc k))"
    using assms(1) n n'(2) by (auto simp: stack_ok_def)
  ultimately show ?thesis using that n'(1) ne by blast
qed

lemma cumulative_event_ok:
  assumes "cumulative_ok b p" "nest e p = Some p'"
  shows "\<exists>b'. cumulative_event x e b = Inr b' \<and> cumulative_ok b' p' \<and> gathered b' = gathered b + reported e"
proof -
  have st: "stack_ok b p" using assms(1) by (simp add: cumulative_ok_def)
  show ?thesis
  proof (cases e)
    case (SectionStarting si)
    then obtain q n where q: "section_place si b = Inr (q, b\<lparr>m_rootSection := Some n\<rparr>)" "valid_path q n"
      "\<forall>q\<in>set (cb_sectionStack b). valid_path q n" "gathered (b\<lparr>m_rootSection := Some n\<rparr>) = gathered b"
      using section_place_ok [OF st] assms(2) by blast
    have "p' = In_case (Suc (sections_open p))" using assms(2) SectionStarting by (auto split: nesting.splits)
    then show ?thesis using SectionStarting q assms(1)
      by (auto simp: cumulative_ok_def stack_ok_def)
  next
    case (AssertionEnded r ms t)
    then obtain k where p: "p = In_case (Suc k)" "p' = p" using assms(2) by (auto split: nesting.splits nat.splits)
    from stack_change_ok [OF st [unfolded p(1)] growing(2) adding(2)]
    obtain n where n: "on_node (last (cb_sectionStack b)) (add_assertion \<lparr>as_result = r, as_messages = ms, as_totals = t\<rparr>) b
        = Inr (b\<lparr>m_rootSection := Some n\<rparr>)" "stack_ok (b\<lparr>m_rootSection := Some n\<rparr>) (In_case (Suc k))"
      "gathered (b\<lparr>m_rootSection := Some n\<rparr>) = gathered b + {#\<lparr>as_result = r, as_messages = ms, as_totals = t\<rparr>#}"
      "cb_sectionStack b \<noteq> []" by metis
    then show ?thesis using AssertionEnded p assms(1) by (simp add: cumulative_ok_def)
  next
    case (SectionEnded si c missing)
    then obtain k where p: "p = In_case (Suc k)" "p' = In_case k" using assms(2) by (auto split: nesting.splits nat.splits)
    from stack_change_ok [OF st [unfolded p(1)] growing(3) adding(3)]
    obtain n where n: "on_node (last (cb_sectionStack b))
        (set_stats \<lparr>ss_info = si, ss_counts = c, ss_duration = x_time x, ss_missing = missing\<rparr>) b
        = Inr (b\<lparr>m_rootSection := Some n\<rparr>)" "stack_ok (b\<lparr>m_rootSection := Some n\<rparr>) (In_case (Suc k))"
      "gathered (b\<lparr>m_rootSection := Some n\<rparr>) = gathered b + {#}" "cb_sectionStack b \<noteq> []" by metis
    let ?b = "b\<lparr>m_rootSection := Some n, cb_sectionStack := butlast (cb_sectionStack b)\<rparr>"
    have "stack_ok ?b (In_case k)" using n(2) by (auto simp: stack_ok_def dest: in_set_butlastD)
    then show ?thesis using SectionEnded p assms(1) n by (simp add: cumulative_ok_def)
  next
    case (TestCaseEnded nm cls t a)
    have p: "p = In_case 0" "p' = In_group" using assms(2) TestCaseEnded by (auto split: if_splits)
    obtain n q where n: "m_rootSection b = Some n" "m_deepestSection b = Some q" "valid_path q n" "cb_sectionStack b = []"
      using st p(1) by (auto simp: stack_ok_def)
    have "node_results (update_at q (set_output (x_out x) (x_err x)) n) = node_results n"
      using results_update [OF adding(4) n(3)] by simp
    then show ?thesis using TestCaseEnded p n assms(1)
      by (simp add: cumulative_ok_def stack_ok_def case_ok_def gathered_def case_results_def add_ac)
  next
    case (TestGroupEnded nm t i k a)
    then have "p = In_group" "p' = In_run" using assms(2) by (auto split: if_splits)
    then show ?thesis using assms(1) TestGroupEnded
      by (simp add: cumulative_ok_def stack_ok_def gathered_def group_results_def add_ac)
  next
    case (TestRunEnded nm t a)
    then have "p = In_run" "p' = Outside" using assms(2) by (auto split: if_splits)
    then show ?thesis using assms(1) TestRunEnded
      by (simp add: cumulative_ok_def stack_ok_def gathered_def run_results_def add_ac)
  next
    case (TestCaseStarting nm)
    then have "p = In_group" "p' = In_test" using assms(2) by (auto split: if_splits)
    then show ?thesis using assms(1) TestCaseStarting by (simp add: cumulative_ok_def stack_ok_def)
  next
    case (TestGroupStarting nm i k)
    then have "p = In_run" "p' = In_group" using assms(2) by (auto split: if_splits)
    then show ?thesis using assms(1) TestGroupStarting by (simp add: cumulative_ok_def stack_ok_def)
  next
    case (TestRunStarting nm)
    then have "p = Outside" "p' = In_run" using assms(2) by (auto split: if_splits)
    then show ?thesis using assms(1) TestRunStarting by (simp add: cumulative_ok_def stack_ok_def)
  next
    case (SkipTest nm)
    then have "p' = p" using assms(2) by (auto split: if_splits)
    then show ?thesis using assms(1) SkipTest by simp
  qed
qed

section \<open>The document is nested\<close>

lemma junit_names [simp]:
  "xml_name ''testsuites''" "xml_name ''testsuite''" "xml_name ''testcase''" "xml_name ''error''" "xml_name ''failure''"
  "xml_name ''internalError''" "xml_name ''system-out''" "xml_name ''system-err''"
  "list_all tag_char ''message''" "list_all tag_char ''classname''" "list_all tag_char ''time''" "list_all tag_char ''hostname''"
  "list_all tag_char ''timestamp''" "list_all tag_char ''errors''" "list_all tag_char ''tests''"
  by (simp_all add: xml_name_def tag_char_def quote_def)

text \<open>An element with attributes and a content that keeps what is open.\<close>

lemma balanced_within:
  assumes "xml_name n" "attribute_op f" "balanced_op g"
  shows "balanced_op (\<lambda>w. bindR (g (f (startElement n w))) endElement)"
  unfolding balanced_op_def
proof (intro allI impI)
  fix w assume ok: "writer_ok w"
  let ?w = "f (startElement n w)"
  have w: "writer_ok ?w" "m_tags ?w = m_tags w @ [n]" "m_os ?w = m_os w"
    using ok_start [OF ok assms(1)] assms(2) by (simp_all add: attribute_op_def)
  obtain w1 where "g ?w = Inr w1" "writer_ok w1" "m_tags w1 = m_tags ?w" "m_os w1 = m_os ?w"
    using assms(3) w(1) unfolding balanced_op_def by blast
  then show "\<exists>w'. bindR (g ?w) endElement = Inr w' \<and> writer_ok w' \<and> m_tags w' = m_tags w \<and> m_os w' = m_os w"
    using ok_end [of w1] w by auto
qed

lemma junit_element_name: "xml_name (junit_element t)"
  by (simp add: junit_element_def)

lemma balanced_write_assertion: "balanced_op (writeAssertion a)"
proof -
  have "attribute_op (\<lambda>v. writeAttribute ''type'' (macroName (m_info (as_result a)))
      (writeAttribute ''message'' (getExpandedExpression (as_result a)) v))"
    by (rule attribute_comp [OF attribute_write attribute_write]; simp only: names_ok junit_names)
  from balanced_element [OF junit_element_name content_comp [OF this content_text]] show ?thesis
    by (simp add: balanced_op_def writeAssertion_def Let_def)
qed

lemma balanced_write_assertions: "balanced_op (writeAssertions as)"
proof (induction as)
  case Nil
  show ?case by (simp add: balanced_op_def)
next
  case (Cons a as)
  then show ?case using balanced_bind [OF balanced_write_assertion] by (simp add: balanced_op_def)
qed

lemma balanced_output: "xml_name n \<Longrightarrow> balanced_op (write_output n out)"
  using balanced_element [OF _ content_text] by (simp add: balanced_op_def write_output_def)

lemma balanced_if: "balanced_op f \<Longrightarrow> balanced_op (\<lambda>w. if b then f w else Inr w)"
  by (simp add: balanced_op_def)

lemma balanced_testcase: "balanced_op (write_testcase cls name time as out err)"
proof -
  let ?g = "\<lambda>w. bindR (writeAssertions as w) (\<lambda>w. bindR (if out \<noteq> [] then write_output ''system-out'' out w else Inr w)
    (\<lambda>w. if err \<noteq> [] then write_output ''system-err'' err w else Inr w))"
  let ?f = "\<lambda>w. writeAttribute ''time'' time (writeAttribute ''name'' (if cls = [] then ''root'' else name)
    (writeAttribute ''classname'' (if cls = [] then name else cls) w))"
  have "balanced_op ?g"
    by (intro balanced_bind balanced_write_assertions balanced_if balanced_output) simp_all
  moreover have "attribute_op ?f"
    by (rule attribute_comp [OF attribute_comp [OF attribute_write attribute_write] attribute_write]; simp only: names_ok junit_names)
  moreover have "write_testcase cls name time as out err = (\<lambda>w. bindR (?g (?f (startElement ''testcase'' w))) endElement)"
    by (simp add: write_testcase_def Let_def bindR_assoc fun_eq_iff)
  ultimately show ?thesis using balanced_within [of "''testcase''" ?f ?g] by simp
qed

lemma balanced_sections: "\<forall>n\<in>set ns. balanced_op (writeSection cls root n) \<Longrightarrow> balanced_op (writeSections cls root ns)"
proof (induction ns)
  case Nil
  show ?case by (simp add: balanced_op_def)
next
  case (Cons n ns)
  then have "balanced_op (writeSection cls root n)" "balanced_op (writeSections cls root ns)" by simp_all
  from balanced_bind [OF this] show ?case by (simp add: balanced_op_def)
qed

lemma balanced_section: "balanced_op (writeSection cls root n)"
proof (induction n arbitrary: cls root)
  case (Section_node st as out err cs)
  let ?name = "if root \<noteq> [] then root @ ''/'' @ trim (si_name (ss_info st)) else trim (si_name (ss_info st))"
  have "balanced_op (\<lambda>w. if as \<noteq> [] \<or> out \<noteq> [] \<or> err \<noteq> [] then write_testcase cls ?name (ss_duration st) as out err w else Inr w)"
    by (rule balanced_if [OF balanced_testcase])
  moreover have "balanced_op (\<lambda>w. if cls = [] then writeSections ?name [] cs w else writeSections cls ?name cs w)"
    using balanced_sections [of cs] Section_node by (cases "cls = []") simp_all
  ultimately have "balanced_op (\<lambda>w. bindR (if as \<noteq> [] \<or> out \<noteq> [] \<or> err \<noteq> []
      then write_testcase cls ?name (ss_duration st) as out err w else Inr w)
      (\<lambda>w. if cls = [] then writeSections ?name [] cs w else writeSections cls ?name cs w))"
    by (rule balanced_bind)
  then show ?case by (simp add: balanced_op_def Let_def)
qed

lemma balanced_test_case: "case_ok tn \<Longrightarrow> balanced_op (writeTestCase tn)"
  using balanced_section by (auto simp: case_ok_def writeTestCase_def balanced_op_def)

lemma balanced_test_cases: "list_all case_ok tns \<Longrightarrow> balanced_op (writeTestCases tns)"
proof (induction tns)
  case Nil
  show ?case by (simp add: balanced_op_def)
next
  case (Cons tn tns)
  then have "balanced_op (writeTestCase tn)" "balanced_op (writeTestCases tns)" using balanced_test_case by simp_all
  from balanced_bind [OF this] show ?case by (simp add: balanced_op_def)
qed

lemma attribute_group: "attribute_op (group_attributes c time g r)"
  unfolding group_attributes_def [abs_def]
  by (rule attribute_comp [OF attribute_comp [OF attribute_comp [OF attribute_comp [OF attribute_comp [OF attribute_comp
      [OF attribute_write attribute_nat] attribute_nat] attribute_nat] attribute_write] attribute_write] attribute_write]; simp only: names_ok junit_names)

lemma balanced_group:
  assumes "list_all case_ok (gn_children g)"
  shows "balanced_op (writeGroup c time g r)"
proof -
  let ?g = "\<lambda>w. bindR (writeTestCases (gn_children g) w) (\<lambda>w. bindR (write_output ''system-out'' (stdOutForSuite r) w)
    (write_output ''system-err'' (stdErrForSuite r)))"
  have "balanced_op ?g"
    by (intro balanced_bind balanced_test_cases [OF assms] balanced_output) simp_all
  moreover have "writeGroup c time g r = (\<lambda>w. bindR (?g (group_attributes c time g r (startElement ''testsuite'' w))) endElement)"
    by (simp add: writeGroup_def bindR_assoc fun_eq_iff)
  ultimately show ?thesis using balanced_within [OF _ attribute_group, of "''testsuite''" ?g] by simp
qed

section \<open>The contract\<close>

definition junit_ok :: "config \<Rightarrow> junit_reporter \<Rightarrow> nesting \<Rightarrow> bool" where
  "junit_ok c r p \<longleftrightarrow> cumulative_ok (j_base r) p \<and> writer_ok (j_xml r)
     \<and> m_tags (j_xml r) = (if p = Outside then [] else [''testsuites'']) \<and> m_os (j_xml r) = cfg_stream c"

lemma junit_before_simps [simp]: "j_base (junit_before x e r) = j_base r" "j_xml (junit_before x e r) = j_xml r"
  by (cases e; simp)+

lemma junit_event_ok:
  assumes "junit_ok c r p" "nest e p = Some p'"
  shows "\<exists>r'. junit_event c x e r = Inr r' \<and> junit_ok c r' p' \<and> gathered (j_base r') = gathered (j_base r) + reported e"
proof -
  have ok: "cumulative_ok (j_base r) p" "writer_ok (j_xml r)" "m_os (j_xml r) = cfg_stream c"
    "m_tags (j_xml r) = (if p = Outside then [] else [''testsuites''])" using assms(1) by (simp_all add: junit_ok_def)
  obtain b where b: "cumulative_event x e (j_base r) = Inr b" "cumulative_ok b p'" "gathered b = gathered (j_base r) + reported e"
    using cumulative_event_ok [OF ok(1) assms(2)] by blast
  let ?r = "(junit_before x e r)\<lparr>j_base := b\<rparr>"
  have "\<exists>w. junit_after c x e ?r = Inr (?r\<lparr>j_xml := w\<rparr>) \<and> writer_ok w \<and> m_os w = cfg_stream c
      \<and> m_tags w = (if p' = Outside then [] else [''testsuites''])"
  proof (cases e)
    case (TestRunStarting n)
    then have "p = Outside" "p' = In_run" using assms(2) by (auto split: if_splits)
    then show ?thesis using TestRunStarting ok ok_start [OF ok(2), of "''testsuites''"] by auto
  next
    case (TestGroupEnded n t i k a)
    then have p: "p = In_group" "p' = In_run" using assms(2) by (auto split: if_splits)
    have "b = (j_base r)\<lparr>m_testGroups := m_testGroups (j_base r) @
        [\<lparr>gn_name = n, gn_totals = t, gn_children = m_testCases (j_base r)\<rparr>], m_testCases := []\<rparr>"
      using b(1) TestGroupEnded by simp
    then have "list_all case_ok (gn_children (last (m_testGroups b)))" using ok(1) by (simp add: cumulative_ok_def)
    from balanced_group [OF this, of c "x_time x" ?r] ok p
    obtain w where "writeGroup c (x_time x) (last (m_testGroups b)) ?r (j_xml r) = Inr w" "writer_ok w"
      "m_tags w = [''testsuites'']" "m_os w = cfg_stream c"
      unfolding balanced_op_def by auto
    then show ?thesis using TestGroupEnded p by (intro exI [of _ w]) simp
  next
    case (TestRunEnded n t a)
    then have p: "p = In_run" "p' = Outside" using assms(2) by (auto split: if_splits)
    then show ?thesis using TestRunEnded ok ok_end [OF ok(2)] by auto
  next
    case (SectionStarting si)
    then have "p \<noteq> Outside" "p' \<noteq> Outside" using assms(2) by (auto split: nesting.splits)
    then show ?thesis using SectionStarting ok by (intro exI [of _ "j_xml r"]) simp
  next
    case (SectionEnded si n m)
    then have "p \<noteq> Outside" "p' \<noteq> Outside" using assms(2) by (auto split: nesting.splits nat.splits)
    then show ?thesis using SectionEnded ok by (intro exI [of _ "j_xml r"]) simp
  next
    case (AssertionEnded res ms t)
    then have "p \<noteq> Outside" "p' \<noteq> Outside" using assms(2) by (auto split: nesting.splits nat.splits)
    then show ?thesis using AssertionEnded ok by (intro exI [of _ "j_xml r"]) simp
  qed (use assms(2) ok in \<open>auto intro!: exI [of _ "j_xml r"] split: if_splits\<close>)
  then show ?thesis using b by (auto simp: junit_event_def junit_ok_def Let_def)
qed

interpretation junit: streaming_reporter "\<lambda>x e r. Some (junit_event c x e r)" "\<lambda>e. True" "junit_ok c"
  using junit_event_ok by unfold_locales blast

lemma new_junit_ok: "junit_ok c (newJunitReporter c (\<lambda>k. [])) Outside"
proof -
  have d: "read_tags xml_declaration (In_text, []) = (In_text, [])"
    by (simp add: xml_declaration_def quote_def)
  have "writer_ok (newXmlWriter (cfg_stream c) (\<lambda>k. []))"
    using d by (simp add: newXmlWriter_def writer_ok_def xml_state_def put_xml_def)
  then show ?thesis
    by (simp add: junit_ok_def newJunitReporter_def newXmlWriter_def cumulative_ok_def stack_ok_def newCumulativeBase_def)
qed

lemma junit_gathers:
  "report_all (\<lambda>x e r. Some (junit_event c x e r)) x es r = Some (Inr r') \<Longrightarrow> junit_ok c r p \<Longrightarrow> nest_all es p = Some p' \<Longrightarrow>
     gathered (j_base r') = gathered (j_base r) + sum_list (map reported es)"
proof (induction es arbitrary: r p)
  case Nil
  then show ?case by simp
next
  case (Cons e es)
  obtain q where q: "nest e p = Some q" "nest_all es q = Some p'" using Cons.prems(3) by (auto simp: Option.bind_eq_Some_conv)
  obtain r1 where r1: "junit_event c (x (length es)) e r = Inr r1" "junit_ok c r1 q"
    "gathered (j_base r1) = gathered (j_base r) + reported e"
    using junit_event_ok [OF Cons.prems(2) q(1)] by blast
  then show ?case using Cons.IH [OF _ r1(2) q(2)] Cons.prems(1) by (simp add: add.assoc)
qed

text \<open>
  C34. Whatever the tests do, the JUnit reporter takes every event of a run that comes to its end.
  When it is done, the results it has gathered below the runs it has seen are exactly the results
  of the assertions that were reported, each as often as it was reported, whatever section it was
  made in; and the document it has written is nested.
\<close>

theorem junit_keeps_every_assertion:
  assumes "runTests shuffle clears c h = Some (Inr (t, rc, h'))"
  shows "\<exists>r. report_all (\<lambda>x e r. Some (junit_event c x e r)) x (rc_events rc) (newJunitReporter c (\<lambda>k. [])) = Some (Inr r)
    \<and> sum_list (map run_results (m_testRuns (j_base r))) = sum_list (map reported (rc_events rc))
    \<and> read_tags (streams (j_xml r) (cfg_stream c)) (In_text, []) = (In_text, [])"
proof -
  have n: "nest_all (rc_events rc) Outside = Some Outside" by (rule runTests_nested [OF assms])
  obtain r where r: "report_all (\<lambda>x e r. Some (junit_event c x e r)) x (rc_events rc) (newJunitReporter c (\<lambda>k. [])) = Some (Inr r)"
    "junit_ok c r Outside"
    using junit.run_is_reported [OF assms new_junit_ok] by (fastforce simp: list_all_iff)
  have "gathered (j_base r) = sum_list (map reported (rc_events rc))"
    using junit_gathers [OF r(1) new_junit_ok n] by (simp add: newJunitReporter_def newCumulativeBase_def gathered_def)
  moreover have "gathered (j_base r) = sum_list (map run_results (m_testRuns (j_base r)))"
    using r(2) by (simp add: junit_ok_def cumulative_ok_def stack_ok_def gathered_def)
  moreover have w: "writer_ok (j_xml r)" "m_tags (j_xml r) = []" "m_os (j_xml r) = cfg_stream c"
    using r(2) by (simp_all add: junit_ok_def)
  moreover have "\<not> m_tagIsOpen (j_xml r)" using w(1,2) by (auto simp: writer_ok_def in_tag_def)
  ultimately show ?thesis using r(1) closed_state [OF w(1)] by (simp add: xml_state_def)
qed

lemma junit_keeps_every_assertion_witness:
  "\<exists>t rc h' r. runTests rev (\<lambda>n r ms t. True) example_config example_hub = Some (Inr (t, rc, h'))
    \<and> report_all (\<lambda>x e r. Some (junit_event example_config x e r)) (\<lambda>n. \<lparr>x_time = ''0.5'', x_out = [], x_err = []\<rparr>)
        (rc_events rc) (newJunitReporter example_config (\<lambda>k. [])) = Some (Inr r)
    \<and> sum_list (map run_results (m_testRuns (j_base r))) = sum_list (map reported (rc_events rc))"
proof -
  have c: "cfg_data example_config = newConfigData" "\<not> warnNoAssertions newConfigData"
    "(word_of_int (abortAfter newConfigData) :: 64 word) \<noteq> 0" "runOrder newConfigData = InDeclarationOrder"
    by (simp_all add: example_config_def newConfigData_def)
  obtain t rc where run: "runTests rev (\<lambda>n r ms t. True) example_config example_hub = Some (Inr (t, rc, example_hub\<lparr>hub_tests
      := (hub_tests example_hub)\<lparr>m_sortedFunctions := [example_test]\<rparr>\<rparr>))"
    using runTests_passing [of example_hub example_config "One_reporter ''console''" rev "[example_test]"
        "(hub_tests example_hub)\<lparr>m_sortedFunctions := [example_test]\<rparr>" "\<lambda>n r ms t. True"]
      example_facts example_good c by auto
  then show ?thesis
    using junit_keeps_every_assertion [OF run(1), of "\<lambda>n. \<lparr>x_time = ''0.5'', x_out = [], x_err = []\<rparr>"] by auto
qed

section \<open>What goes wrong\<close>

text \<open>
  The failures of a test that may fail are moved to a count of their own before the group ends,
  its exceptions stay counted as errors: the difference of the two wraps.
\<close>

lemma junit_failures_wrap:
  assumes "failed (assertions t) = 0" "errors \<noteq> 0"
  shows "unat (junit_failures t errors) = 2 ^ 64 - unat errors"
proof -
  have "unat errors < 2 ^ 64" using unsigned_less [of errors, where ?'a = nat] by simp
  then have "unat (ucast errors :: count) = unat errors"
    by (simp add: unsigned_ucast_eq take_bit_nat_eq_self)
  moreover have "unat errors > 0" using assms(2) by (simp add: unat_gt_0)
  moreover have "(unat (junit_failures t errors) + unat (ucast errors :: count)) mod 2 ^ 64 = 0"
    using unat_word_ariths(1) [of "junit_failures t errors" "ucast errors"] assms(1) by (simp add: junit_failures_def)
  moreover have "unat (junit_failures t errors) < 2 ^ 64" "unat errors < 2 ^ 64"
    using unsigned_less [of "junit_failures t errors", where ?'a = nat] unsigned_less [of errors, where ?'a = nat] by simp_all
  ultimately have s: "(unat (junit_failures t errors) + unat errors) mod 2 ^ 64 = 0"
    "0 < unat (junit_failures t errors) + unat errors" "unat (junit_failures t errors) + unat errors < 2 ^ 64 * 2"
    by simp_all
  then obtain k where k: "unat (junit_failures t errors) + unat errors = 2 ^ 64 * k" by (metis mod_eq_0_iff_dvd dvd_def)
  then have "k = 1" using s(2,3) by simp
  then show ?thesis using k by simp
qed

text \<open>Two sections with different names at one position, as in a loop, are one section of the report.\<close>

lemma sections_of_a_loop_merge:
  assumes "si_lineInfo si' = si_lineInfo si" "m_rootSection b = Some root" "cb_sectionStack b = [[]]"
    "n_children root = [newSectionNode si]"
  shows "section_place si' b = Inr ([0], b)"
  using assms by (simp add: section_place_def by_section_info_def newSectionNode_def)

end
