(* ===== verification/Clara.thy ===== *)
theory Clara
  imports Catch_Session "HOL-Library.AList"
begin

text \<open>
  The command line library inside the test framework (\<open>namespace Clara\<close> in \<open>include/catch.h\<close>): values
  read from strings, the reader that cuts arguments into tokens, the options of a command line, the
  usage text, and how tokens change a configuration. The configuration is any type \<open>'c\<close>.

  Code that changes a state and may throw yields the state it leaves and a result.
\<close>

section \<open>State and failure\<close>

type_synonym ('s, 'a) action = "'s \<Rightarrow> 's \<times> 'a res"

definition returnS :: "'a \<Rightarrow> ('s, 'a) action" where
  "returnS x s = (s, Inr x)"

definition failS :: "failure \<Rightarrow> ('s, 'a) action" where
  "failS f s = (s, Inl f)"

definition bindS :: "('s, 'a) action \<Rightarrow> ('a \<Rightarrow> ('s, 'b) action) \<Rightarrow> ('s, 'b) action" where
  "bindS m k s = (case m s of (s', Inl f) \<Rightarrow> (s', Inl f) | (s', Inr x) \<Rightarrow> k x s')"

definition liftS :: "'a res \<Rightarrow> ('s, 'a) action" where
  "liftS r s = (s, r)"

definition putS :: "('s \<Rightarrow> 's) \<Rightarrow> ('s, unit) action" where
  "putS g s = (g s, Inr ())"

lemma bindS_cong [fundef_cong]:
  "s = s' \<Longrightarrow> m s' = m' s' \<Longrightarrow> (\<And>x t. m' s' = (t, Inr x) \<Longrightarrow> k x t = k' x t) \<Longrightarrow> bindS m k s = bindS m' k' s'"
  by (auto simp: bindS_def split: prod.split sum.split)

lemma action_simps [simp]:
  "bindS (returnS x) k1 = k1 x" "bindS (failS f) k2 = failS f" "bindS (putS g) k3 s = k3 () (g s)"
  "bindS (liftS (Inr y)) k4 = k4 y" "bindS (liftS (Inl f')) k5 = failS f'"
  by (auto simp: bindS_def returnS_def failS_def putS_def liftS_def)

lemma action_cases:
  assumes "m s = (s', r)"
  shows "bindS m k s = (case r of Inl f \<Rightarrow> (s', Inl f) | Inr x \<Rightarrow> k x s')"
  using assms by (simp add: bindS_def split: sum.split)

lemma bindS_assoc: "bindS (bindS m k) l = bindS m (\<lambda>x. bindS (k x) l)"
  by (auto simp: bindS_def fun_eq_iff split: prod.split sum.split)

section \<open>Values of strings\<close>

text \<open>
  Numbers read by \<open>operator>>\<close>: after white space, a sign and decimal digits; what follows is not
  looked at. Without digits, or when the value does not fit, the stream fails. An unsigned
  number may have a minus sign; it is then taken modulo \<open>2 ^ 32\<close>. Each reader yields the value stored
  and whether it succeeded.
\<close>

definition read_number :: "string \<Rightarrow> bool \<times> string" where
  "read_number s = (let (neg, t) = strip_sign (dropWhile is_space s) in (neg, takeWhile is_digit t))"

definition extract_int :: "string \<Rightarrow> int \<times> bool" where
  "extract_int s =
     (let (neg, ds) = read_number s; v = (if neg then - int (read_dec ds) else int (read_dec ds))
      in if ds = [] then (0, False)
         else if int_in_range v then (v, True)
         else (if neg then - (2 ^ 31) else 2 ^ 31 - 1, False))"

definition extract_unsigned :: "string \<Rightarrow> nat \<times> bool" where
  "extract_unsigned s =
     (let (neg, ds) = read_number s; n = read_dec ds
      in if ds = [] then (0, False)
         else if 2 ^ 32 \<le> n then (2 ^ 32 - 1, False)
         else (if neg then (2 ^ 32 - n) mod 2 ^ 32 else n, True))"

definition squoted :: "string \<Rightarrow> string" where
  "squoted s = [CHR 0x27] @ s @ [CHR 0x27]"

definition convertInto_int :: "string \<Rightarrow> int res" where
  "convertInto_int s =
     (case extract_int s of
        (v, True) \<Rightarrow> Inr v
      | (v, False) \<Rightarrow> Inl (Throws (Exn (''Unable to convert '' @ s @ '' to destination type''))))"

definition convertInto_string :: "string \<Rightarrow> string res" where
  "convertInto_string s = Inr s"

definition convertInto_bool :: "string \<Rightarrow> bool res" where
  "convertInto_bool s =
     (let t = toLower s
      in if t \<in> set [''y'', ''1'', ''true'', ''yes'', ''on''] then Inr True
         else if t \<in> set [''n'', ''0'', ''false'', ''no'', ''off''] then Inr False
         else Inl (Throws (Exn (''Expected a boolean value but did not recognise:'' @ [newline] @ ''  '' @ squoted s))))"

section \<open>Bound functions\<close>

text \<open>
  An \<open>IArgFunction\<close>: what a string does to the configuration, and whether an argument is wanted. A
  \<open>BoundArgFunction\<close> is one or null. A member of the configuration is given by its update.
\<close>

record 'c arg_function =
  fn_set :: "string \<Rightarrow> ('c, unit) action"
  fn_takesArg :: bool

definition nullBinder :: "'c arg_function" where
  "nullBinder = \<lparr>fn_set = (\<lambda>s. returnS ()), fn_takesArg = True\<rparr>"

definition boundStringMember :: "((string \<Rightarrow> string) \<Rightarrow> 'c \<Rightarrow> 'c) \<Rightarrow> 'c arg_function" where
  "boundStringMember upd =
     \<lparr>fn_set = (\<lambda>s. bindS (liftS (convertInto_string s)) (\<lambda>v. putS (upd (\<lambda>_. v)))), fn_takesArg = True\<rparr>"

definition boundBoolMember :: "((bool \<Rightarrow> bool) \<Rightarrow> 'c \<Rightarrow> 'c) \<Rightarrow> 'c arg_function" where
  "boundBoolMember upd =
     \<lparr>fn_set = (\<lambda>s. bindS (liftS (convertInto_bool s)) (\<lambda>v. putS (upd (\<lambda>_. v)))), fn_takesArg = False\<rparr>"

definition boundUnaryFunction :: "('c, unit) action \<Rightarrow> 'c arg_function" where
  "boundUnaryFunction f =
     \<lparr>fn_set = (\<lambda>s. bindS (liftS (convertInto_bool s)) (\<lambda>v. if v then f else returnS ())), fn_takesArg = False\<rparr>"

text \<open>Methods of the configuration are bound in the same way as functions on it.\<close>

definition boundUnaryMethod :: "(string \<Rightarrow> 't res) \<Rightarrow> bool \<Rightarrow> ('t \<Rightarrow> ('c, unit) action) \<Rightarrow> 'c arg_function" where
  "boundUnaryMethod conv is_bool f =
     \<lparr>fn_set = (\<lambda>s. bindS (liftS (conv s)) f), fn_takesArg = \<not> is_bool\<rparr>"

definition boundNullaryMethod :: "('c, unit) action \<Rightarrow> 'c arg_function" where
  "boundNullaryMethod f =
     \<lparr>fn_set = (\<lambda>s. bindS (liftS (convertInto_bool s)) (\<lambda>v. if v then f else returnS ())), fn_takesArg = False\<rparr>"

text \<open>The second parameter is a string, an \<open>int\<close> or a \<open>bool\<close>; only the last wants no argument.\<close>

definition boundBinaryFunction :: "(string \<Rightarrow> 't res) \<Rightarrow> bool \<Rightarrow> ('t \<Rightarrow> ('c, unit) action) \<Rightarrow> 'c arg_function" where
  "boundBinaryFunction conv is_bool f =
     \<lparr>fn_set = (\<lambda>s. bindS (liftS (conv s)) f), fn_takesArg = \<not> is_bool\<rparr>"

definition bound_set :: "'c arg_function option \<Rightarrow> string \<Rightarrow> ('c, unit) action" where
  "bound_set b s = (case b of None \<Rightarrow> failS (Undefined Null_deref) | Some f \<Rightarrow> fn_set f s)"

definition bound_isSet :: "'c arg_function option \<Rightarrow> bool" where
  "bound_isSet b \<longleftrightarrow> b \<noteq> None"

section \<open>Tokens\<close>

datatype token_type = Positional | ShortOpt | LongOpt

record token =
  token_type :: token_type
  token_data :: string

definition Token :: "token_type \<Rightarrow> string \<Rightarrow> token" where
  "Token t d = \<lparr>token_type = t, token_data = d\<rparr>"

text \<open>The mode, the place a name starts at, and the quotes belong to the reader, not to the argument it is in.\<close>

datatype mode = In_none | Maybe_short | In_slash | In_short | In_long | In_positional

record parser =
  arg_mode :: mode
  arg_from :: nat
  arg_inQuotes :: bool

definition newParser :: parser where
  "newParser = \<lparr>arg_mode = In_none, arg_from = 0, arg_inQuotes = False\<rparr>"

definition substr :: "string \<Rightarrow> nat \<Rightarrow> nat \<Rightarrow> string res" where
  "substr s pos n =
     (if pos \<le> length s then Inr (take n (drop pos s))
      else Inl (Throws (Exn (''basic_string::substr: __pos (which is '' @ dec pos @ '') > this->size() (which is ''
                             @ dec (length s) @ '')''))))"

definition handleNone :: "nat \<Rightarrow> char \<Rightarrow> parser \<Rightarrow> parser" where
  "handleNone i c p =
     (if arg_inQuotes p then p\<lparr>arg_from := i, arg_mode := In_positional\<rparr>
      else if c = CHR ''-'' then p\<lparr>arg_mode := Maybe_short\<rparr>
      else p\<lparr>arg_from := i, arg_mode := In_positional\<rparr>)"

definition handleMaybeShortOpt :: "nat \<Rightarrow> char \<Rightarrow> parser \<Rightarrow> parser" where
  "handleMaybeShortOpt i c p =
     (if c = CHR ''-'' then p\<lparr>arg_from := i + 1, arg_mode := In_long\<rparr> else p\<lparr>arg_from := i, arg_mode := In_short\<rparr>)"

definition opt_tokens :: "mode \<Rightarrow> string \<Rightarrow> token list" where
  "opt_tokens m optName =
     (if m = In_short then map (\<lambda>c. Token ShortOpt [c]) optName
      else if m = In_slash \<and> length optName = 1 then [Token ShortOpt optName]
      else [Token LongOpt optName])"

definition handleOpt :: "nat \<Rightarrow> char \<Rightarrow> string \<Rightarrow> parser \<Rightarrow> (parser \<times> token list) res" where
  "handleOpt i c arg p =
     (if c \<notin> set [CHR '':'', CHR ''='', CHR 0x00] then Inr (p, [])
      else bindR (substr arg (arg_from p) (size_minus i (arg_from p))) (\<lambda>optName.
        Inr (p\<lparr>arg_mode := In_none\<rparr>, opt_tokens (arg_mode p) optName)))"

definition handlePositional :: "nat \<Rightarrow> char \<Rightarrow> string \<Rightarrow> parser \<Rightarrow> (parser \<times> token list) res" where
  "handlePositional i c arg p =
     (if arg_inQuotes p \<or> c \<noteq> CHR 0x00 then Inr (p, [])
      else bindR (substr arg (arg_from p) (size_minus i (arg_from p))) (\<lambda>d.
        Inr (p\<lparr>arg_mode := In_none\<rparr>, [Token Positional d])))"

definition handleMode :: "nat \<Rightarrow> char \<Rightarrow> string \<Rightarrow> parser \<Rightarrow> (parser \<times> token list) res" where
  "handleMode i c arg p =
     (case arg_mode p of
        In_none \<Rightarrow> Inr (handleNone i c p, [])
      | Maybe_short \<Rightarrow> Inr (handleMaybeShortOpt i c p, [])
      | In_positional \<Rightarrow> handlePositional i c arg p
      | _ \<Rightarrow> handleOpt i c arg p)"

text \<open>An argument is read with the null character behind it.\<close>

fun parse_from :: "string \<Rightarrow> nat \<Rightarrow> string \<Rightarrow> parser \<times> token list \<Rightarrow> (parser \<times> token list) res" where
  "parse_from arg i [] st = Inr st"
| "parse_from arg i (c # cs) (p, ts) =
     bindR (handleMode i c arg (if c = quote then p\<lparr>arg_inQuotes := \<not> arg_inQuotes p\<rparr> else p)) (\<lambda>(p', new).
       parse_from arg (i + 1) cs (p', ts @ new))"

definition parse_argument :: "string \<Rightarrow> parser \<times> token list \<Rightarrow> (parser \<times> token list) res" where
  "parse_argument arg st = parse_from arg 0 (arg @ [CHR 0x00]) st"

fun parse_arguments :: "string list \<Rightarrow> parser \<times> token list \<Rightarrow> (parser \<times> token list) res" where
  "parse_arguments [] st = Inr st"
| "parse_arguments (a # as) st = (if a = ''--'' then Inr st else bindR (parse_argument a st) (parse_arguments as))"

text \<open>The first argument is the name of the program.\<close>

definition parseIntoTokens :: "string list \<Rightarrow> token list res" where
  "parseIntoTokens args = map_sum id snd (parse_arguments (tl args) (newParser, []))"

section \<open>Options and arguments\<close>

text \<open>
  \<open>Arg\<close> joins what all arguments have (bound function, description, placeholder), what options have
  (names) and what positional arguments have (a position, or -1).
\<close>

record 'c arg =
  boundField :: "'c arg_function option"
  arg_description :: string
  arg_detail :: string
  placeholder :: string
  shortNames :: "string list"
  longName :: string
  arg_position :: int

definition newArg :: "'c arg" where
  "newArg = \<lparr>boundField = None, arg_description = [], arg_detail = [], placeholder = [], shortNames = [],
     longName = [], arg_position = -1\<rparr>"

definition takesArg :: "'c arg \<Rightarrow> bool" where
  "takesArg a \<longleftrightarrow> placeholder a \<noteq> []"

definition arg_validate :: "'c arg \<Rightarrow> unit res" where
  "arg_validate a = (if bound_isSet (boundField a) then Inr () else Inl (Throws (Exn ''option not bound'')))"

definition hasShortName :: "'c arg \<Rightarrow> string \<Rightarrow> bool" where
  "hasShortName a s \<longleftrightarrow> s \<in> set (shortNames a)"

definition hasLongName :: "'c arg \<Rightarrow> string \<Rightarrow> bool" where
  "hasLongName a s \<longleftrightarrow> s = longName a"

definition isFixedPositional :: "'c arg \<Rightarrow> bool" where
  "isFixedPositional a \<longleftrightarrow> arg_position a \<noteq> -1"

definition dbgName :: "'c arg \<Rightarrow> string" where
  "dbgName a =
     (if longName a \<noteq> [] then ''--'' @ longName a
      else if shortNames a \<noteq> [] then ''-'' @ hd (shortNames a)
      else ''positional args'')"

definition commands :: "'c arg \<Rightarrow> string" where
  "commands a =
     separated '', '' (map (\<lambda>n. ''-'' @ n) (shortNames a) @ (if longName a \<noteq> [] then [''--'' @ longName a] else []))
     @ (if placeholder a \<noteq> [] then '' <'' @ placeholder a @ ''>'' else [])"

definition clara_startsWith :: "string \<Rightarrow> string \<Rightarrow> bool" where
  "clara_startsWith str pre \<longleftrightarrow> length pre \<le> length str \<and> take (length pre) str = pre"

definition addOptName :: "string \<Rightarrow> 'c arg \<Rightarrow> 'c arg res" where
  "addOptName optName a =
     (if optName = [] then Inr a
      else if clara_startsWith optName ''--'' then
        (if longName a \<noteq> [] then
           Inl (Throws (Exn (''Only one long opt may be specified. '' @ squoted (longName a)
             @ '' already specified, now attempting to add '' @ squoted optName)))
         else Inr (a\<lparr>longName := drop 2 optName\<rparr>))
      else if clara_startsWith optName ''-'' then Inr (a\<lparr>shortNames := shortNames a @ [drop 1 optName]\<rparr>)
      else Inl (Throws (Exn (''option must begin with - or --. Option was: '' @ squoted optName))))"

definition setPositionalArg :: "int \<Rightarrow> 'c arg \<Rightarrow> 'c arg" where
  "setPositionalArg pos a = a\<lparr>arg_position := pos\<rparr>"

text \<open>The builders change the argument that was added last.\<close>

definition arg_bind :: "'c arg_function \<Rightarrow> string \<Rightarrow> 'c arg \<Rightarrow> 'c arg" where
  "arg_bind f ph a = a\<lparr>boundField := Some f, placeholder := ph\<rparr>"

definition arg_bind_plain :: "'c arg_function \<Rightarrow> 'c arg \<Rightarrow> 'c arg" where
  "arg_bind_plain f a = a\<lparr>boundField := Some f\<rparr>"

definition arg_describe :: "string \<Rightarrow> 'c arg \<Rightarrow> 'c arg" where
  "arg_describe s a = a\<lparr>arg_description := s\<rparr>"

definition arg_set_detail :: "string \<Rightarrow> 'c arg \<Rightarrow> 'c arg" where
  "arg_set_detail s a = a\<lparr>arg_detail := s\<rparr>"

section \<open>Command lines\<close>

record 'c command_line =
  m_boundProcessName :: "'c arg_function"
  m_options :: "'c arg list"
  m_positionalArgs :: "(int \<times> 'c arg) list"
  m_floatingArg :: "'c arg option"
  m_highestSpecifiedArgPosition :: int
  m_throwOnUnrecognisedTokens :: bool

definition newCommandLine :: "'c command_line" where
  "newCommandLine = \<lparr>m_boundProcessName = nullBinder, m_options = [], m_positionalArgs = [], m_floatingArg = None,
     m_highestSpecifiedArgPosition = 0, m_throwOnUnrecognisedTokens = False\<rparr>"

definition setThrowOnUnrecognisedTokens :: "bool \<Rightarrow> 'c command_line \<Rightarrow> 'c command_line" where
  "setThrowOnUnrecognisedTokens b cl = cl\<lparr>m_throwOnUnrecognisedTokens := b\<rparr>"

text \<open>The three \<open>operator[]\<close> of a command line; the first name may be followed by more.\<close>

definition cli_option :: "string \<Rightarrow> 'c command_line \<Rightarrow> 'c command_line res" where
  "cli_option optName cl = map_sum id (\<lambda>a. cl\<lparr>m_options := m_options cl @ [a]\<rparr>) (addOptName optName newArg)"

definition last_option :: "('c arg \<Rightarrow> 'c arg res) \<Rightarrow> 'c command_line \<Rightarrow> 'c command_line res" where
  "last_option g cl = map_sum id (\<lambda>a. cl\<lparr>m_options := butlast (m_options cl) @ [a]\<rparr>) (g (last (m_options cl)))"

definition cli_position :: "int \<Rightarrow> ('c arg \<Rightarrow> 'c arg) \<Rightarrow> 'c command_line \<Rightarrow> 'c command_line" where
  "cli_position pos mk cl =
     cl\<lparr>m_positionalArgs := AList.map_default pos (mk (setPositionalArg pos newArg))
          (\<lambda>a. mk (setPositionalArg pos a)) (m_positionalArgs cl),
        m_highestSpecifiedArgPosition := max pos (m_highestSpecifiedArgPosition cl)\<rparr>"

definition cli_floating :: "('c arg \<Rightarrow> 'c arg) \<Rightarrow> 'c command_line \<Rightarrow> 'c command_line res" where
  "cli_floating mk cl =
     (if m_floatingArg cl \<noteq> None then Inl (Throws (Exn ''Only one unpositional argument can be added''))
      else Inr (cl\<lparr>m_floatingArg := Some (mk newArg)\<rparr>))"

definition bindProcessName :: "'c arg_function \<Rightarrow> 'c command_line \<Rightarrow> 'c command_line" where
  "bindProcessName f cl = cl\<lparr>m_boundProcessName := f\<rparr>"

text \<open>A statement \<open>cli[n1][n2]....describe(d).bind(f, p)\<close>.\<close>

fun add_option :: "string list \<Rightarrow> ('c arg \<Rightarrow> 'c arg) \<Rightarrow> 'c command_line \<Rightarrow> 'c command_line res" where
  "add_option [] mk cl = Inr cl"
| "add_option (n # ns) mk cl =
     bindR (cli_option n cl) (\<lambda>cl1.
     bindR (foldl (\<lambda>r n'. bindR r (last_option (addOptName n'))) (Inr cl1) ns)
       (last_option (\<lambda>a. Inr (mk a))))"

fun validate_all :: "'c arg list \<Rightarrow> unit res" where
  "validate_all [] = Inr ()"
| "validate_all (a # as) = bindR (arg_validate a) (\<lambda>_. validate_all as)"

definition validate :: "'c command_line \<Rightarrow> unit res" where
  "validate cl =
     (if m_options cl = [] \<and> m_positionalArgs cl = [] \<and> m_floatingArg cl = None
      then Inl (Throws (Exn ''No options or arguments specified''))
      else validate_all (m_options cl))"

section \<open>Usage\<close>

text \<open>What is written is the state. A string of blanks whose length wraps cannot be made.\<close>

definition put_out :: "string \<Rightarrow> (string, unit) action" where
  "put_out x = putS (\<lambda>out. out @ x)"

definition blanks :: "nat \<Rightarrow> nat \<Rightarrow> string res" where
  "blanks a b = (if b \<le> a then Inr (replicate (a - b) (CHR '' '')) else Inl (Throws (Exn ''basic_string::_M_create'')))"

fun eachS :: "('a \<Rightarrow> ('s, unit) action) \<Rightarrow> 'a list \<Rightarrow> ('s, unit) action" where
  "eachS f [] = returnS ()"
| "eachS f (x # xs) = bindS (f x) (\<lambda>_. eachS f xs)"

definition usage_row :: "nat \<Rightarrow> nat \<Rightarrow> string list \<Rightarrow> string list \<Rightarrow> nat \<Rightarrow> (string, unit) action" where
  "usage_row ind maxWidth us ds i =
     (let usageCol = (if i < length us then us ! i else [])
      in bindS (put_out usageCol) (\<lambda>_.
         bindS (if i < length ds \<and> ds ! i \<noteq> [] then
                  bindS (liftS (blanks (ind + 2 + maxWidth) (length usageCol))) (\<lambda>b. put_out (b @ ds ! i))
                else returnS ()) (\<lambda>_. put_out [newline])))"

definition max_commands :: "'c arg list \<Rightarrow> nat" where
  "max_commands opts = foldl (\<lambda>m a. max m (length (commands a))) 0 opts"

definition option_usage :: "nat \<Rightarrow> nat \<Rightarrow> nat \<Rightarrow> 'c arg \<Rightarrow> (string, unit) action" where
  "option_usage ind width maxWidth a =
     bindS (liftS (text_lines (commands a) (setIndent ind (setWidth (maxWidth + ind) newTextAttributes)))) (\<lambda>us.
     bindS (liftS (text_lines (arg_description a)
       (setWidth (size_minus (size_minus width maxWidth) 3) newTextAttributes))) (\<lambda>ds.
       eachS (usage_row ind maxWidth us ds) [0..<max (length us) (length ds)]))"

definition optUsage :: "nat \<Rightarrow> nat \<Rightarrow> 'c command_line \<Rightarrow> (string, unit) action" where
  "optUsage ind width cl = eachS (option_usage ind width (max_commands (m_options cl))) (m_options cl)"

definition synopsis_step :: "'c command_line \<Rightarrow> int \<Rightarrow> (string, unit) action" where
  "synopsis_step cl i =
     bindS (if 1 < i then put_out '' '' else returnS ()) (\<lambda>_.
       case map_of (m_positionalArgs cl) i of
         Some a \<Rightarrow> put_out (''<'' @ placeholder a @ ''>'')
       | None \<Rightarrow>
           (case m_floatingArg cl of
              Some a \<Rightarrow> put_out (''<'' @ placeholder a @ ''>'')
            | None \<Rightarrow> failS (Throws (Exn ''non consecutive positional arguments with no floating args''))))"

definition argSynopsis :: "'c command_line \<Rightarrow> (string, unit) action" where
  "argSynopsis cl =
     bindS (eachS (synopsis_step cl) [1..m_highestSpecifiedArgPosition cl]) (\<lambda>_.
       case m_floatingArg cl of
         None \<Rightarrow> returnS ()
       | Some a \<Rightarrow>
           bindS (if 1 < m_highestSpecifiedArgPosition cl then put_out '' '' else returnS ()) (\<lambda>_.
             put_out (''[<'' @ placeholder a @ ''> ...]'')))"

definition usage :: "string \<Rightarrow> 'c command_line \<Rightarrow> (string, unit) action" where
  "usage procName cl =
     bindS (liftS (validate cl)) (\<lambda>_.
     bindS (put_out (''usage:'' @ [newline] @ ''  '' @ procName @ '' '')) (\<lambda>_.
     bindS (argSynopsis cl) (\<lambda>_.
     bindS (if m_options cl = [] then returnS ()
            else bindS (put_out ('' [options]'' @ [newline, newline] @ ''where options are: '' @ [newline])) (\<lambda>_.
                   optUsage 2 consoleWidth cl)) (\<lambda>_.
       put_out [newline]))))"

section \<open>Populating the configuration\<close>

definition opt_matches :: "'c arg \<Rightarrow> token \<Rightarrow> bool" where
  "opt_matches a t \<longleftrightarrow> token_type t = ShortOpt \<and> hasShortName a (token_data t)
     \<or> token_type t = LongOpt \<and> hasLongName a (token_data t)"

definition option_error :: "cpp_exn \<Rightarrow> 'c arg \<Rightarrow> string" where
  "option_error e a = what e @ [newline] @ ''- while parsing: ('' @ commands a @ '')''"

definition missing_error :: "token \<Rightarrow> string" where
  "missing_error t = ''Expected argument to option: '' @ token_data t"

definition unrecognised_error :: "token \<Rightarrow> string" where
  "unrecognised_error t = ''unrecognised option: '' @ token_data t"

text \<open>
  The loop over the options, for one token. An option that takes an argument takes the token that
  follows, if it is positional. When the bound function throws, the error is kept and the loop goes
  on with the options behind. Yields whether it was left early, the tokens that follow, the errors.
\<close>

fun try_options :: "'c arg list \<Rightarrow> token \<Rightarrow> token list \<Rightarrow> string list \<Rightarrow> ('c, bool \<times> token list \<times> string list) action" where
  "try_options [] t rest errs c = (c, Inr (False, rest, errs))"
| "try_options (a # as) t rest errs c =
     (if \<not> opt_matches a t then try_options as t rest errs c
      else if takesArg a \<and> (rest = [] \<or> token_type (hd rest) \<noteq> Positional) then
        (c, Inr (True, rest, errs @ [missing_error t]))
      else
        (let rest' = (if takesArg a then tl rest else rest);
             given = (if takesArg a then token_data (hd rest) else ''true'')
         in case bound_set (boundField a) given c of
              (c', Inr _) \<Rightarrow> (c', Inr (True, rest', errs))
            | (c', Inl (Throws e)) \<Rightarrow>
                try_options as t rest' (errs @ [option_error e a]) c'
            | (c', Inl f) \<Rightarrow> (c', Inl f)))"

lemma try_options_length:
  "try_options as t rest errs c = (c', Inr (found, rest', errs')) \<Longrightarrow> length rest' \<le> length rest"
  by (induction as t rest errs c rule: try_options.induct)
     (force simp: Let_def split: if_splits prod.splits sum.splits failure.splits)+

definition unmatched :: "'c command_line \<Rightarrow> token \<Rightarrow> token list \<Rightarrow> string list \<Rightarrow> token list \<times> string list" where
  "unmatched cl t unused errs =
     (if token_type t = Positional \<or> \<not> m_throwOnUnrecognisedTokens cl then (unused @ [t], errs)
      else if errs = [] then (unused, [unrecognised_error t])
      else (unused, errs))"

function populate_loop ::
  "'c command_line \<Rightarrow> token list \<Rightarrow> token list \<Rightarrow> string list \<Rightarrow> ('c, token list \<times> string list) action" where
  "populate_loop cl [] unused errs c = (c, Inr (unused, errs))"
| "populate_loop cl (t # ts) unused errs c =
     (case try_options (m_options cl) t ts errs c of
        (c', Inl f) \<Rightarrow> (c', Inl f)
      | (c', Inr (True, rest, errs')) \<Rightarrow> populate_loop cl rest unused errs' c'
      | (c', Inr (False, rest, errs')) \<Rightarrow>
          (let (unused', errs'') = unmatched cl t unused errs' in populate_loop cl rest unused' errs'' c'))"
  by pat_completeness auto
termination
  by (relation "measure (\<lambda>(cl, ts, u, e, c). length ts)") (auto dest: try_options_length [OF sym])

definition populateOptions :: "'c command_line \<Rightarrow> token list \<Rightarrow> ('c, token list) action" where
  "populateOptions cl ts =
     bindS (populate_loop cl ts [] []) (\<lambda>(unused, errs).
       if errs = [] then returnS unused else failS (Throws (Exn (separated [newline] errs))))"

fun fixed_loop :: "'c command_line \<Rightarrow> int \<Rightarrow> token list \<Rightarrow> token list \<Rightarrow> ('c, token list) action" where
  "fixed_loop cl pos [] unused = returnS unused"
| "fixed_loop cl pos (t # ts) unused =
     (let pos' = (if token_type t = Positional then pos + 1 else pos)
      in case map_of (m_positionalArgs cl) pos of
           Some a \<Rightarrow> bindS (bound_set (boundField a) (token_data t)) (\<lambda>_. fixed_loop cl pos' ts unused)
         | None \<Rightarrow> fixed_loop cl pos' ts (unused @ [t]))"

definition populateFixedArgs :: "'c command_line \<Rightarrow> token list \<Rightarrow> ('c, token list) action" where
  "populateFixedArgs cl ts = fixed_loop cl 1 ts []"

fun floating_loop :: "'c arg \<Rightarrow> token list \<Rightarrow> token list \<Rightarrow> ('c, token list) action" where
  "floating_loop a [] unused = returnS unused"
| "floating_loop a (t # ts) unused =
     (if token_type t = Positional
      then bindS (bound_set (boundField a) (token_data t)) (\<lambda>_. floating_loop a ts unused)
      else floating_loop a ts (unused @ [t]))"

definition populateFloatingArgs :: "'c command_line \<Rightarrow> token list \<Rightarrow> ('c, token list) action" where
  "populateFloatingArgs cl ts = (case m_floatingArg cl of None \<Rightarrow> returnS ts | Some a \<Rightarrow> floating_loop a ts [])"

definition populate :: "'c command_line \<Rightarrow> token list \<Rightarrow> ('c, token list) action" where
  "populate cl ts =
     bindS (liftS (validate cl)) (\<lambda>_.
     bindS (populateOptions cl ts) (\<lambda>us.
     bindS (populateFixedArgs cl us) (populateFloatingArgs cl)))"

definition process_name :: "string \<Rightarrow> string" where
  "process_name s =
     (case find_last_of s [CHR ''/'', CHR 0x5C] (length s) of Some i \<Rightarrow> drop (i + 1) s | None \<Rightarrow> s)"

definition parseInto :: "'c command_line \<Rightarrow> string list \<Rightarrow> ('c, token list) action" where
  "parseInto cl args =
     (if args = [] then failS (Undefined Vector_index)
      else bindS (fn_set (m_boundProcessName cl) (process_name (hd args))) (\<lambda>_.
           bindS (liftS (parseIntoTokens args)) (populate cl)))"

definition parse :: "'c command_line \<Rightarrow> 'c \<Rightarrow> string list \<Rightarrow> 'c res" where
  "parse cl c args = (case parseInto cl args c of (c', r) \<Rightarrow> map_sum id (\<lambda>_. c') r)"

section \<open>Arguments are read back\<close>

text \<open>
  Arguments as they are meant: a word, letters behind a hyphen, or a name behind two; letters and
  names may carry a value behind a delimiter.
\<close>

datatype argument =
    Word string
  | Letters string "(char \<times> string) option"
  | Name string "(char \<times> string) option"

fun attached :: "(char \<times> string) option \<Rightarrow> string" where
  "attached None = []"
| "attached (Some (d, w)) = d # w"

fun show_argument :: "argument \<Rightarrow> string" where
  "show_argument (Word w) = w"
| "show_argument (Letters cs v) = CHR ''-'' # cs @ attached v"
| "show_argument (Name n v) = CHR ''-'' # CHR ''-'' # n @ attached v"

definition value_token :: "(char \<times> string) option \<Rightarrow> token list" where
  "value_token v = (case v of None \<Rightarrow> [] | Some (d, w) \<Rightarrow> [Token Positional w])"

fun argument_tokens :: "argument \<Rightarrow> token list" where
  "argument_tokens (Word w) = [Token Positional w]"
| "argument_tokens (Letters cs v) = map (\<lambda>c. Token ShortOpt [c]) cs @ value_token v"
| "argument_tokens (Name n v) = Token LongOpt n # value_token v"

definition plain_word :: "string \<Rightarrow> bool" where
  "plain_word w \<longleftrightarrow> w \<noteq> [] \<and> hd w \<noteq> CHR ''-'' \<and> quote \<notin> set w \<and> CHR 0x00 \<notin> set w"

definition plain_name :: "string \<Rightarrow> bool" where
  "plain_name n \<longleftrightarrow> n \<noteq> [] \<and> set n \<inter> {CHR '':'', CHR ''='', CHR 0x00, quote} = {}"

definition plain_value :: "(char \<times> string) option \<Rightarrow> bool" where
  "plain_value v \<longleftrightarrow> (case v of None \<Rightarrow> True | Some (d, w) \<Rightarrow> d \<in> {CHR '':'', CHR ''=''} \<and> plain_word w)"

fun argument_ok :: "argument \<Rightarrow> bool" where
  "argument_ok (Word w) \<longleftrightarrow> plain_word w"
| "argument_ok (Letters cs v) \<longleftrightarrow> plain_name cs \<and> hd cs \<noteq> CHR ''-'' \<and> plain_value v"
| "argument_ok (Name n v) \<longleftrightarrow> plain_name n \<and> plain_value v"

lemma parse_from_append:
  "parse_from arg i (xs @ ys) st = bindR (parse_from arg i xs st) (parse_from arg (i + length xs) ys)"
proof (induction xs arbitrary: i st)
  case (Cons c cs)
  obtain p ts where st: "st = (p, ts)" by (cases st)
  let ?r = "handleMode i c arg (if c = quote then p\<lparr>arg_inQuotes := \<not> arg_inQuotes p\<rparr> else p)"
  show ?case using Cons.IH by (cases ?r) (simp_all only: st parse_from.simps append_Cons bindR.simps split_beta list.size add_Suc_right add_0_right Suc_eq_plus1 add_ac)
qed simp

definition at_rest :: "parser \<Rightarrow> bool" where
  "at_rest p \<longleftrightarrow> arg_mode p = In_none \<and> \<not> arg_inQuotes p"

lemma name_goes_on:
  assumes "arg_mode p \<in> {In_short, In_long}" "set xs \<inter> {CHR '':'', CHR ''='', CHR 0x00, quote} = {}"
  shows "parse_from arg i xs (p, ts) = Inr (p, ts)"
  using assms by (induction xs arbitrary: i) (auto simp: handleMode_def handleOpt_def)

lemma word_goes_on:
  assumes "arg_mode p = In_positional" "set xs \<inter> {CHR 0x00, quote} = {}"
  shows "parse_from arg i xs (p, ts) = Inr (p, ts)"
  using assms by (induction xs arbitrary: i) (auto simp: handleMode_def handlePositional_def)

lemma quote_neq [simp]: "quote \<noteq> CHR ''-''" "quote \<noteq> CHR 0x00" "quote \<noteq> CHR '':''" "quote \<noteq> CHR ''=''"
  "CHR ''-'' \<noteq> quote" "CHR 0x00 \<noteq> quote" "CHR '':'' \<noteq> quote" "CHR ''='' \<noteq> quote"
  by (simp_all add: quote_def)

lemma substr_middle [simp]: "substr (pre @ w @ post) (length pre) (length w) = Inr w"
  by (simp add: substr_def)

lemma parse_word:
  assumes "plain_word w" "at_rest p" "arg = pre @ w"
  shows "\<exists>p'. parse_from arg (length pre) (w @ [CHR 0x00]) (p, ts) = Inr (p', ts @ [Token Positional w]) \<and> at_rest p'"
proof -
  obtain c cs where w: "w = c # cs" "c \<noteq> CHR ''-''" "c \<noteq> quote" "set cs \<inter> {CHR 0x00, quote} = {}"
    using assms(1) by (cases w) (auto simp: plain_word_def)
  let ?q = "p\<lparr>arg_from := length pre, arg_mode := In_positional\<rparr>"
  have "parse_from arg (length pre) (w @ [CHR 0x00]) (p, ts)
      = bindR (parse_from arg (Suc (length pre)) cs (?q, ts)) (parse_from arg (Suc (length pre) + length cs) [CHR 0x00])"
    using w assms(2) by (simp add: parse_from_append handleMode_def handleNone_def at_rest_def)
  also have "\<dots> = parse_from arg (length pre + length w) [CHR 0x00] (?q, ts)"
    using word_goes_on [of ?q cs] w by simp
  also have "\<dots> = Inr (?q\<lparr>arg_mode := In_none\<rparr>, ts @ [Token Positional w])"
    using assms(2) substr_middle [of pre w "[]"]
    by (simp add: handleMode_def handlePositional_def at_rest_def size_minus_def assms(3))
  finally show ?thesis using assms(2) by (auto simp: at_rest_def)
qed

lemma parse_attached:
  assumes "plain_value v" "arg_mode p \<in> {In_short, In_long}" "\<not> arg_inQuotes p" "arg_from p = length pre"
    and "arg = pre @ n @ attached v"
  shows "\<exists>p'. parse_from arg (length pre + length n) (attached v @ [CHR 0x00]) (p, ts)
      = Inr (p', ts @ opt_tokens (arg_mode p) n @ value_token v) \<and> at_rest p'"
proof -
  have name: "substr arg (length pre) (length n) = Inr n" using substr_middle [of pre n] assms(5) by simp
  show ?thesis
  proof (cases v)
    case None
    then show ?thesis using assms(2-4) name
      by (auto simp: handleMode_def handleOpt_def size_minus_def value_token_def at_rest_def)
  next
    case (Some dw)
    then obtain d w where v: "v = Some (d, w)" "d \<in> {CHR '':'', CHR ''=''}" "plain_word w"
      using assms(1) by (cases dw) (auto simp: plain_value_def)
    let ?q = "p\<lparr>arg_mode := In_none\<rparr>"
    have "parse_from arg (length pre + length n) (attached v @ [CHR 0x00]) (p, ts)
        = parse_from arg (length (pre @ n @ [d])) (w @ [CHR 0x00]) (?q, ts @ opt_tokens (arg_mode p) n)"
      using assms(2-4) name v(1,2) by (auto simp: handleMode_def handleOpt_def size_minus_def)
    moreover have "at_rest ?q" using assms(3) by (simp add: at_rest_def)
    ultimately show ?thesis
      using parse_word [OF v(3), of ?q arg "pre @ n @ [d]" "ts @ opt_tokens (arg_mode p) n"] assms(5) v(1)
      by (simp add: value_token_def)
  qed
qed

lemma parse_argument_ok:
  assumes "argument_ok a" "at_rest p"
  shows "\<exists>p'. parse_argument (show_argument a) (p, ts) = Inr (p', ts @ argument_tokens a) \<and> at_rest p'"
proof (cases a)
  case (Word w)
  then show ?thesis using parse_word [of w p w "[]"] assms by (simp add: parse_argument_def)
next
  case (Letters cs v)
  then obtain c ds where cs: "cs = c # ds" "c \<noteq> CHR ''-''" "c \<noteq> quote"
    "set ds \<inter> {CHR '':'', CHR ''='', CHR 0x00, quote} = {}" "plain_value v"
    using assms(1) by (cases cs) (auto simp: plain_name_def)
  let ?q = "p\<lparr>arg_from := 1, arg_mode := In_short\<rparr>" and ?arg = "show_argument a"
  have "parse_argument ?arg (p, ts) = parse_from ?arg 2 (ds @ (attached v @ [CHR 0x00])) (?q, ts)"
    using assms(2) cs Letters
    by (simp add: parse_argument_def handleMode_def handleNone_def handleMaybeShortOpt_def at_rest_def numeral_2_eq_2)
  also have "\<dots> = parse_from ?arg (length ''-'' + length cs) (attached v @ [CHR 0x00]) (?q, ts)"
    unfolding parse_from_append using name_goes_on [of ?q ds] cs by simp
  finally show ?thesis
    using parse_attached [of v ?q "''-''" ?arg cs ts] assms(2) cs Letters
    by (simp add: at_rest_def opt_tokens_def)
next
  case (Name n v)
  then have n: "set n \<inter> {CHR '':'', CHR ''='', CHR 0x00, quote} = {}" "plain_value v"
    using assms(1) by (auto simp: plain_name_def)
  let ?q = "p\<lparr>arg_from := 2, arg_mode := In_long\<rparr>" and ?arg = "show_argument a"
  have "parse_argument ?arg (p, ts) = parse_from ?arg 2 (n @ (attached v @ [CHR 0x00])) (?q, ts)"
    using assms(2) Name
    by (simp add: parse_argument_def handleMode_def handleNone_def handleMaybeShortOpt_def at_rest_def numeral_2_eq_2)
  also have "\<dots> = parse_from ?arg (length ''--'' + length n) (attached v @ [CHR 0x00]) (?q, ts)"
    unfolding parse_from_append using name_goes_on [of ?q n] n by simp
  finally show ?thesis
    using parse_attached [of v ?q "''--''" ?arg n ts] assms(2) n Name
    by (simp add: at_rest_def opt_tokens_def)
qed

lemma show_argument_not_end: "argument_ok a \<Longrightarrow> show_argument a \<noteq> ''--''"
  by (cases a) (auto simp: plain_word_def plain_name_def neq_Nil_conv)

lemma parse_arguments_ok:
  assumes "\<forall>a\<in>set as. argument_ok a" "at_rest p" "behind = [] \<or> hd behind = ''--''"
  shows "\<exists>p'. parse_arguments (map show_argument as @ behind) (p, ts) = Inr (p', ts @ concat (map argument_tokens as))"
  using assms(1,2)
proof (induction as arbitrary: p ts)
  case Nil
  then show ?case using assms(3) by (cases behind) auto
next
  case (Cons a as)
  obtain p' where p': "parse_argument (show_argument a) (p, ts) = Inr (p', ts @ argument_tokens a)" "at_rest p'"
    using parse_argument_ok Cons.prems by fastforce
  then show ?case using Cons.IH [OF _ p'(2), of "ts @ argument_tokens a"] Cons.prems show_argument_not_end [of a] by simp
qed

lemma tokens_of_arguments:
  assumes "\<forall>a\<in>set as. argument_ok a" "behind = [] \<or> hd behind = ''--''"
  shows "parseIntoTokens (prog # map show_argument as @ behind) = Inr (concat (map argument_tokens as))"
  using parse_arguments_ok [OF assms(1) _ assms(2), of newParser "[]"]
  by (auto simp: parseIntoTokens_def newParser_def at_rest_def)

text \<open>
  C36. Arguments are read as they are meant: words, letters behind one hyphen and names behind two, with
  or without a value behind a colon or an equals sign, come back as their tokens in order, and what
  follows a bare double hyphen is not looked at.
\<close>

theorem arguments_are_read_back:
  assumes "\<forall>a\<in>set as. argument_ok a" "behind = [] \<or> hd behind = ''--''"
  shows "parseIntoTokens (prog # map show_argument as @ behind) = Inr (concat (map argument_tokens as))"
  using tokens_of_arguments [OF assms] by blast

lemma arguments_are_read_back_witness:
  "parseIntoTokens [''tests'', ''[core],slow*'', ''-se'', ''-o=out.xml'', ''--order'', ''lex'', ''--'', ''-x''] =
     Inr [Token Positional ''[core],slow*'', Token ShortOpt ''s'', Token ShortOpt ''e'', Token ShortOpt ''o'',
       Token Positional ''out.xml'', Token LongOpt ''order'', Token Positional ''lex'']"
  using arguments_are_read_back [of "[Word ''[core],slow*'', Letters ''se'' None, Letters ''o'' (Some (CHR ''='', ''out.xml'')),
      Name ''order'' None, Word ''lex'']" "[''--'', ''-x'']" "''tests''"]
  by (simp add: plain_word_def plain_name_def plain_value_def value_token_def quote_def)

text \<open>
  An argument that is empty, a lone hyphen, or ends in a delimiter leaves the reader inside a token,
  and the argument behind it is read from there: an option becomes a word, a word becomes options or
  loses its beginning, or \<open>substr\<close> throws.
\<close>

lemmas reader_simps = parseIntoTokens_def parse_argument_def newParser_def handleMode_def handleNone_def
  handleMaybeShortOpt_def handleOpt_def handlePositional_def opt_tokens_def substr_def size_minus_def quote_def

lemma reader_left_inside:
  "parseIntoTokens [prog, [], ''-s''] = Inr [Token Positional ''-s'']"
  "parseIntoTokens [prog, ''-'', ''abc''] = Inr [Token ShortOpt ''b'', Token ShortOpt ''c'']"
  "parseIntoTokens [prog, ''-o='', ''report''] = Inr [Token ShortOpt ''o'', Token Positional ''ort'']"
  "\<exists>e. parseIntoTokens [prog, ''-o='', ''ab''] = Inl (Throws e)"
  by (simp_all add: reader_simps)

section \<open>Options and their errors\<close>

text \<open>All options are bound, and their functions fail by an exception only.\<close>

definition throws_only :: "'c arg_function \<Rightarrow> bool" where
  "throws_only f \<longleftrightarrow> (\<forall>s c c' r. fn_set f s c = (c', Inl r) \<longrightarrow> (\<exists>e. r = Throws e))"

definition options_ok :: "'c command_line \<Rightarrow> bool" where
  "options_ok cl \<longleftrightarrow> (\<forall>a\<in>set (m_options cl). \<exists>f. boundField a = Some f \<and> throws_only f)"

lemma skipped_trans:
  assumes "\<exists>us. a = us @ b \<and> (\<forall>u\<in>set us. P u)" "\<exists>us. b = us @ c \<and> (\<forall>u\<in>set us. P u)"
  shows "\<exists>us. a = us @ c \<and> (\<forall>u\<in>set us. P u)"
proof -
  obtain us vs where "a = us @ vs @ c" "\<forall>u\<in>set (us @ vs). P u" using assms by auto
  then show ?thesis by (intro exI [of _ "us @ vs"]) simp
qed

lemma try_options_result:
  assumes "\<forall>a\<in>set as. \<exists>f. boundField a = Some f \<and> throws_only f"
  shows "\<exists>c' found rest' new. try_options as t rest errs c = (c', Inr (found, rest', errs @ new))
    \<and> (\<exists>us. rest = us @ rest' \<and> (\<forall>u\<in>set us. token_type u = Positional))
    \<and> ((\<forall>a\<in>set as. \<not> opt_matches a t) \<longrightarrow> \<not> found \<and> rest' = rest)"
  using assms
proof (induction as arbitrary: rest errs c)
  case (Cons a as)
  obtain f where f: "boundField a = Some f" "throws_only f" using Cons.prems by auto
  have as: "\<forall>a\<in>set as. \<exists>f. boundField a = Some f \<and> throws_only f" using Cons.prems by simp
  let ?rest = "if takesArg a then tl rest else rest" and ?given = "if takesArg a then token_data (hd rest) else ''true''"
  obtain c' r where r: "fn_set f ?given c = (c', r)" by (cases "fn_set f ?given c")
  consider "\<not> opt_matches a t" | "opt_matches a t" "takesArg a \<and> (rest = [] \<or> token_type (hd rest) \<noteq> Positional)"
    | "opt_matches a t" "\<not> (takesArg a \<and> (rest = [] \<or> token_type (hd rest) \<noteq> Positional))" by blast
  then show ?case
  proof cases
    case 1
    then show ?thesis using Cons by auto
  next
    case 2
    then show ?thesis by auto
  next
    case 3
    have pre: "\<exists>us. rest = us @ ?rest \<and> (\<forall>u\<in>set us. token_type u = Positional)"
      using 3 by (cases rest) (auto intro: exI [of _ "[hd rest]"])
    show ?thesis
    proof (cases r)
      case (Inr u)
      then show ?thesis using 3 pre r f by (auto simp: Let_def bound_set_def)
    next
      case (Inl x)
      then obtain e where e: "x = Throws e" using f(2) r by (force simp: throws_only_def)
      let ?errs = "errs @ [option_error e a]"
      have step: "try_options (a # as) t rest errs c = try_options as t ?rest ?errs c'"
        by (simp only: try_options.simps(2) 3 not_True_eq_False if_False Let_def bound_set_def f(1) option.case r Inl e
            prod.case sum.case failure.case)
      obtain d found rest' new where d:
        "try_options as t ?rest ?errs c' = (d, Inr (found, rest', ?errs @ new))"
        "\<exists>us. ?rest = us @ rest' \<and> (\<forall>u\<in>set us. token_type u = Positional)"
        using Cons.IH [OF as, of ?rest ?errs c'] by blast
      note us = skipped_trans [OF pre d(2)]
      show ?thesis
        by (rule exI, rule exI, rule exI, rule exI, rule conjI, rule trans [OF step d(1) [unfolded append_assoc]], rule conjI, rule us)
          (use 3(1) in simp)
    qed
  qed
qed auto

text \<open>A token that no option takes makes the reading of the options fail, wherever it stands.\<close>

lemma populate_loop_result:
  assumes "options_ok cl"
  shows "\<exists>c' us errs'. populate_loop cl ts unused errs c = (c', Inr (us, errs'))
    \<and> (errs \<noteq> [] \<longrightarrow> errs' \<noteq> [])
    \<and> (m_throwOnUnrecognisedTokens cl \<longrightarrow>
        (\<exists>t\<in>set ts. token_type t \<noteq> Positional \<and> (\<forall>a\<in>set (m_options cl). \<not> opt_matches a t)) \<longrightarrow> errs' \<noteq> [])"
proof (induction "length ts" arbitrary: ts unused errs c rule: less_induct)
  case less
  show ?case
  proof (cases ts)
    case (Cons t us)
    obtain c' found rest new vs where r: "try_options (m_options cl) t us errs c = (c', Inr (found, rest, errs @ new))"
      "us = vs @ rest" "\<forall>u\<in>set vs. token_type u = Positional"
      "(\<forall>a\<in>set (m_options cl). \<not> opt_matches a t) \<longrightarrow> \<not> found"
      using try_options_result [of "m_options cl" t us errs c] assms unfolding options_ok_def by blast
    obtain un e where m: "unmatched cl t unused (errs @ new) = (un, e)" by (cases "unmatched cl t unused (errs @ new)")
    have e: "errs \<noteq> [] \<longrightarrow> e \<noteq> []"
      "m_throwOnUnrecognisedTokens cl \<Longrightarrow> token_type t \<noteq> Positional \<Longrightarrow> e \<noteq> []"
      using m by (auto simp: unmatched_def split: if_splits)
    have "length rest < length ts" using r(2) Cons by simp
    show ?thesis
    proof (cases found)
      case True
      have "populate_loop cl ts unused errs c = populate_loop cl rest unused (errs @ new) c'"
        using r(1) True Cons by simp
      then show ?thesis using less [OF \<open>length rest < length ts\<close>, of unused "errs @ new" c'] r(2-4) True Cons by auto blast+
    next
      case False
      have "populate_loop cl ts unused errs c = populate_loop cl rest un e c'"
        using r(1) False Cons m by simp
      then show ?thesis using less [OF \<open>length rest < length ts\<close>, of un e c'] r(2,3) e Cons by auto blast+
    qed
  qed simp
qed

lemma unknown_option_fails:
  assumes "options_ok cl" "m_throwOnUnrecognisedTokens cl" "t \<in> set ts" "token_type t \<noteq> Positional"
    and "\<forall>a\<in>set (m_options cl). \<not> opt_matches a t"
  shows "\<exists>c' e. populateOptions cl ts c = (c', Inl (Throws e))"
  using populate_loop_result [OF assms(1), of ts "[]" "[]" c] assms(2-)
  by (auto simp: populateOptions_def bindS_def failS_def)

end
