(* ===== verification/Clara_Usage.thy ===== *)
theory Clara_Usage
  imports Clara
begin

text \<open>
  The table of options in the usage text: when the names leave room for the descriptions and nothing
  holds a tab it can be written, its columns are aligned, its descriptions are those of the options, and
  its lines are bounded.
\<close>

section \<open>One line\<close>

lemma text_of_one_line:
  assumes "s \<noteq> []" "newline \<notin> set s" "CHR 0x09 \<notin> set s" "length s + ind \<le> w"
  shows "text_lines s (setIndent ind (setWidth w newTextAttributes)) = Inr [replicate ind (CHR '' '') @ s]"
proof -
  let ?a = "setIndent ind (setWidth w newTextAttributes)"
  have a: "indent ?a = ind" "attr_width ?a = w" "tabChar ?a = CHR 0x09" "initialIndent ?a = None"
    by (simp_all add: setIndent_def setWidth_def newTextAttributes_def)
  have "find_index (\<lambda>c. c = newline) s = None" using assms(2) by (auto simp: find_index_None)
  then have fw: "first_width ?a ind s = length s"
    using assms(4) by (simp add: first_width_def Let_def a size_minus_def)
  have "find_last_of s [CHR 0x09] (length s) = None" by (rule find_last_of_None) (use assms(3) in simp)
  then have "wrap_line ?a ind s [] = Inr (ind, [], [replicate ind (CHR '' '') @ s])"
    by (simp add: wrap_line_def fw take_tab_def a spliceLine_def)
  moreover have "wrap_loop ?a ind [] [replicate ind (CHR '' '') @ s] = Inr [replicate ind (CHR '' '') @ s]"
    by (subst wrap_loop.simps) simp
  ultimately have "wrap_loop ?a ind s [] = Inr [replicate ind (CHR '' '') @ s]"
    using assms(1) by (subst wrap_loop.simps) simp
  then show ?thesis by (simp only: text_lines_def a option.case)
qed

lemma text_within:
  assumes "CHR 0x09 \<notin> set s" "0 < w" "length truncated \<le> w"
  shows "\<exists>ls. text_lines s (setWidth w newTextAttributes) = Inr ls \<and> (\<forall>l\<in>set ls. length l \<le> w)
    \<and> (length ls \<le> 1000 \<longrightarrow> subseq (filter (\<lambda>c. \<not> is_gap c) s) (concat ls))"
proof -
  let ?a = "setWidth w newTextAttributes"
  have a: "indent ?a = 0" "attr_width ?a = w" "tabChar ?a = CHR 0x09" "initialIndent ?a = None"
    by (simp_all add: setWidth_def newTextAttributes_def)
  obtain ls where "wrap_loop ?a 0 s [] = Inr ls" "\<forall>l\<in>set ls. length l \<le> w \<or> l = truncated"
    "length ls \<le> 1000 \<longrightarrow> subseq (filter (\<lambda>c. \<not> is_gap c) s) (concat ls)"
    using wrap_loop_spec [of ?a s 0 "[]"] assms a by auto
  then show ?thesis using assms(3) by (auto simp: text_lines_def a)
qed

section \<open>The table\<close>

text \<open>A line of the table: what is in the left column, and from a fixed position on the description.\<close>

definition table_line :: "nat \<Rightarrow> nat \<Rightarrow> string \<Rightarrow> string \<Rightarrow> string" where
  "table_line ind m lcol right =
     lcol @ (if right = [] then [] else replicate (ind + 2 + m - length lcol) (CHR '' '') @ right)"

fun table_rows :: "nat \<Rightarrow> nat \<Rightarrow> string \<Rightarrow> string list \<Rightarrow> string list" where
  "table_rows ind m lcol [] = [lcol]"
| "table_rows ind m lcol (d # ds) = table_line ind m lcol d # map (table_line ind m []) ds"

definition text_of_rows :: "string list \<Rightarrow> string" where
  "text_of_rows rs = concat (map (\<lambda>r. r @ [newline]) rs)"

lemma usage_row_written:
  assumes "\<forall>u\<in>set us. length u \<le> ind + 2 + m"
  shows "usage_row ind m us ds i out =
    (out @ table_line ind m (if i < length us then us ! i else []) (if i < length ds then ds ! i else []) @ [newline], Inr ())"
proof -
  let ?u = "if i < length us then us ! i else []"
  have "length ?u \<le> ind + 2 + m" using assms by auto
  then show ?thesis
    by (auto simp: usage_row_def Let_def put_out_def table_line_def blanks_def liftS_def putS_def bindS_def returnS_def)
qed

lemma eachS_written:
  assumes "\<forall>x\<in>set xs. \<forall>out. f x out = (out @ g x, Inr ())"
  shows "eachS f xs out = (out @ concat (map g xs), Inr ())"
  using assms by (induction xs arbitrary: out) (auto simp: returnS_def bindS_def)

lemma rows_of_option:
  "map (\<lambda>i. table_line ind m (if i < length [lcol] then [lcol] ! i else []) (if i < length ds then ds ! i else []))
     [0..<max (length [lcol]) (length ds)] = table_rows ind m lcol ds"
proof (cases ds)
  case (Cons d ds')
  have "map (\<lambda>i. table_line ind m [] (if i < length ds' then ds ! Suc i else [])) [0..<length ds'] = map (table_line ind m []) ds'"
    by (rule nth_equalityI) (auto simp: Cons)
  then show ?thesis by (simp add: Cons upt_conv_Cons map_Suc_upt [symmetric] o_def del: upt_Suc)
qed (simp add: table_line_def)

definition printable :: "'c arg \<Rightarrow> bool" where
  "printable a \<longleftrightarrow> commands a \<noteq> [] \<and> set (commands a) \<inter> {newline, CHR 0x09} = {} \<and> CHR 0x09 \<notin> set (arg_description a)"

text \<open>
  The lines of a description: what its text is broken into at the width that is left, which loses no
  character but spaces and newlines unless it is cut short.
\<close>

definition described :: "nat \<Rightarrow> 'c arg \<Rightarrow> string list \<Rightarrow> bool" where
  "described w a ds \<longleftrightarrow> text_lines (arg_description a) (setWidth w newTextAttributes) = Inr ds
     \<and> (length ds \<le> 1000 \<longrightarrow> subseq (filter (\<lambda>c. \<not> is_gap c) (arg_description a)) (concat ds))"

lemma option_usage_written:
  assumes "printable a" "length (commands a) \<le> m" "m + 3 + length truncated \<le> width"
  shows "\<exists>ds. option_usage ind width m a out =
      (out @ text_of_rows (table_rows ind m (replicate ind (CHR '' '') @ commands a) ds), Inr ())
    \<and> described (width - m - 3) a ds \<and> (\<forall>d\<in>set ds. length d \<le> width - m - 3)"
proof -
  let ?lcol = "replicate ind (CHR '' '') @ commands a"
  have t: "length truncated = 43" by (simp add: truncated_def)
  have us: "text_lines (commands a) (setIndent ind (setWidth (m + ind) newTextAttributes)) = Inr [?lcol]"
    using assms(1,2) by (intro text_of_one_line) (auto simp: printable_def)
  have w: "size_minus (size_minus width m) 3 = width - m - 3" using assms(3) by (simp add: size_minus_def)
  obtain ds where ds: "text_lines (arg_description a) (setWidth (width - m - 3) newTextAttributes) = Inr ds"
    "\<forall>d\<in>set ds. length d \<le> width - m - 3" "described (width - m - 3) a ds"
    using text_within [of "arg_description a" "width - m - 3"] assms t unfolding printable_def described_def by fastforce
  let ?g = "\<lambda>i. table_line ind m (if i < length [?lcol] then [?lcol] ! i else []) (if i < length ds then ds ! i else [])"
  have "\<forall>u\<in>set [?lcol]. length u \<le> ind + 2 + m" using assms(2) by simp
  then have rows: "eachS (usage_row ind m [?lcol] ds) [0..<max (length [?lcol]) (length ds)] out
      = (out @ concat (map (\<lambda>i. ?g i @ [newline]) [0..<max (length [?lcol]) (length ds)]), Inr ())"
    by (intro eachS_written ballI allI) (simp only: usage_row_written append_assoc)
  have "concat (map (\<lambda>i. ?g i @ [newline]) [0..<max (length [?lcol]) (length ds)]) = text_of_rows (table_rows ind m ?lcol ds)"
    unfolding text_of_rows_def rows_of_option [symmetric] by (simp only: map_map o_def)
  then have "option_usage ind width m a out = (out @ text_of_rows (table_rows ind m ?lcol ds), Inr ())"
    using rows by (simp only: option_usage_def us w ds(1) action_simps)
  then show ?thesis using ds(2,3) by blast
qed

lemma table_rows_length:
  assumes "length lcol \<le> ind + m" "\<forall>d\<in>set ds. length d \<le> k" "r \<in> set (table_rows ind m lcol ds)"
  shows "length r \<le> ind + 2 + m + k"
  using assms by (cases ds) (auto simp: table_line_def)

lemma max_commands_bound: "a \<in> set opts \<Longrightarrow> length (commands a) \<le> max_commands opts"
proof -
  have grows: "n \<le> foldl (\<lambda>m a. max m (length (commands a))) n xs" for n and xs :: "'a arg list"
    by (induction xs arbitrary: n) (auto intro: le_trans [OF max.cobounded1])
  have "a \<in> set xs \<Longrightarrow> length (commands a) \<le> foldl (\<lambda>m a. max m (length (commands a))) n xs" for n and xs :: "'a arg list"
    by (induction xs arbitrary: n) (auto intro: le_trans [OF max.cobounded2 grows])
  then show "a \<in> set opts \<Longrightarrow> length (commands a) \<le> max_commands opts" by (simp add: max_commands_def)
qed

lemma text_of_rows_append: "text_of_rows (xs @ ys) = text_of_rows xs @ text_of_rows ys"
  by (simp add: text_of_rows_def)

lemma options_usage_written:
  assumes "\<forall>a\<in>set opts. printable a \<and> length (commands a) \<le> m" "m + 3 + length truncated \<le> width"
  shows "\<exists>dss. eachS (option_usage ind width m) opts out =
      (out @ text_of_rows (concat (map2 (\<lambda>a. table_rows ind m (replicate ind (CHR '' '') @ commands a)) opts dss)), Inr ())
    \<and> list_all2 (described (width - m - 3)) opts dss \<and> (\<forall>ds\<in>set dss. \<forall>d\<in>set ds. length d \<le> width - m - 3)"
  using assms(1)
proof (induction opts arbitrary: out)
  case (Cons a opts)
  obtain ds where ds: "option_usage ind width m a out =
      (out @ text_of_rows (table_rows ind m (replicate ind (CHR '' '') @ commands a) ds), Inr ())"
    "described (width - m - 3) a ds" "\<forall>d\<in>set ds. length d \<le> width - m - 3"
    using option_usage_written [of a m width ind out] Cons.prems assms(2) by auto
  obtain dss where dss: "eachS (option_usage ind width m) opts
        (out @ text_of_rows (table_rows ind m (replicate ind (CHR '' '') @ commands a) ds)) =
      (out @ text_of_rows (table_rows ind m (replicate ind (CHR '' '') @ commands a) ds)
         @ text_of_rows (concat (map2 (\<lambda>a. table_rows ind m (replicate ind (CHR '' '') @ commands a)) opts dss)), Inr ())"
    "list_all2 (described (width - m - 3)) opts dss" "\<forall>ds\<in>set dss. \<forall>d\<in>set ds. length d \<le> width - m - 3"
    using Cons.IH [of "out @ text_of_rows (table_rows ind m (replicate ind (CHR '' '') @ commands a) ds)"] Cons.prems by auto
  have "eachS (option_usage ind width m) (a # opts) out =
      (out @ text_of_rows (concat (map2 (\<lambda>a. table_rows ind m (replicate ind (CHR '' '') @ commands a)) (a # opts) (ds # dss))), Inr ())"
    by (simp only: eachS.simps bindS_def ds(1) dss(1) prod.case sum.case zip_Cons_Cons list.map concat.simps text_of_rows_append)
  then show ?case using dss(2,3) ds(2,3) by (intro exI [of _ "ds # dss"]) simp
qed (simp add: returnS_def text_of_rows_def)

text \<open>
  C39. When the names of the options leave at least 46 columns and neither they nor the descriptions hold
  a tab, the table of options in the usage text can be written: each option starts a line of its own with
  its names; beside it and on the lines that follow stands its description, broken to the width that is
  left and with no character lost but spaces and newlines (if it needs no more than 1000 lines); all
  descriptions start in the same column, and no line is longer than the indent and the width less one.
\<close>

theorem usage_is_a_table:
  assumes "\<forall>a\<in>set (m_options cl). printable a" "max_commands (m_options cl) + 3 + length truncated \<le> width"
  shows "\<exists>rs dss. optUsage ind width cl out = (out @ text_of_rows rs, Inr ())
    \<and> rs = concat (map2 (\<lambda>a. table_rows ind (max_commands (m_options cl)) (replicate ind (CHR '' '') @ commands a))
               (m_options cl) dss)
    \<and> list_all2 (\<lambda>a ds.
          text_lines (arg_description a) (setWidth (width - max_commands (m_options cl) - 3) newTextAttributes) = Inr ds
        \<and> (length ds \<le> 1000 \<longrightarrow> subseq (filter (\<lambda>c. \<not> is_gap c) (arg_description a)) (concat ds)))
        (m_options cl) dss
    \<and> (\<forall>r\<in>set rs. length r \<le> ind + width - 1)"
proof -
  let ?m = "max_commands (m_options cl)"
  have fit: "\<forall>a\<in>set (m_options cl). printable a \<and> length (commands a) \<le> ?m"
    using assms(1) max_commands_bound by blast
  obtain dss where dss: "eachS (option_usage ind width ?m) (m_options cl) out =
      (out @ text_of_rows (concat (map2 (\<lambda>a. table_rows ind ?m (replicate ind (CHR '' '') @ commands a)) (m_options cl) dss)), Inr ())"
    "list_all2 (described (width - ?m - 3)) (m_options cl) dss" "\<forall>ds\<in>set dss. \<forall>d\<in>set ds. length d \<le> width - ?m - 3"
    using options_usage_written [OF fit assms(2)] by blast
  have "length r \<le> ind + width - 1"
    if r: "r \<in> set (concat (map2 (\<lambda>a. table_rows ind ?m (replicate ind (CHR '' '') @ commands a)) (m_options cl) dss))" for r
  proof -
    obtain a ds where "a \<in> set (m_options cl)" "ds \<in> set dss" "r \<in> set (table_rows ind ?m (replicate ind (CHR '' '') @ commands a) ds)"
      using r by (auto dest: set_zip_leftD set_zip_rightD)
    then have "length r \<le> ind + 2 + ?m + (width - ?m - 3)"
      using table_rows_length [of "replicate ind (CHR '' '') @ commands a" ind ?m ds "width - ?m - 3" r] fit dss(3) by simp
    then show ?thesis using assms(2) by simp
  qed
  then show ?thesis unfolding optUsage_def using dss(1) dss(2) [unfolded described_def] by blast
qed

text \<open>
  The indent is not taken off the width of the descriptions, so that a line may be wider than the
  console: 81 columns of 80 here, where the description just fits its own column.
\<close>

lemma usage_line_too_wide:
  assumes "m_options cl = [a]" "commands a = ''-a''" "arg_description a = replicate 75 (CHR ''x'')"
  shows "\<exists>r. optUsage 2 80 cl [] = (r @ [newline], Inr ()) \<and> length r = 81"
proof -
  let ?d = "replicate 75 (CHR ''x'')"
  have us: "text_lines ''-a'' (setIndent 2 (setWidth (2 + 2) newTextAttributes)) = Inr [''  -a'']"
    using text_of_one_line [of "''-a''" 2 "2 + 2"] by (simp add: newline_def numeral_2_eq_2)
  have "setIndent 0 (setWidth 75 newTextAttributes) = setWidth 75 newTextAttributes"
    by (simp add: setIndent_def setWidth_def newTextAttributes_def)
  then have ds: "text_lines ?d (setWidth 75 newTextAttributes) = Inr [?d]"
    using text_of_one_line [of ?d 0 75] by (simp add: newline_def)
  have m: "max_commands [a] = 2" using assms(2) by (simp add: max_commands_def)
  have "optUsage 2 80 cl [] = (table_line 2 2 ''  -a'' ?d @ [newline], Inr ())"
    using us ds usage_row_written [of "[''  -a'']" 2 2 "[?d]" 0 "[]"]
    by (simp add: optUsage_def m assms option_usage_def size_minus_def bindS_def liftS_def returnS_def)
  moreover have "length (table_line 2 2 ''  -a'' ?d) = 81" by (simp add: table_line_def)
  ultimately show ?thesis by blast
qed

end
