(* ===== verification/Catch_Command_Line.thy ===== *)
theory Catch_Command_Line
  imports Clara_Usage
begin

text \<open>
  The command line of the tests (\<open>include/catch.h\<close>): what each option does to the configuration, the
  table of options, and the session that reads its arguments before it runs. The files that can be
  read and those that can be written, and the clock, are parameters.
\<close>

section \<open>What the options do\<close>

record cli_env =
  env_files :: "string \<Rightarrow> string option"
  env_writable :: "string \<Rightarrow> bool"
  env_time :: int

definition throw :: "string \<Rightarrow> ('s, 'a) action" where
  "throw m = failS (Throws (Exn m))"

definition abortAfterFirst :: "(config_data, unit) action" where
  "abortAfterFirst = putS (abortAfter_update (\<lambda>_. 1))"

definition abortAfterX :: "int \<Rightarrow> (config_data, unit) action" where
  "abortAfterX x =
     (if x < 1 then throw ''Value after -x or --abortAfter must be greater than zero''
      else putS (abortAfter_update (\<lambda>_. x)))"

definition addTestOrTags :: "string \<Rightarrow> (config_data, unit) action" where
  "addTestOrTags s = putS (testsOrTags_update (\<lambda>xs. xs @ [s]))"

definition addReporterName :: "string \<Rightarrow> (config_data, unit) action" where
  "addReporterName s = putS (reporterNames_update (\<lambda>xs. xs @ [s]))"

definition addWarning :: "string \<Rightarrow> (config_data, unit) action" where
  "addWarning s =
     (if s = ''NoAssertions'' then putS (warnNoAssertions_update (\<lambda>_. True))
      else throw (''Unrecognised warning: '' @ squoted s))"

definition setOrder :: "string \<Rightarrow> (config_data, unit) action" where
  "setOrder s =
     (if startsWith ''declared'' s then putS (runOrder_update (\<lambda>_. InDeclarationOrder))
      else if startsWith ''lexical'' s then putS (runOrder_update (\<lambda>_. InLexicographicalOrder))
      else if startsWith ''random'' s then putS (runOrder_update (\<lambda>_. InRandomOrder))
      else throw (''Unrecognised ordering: '' @ squoted s))"

text \<open>A seed that cannot be read is stored all the same, before the exception.\<close>

definition setRngSeed :: "cli_env \<Rightarrow> string \<Rightarrow> (config_data, unit) action" where
  "setRngSeed env s =
     (if s = ''time'' then putS (cfg_rngSeed_update (\<lambda>_. nat (env_time env mod 2 ^ 32)))
      else (let (v, good) = extract_unsigned s
            in bindS (putS (cfg_rngSeed_update (\<lambda>_. v))) (\<lambda>_.
                 if good then returnS ()
                 else throw (''Argment to --rng-seed should be the word '' @ squoted ''time'' @ '' or a number''))))"

definition setShowDurations :: "bool \<Rightarrow> (config_data, unit) action" where
  "setShowDurations b = putS (cfg_showDurations_update (\<lambda>_. if b then Always else Never))"

definition setUseColour :: "string \<Rightarrow> (config_data, unit) action" where
  "setUseColour s =
     (let m = toLower s
      in if m = ''yes'' then putS (cfg_useColour_update (\<lambda>_. Yes))
         else if m = ''no'' then putS (cfg_useColour_update (\<lambda>_. No))
         else if m = ''auto'' then putS (cfg_useColour_update (\<lambda>_. Auto))
         else throw ''colour mode must be one of: auto, yes or no'')"

definition forceColour :: "(config_data, unit) action" where
  "forceColour = putS (cfg_useColour_update (\<lambda>_. Yes))"

text \<open>The lines \<open>getline\<close> yields: what follows the last newline is a line only when it is not empty.\<close>

definition getlines :: "string \<Rightarrow> string list" where
  "getlines s = (let ls = tokens newline s in if last ls = [] then butlast ls else ls)"

definition loadTestName :: "string \<Rightarrow> (config_data, unit) action" where
  "loadTestName l =
     (let line = trim l
      in if line \<noteq> [] \<and> \<not> startsWith line ''#'' then
           addTestOrTags ((if startsWith line [quote] then line else [quote] @ line @ [quote]) @ '','')
         else returnS ())"

definition loadTestNamesFromFile :: "cli_env \<Rightarrow> string \<Rightarrow> (config_data, unit) action" where
  "loadTestNamesFromFile env name =
     (case env_files env name of
        None \<Rightarrow> throw (''Unable to load input file: '' @ name)
      | Some content \<Rightarrow> eachS loadTestName (getlines content))"

section \<open>The table of options\<close>

definition flag :: "string list \<Rightarrow> string \<Rightarrow> config_data arg_function \<Rightarrow> config_data command_line \<Rightarrow> config_data command_line res" where
  "flag names descr f = add_option names (\<lambda>a. arg_bind_plain f (arg_describe descr a))"

definition valued :: "string list \<Rightarrow> string \<Rightarrow> config_data arg_function \<Rightarrow> string \<Rightarrow> config_data command_line \<Rightarrow> config_data command_line res" where
  "valued names descr f ph = add_option names (\<lambda>a. arg_bind f ph (arg_describe descr a))"

definition stringOption :: "(string \<Rightarrow> (config_data, unit) action) \<Rightarrow> config_data arg_function" where
  "stringOption f = boundBinaryFunction convertInto_string False f"

definition option_table :: "cli_env \<Rightarrow> (config_data command_line \<Rightarrow> config_data command_line res) list" where
  "option_table env =
    [flag [''-?'', ''-h'', ''--help''] ''display usage information'' (boundBoolMember showHelp_update),
     flag [''-l'', ''--list-tests''] ''list all/matching test cases'' (boundBoolMember listTests_update),
     flag [''-t'', ''--list-tags''] ''list all/matching tags'' (boundBoolMember listTags_update),
     flag [''-s'', ''--success''] ''include successful tests in output'' (boundBoolMember showSuccessfulTests_update),
     flag [''-b'', ''--break''] ''break into debugger on failure'' (boundBoolMember shouldDebugBreak_update),
     flag [''-e'', ''--nothrow''] ''skip exception tests'' (boundBoolMember noThrow_update),
     flag [''-i'', ''--invisibles''] ''show invisibles (tabs, newlines)'' (boundBoolMember showInvisibles_update),
     valued [''-o'', ''--out''] ''output filename'' (boundStringMember outputFilename_update) ''filename'',
     valued [''-r'', ''--reporter''] ''reporter to use (defaults to console)'' (stringOption addReporterName) ''name'',
     valued [''-n'', ''--name''] ''suite name'' (boundStringMember run_name_update) ''name'',
     flag [''-a'', ''--abort''] ''abort at first failure'' (boundUnaryFunction abortAfterFirst),
     valued [''-x'', ''--abortx''] ''abort after x failures'' (boundBinaryFunction convertInto_int False abortAfterX) ''no. failures'',
     valued [''-w'', ''--warn''] ''enable warnings'' (stringOption addWarning) ''warning name'',
     cli_floating (\<lambda>a. arg_bind (stringOption addTestOrTags) ''test name, pattern or tags''
       (arg_describe ''which test or tests to use'' a)),
     valued [''-d'', ''--durations''] ''show test durations'' (boundBinaryFunction convertInto_bool True setShowDurations) ''yes|no'',
     valued [''-f'', ''--input-file''] ''load test names to run from a file'' (stringOption (loadTestNamesFromFile env)) ''filename'',
     flag [''-#'', ''--filenames-as-tags''] ''adds a tag for the filename'' (boundBoolMember filenamesAsTags_update),
     flag [''--list-test-names-only''] ''list all/matching test cases names only'' (boundBoolMember listTestNamesOnly_update),
     flag [''--list-reporters''] ''list all reporters'' (boundBoolMember listReporters_update),
     valued [''--order''] ''test case order (defaults to decl)'' (stringOption setOrder) ''decl|lex|rand'',
     valued [''--rng-seed''] ''set a specific seed for random numbers'' (stringOption (setRngSeed env)) (squoted ''time'' @ ''|number''),
     flag [''--force-colour''] ''force colourised output (deprecated)'' (boundUnaryFunction forceColour),
     valued [''--use-colour''] ''should output be colourised'' (stringOption setUseColour) ''yes|no'']"

definition makeCommandLineParser :: "cli_env \<Rightarrow> config_data command_line res" where
  "makeCommandLineParser env =
     foldl bindR (Inr (bindProcessName (boundStringMember processName_update) newCommandLine)) (option_table env)"

section \<open>Sessions with arguments\<close>

record command_session =
  m_cli :: "config_data command_line"
  m_unusedTokens :: "token list"
  the_session :: session

text \<open>The constructor; the flag says whether a session was made before.\<close>

definition newSession :: "cli_env \<Rightarrow> bool \<Rightarrow> hub \<Rightarrow> command_session res" where
  "newSession env alreadyInstantiated h =
     bindR (makeCommandLineParser env) (\<lambda>cl.
       if alreadyInstantiated then Inl (Throws (Exn ''Only one instance of Catch::Session can ever be used''))
       else Inr \<lparr>m_cli = cl, m_unusedTokens = [],
         the_session = \<lparr>s_configData = newConfigData, s_config = None, s_hub = h, s_cout = [], s_cerr = []\<rparr>\<rparr>)"

definition argsToVector :: "nat \<Rightarrow> string list \<Rightarrow> string list res" where
  "argsToVector argc argv = (if argc \<le> length argv then Inr (take argc argv) else Inl (Undefined Buffer_overread))"

definition on_session :: "(session \<Rightarrow> session) \<Rightarrow> (command_session, unit) action" where
  "on_session g = putS (the_session_update g)"

text \<open>What is written while an action on a stream runs is written even if it throws.\<close>

definition to_cout :: "(string, unit) action \<Rightarrow> (command_session, unit) action" where
  "to_cout m cs = (case m [] of (out, r) \<Rightarrow> (the_session_update (write_out out) cs, r))"

definition session_help :: "string \<Rightarrow> (command_session, unit) action" where
  "session_help procName cs =
     to_cout (bindS (put_out ([newline] @ ''Catch v'' @ show_version libraryVersion @ endl)) (\<lambda>_.
              bindS (usage procName (m_cli cs)) (\<lambda>_.
                put_out (''For more detail usage please see the project docs'' @ endl @ endl)))) cs"

definition on_configData :: "(config_data, 'a) action \<Rightarrow> (command_session, 'a) action" where
  "on_configData m cs =
     (case m (s_configData (the_session cs)) of
        (d, r) \<Rightarrow> (the_session_update (s_configData_update (\<lambda>_. d)) cs, r))"

definition set_unused :: "token list \<Rightarrow> (command_session, unit) action" where
  "set_unused ts = putS (m_unusedTokens_update (\<lambda>_. ts))"

definition try_arguments :: "nat \<Rightarrow> string list \<Rightarrow> (command_session, unit) action" where
  "try_arguments argc argv =
     bindS (liftS (argsToVector argc argv)) (\<lambda>args.
     bindS (\<lambda>cs. bindS (on_configData (parseInto (m_cli cs) args)) set_unused cs) (\<lambda>_.
     bindS (\<lambda>cs. if showHelp (s_configData (the_session cs))
                  then session_help (processName (s_configData (the_session cs))) cs else returnS () cs) (\<lambda>_.
       on_session (s_config_update (\<lambda>_. None)))))"

text \<open>Input errors are shown, then the usage text.\<close>

definition input_error :: "string \<Rightarrow> (command_session, int) action" where
  "input_error msg =
     bindS (on_session (write_err ([newline] @ ''Error(s) in input:'' @ [newline]))) (\<lambda>_.
     bindS (liftS (text_of msg (setIndent 2 newTextAttributes))) (\<lambda>t.
     bindS (on_session (write_err (t @ [newline, newline]))) (\<lambda>_.
     bindS (\<lambda>cs. to_cout (usage (processName (s_configData (the_session cs))) (m_cli cs)) cs) (\<lambda>_.
       returnS int_max))))"

definition applyCommandLine :: "nat \<Rightarrow> string list \<Rightarrow> bool \<Rightarrow> (command_session, int) action" where
  "applyCommandLine argc argv failOnUnused cs =
     (case try_arguments argc argv (m_cli_update (setThrowOnUnrecognisedTokens failOnUnused) cs) of
        (cs', Inr _) \<Rightarrow> (cs', Inr 0)
      | (cs', Inl (Throws e)) \<Rightarrow> input_error (what e) cs'
      | (cs', Inl f) \<Rightarrow> (cs', Inl f))"

definition run_with_arguments ::
  "(string \<Rightarrow> bool) \<Rightarrow> (run_test_case list \<Rightarrow> run_test_case list) \<Rightarrow> answers \<Rightarrow> nat \<Rightarrow> string list \<Rightarrow> command_session \<Rightarrow>
     (int res \<times> command_session) option" where
  "run_with_arguments writable shuffle clears argc argv cs =
     (case applyCommandLine argc argv True cs of
        (cs', Inl f) \<Rightarrow> Some (Inl f, cs')
      | (cs', Inr code) \<Rightarrow>
          (if code \<noteq> 0 then Some (Inr code, cs')
           else map_option (\<lambda>(r, s). (r, cs'\<lparr>the_session := s\<rparr>)) (session_run writable shuffle clears (the_session cs'))))"

definition tests_main ::
  "cli_env \<Rightarrow> (run_test_case list \<Rightarrow> run_test_case list) \<Rightarrow> answers \<Rightarrow> hub \<Rightarrow> nat \<Rightarrow> string list \<Rightarrow>
     (int res \<times> session option) option" where
  "tests_main env shuffle clears h argc argv =
     (case newSession env False h of
        Inl f \<Rightarrow> Some (Inl f, None)
      | Inr cs \<Rightarrow> map_option (map_prod id (\<lambda>cs'. Some (the_session cs'))) (run_with_arguments (env_writable env) shuffle clears argc argv cs))"

section \<open>The parser that is made\<close>

text \<open>The command line of the tests, written out.\<close>

definition opt :: "string list \<Rightarrow> string \<Rightarrow> string \<Rightarrow> 'c arg_function \<Rightarrow> string \<Rightarrow> 'c arg" where
  "opt shorts long descr f ph =
     \<lparr>boundField = Some f, arg_description = descr, arg_detail = [], placeholder = ph, shortNames = shorts,
      longName = long, arg_position = -1\<rparr>"

definition catch_cli :: "cli_env \<Rightarrow> config_data command_line" where
  "catch_cli env =
    \<lparr>m_boundProcessName = boundStringMember processName_update,
     m_options =
      [opt [''?'', ''h''] ''help'' ''display usage information'' (boundBoolMember showHelp_update) [],
       opt [''l''] ''list-tests'' ''list all/matching test cases'' (boundBoolMember listTests_update) [],
       opt [''t''] ''list-tags'' ''list all/matching tags'' (boundBoolMember listTags_update) [],
       opt [''s''] ''success'' ''include successful tests in output'' (boundBoolMember showSuccessfulTests_update) [],
       opt [''b''] ''break'' ''break into debugger on failure'' (boundBoolMember shouldDebugBreak_update) [],
       opt [''e''] ''nothrow'' ''skip exception tests'' (boundBoolMember noThrow_update) [],
       opt [''i''] ''invisibles'' ''show invisibles (tabs, newlines)'' (boundBoolMember showInvisibles_update) [],
       opt [''o''] ''out'' ''output filename'' (boundStringMember outputFilename_update) ''filename'',
       opt [''r''] ''reporter'' ''reporter to use (defaults to console)'' (stringOption addReporterName) ''name'',
       opt [''n''] ''name'' ''suite name'' (boundStringMember run_name_update) ''name'',
       opt [''a''] ''abort'' ''abort at first failure'' (boundUnaryFunction abortAfterFirst) [],
       opt [''x''] ''abortx'' ''abort after x failures'' (boundBinaryFunction convertInto_int False abortAfterX) ''no. failures'',
       opt [''w''] ''warn'' ''enable warnings'' (stringOption addWarning) ''warning name'',
       opt [''d''] ''durations'' ''show test durations'' (boundBinaryFunction convertInto_bool True setShowDurations) ''yes|no'',
       opt [''f''] ''input-file'' ''load test names to run from a file'' (stringOption (loadTestNamesFromFile env)) ''filename'',
       opt [''#''] ''filenames-as-tags'' ''adds a tag for the filename'' (boundBoolMember filenamesAsTags_update) [],
       opt [] ''list-test-names-only'' ''list all/matching test cases names only'' (boundBoolMember listTestNamesOnly_update) [],
       opt [] ''list-reporters'' ''list all reporters'' (boundBoolMember listReporters_update) [],
       opt [] ''order'' ''test case order (defaults to decl)'' (stringOption setOrder) ''decl|lex|rand'',
       opt [] ''rng-seed'' ''set a specific seed for random numbers'' (stringOption (setRngSeed env)) (squoted ''time'' @ ''|number''),
       opt [] ''force-colour'' ''force colourised output (deprecated)'' (boundUnaryFunction forceColour) [],
       opt [] ''use-colour'' ''should output be colourised'' (stringOption setUseColour) ''yes|no''],
     m_positionalArgs = [],
     m_floatingArg = Some \<lparr>boundField = Some (stringOption addTestOrTags), arg_description = ''which test or tests to use'',
       arg_detail = [], placeholder = ''test name, pattern or tags'', shortNames = [], longName = [], arg_position = -1\<rparr>,
     m_highestSpecifiedArgPosition = 0, m_throwOnUnrecognisedTokens = False\<rparr>"

lemma cli_names:
  "add_option [CHR ''-'' # CHR ''-'' # n] mk cl = Inr (cl\<lparr>m_options := m_options cl @ [mk (newArg\<lparr>longName := n\<rparr>)]\<rparr>)"
  "c \<noteq> CHR ''-'' \<Longrightarrow> add_option [[CHR ''-'', c], CHR ''-'' # CHR ''-'' # n] mk cl =
     Inr (cl\<lparr>m_options := m_options cl @ [mk (newArg\<lparr>shortNames := [[c]], longName := n\<rparr>)]\<rparr>)"
  "c \<noteq> CHR ''-'' \<Longrightarrow> c' \<noteq> CHR ''-'' \<Longrightarrow> add_option [[CHR ''-'', c], [CHR ''-'', c'], CHR ''-'' # CHR ''-'' # n] mk cl =
     Inr (cl\<lparr>m_options := m_options cl @ [mk (newArg\<lparr>shortNames := [[c], [c']], longName := n\<rparr>)]\<rparr>)"
  by (simp_all add: cli_option_def last_option_def addOptName_def clara_startsWith_def newArg_def)

lemma makeCommandLineParser_eq: "makeCommandLineParser env = Inr (catch_cli env)"
  by (simp add: makeCommandLineParser_def option_table_def flag_def valued_def cli_names cli_floating_def newCommandLine_def
      bindProcessName_def arg_bind_def arg_bind_plain_def arg_describe_def newArg_def catch_cli_def opt_def
      del: add_option.simps)

lemma throws_only_member:
  "throws_only (boundBoolMember bupd)" "throws_only (boundStringMember supd)"
  by (auto simp: throws_only_def boundBoolMember_def boundStringMember_def bindS_def liftS_def putS_def
      convertInto_bool_def convertInto_string_def Let_def split: sum.splits if_splits prod.splits)

definition action_throws_only :: "('s, 'a) action \<Rightarrow> bool" where
  "action_throws_only m \<longleftrightarrow> (\<forall>s s' x. m s = (s', Inl x) \<longrightarrow> (\<exists>e. x = Throws e))"

lemma action_throws_only_simps [simp]:
  "action_throws_only (putS g)" "action_throws_only (returnS x)" "action_throws_only (throw m)"
  by (simp_all add: action_throws_only_def putS_def returnS_def throw_def failS_def)

lemma action_throws_only_bindS:
  assumes "action_throws_only m" "\<And>x. action_throws_only (k x)"
  shows "action_throws_only (bindS m k)"
proof -
  have "\<exists>e. x = Throws e" if b: "bindS m k s = (s', Inl x)" for s s' x
    using assms b by (cases "m s"; cases "snd (m s)") (auto simp: bindS_def action_throws_only_def)
  then show ?thesis by (simp add: action_throws_only_def)
qed

lemma action_throws_only_eachS: "(\<And>x. action_throws_only (f x)) \<Longrightarrow> action_throws_only (eachS f xs)"
  by (induction xs) (simp_all add: action_throws_only_bindS)

lemma conversions_throw_only:
  "action_throws_only (liftS (convertInto_int s))" "action_throws_only (liftS (convertInto_bool s))"
  "action_throws_only (liftS (convertInto_string s))"
  by (auto simp: action_throws_only_def liftS_def convertInto_bool_def convertInto_int_def convertInto_string_def Let_def
      split: prod.splits bool.splits if_splits)

lemma throws_only_iff: "throws_only f \<longleftrightarrow> (\<forall>s. action_throws_only (fn_set f s))"
  by (auto simp: throws_only_def action_throws_only_def)

lemma throws_only_function:
  assumes "action_throws_only f"
  shows "throws_only (boundUnaryFunction f)"
  using assms by (simp add: throws_only_iff boundUnaryFunction_def action_throws_only_bindS conversions_throw_only)

lemma throws_only_binary:
  assumes "\<And>s. action_throws_only (liftS (conv s) :: ('c, 't) action)" "\<And>v. action_throws_only (g v)"
  shows "throws_only (boundBinaryFunction conv b g :: 'c arg_function)"
  using assms by (simp add: throws_only_iff boundBinaryFunction_def action_throws_only_bindS)

lemma option_functions_throw_only:
  "action_throws_only abortAfterFirst" "action_throws_only (abortAfterX x)" "action_throws_only (addTestOrTags s)"
  "action_throws_only (addReporterName s)" "action_throws_only (addWarning s)" "action_throws_only (setOrder s)"
  "action_throws_only (setRngSeed env s)" "action_throws_only (setShowDurations b)" "action_throws_only (setUseColour s)"
  "action_throws_only forceColour" "action_throws_only (loadTestName l)" "action_throws_only (loadTestNamesFromFile env s)"
proof -
  show tests: "action_throws_only (addTestOrTags s)" for s by (simp add: addTestOrTags_def)
  show line: "action_throws_only (loadTestName l)" for l using tests by (simp add: loadTestName_def Let_def)
  show "action_throws_only (loadTestNamesFromFile env s)"
    by (simp add: loadTestNamesFromFile_def action_throws_only_eachS line split: option.split)
  show "action_throws_only (setRngSeed env s)"
    by (simp add: setRngSeed_def Let_def split_beta action_throws_only_bindS)
qed (simp_all add: abortAfterFirst_def abortAfterX_def addReporterName_def addWarning_def setOrder_def
    setShowDurations_def setUseColour_def forceColour_def Let_def)

lemma options_ok_catch_cli: "options_ok (catch_cli env)"
  by (simp add: options_ok_def catch_cli_def opt_def throws_only_member throws_only_function throws_only_binary conversions_throw_only
      option_functions_throw_only stringOption_def)


end
