(* ===== verification/Catch_Arguments.thy ===== *)
theory Catch_Arguments
  imports Catch_Command_Line
begin

text \<open>
  A configuration written as arguments: it is read back, and the tests run by it. An option that is not
  known stops the tests before anything is run.
\<close>

section \<open>A configuration as arguments\<close>

definition flag_argument :: "bool \<Rightarrow> string \<Rightarrow> argument list" where
  "flag_argument b n = (if b then [Name n None] else [])"

definition text_argument :: "string \<Rightarrow> string \<Rightarrow> argument list" where
  "text_argument n w = (if w = [] then [] else [Name n (Some (CHR ''='', w))])"

definition show_durations_value :: "show_durations \<Rightarrow> string" where
  "show_durations_value s = (case s of DefaultForReporter \<Rightarrow> [] | Always \<Rightarrow> ''yes'' | Never \<Rightarrow> ''no'')"

definition order_value :: "run_order \<Rightarrow> string" where
  "order_value r = (case r of InDeclarationOrder \<Rightarrow> [] | InLexicographicalOrder \<Rightarrow> ''lex'' | InRandomOrder \<Rightarrow> ''rand'')"

definition colour_value :: "use_colour \<Rightarrow> string" where
  "colour_value u = (case u of Auto \<Rightarrow> [] | Yes \<Rightarrow> ''yes'' | No \<Rightarrow> ''no'')"

definition option_arguments :: "config_data \<Rightarrow> argument list list" where
  "option_arguments d =
    [flag_argument (showHelp d) ''help'', flag_argument (listTests d) ''list-tests'', flag_argument (listTags d) ''list-tags'',
     flag_argument (showSuccessfulTests d) ''success'', flag_argument (shouldDebugBreak d) ''break'',
     flag_argument (noThrow d) ''nothrow'', flag_argument (showInvisibles d) ''invisibles'',
     text_argument ''out'' (outputFilename d), concat (map (text_argument ''reporter'') (reporterNames d)),
     text_argument ''name'' (run_name d),
     text_argument ''abortx'' (if abortAfter d = -1 then [] else dec (nat (abortAfter d))),
     text_argument ''warn'' (if warnNoAssertions d then ''NoAssertions'' else []),
     text_argument ''durations'' (show_durations_value (cfg_showDurations d)),
     flag_argument (filenamesAsTags d) ''filenames-as-tags'', flag_argument (listTestNamesOnly d) ''list-test-names-only'',
     flag_argument (listReporters d) ''list-reporters'', text_argument ''order'' (order_value (runOrder d)),
     text_argument ''rng-seed'' (if cfg_rngSeed d = 0 then [] else dec (cfg_rngSeed d)),
     text_argument ''use-colour'' (colour_value (cfg_useColour d))]"

definition arguments_of :: "config_data \<Rightarrow> argument list" where
  "arguments_of d = concat (option_arguments d) @ map Word (testsOrTags d)"

text \<open>The configurations that arguments can give, but for the name of the process.\<close>

definition expressible :: "config_data \<Rightarrow> bool" where
  "expressible d \<longleftrightarrow> cfg_verbosity d = Normal \<and> (abortAfter d = -1 \<or> 1 \<le> abortAfter d \<and> abortAfter d < 2 ^ 31)
     \<and> cfg_rngSeed d < 2 ^ 32
     \<and> (\<forall>w \<in> {outputFilename d, run_name d}. w = [] \<or> plain_word w)
     \<and> (\<forall>w \<in> set (reporterNames d) \<union> set (testsOrTags d). plain_word w)"

lemma read_number_dec [simp]: "read_number (dec n) = (False, dec n)"
proof -
  obtain c cs where ds: "dec n = c # cs" by (cases "dec n") auto
  then have c: "is_digit c" using dec_digits [of c n] by simp
  then have "c \<noteq> CHR ''-''" "c \<noteq> CHR ''+''" by auto
  then have "strip_sign (dropWhile is_space (dec n)) = (False, dec n)" using ds c by (simp add: is_space_not_digit)
  moreover have "takeWhile is_digit (dec n) = dec n" using dec_digits by (simp add: takeWhile_eq_all_conv)
  ultimately show ?thesis by (simp add: read_number_def)
qed

lemma convertInto_int_dec: "n < 2 ^ 31 \<Longrightarrow> convertInto_int (dec n) = Inr (int n)"
  by (simp add: convertInto_int_def extract_int_def int_in_range_def)

lemma extract_unsigned_dec: "n < 2 ^ 32 \<Longrightarrow> extract_unsigned (dec n) = (n, True)"
  by (simp add: extract_unsigned_def)

lemma dec_not_time: "dec n \<noteq> ''time''"
  using dec_digits [of "CHR ''t''" n] by (auto simp: is_digit_def)

text \<open>What each option does when its token is met.\<close>

lemmas try_simps = catch_cli_def opt_def opt_matches_def hasShortName_def hasLongName_def Token_def takesArg_def
  bound_set_def boundBoolMember_def boundStringMember_def boundBinaryFunction_def boundUnaryFunction_def stringOption_def
  convertInto_string_def convertInto_bool_def toLower_def toLowerCh_def is_upper_def

definition flag_taken :: "config_data arg list \<Rightarrow> string \<Rightarrow> (config_data \<Rightarrow> config_data) \<Rightarrow> bool" where
  "flag_taken opts n g \<longleftrightarrow> (\<forall>rest errs c. try_options opts (Token LongOpt n) rest errs c = (g c, Inr (True, rest, errs)))"

definition value_taken :: "config_data arg list \<Rightarrow> string \<Rightarrow> string \<Rightarrow> (config_data \<Rightarrow> config_data) \<Rightarrow> bool" where
  "value_taken opts n w g \<longleftrightarrow>
     (\<forall>rest errs c. try_options opts (Token LongOpt n) (Token Positional w # rest) errs c = (g c, Inr (True, rest, errs)))"

lemma flags_taken:
  "flag_taken (m_options (catch_cli env)) ''help'' (showHelp_update (\<lambda>_. True))"
  "flag_taken (m_options (catch_cli env)) ''list-tests'' (listTests_update (\<lambda>_. True))"
  "flag_taken (m_options (catch_cli env)) ''list-tags'' (listTags_update (\<lambda>_. True))"
  "flag_taken (m_options (catch_cli env)) ''success'' (showSuccessfulTests_update (\<lambda>_. True))"
  "flag_taken (m_options (catch_cli env)) ''break'' (shouldDebugBreak_update (\<lambda>_. True))"
  "flag_taken (m_options (catch_cli env)) ''nothrow'' (noThrow_update (\<lambda>_. True))"
  "flag_taken (m_options (catch_cli env)) ''invisibles'' (showInvisibles_update (\<lambda>_. True))"
  "flag_taken (m_options (catch_cli env)) ''filenames-as-tags'' (filenamesAsTags_update (\<lambda>_. True))"
  "flag_taken (m_options (catch_cli env)) ''list-test-names-only'' (listTestNamesOnly_update (\<lambda>_. True))"
  "flag_taken (m_options (catch_cli env)) ''list-reporters'' (listReporters_update (\<lambda>_. True))"
  by (simp_all add: flag_taken_def try_simps putS_def)

lemma values_taken:
  "value_taken (m_options (catch_cli env)) ''out'' w (outputFilename_update (\<lambda>_. w))"
  "value_taken (m_options (catch_cli env)) ''reporter'' w (reporterNames_update (\<lambda>rs. rs @ [w]))"
  "value_taken (m_options (catch_cli env)) ''name'' w (run_name_update (\<lambda>_. w))"
  "0 < n \<Longrightarrow> n < 2 ^ 31 \<Longrightarrow> value_taken (m_options (catch_cli env)) ''abortx'' (dec n) (abortAfter_update (\<lambda>_. int n))"
  "value_taken (m_options (catch_cli env)) ''warn'' ''NoAssertions'' (warnNoAssertions_update (\<lambda>_. True))"
  "value_taken (m_options (catch_cli env)) ''durations'' ''yes'' (cfg_showDurations_update (\<lambda>_. Always))"
  "value_taken (m_options (catch_cli env)) ''durations'' ''no'' (cfg_showDurations_update (\<lambda>_. Never))"
  "value_taken (m_options (catch_cli env)) ''order'' ''lex'' (runOrder_update (\<lambda>_. InLexicographicalOrder))"
  "value_taken (m_options (catch_cli env)) ''order'' ''rand'' (runOrder_update (\<lambda>_. InRandomOrder))"
  "n < 2 ^ 32 \<Longrightarrow> value_taken (m_options (catch_cli env)) ''rng-seed'' (dec n) (cfg_rngSeed_update (\<lambda>_. n))"
  "value_taken (m_options (catch_cli env)) ''use-colour'' ''yes'' (cfg_useColour_update (\<lambda>_. Yes))"
  "value_taken (m_options (catch_cli env)) ''use-colour'' ''no'' (cfg_useColour_update (\<lambda>_. No))"
  by (simp_all add: value_taken_def try_simps putS_def addReporterName_def convertInto_int_dec abortAfterX_def addWarning_def
      setShowDurations_def setOrder_def startsWith_def setRngSeed_def extract_unsigned_dec dec_not_time setUseColour_def returnS_def)

section \<open>Reading a configuration back\<close>

definition reads :: "config_data command_line \<Rightarrow> argument list \<Rightarrow> (config_data \<Rightarrow> config_data) \<Rightarrow> bool" where
  "reads cl as g \<longleftrightarrow> (\<forall>rest unused errs c.
     populate_loop cl (concat (map argument_tokens as) @ rest) unused errs c = populate_loop cl rest unused errs (g c))"

lemma update_same [simp]:
  "abortAfter_update (\<lambda>x. x) c = c" "warnNoAssertions_update (\<lambda>x. x) c = c" "cfg_showDurations_update (\<lambda>x. x) c = c"
  "runOrder_update (\<lambda>x. x) c = c" "cfg_rngSeed_update (\<lambda>x. x) c = c" "cfg_useColour_update (\<lambda>x. x) c = c"
  "outputFilename_update (\<lambda>x. x) c = c" "run_name_update (\<lambda>x. x) c = c" "reporterNames_update (\<lambda>x. x) c = c"
  "showHelp_update (\<lambda>x. x) c = c" "listTests_update (\<lambda>x. x) c = c" "listTags_update (\<lambda>x. x) c = c"
  "listReporters_update (\<lambda>x. x) c = c" "listTestNamesOnly_update (\<lambda>x. x) c = c" "showSuccessfulTests_update (\<lambda>x. x) c = c"
  "shouldDebugBreak_update (\<lambda>x. x) c = c" "noThrow_update (\<lambda>x. x) c = c" "showInvisibles_update (\<lambda>x. x) c = c"
  "filenamesAsTags_update (\<lambda>x. x) c = c"
  by (cases c; simp)+

lemma or_functions [simp]: "(\<or>) True = (\<lambda>_. True)" "(\<or>) False = (\<lambda>x. x)"
  by auto

lemma reads_append: "reads cl as g \<Longrightarrow> reads cl bs h \<Longrightarrow> reads cl (as @ bs) (\<lambda>c. h (g c))"
  by (simp add: reads_def)

lemma reads_flag:
  assumes "flag_taken (m_options cl) n (upd (\<lambda>_. True))" "\<And>c. upd (\<lambda>x. x) c = c"
  shows "reads cl (flag_argument b n) (upd (\<lambda>x. b \<or> x))"
proof -
  have "(\<lambda>x. b \<or> x) = (if b then (\<lambda>_. True) else (\<lambda>x. x))" by auto
  then show ?thesis using assms by (simp add: reads_def flag_argument_def flag_taken_def value_token_def)
qed

lemma reads_text:
  assumes "w \<noteq> [] \<Longrightarrow> value_taken (m_options cl) n w (upd (\<lambda>_. v))" "\<And>c. upd (\<lambda>x. x) c = c"
  shows "reads cl (text_argument n w) (upd (\<lambda>x. if w = [] then x else v))"
  using assms by (simp add: reads_def text_argument_def value_taken_def value_token_def)

lemma reads_reporters:
  assumes "\<And>w. value_taken (m_options cl) n w (reporterNames_update (\<lambda>rs. rs @ [w]))" "[] \<notin> set ws"
  shows "reads cl (concat (map (text_argument n) ws)) (reporterNames_update (\<lambda>rs. rs @ ws))"
  using assms(2)
proof (induction ws)
  case (Cons w ws)
  have w: "reads cl (text_argument n w) (reporterNames_update (\<lambda>rs. rs @ [w]))"
    using assms(1) [of w] Cons.prems by (auto simp: reads_def text_argument_def value_taken_def value_token_def)
  have eq: "(\<lambda>c. reporterNames_update (\<lambda>rs. rs @ ws) (reporterNames_update (\<lambda>rs. rs @ [w]) c))
      = reporterNames_update (\<lambda>rs. rs @ w # ws)" by (simp add: fun_eq_iff o_def)
  have "[] \<notin> set ws" using Cons.prems by simp
  from reads_append [OF w Cons.IH [OF this]] show ?case unfolding eq by simp
qed (simp add: reads_def)

lemma reads_value: "value_taken (m_options cl) n w g \<Longrightarrow> reads cl [Name n (Some (d, w))] g"
  by (simp add: reads_def value_taken_def value_token_def)

definition settings_of :: "config_data \<Rightarrow> config_data \<Rightarrow> config_data" where
  "settings_of d c =
     \<lparr>listTests = listTests d \<or> listTests c, listTags = listTags d \<or> listTags c,
      listReporters = listReporters d \<or> listReporters c, listTestNamesOnly = listTestNamesOnly d \<or> listTestNamesOnly c,
      showSuccessfulTests = showSuccessfulTests d \<or> showSuccessfulTests c,
      shouldDebugBreak = shouldDebugBreak d \<or> shouldDebugBreak c, noThrow = noThrow d \<or> noThrow c,
      showHelp = showHelp d \<or> showHelp c, showInvisibles = showInvisibles d \<or> showInvisibles c,
      filenamesAsTags = filenamesAsTags d \<or> filenamesAsTags c,
      abortAfter = (if abortAfter d = -1 then abortAfter c else abortAfter d),
      cfg_rngSeed = (if cfg_rngSeed d = 0 then cfg_rngSeed c else cfg_rngSeed d), cfg_verbosity = cfg_verbosity c,
      warnNoAssertions = warnNoAssertions d \<or> warnNoAssertions c,
      cfg_showDurations = (if cfg_showDurations d = DefaultForReporter then cfg_showDurations c else cfg_showDurations d),
      runOrder = (if runOrder d = InDeclarationOrder then runOrder c else runOrder d),
      cfg_useColour = (if cfg_useColour d = Auto then cfg_useColour c else cfg_useColour d),
      outputFilename = (if outputFilename d = [] then outputFilename c else outputFilename d),
      run_name = (if run_name d = [] then run_name c else run_name d), processName = processName c,
      reporterNames = reporterNames c @ reporterNames d, testsOrTags = testsOrTags c\<rparr>"

fun reads_all :: "config_data command_line \<Rightarrow> argument list list \<Rightarrow> (config_data \<Rightarrow> config_data) list \<Rightarrow> bool" where
  "reads_all cl [] [] \<longleftrightarrow> True"
| "reads_all cl (as # ass) (g # gs) \<longleftrightarrow> reads cl as g \<and> reads_all cl ass gs"
| "reads_all cl _ _ \<longleftrightarrow> False"

lemma reads_all_concat: "reads_all cl ass gs \<Longrightarrow> reads cl (concat ass) (\<lambda>c. foldl (\<lambda>c g. g c) c gs)"
  by (induction cl ass gs rule: reads_all.induct) (simp_all add: reads_def)

definition option_effects :: "config_data \<Rightarrow> (config_data \<Rightarrow> config_data) list" where
  "option_effects d =
    [showHelp_update (\<lambda>x. showHelp d \<or> x), listTests_update (\<lambda>x. listTests d \<or> x), listTags_update (\<lambda>x. listTags d \<or> x),
     showSuccessfulTests_update (\<lambda>x. showSuccessfulTests d \<or> x), shouldDebugBreak_update (\<lambda>x. shouldDebugBreak d \<or> x),
     noThrow_update (\<lambda>x. noThrow d \<or> x), showInvisibles_update (\<lambda>x. showInvisibles d \<or> x),
     outputFilename_update (\<lambda>x. if outputFilename d = [] then x else outputFilename d),
     reporterNames_update (\<lambda>xs. xs @ reporterNames d), run_name_update (\<lambda>x. if run_name d = [] then x else run_name d),
     abortAfter_update (\<lambda>x. if abortAfter d = -1 then x else abortAfter d),
     warnNoAssertions_update (\<lambda>x. warnNoAssertions d \<or> x),
     cfg_showDurations_update (\<lambda>x. if cfg_showDurations d = DefaultForReporter then x else cfg_showDurations d),
     filenamesAsTags_update (\<lambda>x. filenamesAsTags d \<or> x), listTestNamesOnly_update (\<lambda>x. listTestNamesOnly d \<or> x),
     listReporters_update (\<lambda>x. listReporters d \<or> x),
     runOrder_update (\<lambda>x. if runOrder d = InDeclarationOrder then x else runOrder d),
     cfg_rngSeed_update (\<lambda>x. if cfg_rngSeed d = 0 then x else cfg_rngSeed d),
     cfg_useColour_update (\<lambda>x. if cfg_useColour d = Auto then x else cfg_useColour d)]"

lemma option_effects_settings: "foldl (\<lambda>c g. g c) c (option_effects d) = settings_of d c"
  by (cases c) (simp add: option_effects_def settings_of_def)

lemma reads_settings:
  assumes "expressible d" "m_options cl = m_options (catch_cli env)"
  shows "reads cl (concat (option_arguments d)) (settings_of d)"
proof -
  note flags = flags_taken [where env = env, folded assms(2)]
  note vals = values_taken [where env = env, folded assms(2)]
  have "reads cl (text_argument ''abortx'' (if abortAfter d = -1 then [] else dec (nat (abortAfter d))))
      (abortAfter_update (\<lambda>x. if abortAfter d = -1 then x else abortAfter d))"
    using reads_value [OF vals(4) [of "nat (abortAfter d)"]] assms(1)
    by (auto simp: expressible_def text_argument_def reads_def)
  moreover have "reads cl (text_argument ''warn'' (if warnNoAssertions d then ''NoAssertions'' else []))
      (warnNoAssertions_update (\<lambda>x. warnNoAssertions d \<or> x))"
    using reads_value [OF vals(5)] by (cases "warnNoAssertions d") (simp_all add: text_argument_def reads_def)
  moreover have "reads cl (text_argument ''durations'' (show_durations_value (cfg_showDurations d)))
      (cfg_showDurations_update (\<lambda>x. if cfg_showDurations d = DefaultForReporter then x else cfg_showDurations d))"
    using reads_value [OF vals(6)] reads_value [OF vals(7)]
    by (cases "cfg_showDurations d") (simp_all add: show_durations_value_def reads_def text_argument_def)
  moreover have "reads cl (text_argument ''order'' (order_value (runOrder d)))
      (runOrder_update (\<lambda>x. if runOrder d = InDeclarationOrder then x else runOrder d))"
    using reads_value [OF vals(8)] reads_value [OF vals(9)]
    by (cases "runOrder d") (simp_all add: order_value_def reads_def text_argument_def)
  moreover have "reads cl (text_argument ''rng-seed'' (if cfg_rngSeed d = 0 then [] else dec (cfg_rngSeed d)))
      (cfg_rngSeed_update (\<lambda>x. if cfg_rngSeed d = 0 then x else cfg_rngSeed d))"
    using reads_value [OF vals(10) [of "cfg_rngSeed d"]] assms(1) by (auto simp: expressible_def text_argument_def reads_def)
  moreover have "reads cl (text_argument ''use-colour'' (colour_value (cfg_useColour d)))
      (cfg_useColour_update (\<lambda>x. if cfg_useColour d = Auto then x else cfg_useColour d))"
    using reads_value [OF vals(11)] reads_value [OF vals(12)]
    by (cases "cfg_useColour d") (simp_all add: colour_value_def reads_def text_argument_def)
  moreover have "reads cl (text_argument ''out'' w) (outputFilename_update (\<lambda>x. if w = [] then x else w))"
    "reads cl (text_argument ''name'' w) (run_name_update (\<lambda>x. if w = [] then x else w))" for w
    using reads_value [OF vals(1) [of w]] reads_value [OF vals(3) [of w]] by (auto simp: text_argument_def reads_def)
  moreover have "reads cl (concat (map (text_argument ''reporter'') (reporterNames d))) (reporterNames_update (\<lambda>rs. rs @ reporterNames d))"
    by (rule reads_reporters [OF vals(2)]) (use assms(1) in \<open>auto simp: expressible_def plain_word_def\<close>)
  ultimately have "reads_all cl (option_arguments d) (option_effects d)"
    unfolding option_arguments_def option_effects_def reads_all.simps
    by (intro conjI) (assumption | rule reads_flag flags | simp)+
  from reads_all_concat [OF this] show ?thesis unfolding option_effects_settings by simp
qed

lemma try_options_word: "token_type t = Positional \<Longrightarrow> try_options as t rest errs c = (c, Inr (False, rest, errs))"
  by (induction as) (simp_all add: opt_matches_def)

lemma populate_words:
  "populate_loop cl (map (Token Positional) ws) unused errs c = (c, Inr (unused @ map (Token Positional) ws, errs))"
  by (induction ws arbitrary: unused) (simp_all add: try_options_word Token_def unmatched_def)

lemma words_tokens: "concat (map argument_tokens (map Word ws)) = map (Token Positional) ws"
  by (induction ws) simp_all

lemma populateOptions_arguments:
  assumes "expressible d" "m_options cl = m_options (catch_cli env)"
  shows "populateOptions cl (concat (map argument_tokens (arguments_of d))) c =
    (settings_of d c, Inr (map (Token Positional) (testsOrTags d)))"
proof -
  have "populate_loop cl (concat (map argument_tokens (arguments_of d))) [] [] c =
      (settings_of d c, Inr (map (Token Positional) (testsOrTags d), []))"
    using reads_settings [OF assms] unfolding arguments_of_def map_append concat_append words_tokens reads_def
    by (simp only: populate_words append_Nil)
  then show ?thesis by (simp add: populateOptions_def bindS_def returnS_def)
qed

lemma fixed_loop_none: "m_positionalArgs cl = [] \<Longrightarrow> fixed_loop cl pos ts unused = returnS (unused @ ts)"
  by (induction ts arbitrary: pos unused) (simp_all add: Let_def)

lemma floating_words:
  assumes "boundField a = Some (stringOption addTestOrTags)"
  shows "floating_loop a (map (Token Positional) ws) unused c = (testsOrTags_update (\<lambda>xs. xs @ ws) c, Inr unused)"
proof (induction ws arbitrary: c)
  case Nil
  show ?case by (cases c) (simp add: returnS_def)
next
  case (Cons w ws)
  have "bound_set (boundField a) w c = (testsOrTags_update (\<lambda>xs. xs @ [w]) c, Inr ())"
    by (simp add: assms bound_set_def stringOption_def boundBinaryFunction_def convertInto_string_def addTestOrTags_def putS_def)
  then show ?case using Cons by (simp add: Token_def bindS_def o_def)
qed

lemma validate_all_bound: "\<forall>a\<in>set as. boundField a \<noteq> None \<Longrightarrow> validate_all as = Inr ()"
  by (induction as) (auto simp: arg_validate_def bound_isSet_def)

lemma validate_catch_cli [simp]: "validate (setThrowOnUnrecognisedTokens b (catch_cli env)) = Inr ()"
proof -
  have "validate_all (m_options (catch_cli env)) = Inr ()"
    by (rule validate_all_bound) (use options_ok_catch_cli [of env] in \<open>auto simp: options_ok_def\<close>)
  moreover have "m_options (catch_cli env) \<noteq> []" by (simp add: catch_cli_def)
  ultimately show ?thesis by (simp add: validate_def setThrowOnUnrecognisedTokens_def)
qed

lemma plain_word_dec: "plain_word (dec n)"
proof -
  have "is_digit (hd (dec n))" by (rule hd_dec_digit)
  then have "hd (dec n) \<noteq> CHR ''-''" by auto
  moreover have "quote \<notin> set (dec n)" "CHR 0x00 \<notin> set (dec n)"
    using dec_digits [of quote n] dec_digits [of "CHR 0x00" n] by (auto simp: is_digit_def quote_def)
  ultimately show ?thesis by (simp add: plain_word_def)
qed

lemma text_argument_ok: "plain_name n \<Longrightarrow> w = [] \<or> plain_word w \<Longrightarrow> \<forall>a\<in>set (text_argument n w). argument_ok a"
  by (auto simp: text_argument_def plain_value_def)

lemma flag_argument_ok: "plain_name n \<Longrightarrow> \<forall>a\<in>set (flag_argument b n). argument_ok a"
  by (simp add: flag_argument_def plain_value_def)

lemma plain_names:
  "list_all plain_name [''help'', ''list-tests'', ''list-tags'', ''success'', ''break'', ''nothrow'', ''invisibles'', ''out'',
     ''reporter'', ''name'', ''abortx'', ''warn'', ''durations'', ''filenames-as-tags'', ''list-test-names-only'',
     ''list-reporters'', ''order'', ''rng-seed'', ''use-colour'']"
  by (simp add: plain_name_def quote_def)

lemma arguments_ok:
  assumes "expressible d"
  shows "\<forall>a\<in>set (arguments_of d). argument_ok a"
proof -
  note n = plain_names [unfolded list.pred_inject]
  have lit: "plain_word ''NoAssertions''" "plain_word ''yes''" "plain_word ''no''" "plain_word ''lex''" "plain_word ''rand''"
    by (simp_all add: plain_word_def quote_def)
  have vals: "show_durations_value x = [] \<or> plain_word (show_durations_value x)" for x
    by (cases x) (simp_all add: show_durations_value_def lit)
  have vals': "order_value y = [] \<or> plain_word (order_value y)" for y by (cases y) (simp_all add: order_value_def lit)
  have vals'': "colour_value z = [] \<or> plain_word (colour_value z)" for z by (cases z) (simp_all add: colour_value_def lit)
  have d: "outputFilename d = [] \<or> plain_word (outputFilename d)" "run_name d = [] \<or> plain_word (run_name d)"
    "\<forall>w\<in>set (reporterNames d). plain_word w"
    using assms by (simp_all add: expressible_def)
  have reps: "\<forall>a\<in>set (concat (map (text_argument ''reporter'') (reporterNames d))). argument_ok a"
    using text_argument_ok [of "''reporter''"] n d(3) by fastforce
  have "\<forall>as\<in>set (option_arguments d). \<forall>a\<in>set as. argument_ok a"
    unfolding option_arguments_def list.set ball_simps
    by (intro conjI reps flag_argument_ok text_argument_ok d vals vals' vals''; (simp only: n simp_thms)?) (simp_all add: plain_word_dec lit)
  moreover have "\<forall>w\<in>set (testsOrTags d). plain_word w" using assms by (simp add: expressible_def)
  ultimately show ?thesis by (auto simp: arguments_of_def)
qed

lemma fn_set_processName: "fn_set (boundStringMember processName_update) s c = (c\<lparr>processName := s\<rparr>, Inr ())"
  by (simp add: boundStringMember_def convertInto_string_def putS_def)

lemma settings_of_new:
  assumes "cfg_verbosity d = Normal"
  shows "testsOrTags_update (\<lambda>xs. xs @ testsOrTags d) (settings_of d (newConfigData\<lparr>processName := processName d\<rparr>)) = d"
  using assms by (cases d) (simp add: settings_of_def newConfigData_def)

text \<open>
  Whatever configuration arguments can give, they do give: the arguments written for it are accepted,
  nothing is left over, and a new configuration becomes the one that was written.
\<close>

lemma parseInto_arguments:
  assumes "expressible d" "process_name prog = processName d"
  shows "parseInto (setThrowOnUnrecognisedTokens b (catch_cli env)) (prog # map show_argument (arguments_of d)) newConfigData
    = (d, Inr [])"
proof -
  let ?cl = "setThrowOnUnrecognisedTokens b (catch_cli env)" and ?c = "newConfigData\<lparr>processName := processName d\<rparr>"
  obtain a where cl: "m_options ?cl = m_options (catch_cli env)" "m_positionalArgs ?cl = []"
    "m_boundProcessName ?cl = boundStringMember processName_update"
    "m_floatingArg ?cl = Some a" "boundField a = Some (stringOption addTestOrTags)"
    by (simp add: setThrowOnUnrecognisedTokens_def catch_cli_def)
  have toks: "parseIntoTokens (prog # map show_argument (arguments_of d)) = Inr (concat (map argument_tokens (arguments_of d)))"
    using tokens_of_arguments [OF arguments_ok [OF assms(1)], of "[]" prog] by simp
  have "cfg_verbosity d = Normal" using assms(1) by (simp add: expressible_def)
  note new = settings_of_new [OF this]
  have "populate ?cl (concat (map argument_tokens (arguments_of d))) ?c = (d, Inr [])"
    by (simp only: populate_def validate_catch_cli action_simps bindS_def populateOptions_arguments [OF assms(1) cl(1)]
        prod.case sum.case populateFixedArgs_def fixed_loop_none [OF cl(2)] returnS_def append_Nil
        populateFloatingArgs_def cl(4) option.case floating_words [OF cl(5)] new liftS_def)
  then show ?thesis
    by (simp only: parseInto_def list.sel list.simps if_False bindS_def cl(3) fn_set_processName assms(2) prod.case sum.case
        toks liftS_def)
qed

section \<open>Running the tests with arguments\<close>

definition fresh_session :: "hub \<Rightarrow> config_data \<Rightarrow> session" where
  "fresh_session h d = \<lparr>s_configData = d, s_config = None, s_hub = h, s_cout = [], s_cerr = []\<rparr>"

lemma newSession_eq:
  "newSession env False h = Inr \<lparr>m_cli = catch_cli env, m_unusedTokens = [], the_session = fresh_session h newConfigData\<rparr>"
  by (simp add: newSession_def makeCommandLineParser_eq fresh_session_def)

lemma try_arguments_parsed:
  assumes "parseInto (m_cli cs) argv (s_configData (the_session cs)) = (d, r)"
  shows "try_arguments (length argv) argv cs =
    (let cs1 = the_session_update (s_configData_update (\<lambda>_. d)) cs
     in case r of
          Inl f \<Rightarrow> (cs1, Inl f)
        | Inr unused \<Rightarrow>
            bindS (\<lambda>cs. if showHelp d then session_help (processName d) cs else returnS () cs)
              (\<lambda>_. on_session (s_config_update (\<lambda>_. None))) (cs1\<lparr>m_unusedTokens := unused\<rparr>))"
proof -
  have "on_configData (parseInto (m_cli cs) argv) cs = (the_session_update (s_configData_update (\<lambda>_. d)) cs, r)"
    using assms by (simp add: on_configData_def)
  then show ?thesis
    by (cases r) (simp_all add: try_arguments_def argsToVector_def bindS_def set_unused_def putS_def liftS_def Let_def)
qed

text \<open>
  C37. The tests run as their arguments say: with the arguments written for a configuration that does
  not ask for help, the process does what a session does that was given the configuration itself.
\<close>

theorem tests_run_as_configured:
  assumes "expressible d" "process_name prog = processName d" "\<not> showHelp d"
  shows "tests_main env shuffle clears h (Suc (length (arguments_of d))) (prog # map show_argument (arguments_of d)) =
    map_option (map_prod id Some) (session_run (env_writable env) shuffle clears (fresh_session h d))"
proof -
  let ?argv = "prog # map show_argument (arguments_of d)"
  let ?cs = "\<lparr>m_cli = setThrowOnUnrecognisedTokens True (catch_cli env), m_unusedTokens = [], the_session = fresh_session h newConfigData\<rparr>"
  have "try_arguments (length ?argv) ?argv ?cs = (?cs\<lparr>the_session := fresh_session h d\<rparr>, Inr ())"
    by (subst try_arguments_parsed [where d = d and r = "Inr []"])
      (simp_all add: parseInto_arguments [OF assms(1,2)] fresh_session_def assms(3) bindS_def returnS_def on_session_def putS_def)
  then show ?thesis
    by (simp add: tests_main_def newSession_eq run_with_arguments_def applyCommandLine_def option.map_comp o_def
        split_beta' map_prod_def)
qed

definition no_files :: cli_env where
  "no_files = \<lparr>env_files = (\<lambda>_. None), env_writable = (\<lambda>_. False), env_time = 0\<rparr>"

lemma tests_run_as_configured_witness:
  "tests_main no_files id (\<lambda>_ _ _ _. False) example_hub 2 [''bin/tests'', ''--order=lex''] =
    map_option (map_prod id Some)
      (session_run (env_writable no_files) id (\<lambda>_ _ _ _. False) (fresh_session example_hub (newConfigData\<lparr>runOrder := InLexicographicalOrder, processName := ''tests''\<rparr>)))"
proof -
  let ?d = "newConfigData\<lparr>runOrder := InLexicographicalOrder, processName := ''tests''\<rparr>"
  have "expressible ?d" "\<not> showHelp ?d" by (simp_all add: expressible_def newConfigData_def)
  moreover have "process_name ''bin/tests'' = processName ?d" by (simp add: process_name_def eval_nat_numeral)
  moreover have "map show_argument (arguments_of ?d) = [''--order=lex'']" "length (arguments_of ?d) = 1"
    by (simp_all add: arguments_of_def option_arguments_def newConfigData_def flag_argument_def text_argument_def
        show_durations_value_def order_value_def colour_value_def)
  ultimately show ?thesis
    using tests_run_as_configured [of ?d "''bin/tests''" no_files id "\<lambda>_ _ _ _. False" example_hub] by (simp add: numeral_2_eq_2)
qed

section \<open>Errors in the arguments\<close>

text \<open>
  A tab in a message would be read past (lemma \<open>tab_reads_past_the_end\<close>). No message has one unless an
  argument has.
\<close>

definition tabless :: "string \<Rightarrow> bool" where
  "tabless s \<longleftrightarrow> CHR 0x09 \<notin> set s"

lemma tabless_simps [simp]:
  "tabless []" "tabless (c # s) \<longleftrightarrow> c \<noteq> CHR 0x09 \<and> tabless s" "tabless (s @ s') \<longleftrightarrow> tabless s \<and> tabless s'"
  by (auto simp: tabless_def)

lemma tabless_newline [simp]: "newline \<noteq> CHR 0x09"
  by (simp add: newline_def)

definition quiet :: "('s, 'a) action \<Rightarrow> bool" where
  "quiet m \<longleftrightarrow> (\<forall>s s' e. m s = (s', Inl (Throws e)) \<longrightarrow> tabless (what e))"

definition quiet_function :: "'c arg_function \<Rightarrow> bool" where
  "quiet_function f \<longleftrightarrow> (\<forall>s. tabless s \<longrightarrow> quiet (fn_set f s))"

lemma quiet_simps [simp]:
  "quiet (putS g)" "quiet (returnS x)" "tabless m \<Longrightarrow> quiet (throw m)"
  by (auto simp: quiet_def putS_def returnS_def throw_def failS_def)

lemma quiet_bindS:
  assumes "quiet m" "\<And>x. quiet (k x)"
  shows "quiet (bindS m k)"
proof -
  have "tabless (what e)" if b: "bindS m k s = (s', Inl (Throws e))" for s s' e
    using assms b by (cases "m s"; cases "snd (m s)") (auto simp: bindS_def quiet_def)
  then show ?thesis by (simp add: quiet_def)
qed

lemma quiet_eachS: "(\<And>x. quiet (f x)) \<Longrightarrow> quiet (eachS f xs)"
  by (induction xs) (simp_all add: quiet_bindS)

lemma quiet_conversions:
  assumes "tabless s"
  shows "quiet (liftS (convertInto_int s))" "quiet (liftS (convertInto_bool s))" "quiet (liftS (convertInto_string s))"
  using assms
  by (auto simp: quiet_def liftS_def convertInto_bool_def convertInto_int_def convertInto_string_def Let_def squoted_def
      split: prod.splits bool.splits if_splits)

lemma quiet_function_bound:
  "quiet_function (boundBoolMember bupd)" "quiet_function (boundStringMember supd)"
  "quiet f \<Longrightarrow> quiet_function (boundUnaryFunction f)"
  by (simp_all add: quiet_function_def boundBoolMember_def boundStringMember_def boundUnaryFunction_def quiet_bindS quiet_conversions)

lemma quiet_functions:
  "quiet abortAfterFirst" "quiet (abortAfterX x)" "quiet (addTestOrTags s)" "quiet (addReporterName s)"
  "quiet (setRngSeed env s)" "quiet (setShowDurations b)" "quiet (setUseColour s)" "quiet forceColour" "quiet (loadTestName l)"
  "tabless s \<Longrightarrow> quiet (addWarning s)" "tabless s \<Longrightarrow> quiet (setOrder s)" "tabless s \<Longrightarrow> quiet (loadTestNamesFromFile env s)"
proof -
  show tests: "quiet (addTestOrTags s)" for s by (simp add: addTestOrTags_def)
  show line: "quiet (loadTestName l)" for l using tests by (simp add: loadTestName_def Let_def)
  show "tabless s \<Longrightarrow> quiet (loadTestNamesFromFile env s)"
    by (simp add: loadTestNamesFromFile_def quiet_eachS line split: option.split)
  show "quiet (setRngSeed env s)"
    by (simp add: setRngSeed_def Let_def split_beta quiet_bindS squoted_def)
qed (simp_all add: abortAfterFirst_def abortAfterX_def addReporterName_def addWarning_def setOrder_def
    setShowDurations_def setUseColour_def forceColour_def Let_def squoted_def)

lemma quiet_options:
  "\<forall>a\<in>set (m_options (catch_cli env)). tabless (commands a) \<and> (\<exists>f. boundField a = Some f \<and> quiet_function f)"
proof -
  have conv: "quiet_function (boundBinaryFunction convertInto_int False abortAfterX)"
    "quiet_function (boundBinaryFunction convertInto_bool True setShowDurations)"
    by (simp_all add: quiet_function_def boundBinaryFunction_def quiet_bindS quiet_conversions quiet_functions)
  have str: "quiet_function (stringOption f)" if "\<And>s. tabless s \<Longrightarrow> quiet (f s)" for f
  proof -
    have "quiet (bindS (liftS (convertInto_string s)) f)" if "tabless s" for s
      using \<open>\<And>s. tabless s \<Longrightarrow> quiet (f s)\<close> [OF that] by (simp add: convertInto_string_def)
    then show ?thesis by (simp add: quiet_function_def stringOption_def boundBinaryFunction_def)
  qed
  show ?thesis
    by (simp add: catch_cli_def opt_def commands_def quiet_function_bound conv str quiet_functions squoted_def)
qed

lemma try_options_tabless:
  assumes "try_options as t rest errs c = (c', Inr (found, rest', errs'))"
    and "\<forall>a\<in>set as. tabless (commands a) \<and> (\<exists>f. boundField a = Some f \<and> quiet_function f)"
    and "\<forall>u\<in>set (t # rest). tabless (token_data u)" "\<forall>e\<in>set errs. tabless e"
  shows "set rest' \<subseteq> set rest \<and> (\<forall>e\<in>set errs'. tabless e)"
  using assms
proof (induction as arbitrary: rest errs c)
  case (Cons a as)
  obtain f where f: "boundField a = Some f" "quiet_function f" "tabless (commands a)" using Cons.prems(2) by auto
  have as: "\<forall>a\<in>set as. tabless (commands a) \<and> (\<exists>f. boundField a = Some f \<and> quiet_function f)" using Cons.prems(2) by simp
  let ?rest = "if takesArg a then tl rest else rest" and ?given = "if takesArg a then token_data (hd rest) else ''true''"
  consider "\<not> opt_matches a t" | "opt_matches a t" "takesArg a \<and> (rest = [] \<or> token_type (hd rest) \<noteq> Positional)"
    | "opt_matches a t" "\<not> (takesArg a \<and> (rest = [] \<or> token_type (hd rest) \<noteq> Positional))" by blast
  then show ?case
  proof cases
    case 1
    then have "try_options as t rest errs c = (c', Inr (found, rest', errs'))" using Cons.prems(1) by simp
    from Cons.IH [OF this as Cons.prems(3,4)] show ?thesis .
  next
    case 2
    then have "rest' = rest" "errs' = errs @ [missing_error t]" using Cons.prems(1) by simp_all
    then show ?thesis using Cons.prems(3,4) by (simp add: missing_error_def)
  next
    case 3
    have sub: "set ?rest \<subseteq> set rest" by (cases rest) auto
    have given: "tabless ?given" using 3(2) Cons.prems(3) by (cases rest) auto
    obtain d r where r: "fn_set f ?given c = (d, r)" by (cases "fn_set f ?given c")
    have step: "try_options (a # as) t rest errs c =
        (case r of Inr _ \<Rightarrow> (d, Inr (True, ?rest, errs))
         | Inl (Throws e) \<Rightarrow> try_options as t ?rest (errs @ [option_error e a]) d | Inl x \<Rightarrow> (d, Inl x))"
      by (simp only: try_options.simps(2) 3 not_True_eq_False if_False Let_def bound_set_def f(1) option.case r prod.case)
    show ?thesis
    proof (cases r)
      case (Inr u)
      then show ?thesis using step Cons.prems sub by auto
    next
      case (Inl x)
      then obtain e where e: "x = Throws e" using step Cons.prems(1) by (cases x) auto
      have "tabless (what e)" using f(2) given r Inl e by (auto simp: quiet_function_def quiet_def)
      then have errs: "\<forall>x\<in>set (errs @ [option_error e a]). tabless x"
        using Cons.prems(4) f(3) by (simp add: option_error_def)
      have "try_options as t ?rest (errs @ [option_error e a]) d = (c', Inr (found, rest', errs'))"
        using step Cons.prems(1) Inl e by simp
      moreover have "\<forall>u\<in>set (t # ?rest). tabless (token_data u)" using Cons.prems(3) sub by auto
      ultimately show ?thesis using Cons.IH [OF _ as _ errs, of ?rest d] sub by (meson order_trans)
    qed
  qed
qed simp

lemma populate_loop_tabless:
  assumes "populate_loop cl ts unused errs c = (c', Inr (unused', errs'))"
    and "\<forall>a\<in>set (m_options cl). tabless (commands a) \<and> (\<exists>f. boundField a = Some f \<and> quiet_function f)"
    and "\<forall>u\<in>set ts. tabless (token_data u)" "\<forall>e\<in>set errs. tabless e"
  shows "\<forall>e\<in>set errs'. tabless e"
  using assms
proof (induction cl ts unused errs c rule: populate_loop.induct)
  case (2 cl t ts unused errs c)
  obtain d r where r: "try_options (m_options cl) t ts errs c = (d, r)" by (cases "try_options (m_options cl) t ts errs c")
  with "2.prems"(1) obtain found rest errs1 where tr: "try_options (m_options cl) t ts errs c = (d, Inr (found, rest, errs1))"
    by (cases r) auto
  from try_options_tabless [OF tr "2.prems"(2-4)]
  have quiet: "\<forall>u\<in>set rest. tabless (token_data u)" "\<forall>e\<in>set errs1. tabless e" using "2.prems"(3) by auto
  show ?case
  proof (cases found)
    case True
    then show ?thesis using "2.IH"(1) [OF tr [symmetric] refl refl] "2.prems" tr quiet by auto
  next
    case False
    obtain un e where un: "unmatched cl t unused errs1 = (un, e)" by (cases "unmatched cl t unused errs1")
    then have "\<forall>x\<in>set e. tabless x"
      using quiet(2) "2.prems"(3) by (auto simp: unmatched_def unrecognised_error_def split: if_splits)
    then show ?thesis using "2.IH"(2) [OF tr [symmetric] refl refl] False "2.prems" tr quiet un by auto
  qed
qed simp

lemma tabless_separated: "tabless sep \<Longrightarrow> \<forall>x\<in>set xs. tabless x \<Longrightarrow> tabless (separated sep xs)"
  by (induction sep xs rule: separated.induct) auto

lemma populate_unknown_option:
  assumes "t \<in> set ts" "token_type t \<noteq> Positional" "\<forall>a\<in>set (m_options (catch_cli env)). \<not> opt_matches a t"
    and "\<forall>u\<in>set ts. tabless (token_data u)"
  shows "\<exists>c' e. populate (setThrowOnUnrecognisedTokens True (catch_cli env)) ts c = (c', Inl (Throws e)) \<and> tabless (what e)"
proof -
  let ?cl = "setThrowOnUnrecognisedTokens True (catch_cli env)"
  have cl: "options_ok ?cl" "m_throwOnUnrecognisedTokens ?cl" "m_options ?cl = m_options (catch_cli env)"
    using options_ok_catch_cli [of env] by (simp_all add: options_ok_def setThrowOnUnrecognisedTokens_def)
  then obtain c' us errs where loop: "populate_loop ?cl ts [] [] c = (c', Inr (us, errs))" "errs \<noteq> []"
    using populate_loop_result [OF cl(1), of ts "[]" "[]" c] assms(1-3) by auto
  then have "\<forall>e\<in>set errs. tabless e"
    using populate_loop_tabless [OF loop(1)] quiet_options [of env] assms(4) by (simp add: cl(3))
  then have "tabless (separated [newline] errs)" by (intro tabless_separated) simp_all
  then show ?thesis using loop by (simp add: populate_def populateOptions_def bindS_def failS_def)
qed

lemma tokens_tabless:
  assumes "tabless (show_argument a)" "u \<in> set (argument_tokens a)"
  shows "tabless (token_data u)"
  using assms by (cases a) (auto simp: Token_def value_token_def tabless_def split: option.splits)

section \<open>The usage text of the tests\<close>

lemma catch_cli_printable:
  "\<forall>a\<in>set (m_options (catch_cli env)). printable a" "max_commands (m_options (catch_cli env)) = 27"
proof -
  show "\<forall>a\<in>set (m_options (catch_cli env)). printable a"
    by (simp add: catch_cli_def opt_def printable_def commands_def newline_def squoted_def)
  show "max_commands (m_options (catch_cli env)) = 27"
    by (simp add: catch_cli_def opt_def max_commands_def commands_def squoted_def)
qed

lemma usage_is_a_table_witness:
  "\<exists>rs. optUsage 2 80 (catch_cli no_files) [] = (text_of_rows rs, Inr ()) \<and> (\<forall>r\<in>set rs. length r \<le> 81)"
  using usage_is_a_table [of "catch_cli no_files" 80 2 "[]"] catch_cli_printable [of no_files] by (auto simp: truncated_def)

lemma usage_written: "\<exists>out'. usage procName (setThrowOnUnrecognisedTokens b (catch_cli env)) out = (out', Inr ())"
proof -
  let ?cl = "setThrowOnUnrecognisedTokens b (catch_cli env)"
  have opts: "m_options ?cl = m_options (catch_cli env)" "m_highestSpecifiedArgPosition ?cl = 0"
    "m_floatingArg ?cl \<noteq> None" "m_options (catch_cli env) \<noteq> []"
    by (simp_all add: setThrowOnUnrecognisedTokens_def catch_cli_def)
  have table: "\<exists>out'. optUsage 2 consoleWidth ?cl out = (out', Inr ())" for out
    unfolding optUsage_def opts(1)
    using options_usage_written [of "m_options (catch_cli env)" 27 consoleWidth 2 out] catch_cli_printable [of env]
      max_commands_bound [of _ "m_options (catch_cli env)"] by (auto simp: truncated_def consoleWidth_def)
  obtain a where "m_floatingArg ?cl = Some a" using opts(3) by blast
  then have "\<exists>out'. argSynopsis ?cl out = (out', Inr ())" for out
    by (simp add: argSynopsis_def opts(2) put_out_def returnS_def bindS_def putS_def)
  with table obtain f g where "\<And>out. argSynopsis ?cl out = (f out, Inr ())" "\<And>out. optUsage 2 consoleWidth ?cl out = (g out, Inr ())"
    by metis
  then show ?thesis by (simp add: usage_def bindS_def liftS_def put_out_def putS_def opts(1,4))
qed

lemma input_error_shown:
  assumes "tabless msg" "m_cli cs = setThrowOnUnrecognisedTokens b (catch_cli env)"
  shows "\<exists>cs' t out. input_error msg cs = (cs', Inr int_max) \<and> text_of msg (setIndent 2 newTextAttributes) = Inr t
    \<and> usage (processName (s_configData (the_session cs))) (m_cli cs) [] = (out, Inr ())
    \<and> the_session cs' = write_out out (write_err ([newline] @ ''Error(s) in input:'' @ [newline] @ t @ [newline, newline]) (the_session cs))"
proof -
  let ?a = "setIndent 2 newTextAttributes"
  have "tabChar ?a \<notin> set msg" "indent ?a < attr_width ?a" "\<forall>i. initialIndent ?a = Some i \<longrightarrow> i < attr_width ?a"
    using assms(1) by (simp_all add: tabless_def setIndent_def newTextAttributes_def consoleWidth_def)
  then obtain t where t: "text_of msg ?a = Inr t" using text_fits [of ?a msg] by (auto simp: text_of_def)
  obtain out where "usage (processName (s_configData (the_session cs))) (m_cli cs) [] = (out, Inr ())"
    using usage_written [of _ b env "[]"] assms(2) by auto
  then show ?thesis
    using t
    by (simp add: input_error_def bindS_def on_session_def putS_def liftS_def returnS_def to_cout_def write_err_def write_out_def)
qed

section \<open>An option that is not known\<close>

lemma unknown_option_parsed:
  assumes "\<forall>a\<in>set as. argument_ok a \<and> tabless (show_argument a)" "a \<in> set as" "t \<in> set (argument_tokens a)"
    and "token_type t \<noteq> Positional" "\<forall>opt\<in>set (m_options (catch_cli env)). \<not> opt_matches opt t"
  shows "\<exists>d e. parseInto (setThrowOnUnrecognisedTokens True (catch_cli env)) (prog # map show_argument as) newConfigData
      = (d, Inl (Throws e)) \<and> tabless (what e)"
proof -
  let ?cl = "setThrowOnUnrecognisedTokens True (catch_cli env)"
  have toks: "parseIntoTokens (prog # map show_argument as) = Inr (concat (map argument_tokens as))"
    using tokens_of_arguments [of as "[]" prog] assms(1) by simp
  have "t \<in> set (concat (map argument_tokens as))" using assms(2,3) by auto
  moreover have "\<forall>u\<in>set (concat (map argument_tokens as)). tabless (token_data u)"
    using assms(1) tokens_tabless by auto
  ultimately obtain d e where pop: "populate ?cl (concat (map argument_tokens as)) (newConfigData\<lparr>processName := process_name prog\<rparr>)
      = (d, Inl (Throws e))" "tabless (what e)"
    using populate_unknown_option assms(4,5) by blast
  have "m_boundProcessName ?cl = boundStringMember processName_update"
    by (simp add: setThrowOnUnrecognisedTokens_def catch_cli_def)
  then have "parseInto ?cl (prog # map show_argument as) newConfigData = (d, Inl (Throws e))"
    by (simp only: parseInto_def list.sel list.simps if_False bindS_def fn_set_processName prod.case sum.case toks liftS_def pop(1))
  with pop(2) show ?thesis by blast
qed

text \<open>
  C38. A misspelt option runs nothing: when one of the arguments is an option that the tests do not know
  and no argument holds a tab, the errors are shown and the usage text is written, the exit code is the
  largest \<open>int\<close>, whatever else the arguments are, and no test is run or even selected: not even the
  configuration of a run is made.
\<close>

theorem unknown_option_runs_nothing:
  assumes "\<forall>a\<in>set as. argument_ok a \<and> CHR 0x09 \<notin> set (show_argument a)" "a \<in> set as"
    and "t \<in> set (argument_tokens a)" "token_type t \<noteq> Positional"
    and "\<forall>opt\<in>set (m_options (catch_cli env)). \<not> opt_matches opt t"
  shows "\<exists>s. (\<forall>shuffle clears. tests_main env shuffle clears h (Suc (length as)) (prog # map show_argument as)
        = Some (Inr int_max, Some s))
    \<and> s_hub s = h \<and> s_config s = None
    \<and> (\<exists>msg. s_cerr s = [newline] @ ''Error(s) in input:'' @ [newline] @ msg @ [newline, newline])
    \<and> (\<exists>name. usage name (setThrowOnUnrecognisedTokens True (catch_cli env)) [] = (s_cout s, Inr ()))"
proof -
  let ?argv = "prog # map show_argument as" and ?cl = "setThrowOnUnrecognisedTokens True (catch_cli env)"
  let ?cs = "\<lparr>m_cli = ?cl, m_unusedTokens = [], the_session = fresh_session h newConfigData\<rparr>"
  obtain d e where e: "parseInto ?cl ?argv newConfigData = (d, Inl (Throws e))" "tabless (what e)"
    using unknown_option_parsed [of as a t env prog] assms by (auto simp: tabless_def)
  let ?cs1 = "the_session_update (s_configData_update (\<lambda>_. d)) ?cs"
  have tried: "try_arguments (length ?argv) ?argv ?cs = (?cs1, Inl (Throws e))"
    by (subst try_arguments_parsed [where d = d and r = "Inl (Throws e)"]) (simp_all add: fresh_session_def e(1))
  obtain cs' t' out where err: "input_error (what e) ?cs1 = (cs', Inr int_max)"
    "usage (processName (s_configData (the_session ?cs1))) (m_cli ?cs1) [] = (out, Inr ())"
    "the_session cs' = write_out out (write_err ([newline] @ ''Error(s) in input:'' @ [newline] @ t' @ [newline, newline]) (the_session ?cs1))"
    using input_error_shown [OF e(2), of ?cs1 True env] by auto
  have shown: "s_hub (the_session cs') = h" "s_config (the_session cs') = None" "s_cout (the_session cs') = out"
    "s_cerr (the_session cs') = [newline] @ ''Error(s) in input:'' @ [newline] @ t' @ [newline, newline]"
    by (simp_all add: err(3) write_out_def write_err_def fresh_session_def)
  have "applyCommandLine (length ?argv) ?argv True
      \<lparr>m_cli = catch_cli env, m_unusedTokens = [], the_session = fresh_session h newConfigData\<rparr> = (cs', Inr int_max)"
    using tried err(1) by (simp add: applyCommandLine_def)
  then have "tests_main env shuffle clears h (Suc (length as)) ?argv = Some (Inr int_max, Some (the_session cs'))" for shuffle clears
    by (simp add: tests_main_def newSession_eq run_with_arguments_def int_max_def)
  moreover have "m_cli ?cs1 = ?cl" by simp
  ultimately show ?thesis using shown err(2) by (intro exI [of _ "the_session cs'"]) auto
qed

lemma unknown_option_runs_nothing_witness:
  "\<exists>s. tests_main no_files id (\<lambda>_ _ _ _. False) example_hub 3 [''tests'', ''--list-tests'', ''--repoter=xml'']
      = Some (Inr int_max, Some s) \<and> s_hub s = example_hub"
proof -
  let ?as = "[Name ''list-tests'' None, Name ''repoter'' (Some (CHR ''='', ''xml''))]"
  have "\<forall>a\<in>set ?as. argument_ok a \<and> CHR 0x09 \<notin> set (show_argument a)"
    by (simp add: plain_name_def plain_value_def plain_word_def quote_def)
  moreover have "\<forall>opt\<in>set (m_options (catch_cli no_files)). \<not> opt_matches opt (Token LongOpt ''repoter'')"
    by (simp add: catch_cli_def opt_def opt_matches_def hasLongName_def Token_def)
  moreover have "token_type (Token LongOpt ''repoter'') \<noteq> Positional" by (simp add: Token_def)
  ultimately show ?thesis
    using unknown_option_runs_nothing [of ?as "Name ''repoter'' (Some (CHR ''='', ''xml''))" "Token LongOpt ''repoter''" no_files example_hub "''tests''"]
    by (auto simp add: numeral_3_eq_3)
qed

end
