(* ===== verification/Catch_Legacy.thy ===== *)
theory Catch_Legacy
  imports Catch_Reporter
begin

text \<open>
  The adapter for reporters of the old interface (\<open>LegacyReporterAdapter\<close> in \<open>include/catch.h\<close>): a
  reporter of that interface is the list of the calls it gets. What was written to the redirected
  streams comes with the events.
\<close>

section \<open>The adapter\<close>

datatype legacy_call =
    StartTesting
  | EndTesting totals
  | StartGroup string
  | EndGroup string totals
  | StartTestCase string
  | EndTestCase string totals string string
  | StartSection string string
  | EndSection string counts
  | NoAssertionsInSection string
  | NoAssertionsInTestCase string
  | Aborted
  | Result assertion_result

text \<open>Messages become results of their own, but not those of a result that is \<open>Ok\<close>.\<close>

definition info_result :: "message_info \<Rightarrow> assertion_result res" where
  "info_result m =
     build (setResultType Info (streamInto (mi_message m)
       (newResultBuilder (mi_macroName m) (mi_lineInfo m) [] NormalDisposition [])))"

fun info_calls :: "message_info list \<Rightarrow> legacy_call list res" where
  "info_calls [] = Inr []"
| "info_calls (m # ms) =
     (if mi_type m = Info then bindR (info_result m) (\<lambda>r. bindR (info_calls ms) (\<lambda>cs. Inr (Result r # cs)))
      else info_calls ms)"

definition legacy_assertion :: "assertion_result \<Rightarrow> message_info list \<Rightarrow> legacy_call list res" where
  "legacy_assertion r ms =
     bindR (if getResultType r \<noteq> Ok then info_calls ms else Inr []) (\<lambda>cs. Inr (cs @ [Result r]))"

fun legacy_calls :: "string \<times> string \<Rightarrow> reporter_event \<Rightarrow> legacy_call list res" where
  "legacy_calls x (TestRunStarting n) = Inr [StartTesting]"
| "legacy_calls x (TestGroupStarting n i k) = Inr [StartGroup n]"
| "legacy_calls x (TestCaseStarting n) = Inr [StartTestCase n]"
| "legacy_calls x (SectionStarting si) = Inr [StartSection (si_name si) (si_description si)]"
| "legacy_calls x (AssertionEnded r ms t) = legacy_assertion r ms"
| "legacy_calls x (SectionEnded si c missing) =
     Inr ((if missing then [NoAssertionsInSection (si_name si)] else []) @ [EndSection (si_name si) c])"
| "legacy_calls x (TestCaseEnded n cls t a) = Inr [EndTestCase n t (fst x) (snd x)]"
| "legacy_calls x (TestGroupEnded n t i k a) = Inr ((if a then [Aborted] else []) @ [EndGroup n t])"
| "legacy_calls x (TestRunEnded n t a) = Inr [EndTesting t]"
| "legacy_calls x (SkipTest n) = Inr []"

definition legacy_event :: "string \<times> string \<Rightarrow> reporter_event \<Rightarrow> legacy_call list \<Rightarrow> legacy_call list res" where
  "legacy_event x e calls = map_sum id (\<lambda>cs. calls @ cs) (legacy_calls x e)"

text \<open>Every result clears the messages, and streams are redirected when the reporter says so.\<close>

definition legacy_answer :: "assertion_result \<Rightarrow> bool" where
  "legacy_answer r = True"

definition legacy_preferences :: "bool \<Rightarrow> bool" where
  "legacy_preferences shouldRedirectStdout = shouldRedirectStdout"

section \<open>What an old reporter sees\<close>

text \<open>The order of the calls, in the places of a run.\<close>

fun legacy_nest :: "legacy_call \<Rightarrow> nesting \<Rightarrow> nesting option" where
  "legacy_nest StartTesting p = (if p = Outside then Some In_run else None)"
| "legacy_nest (EndTesting t) p = (if p = In_run then Some Outside else None)"
| "legacy_nest (StartGroup n) p = (if p = In_run then Some In_group else None)"
| "legacy_nest (EndGroup n t) p = (if p = In_group then Some In_run else None)"
| "legacy_nest (StartTestCase n) p = (if p = In_group then Some In_test else None)"
| "legacy_nest (EndTestCase n t out err) p = (if p = In_case 0 then Some In_group else None)"
| "legacy_nest (StartSection n d) p = (case p of In_test \<Rightarrow> Some (In_case 1) | In_case k \<Rightarrow> Some (In_case (Suc k)) | _ \<Rightarrow> None)"
| "legacy_nest (EndSection n c) p = (case p of In_case (Suc k) \<Rightarrow> Some (In_case k) | _ \<Rightarrow> None)"
| "legacy_nest (NoAssertionsInSection n) p = (case p of In_case (Suc k) \<Rightarrow> Some p | _ \<Rightarrow> None)"
| "legacy_nest (NoAssertionsInTestCase n) p = (case p of In_case (Suc k) \<Rightarrow> Some p | _ \<Rightarrow> None)"
| "legacy_nest Aborted p = (if p = In_group then Some p else None)"
| "legacy_nest (Result r) p = (case p of In_case (Suc k) \<Rightarrow> Some p | _ \<Rightarrow> None)"

fun legacy_nest_all :: "legacy_call list \<Rightarrow> nesting \<Rightarrow> nesting option" where
  "legacy_nest_all [] p = Some p"
| "legacy_nest_all (c # cs) p = Option.bind (legacy_nest c p) (legacy_nest_all cs)"

lemma legacy_nest_append: "legacy_nest_all (cs @ ds) p = Option.bind (legacy_nest_all cs p) (legacy_nest_all ds)"
  by (induction cs arbitrary: p) (auto intro: Option.bind_cong)

text \<open>The results an old reporter gets, and those the run reports.\<close>

fun call_results :: "legacy_call \<Rightarrow> assertion_result list" where
  "call_results (Result r) = [r]"
| "call_results c = []"

fun event_results :: "reporter_event \<Rightarrow> assertion_result list" where
  "event_results (AssertionEnded r ms t) = [r]"
| "event_results e = []"

definition not_info :: "assertion_result \<Rightarrow> bool" where
  "not_info r \<longleftrightarrow> getResultType r \<noteq> Info"

definition results_of_calls :: "legacy_call list \<Rightarrow> assertion_result list" where
  "results_of_calls cs = filter not_info (concat (map call_results cs))"

definition results_of_events :: "reporter_event list \<Rightarrow> assertion_result list" where
  "results_of_events es = filter not_info (concat (map event_results es))"

lemma info_result_built:
  "info_result m = Inr \<lparr>m_info = \<lparr>macroName = mi_macroName m, ai_lineInfo = mi_lineInfo m, capturedExpression = [],
       resultDisposition = NormalDisposition\<rparr>,
     m_resultData = \<lparr>reconstructedExpression = [], message = mi_message m, resultType = Info\<rparr>\<rparr>"
  by (simp add: info_result_def build_def setResultType_def streamInto_def newResultBuilder_def reconstructExpression_def
      newAssertionResultData_def capturedExpressionWithSecondArgument_def)

lemma info_calls_spec:
  "\<exists>rs. info_calls ms = Inr (map Result rs) \<and> filter not_info rs = []"
proof (induction ms)
  case (Cons m ms)
  then obtain rs where rs: "info_calls ms = Inr (map Result rs)" "filter not_info rs = []" by blast
  show ?case
  proof (cases "mi_type m = Info")
    case True
    obtain r where r: "info_result m = Inr r" "\<not> not_info r"
      by (simp add: info_result_built not_info_def getResultType_def)
    then have "info_calls (m # ms) = Inr (map Result (r # rs))" using rs True by simp
    then show ?thesis using rs r by (intro exI [of _ "r # rs"]) simp
  qed (use rs in auto)
qed (auto intro: exI [of _ "[]"])

lemma legacy_assertion_spec:
  "\<exists>rs. legacy_assertion r ms = Inr (map Result (rs @ [r])) \<and> filter not_info rs = []"
  using info_calls_spec [of ms] by (auto simp: legacy_assertion_def intro: exI [of _ "[]"])

lemma legacy_results_nest: "legacy_nest_all (map Result rs) (In_case (Suc k)) = Some (In_case (Suc k))"
  by (induction rs) simp_all

lemma concat_call_results: "concat (map call_results (map Result rs)) = rs"
  by (induction rs) simp_all

lemma legacy_calls_nest:
  assumes "nest e p = Some p'"
  shows "\<exists>cs. legacy_calls x e = Inr cs \<and> legacy_nest_all cs p = Some p' \<and> results_of_calls cs = results_of_events [e]"
proof (cases e)
  case (AssertionEnded r ms t)
  obtain rs where rs: "legacy_assertion r ms = Inr (map Result (rs @ [r]))" "filter not_info rs = []"
    using legacy_assertion_spec by blast
  obtain k where "p = In_case (Suc k)" "p' = p" using assms AssertionEnded by (auto split: nesting.splits nat.splits)
  then show ?thesis using rs AssertionEnded legacy_results_nest [of "rs @ [r]" k]
    by (simp only: legacy_calls.simps) (simp add: results_of_calls_def results_of_events_def concat_call_results o_def)
qed (use assms in \<open>auto simp: results_of_calls_def results_of_events_def split: nesting.splits nat.splits if_splits\<close>)

lemma legacy_calls_results:
  assumes "legacy_calls x e = Inr cs"
  shows "results_of_calls cs = results_of_events [e]"
proof (cases e)
  case (AssertionEnded r ms t)
  then show ?thesis using assms legacy_assertion_spec [of r ms]
    by (auto simp: results_of_calls_def results_of_events_def concat_call_results o_def)
qed (use assms in \<open>auto simp: results_of_calls_def results_of_events_def\<close>)

lemma legacy_event_ok:
  assumes "legacy_nest_all calls Outside = Some p" "nest e p = Some p'"
  shows "\<exists>calls'. legacy_event x e calls = Inr calls' \<and> legacy_nest_all calls' Outside = Some p'"
  using legacy_calls_nest [OF assms(2), of x] assms(1) by (auto simp: legacy_event_def legacy_nest_append)

interpretation legacy: streaming_reporter "\<lambda>x e r. Some (legacy_event x e r)" "\<lambda>e. True"
  "\<lambda>calls p. legacy_nest_all calls Outside = Some p"
  by unfold_locales (simp add: legacy_event_ok)

lemma legacy_gathers:
  "report_all (\<lambda>x e r. Some (legacy_event x e r)) x es calls = Some (Inr calls') \<Longrightarrow>
     results_of_calls calls' = results_of_calls calls @ results_of_events es"
proof (induction es arbitrary: calls)
  case Nil
  then show ?case by (simp add: results_of_events_def)
next
  case (Cons e es)
  obtain cs where cs: "legacy_calls (x (length es)) e = Inr cs"
    and rest: "report_all (\<lambda>x e r. Some (legacy_event x e r)) x es (calls @ cs) = Some (Inr calls')"
    using Cons.prems by (cases "legacy_calls (x (length es)) e") (auto simp: legacy_event_def)
  have "results_of_events (e # es) = results_of_events [e] @ results_of_events es" by (simp add: results_of_events_def)
  then show ?case using Cons.IH [OF rest] legacy_calls_results [OF cs] by (simp add: results_of_calls_def)
qed

text \<open>
  Whatever the tests do, the adapter can pass on every event of a run that ends; a reporter of the
  old interface sees its calls nested as the run, the groups, the tests and their sections are, and
  besides messages exactly the results that the run reports, in their order.
\<close>

lemma legacy_reporter_sees_the_run:
  assumes "runTests shuffle clears c h = Some (Inr (t, rc, h'))"
  shows "\<exists>calls. report_all (\<lambda>x e r. Some (legacy_event x e r)) x (rc_events rc) [] = Some (Inr calls)
    \<and> legacy_nest_all calls Outside = Some Outside
    \<and> results_of_calls calls = results_of_events (rc_events rc)"
proof -
  obtain calls where "report_all (\<lambda>x e r. Some (legacy_event x e r)) x (rc_events rc) [] = Some (Inr calls)"
    "legacy_nest_all calls Outside = Some Outside"
    using legacy.run_is_reported [OF assms, of "[]" x] by (auto simp: list_all_iff)
  then show ?thesis using legacy_gathers by (fastforce simp: results_of_calls_def)
qed

lemma legacy_reporter_example:
  "\<exists>t rc h' calls. runTests rev (\<lambda>n r ms t. True) example_config example_hub = Some (Inr (t, rc, h'))
    \<and> report_all (\<lambda>x e r. Some (legacy_event x e r)) (\<lambda>n. ([], [])) (rc_events rc) [] = Some (Inr calls)
    \<and> legacy_nest_all calls Outside = Some Outside
    \<and> results_of_calls calls = results_of_events (rc_events rc)"
proof -
  have c: "cfg_data example_config = newConfigData" "\<not> warnNoAssertions newConfigData"
    "(word_of_int (abortAfter newConfigData) :: 64 word) \<noteq> 0" "runOrder newConfigData = InDeclarationOrder"
    by (simp_all add: example_config_def newConfigData_def)
  obtain t rc where run: "runTests rev (\<lambda>n r ms t. True) example_config example_hub = Some (Inr (t, rc, example_hub\<lparr>hub_tests
      := (hub_tests example_hub)\<lparr>m_sortedFunctions := [example_test]\<rparr>\<rparr>))"
    using runTests_passing [of example_hub example_config "One_reporter ''console''" rev "[example_test]"
        "(hub_tests example_hub)\<lparr>m_sortedFunctions := [example_test]\<rparr>" "\<lambda>n r ms t. True"]
      example_facts example_good c by auto
  then show ?thesis using legacy_reporter_sees_the_run [OF run(1), of "\<lambda>n. ([], [])"] by auto
qed

end
