(* ===== verification/Catch_Pointer.thy ===== *)
theory Catch_Pointer
  imports Cpp_Runtime "HOL-Library.Finite_Map"
begin

text \<open>
  The counted pointers of the test framework (\<open>Ptr\<close> and \<open>SharedImpl\<close> in \<open>include/catch.h\<close>). Objects are
  cells of a store, with their count, an \<open>unsigned int\<close>, the pointers they hold themselves, in the order in
  which their destructor comes to them, and the rest of what they are; the other pointers are variables of
  the store, one of them the temporary of an assignment.
\<close>

section \<open>The store\<close>

datatype pointer = Null | At nat
datatype ptr_var = Named nat | Temp

record 'v object =
  m_rc :: "32 word"
  o_members :: "pointer list"
  o_value :: 'v

record 'v store =
  s_heap :: "(nat, 'v object) fmap"
  s_vars :: "ptr_var \<Rightarrow> pointer option"

definition empty_store :: "'v store" where
  "empty_store = \<lparr>s_heap = fmempty, s_vars = Map.empty\<rparr>"

definition new_object :: "nat \<Rightarrow> 'v \<Rightarrow> 'v store \<Rightarrow> 'v store" where
  "new_object a v s = s\<lparr>s_heap := fmupd a \<lparr>m_rc = 0, o_members = [], o_value = v\<rparr> (s_heap s)\<rparr>"

definition addRef :: "nat \<Rightarrow> 'v store \<Rightarrow> 'v store res" where
  "addRef a s =
     (case fmlookup (s_heap s) a of
        None \<Rightarrow> Inl (Undefined Dangling)
      | Some ob \<Rightarrow> Inr (s\<lparr>s_heap := fmupd a (ob\<lparr>m_rc := m_rc ob + 1\<rparr>) (s_heap s)\<rparr>))"

text \<open>
  Releasing pointers one after the other. An object whose count comes to zero is deleted, and its
  destructor releases the pointers it holds, with all that follows from that, before the next pointer.
\<close>

function release_all :: "pointer list \<Rightarrow> (nat, 'v object) fmap \<Rightarrow> (nat, 'v object) fmap res" where
  "release_all [] h = Inr h"
| "release_all (Null # ps) h = release_all ps h"
| "release_all (At a # ps) h =
     (case fmlookup h a of
        None \<Rightarrow> Inl (Undefined Dangling)
      | Some ob \<Rightarrow>
          (if m_rc ob - 1 = 0 then release_all (o_members ob @ ps) (fmdrop a h)
           else release_all ps (fmupd a (ob\<lparr>m_rc := m_rc ob - 1\<rparr>) h)))"
  by pat_completeness auto
termination
proof (relation "measures [\<lambda>(ps, h). card (fmdom' h), \<lambda>(ps, h). length ps]")
  fix a ps and h :: "(nat, 'v object) fmap" and ob
  assume "fmlookup h a = Some ob"
  then have a: "a \<in> fmdom' h" by (rule fmdom'I)
  show "((o_members ob @ ps, fmdrop a h), (At a # ps, h)) \<in> measures [\<lambda>(ps, h). card (fmdom' h), \<lambda>(ps, h). length ps]"
    using card_Diff1_less [OF finite_fmdom' a] by simp
  show "((ps, fmupd a (ob\<lparr>m_rc := m_rc ob - 1\<rparr>) h), (At a # ps, h)) \<in> measures [\<lambda>(ps, h). card (fmdom' h), \<lambda>(ps, h). length ps]"
    using a by (simp add: insert_absorb)
qed simp_all

definition release :: "nat \<Rightarrow> 'v store \<Rightarrow> 'v store res" where
  "release a s = bindR (release_all [At a] (s_heap s)) (\<lambda>h. Inr (s\<lparr>s_heap := h\<rparr>))"

section \<open>Pointers\<close>

definition put_var :: "ptr_var \<Rightarrow> pointer option \<Rightarrow> 'v store \<Rightarrow> 'v store" where
  "put_var x q s = s\<lparr>s_vars := (s_vars s)(x := q)\<rparr>"

definition var_of :: "ptr_var \<Rightarrow> 'v store \<Rightarrow> pointer res" where
  "var_of x s = (case s_vars s x of None \<Rightarrow> Inl (Undefined Dangling) | Some p \<Rightarrow> Inr p)"

definition if_set :: "(nat \<Rightarrow> 'v store \<Rightarrow> 'v store res) \<Rightarrow> pointer \<Rightarrow> 'v store \<Rightarrow> 'v store res" where
  "if_set f p s = (case p of Null \<Rightarrow> Inr s | At a \<Rightarrow> f a s)"

definition ptr_null :: "ptr_var \<Rightarrow> 'v store \<Rightarrow> 'v store res" where
  "ptr_null x s = Inr (put_var x (Some Null) s)"

definition ptr_from :: "ptr_var \<Rightarrow> pointer \<Rightarrow> 'v store \<Rightarrow> 'v store res" where
  "ptr_from x p s = if_set addRef p (put_var x (Some p) s)"

definition ptr_copy :: "ptr_var \<Rightarrow> ptr_var \<Rightarrow> 'v store \<Rightarrow> 'v store res" where
  "ptr_copy x y s = bindR (var_of y s) (\<lambda>p. if_set addRef p (put_var x (Some p) s))"

definition ptr_destroy :: "ptr_var \<Rightarrow> 'v store \<Rightarrow> 'v store res" where
  "ptr_destroy x s = bindR (var_of x s) (\<lambda>p. bindR (if_set release p s) (\<lambda>s'. Inr (put_var x None s')))"

definition ptr_reset :: "ptr_var \<Rightarrow> 'v store \<Rightarrow> 'v store res" where
  "ptr_reset x s = bindR (var_of x s) (\<lambda>p. bindR (if_set release p s) (\<lambda>s'. Inr (put_var x (Some Null) s')))"

definition ptr_swap :: "ptr_var \<Rightarrow> ptr_var \<Rightarrow> 'v store \<Rightarrow> 'v store res" where
  "ptr_swap x y s =
     bindR (var_of x s) (\<lambda>p. bindR (var_of y s) (\<lambda>q. Inr (put_var y (Some p) (put_var x (Some q) s))))"

definition ptr_assign_raw :: "ptr_var \<Rightarrow> pointer \<Rightarrow> 'v store \<Rightarrow> 'v store res" where
  "ptr_assign_raw x p s = bindR (ptr_from Temp p s) (\<lambda>s1. bindR (ptr_swap x Temp s1) (ptr_destroy Temp))"

definition ptr_assign :: "ptr_var \<Rightarrow> ptr_var \<Rightarrow> 'v store \<Rightarrow> 'v store res" where
  "ptr_assign x y s = bindR (ptr_copy Temp y s) (\<lambda>s1. bindR (ptr_swap x Temp s1) (ptr_destroy Temp))"

text \<open>The object a variable points to gets a copy of another pointer, behind those it holds.\<close>

definition ptr_adopt :: "ptr_var \<Rightarrow> ptr_var \<Rightarrow> 'v store \<Rightarrow> 'v store res" where
  "ptr_adopt x y s =
     bindR (var_of x s) (\<lambda>q. bindR (var_of y s) (\<lambda>p.
       case q of
         Null \<Rightarrow> Inl (Undefined Null_deref)
       | At b \<Rightarrow>
           (case fmlookup (s_heap s) b of
              None \<Rightarrow> Inl (Undefined Dangling)
            | Some ob \<Rightarrow> if_set addRef p (s\<lparr>s_heap := fmupd b (ob\<lparr>o_members := o_members ob @ [p]\<rparr>) (s_heap s)\<rparr>))))"

definition ptr_deref :: "ptr_var \<Rightarrow> 'v store \<Rightarrow> 'v res" where
  "ptr_deref x s =
     bindR (var_of x s) (\<lambda>p.
       case p of
         Null \<Rightarrow> Inl (Undefined Null_deref)
       | At a \<Rightarrow> (case fmlookup (s_heap s) a of None \<Rightarrow> Inl (Undefined Dangling) | Some ob \<Rightarrow> Inr (o_value ob)))"

text \<open>What a program does with pointers, one operation at a time.\<close>

datatype 'v ptr_op =
    New nat 'v
  | Default nat
  | From nat pointer
  | Copy nat nat
  | Destroy nat
  | Reset nat
  | Swap nat nat
  | Assign_raw nat pointer
  | Assign nat nat
  | Adopt nat nat

fun perform :: "'v ptr_op \<Rightarrow> 'v store \<Rightarrow> 'v store res" where
  "perform (New a v) s = Inr (new_object a v s)"
| "perform (Default x) s = ptr_null (Named x) s"
| "perform (From x p) s = ptr_from (Named x) p s"
| "perform (Copy x y) s = ptr_copy (Named x) (Named y) s"
| "perform (Destroy x) s = ptr_destroy (Named x) s"
| "perform (Reset x) s = ptr_reset (Named x) s"
| "perform (Swap x y) s = ptr_swap (Named x) (Named y) s"
| "perform (Assign_raw x p) s = ptr_assign_raw (Named x) p s"
| "perform (Assign x y) s = ptr_assign (Named x) (Named y) s"
| "perform (Adopt x y) s = ptr_adopt (Named x) (Named y) s"

section \<open>Counts are right\<close>

text \<open>
  What the language sees to: a variable is constructed once, used while it lives, a new object has an
  address of its own. What the program has to see to: a plain pointer is null or points to an object, and a
  pointer that is followed is not null.
\<close>

definition alive :: "'v store \<Rightarrow> nat \<Rightarrow> bool" where
  "alive s a \<longleftrightarrow> fmlookup (s_heap s) a \<noteq> None"

definition usable :: "pointer \<Rightarrow> 'v store \<Rightarrow> bool" where
  "usable p s \<longleftrightarrow> (case p of Null \<Rightarrow> True | At a \<Rightarrow> alive s a)"

fun scoped :: "'v ptr_op \<Rightarrow> 'v store \<Rightarrow> bool" where
  "scoped (New a v) s \<longleftrightarrow> \<not> alive s a"
| "scoped (Default x) s \<longleftrightarrow> s_vars s (Named x) = None"
| "scoped (From x p) s \<longleftrightarrow> s_vars s (Named x) = None \<and> usable p s"
| "scoped (Copy x y) s \<longleftrightarrow> s_vars s (Named x) = None \<and> s_vars s (Named y) \<noteq> None"
| "scoped (Destroy x) s \<longleftrightarrow> s_vars s (Named x) \<noteq> None"
| "scoped (Reset x) s \<longleftrightarrow> s_vars s (Named x) \<noteq> None"
| "scoped (Swap x y) s \<longleftrightarrow> s_vars s (Named x) \<noteq> None \<and> s_vars s (Named y) \<noteq> None"
| "scoped (Assign_raw x p) s \<longleftrightarrow> s_vars s (Named x) \<noteq> None \<and> usable p s"
| "scoped (Assign x y) s \<longleftrightarrow> s_vars s (Named x) \<noteq> None \<and> s_vars s (Named y) \<noteq> None"
| "scoped (Adopt x y) s \<longleftrightarrow> s_vars s (Named x) \<notin> {None, Some Null} \<and> s_vars s (Named y) \<noteq> None"

text \<open>The owners of an object: the variables that point to it, and the pointers that living objects hold.\<close>

definition var_owners :: "(ptr_var \<Rightarrow> pointer option) \<Rightarrow> nat \<Rightarrow> nat" where
  "var_owners vs a = card {x. vs x = Some (At a)}"

definition member_sum :: "(pointer list \<Rightarrow> nat) \<Rightarrow> (nat, 'v object) fmap \<Rightarrow> nat" where
  "member_sum f h = (\<Sum>b\<in>fmdom' h. f (o_members (the (fmlookup h b))))"

definition held :: "(nat, 'v object) fmap \<Rightarrow> nat \<Rightarrow> nat" where
  "held h a = member_sum (\<lambda>ms. count_list ms (At a)) h"

definition owners :: "'v store \<Rightarrow> nat \<Rightarrow> nat" where
  "owners s a = var_owners (s_vars s) a + held (s_heap s) a"

definition all_pointers :: "'v store \<Rightarrow> nat" where
  "all_pointers s = card (dom (s_vars s)) + member_sum length (s_heap s)"

definition counted :: "'v store \<Rightarrow> bool" where
  "counted s \<longleftrightarrow> finite (dom (s_vars s)) \<and> all_pointers s < 2 ^ 32
     \<and> (\<forall>a. case fmlookup (s_heap s) a of None \<Rightarrow> owners s a = 0 | Some ob \<Rightarrow> m_rc ob = of_nat (owners s a))"

text \<open>What an operation may do to the objects: it deletes those whose last owner goes.\<close>

definition deletes_unowned :: "'v store \<Rightarrow> 'v store \<Rightarrow> bool" where
  "deletes_unowned s s' \<longleftrightarrow> (\<forall>a. alive s a \<longrightarrow>
     (if owners s a \<noteq> 0 \<and> owners s' a = 0 then \<not> alive s' a
      else map_option o_value (fmlookup (s_heap s') a) = map_option o_value (fmlookup (s_heap s) a)))"

section \<open>Counting owners\<close>

lemma var_owners_upd:
  assumes "finite (dom vs)"
  shows "var_owners (vs(x := q)) a + (if vs x = Some (At a) then 1 else 0) = var_owners vs a + (if q = Some (At a) then 1 else 0)"
proof -
  let ?V = "\<lambda>vs. {x. vs x = Some (At a)}"
  have fin: "finite (?V vs)" by (rule finite_subset [OF _ assms]) auto
  have "card (?V vs) = card (?V vs - {x}) + (if vs x = Some (At a) then 1 else 0)"
    using card_Suc_Diff1 [OF fin, of x] by (cases "vs x = Some (At a)") simp_all
  moreover have "card (?V (vs(x := q))) = card (?V vs - {x}) + (if q = Some (At a) then 1 else 0)"
  proof (cases "q = Some (At a)")
    case True
    then have "?V (vs(x := q)) = insert x (?V vs - {x})" by auto
    moreover have "card (insert x (?V vs - {x})) = Suc (card (?V vs - {x}))" using fin by (intro card_insert_disjoint) auto
    ultimately show ?thesis using True by simp
  next
    case False
    then have "?V (vs(x := q)) = ?V vs - {x}" by auto
    then show ?thesis using False by simp
  qed
  ultimately show ?thesis unfolding var_owners_def by simp
qed

lemma member_sum_rest:
  "member_sum f h = (case fmlookup h b of None \<Rightarrow> 0 | Some ob \<Rightarrow> f (o_members ob)) + (\<Sum>c\<in>fmdom' h - {b}. f (o_members (the (fmlookup h c))))"
proof (cases "fmlookup h b")
  case None
  then have "fmdom' h - {b} = fmdom' h" using fmdom'_notI [OF None] by blast
  then show ?thesis using None by (simp add: member_sum_def)
next
  case (Some ob)
  then show ?thesis using sum.remove [OF finite_fmdom' fmdom'I [OF Some], of "\<lambda>c. f (o_members (the (fmlookup h c)))"] by (simp add: member_sum_def)
qed

lemma member_sum_fmupd:
  "member_sum f (fmupd b ob h) + (case fmlookup h b of None \<Rightarrow> 0 | Some old \<Rightarrow> f (o_members old)) = member_sum f h + f (o_members ob)"
proof -
  have "fmdom' (fmupd b ob h) - {b} = fmdom' h - {b}" by auto
  moreover have "(\<Sum>c\<in>fmdom' h - {b}. f (o_members (the (fmlookup (fmupd b ob h) c)))) = (\<Sum>c\<in>fmdom' h - {b}. f (o_members (the (fmlookup h c))))"
    by (intro sum.cong) auto
  ultimately show ?thesis by (simp add: member_sum_rest [of _ _ b])
qed

lemma member_sum_fmdrop:
  assumes "fmlookup h b = Some ob"
  shows "member_sum f (fmdrop b h) + f (o_members ob) = member_sum f h"
proof -
  have "(\<Sum>c\<in>fmdom' h - {b}. f (o_members (the (fmlookup (fmdrop b h) c)))) = (\<Sum>c\<in>fmdom' h - {b}. f (o_members (the (fmlookup h c))))"
    by (intro sum.cong) auto
  then show ?thesis using assms by (simp add: member_sum_rest [of _ _ b])
qed

lemma member_sum_count: "fmlookup h b = Some ob \<Longrightarrow> member_sum f (fmupd b (ob\<lparr>m_rc := n\<rparr>) h) = member_sum f h"
  using member_sum_fmupd [of f b "ob\<lparr>m_rc := n\<rparr>" h] by simp

lemma owners_bound: "finite (dom (s_vars s)) \<Longrightarrow> owners s a \<le> all_pointers s"
proof -
  assume fin: "finite (dom (s_vars s))"
  have "held (s_heap s) a \<le> member_sum length (s_heap s)"
    unfolding held_def member_sum_def by (intro sum_mono count_le_length)
  moreover have "var_owners (s_vars s) a \<le> card (dom (s_vars s))"
    unfolding var_owners_def using fin by (intro card_mono) auto
  ultimately show ?thesis by (simp add: owners_def all_pointers_def)
qed

lemma count_one_iff:
  assumes "k < 2 ^ 32"
  shows "(of_nat k :: 32 word) - 1 = 0 \<longleftrightarrow> k = 1"
proof -
  have "(of_nat k :: 32 word) = of_nat 1 \<longleftrightarrow> k = 1"
    using assms by (simp only: word_of_nat_eq_iff) (simp add: take_bit_nat_eq_self)
  then show ?thesis by simp
qed

section \<open>Releasing pointers\<close>

text \<open>The owners of an object while some pointers are still to be released; \<open>vc\<close> counts the variables.\<close>

definition owners_with :: "(nat \<Rightarrow> nat) \<Rightarrow> pointer list \<Rightarrow> (nat, 'v object) fmap \<Rightarrow> nat \<Rightarrow> nat" where
  "owners_with vc ps h a = vc a + held h a + count_list ps (At a)"

definition counts_agree :: "(nat \<Rightarrow> nat) \<Rightarrow> pointer list \<Rightarrow> (nat, 'v object) fmap \<Rightarrow> bool" where
  "counts_agree vc ps h \<longleftrightarrow> (\<forall>a. owners_with vc ps h a < 2 ^ 32
     \<and> (case fmlookup h a of None \<Rightarrow> owners_with vc ps h a = 0 | Some ob \<Rightarrow> m_rc ob = of_nat (owners_with vc ps h a)))"

definition released :: "(nat \<Rightarrow> nat) \<Rightarrow> pointer list \<Rightarrow> (nat, 'v object) fmap \<Rightarrow> (nat, 'v object) fmap \<Rightarrow> bool" where
  "released vc ps h h' \<longleftrightarrow> counts_agree vc [] h' \<and> member_sum length h' \<le> member_sum length h
     \<and> (\<forall>a. map_option o_value (fmlookup h' a) =
          (if owners_with vc ps h a \<noteq> 0 \<and> owners_with vc [] h' a = 0 then None else map_option o_value (fmlookup h a)))"

lemma counts_agree_dead: "counts_agree vc ps h \<Longrightarrow> fmlookup h a = None \<Longrightarrow> owners_with vc ps h a = 0"
  by (auto simp: counts_agree_def dest: spec [of _ a])

lemma release_all_released:
  "counts_agree vc ps h \<Longrightarrow> \<exists>h'. release_all ps h = Inr h' \<and> released vc ps h h'"
proof (induction ps h rule: release_all.induct)
  case (1 h)
  then show ?case by (auto simp: released_def)
next
  case (2 ps h)
  have p: "owners_with vc (Null # ps) h = owners_with vc ps h" by (simp add: owners_with_def fun_eq_iff)
  have "counts_agree vc ps h" using "2.prems" unfolding counts_agree_def p .
  then obtain h' where "release_all ps h = Inr h'" "released vc ps h h'" using "2.IH" by blast
  then show ?case unfolding released_def p by auto
next
  case (3 a ps h)
  let ?p = "owners_with vc (At a # ps) h"
  have pos: "?p a \<noteq> 0" by (simp add: owners_with_def)
  then obtain ob where ob: "fmlookup h a = Some ob" using counts_agree_dead [OF "3.prems"] by (cases "fmlookup h a") auto
  have bound: "?p c < 2 ^ 32" for c using "3.prems" by (simp add: counts_agree_def)
  have count: "fmlookup h c = Some obc \<Longrightarrow> m_rc obc = of_nat (?p c)" for c obc
    using "3.prems" by (auto simp: counts_agree_def dest: spec [of _ c])
  have last_one: "m_rc ob - 1 = 0 \<longleftrightarrow> ?p a = 1" using count [OF ob] count_one_iff [OF bound [of a]] by simp
  show ?case
  proof (cases "m_rc ob - 1 = 0")
    case True
    let ?h = "fmdrop a h" and ?ps = "o_members ob @ ps"
    have p: "owners_with vc ?ps ?h c + (if c = a then 1 else 0) = ?p c" for c
      using member_sum_fmdrop [OF ob, of "\<lambda>ms. count_list ms (At c)"] by (auto simp: owners_with_def held_def)
    have same: "c \<noteq> a \<Longrightarrow> owners_with vc ?ps ?h c = ?p c" for c using p [of c] by simp
    have "counts_agree vc ?ps ?h"
      unfolding counts_agree_def
    proof
      fix c
      show "owners_with vc ?ps ?h c < 2 ^ 32 \<and> (case fmlookup ?h c of None \<Rightarrow> owners_with vc ?ps ?h c = 0 | Some ob \<Rightarrow> m_rc ob = of_nat (owners_with vc ?ps ?h c))"
        using p [of c] same [of c] bound [of c] count [of c] counts_agree_dead [OF "3.prems", of c] True last_one
        by (cases "c = a") (auto split: option.split)
    qed
    then obtain h' where h': "release_all ?ps ?h = Inr h'" "released vc ?ps ?h h'" using "3.IH"(1) [OF ob True] by blast
    have sum: "member_sum length ?h \<le> member_sum length h" using member_sum_fmdrop [OF ob, of length] by simp
    have fate: "map_option o_value (fmlookup h' c) =
        (if owners_with vc ?ps ?h c \<noteq> 0 \<and> owners_with vc [] h' c = 0 then None else map_option o_value (fmlookup ?h c))" for c
      using h'(2) by (simp add: released_def)
    have gone: "fmlookup h' a = None" using fate [of a] by (simp split: if_splits)
    have "counts_agree vc [] h'" using h'(2) by (simp add: released_def)
    from counts_agree_dead [OF this gone] have zero: "owners_with vc [] h' a = 0" .
    have "map_option o_value (fmlookup h' c) =
        (if ?p c \<noteq> 0 \<and> owners_with vc [] h' c = 0 then None else map_option o_value (fmlookup h c))" for c
      using fate [of c] same [of c] gone zero pos by (cases "c = a") auto
    then have "released vc (At a # ps) h h'" using h'(2) sum by (simp add: released_def)
    then show ?thesis using h'(1) ob True by simp
  next
    case False
    let ?h = "fmupd a (ob\<lparr>m_rc := m_rc ob - 1\<rparr>) h"
    have p: "owners_with vc ps ?h c + (if c = a then 1 else 0) = ?p c" for c
      by (simp add: owners_with_def held_def member_sum_count [OF ob])
    have same: "c \<noteq> a \<Longrightarrow> owners_with vc ps ?h c = ?p c" for c using p [of c] by simp
    have a: "owners_with vc ps ?h a \<noteq> 0" "?p a = Suc (owners_with vc ps ?h a)" using p [of a] False last_one by auto
    have "m_rc ob - 1 = of_nat (owners_with vc ps ?h a)" using count [OF ob] a(2) by (metis add_diff_cancel_left' of_nat_Suc)
    then have "counts_agree vc ps ?h"
      using same bound count counts_agree_dead [OF "3.prems"] a(2) p unfolding counts_agree_def
      by (auto split: option.split) (metis Suc_lessD)
    then obtain h' where h': "release_all ps ?h = Inr h'" "released vc ps ?h h'" using "3.IH"(2) [OF ob False] by blast
    have fate: "map_option o_value (fmlookup h' c) =
        (if owners_with vc ps ?h c \<noteq> 0 \<and> owners_with vc [] h' c = 0 then None else map_option o_value (fmlookup ?h c))" for c
      using h'(2) by (simp add: released_def)
    have "map_option o_value (fmlookup h' c) =
        (if ?p c \<noteq> 0 \<and> owners_with vc [] h' c = 0 then None else map_option o_value (fmlookup h c))" for c
      using fate [of c] same [of c] a ob by (cases "c = a") auto
    then have "released vc (At a # ps) h h'" using h'(2) by (simp add: released_def member_sum_count [OF ob])
    then show ?thesis using h'(1) ob False by simp
  qed
qed

section \<open>Operations\<close>

definition moved :: "'v store \<Rightarrow> 'v store \<Rightarrow> (ptr_var \<Rightarrow> pointer option) \<Rightarrow> bool" where
  "moved s s' vs \<longleftrightarrow> counted s' \<and> s_vars s' = vs \<and> deletes_unowned s s'"

lemma counted_heap:
  "counted s \<Longrightarrow> fmlookup (s_heap s) a = None \<Longrightarrow> owners s a = 0"
  "counted s \<Longrightarrow> fmlookup (s_heap s) a = Some ob \<Longrightarrow> m_rc ob = of_nat (owners s a)"
  by (auto simp: counted_def split: option.splits dest: spec [of _ a])

text \<open>A pointer that was already put in its place is counted.\<close>

lemma count_pointer:
  assumes "finite (dom (s_vars s1))" "all_pointers s1 < 2 ^ 32" "usable p s1"
    and "\<And>a. owners s1 a = n a + (if p = At a then 1 else 0)"
    and "\<And>a. case fmlookup (s_heap s1) a of None \<Rightarrow> n a = 0 | Some ob \<Rightarrow> m_rc ob = of_nat (n a)"
  shows "\<exists>s2. if_set addRef p s1 = Inr s2 \<and> counted s2 \<and> s_vars s2 = s_vars s1 \<and> (\<forall>a. owners s2 a = owners s1 a)
    \<and> (\<forall>a. map_option o_value (fmlookup (s_heap s2) a) = map_option o_value (fmlookup (s_heap s1) a))"
proof (cases p)
  case Null
  then have "counted s1" using assms by (simp add: counted_def cong: option.case_cong)
  then show ?thesis using Null by (simp add: if_set_def)
next
  case (At b)
  then obtain ob where ob: "fmlookup (s_heap s1) b = Some ob" using assms(3) by (auto simp: usable_def alive_def)
  let ?s = "s1\<lparr>s_heap := fmupd b (ob\<lparr>m_rc := m_rc ob + 1\<rparr>) (s_heap s1)\<rparr>"
  have own: "owners ?s a = owners s1 a" for a by (simp add: owners_def held_def member_sum_count [OF ob])
  have "m_rc ob = of_nat (n b)" using assms(5) [of b] ob by simp
  then have "case fmlookup (s_heap ?s) a of None \<Rightarrow> owners ?s a = 0 | Some ob \<Rightarrow> m_rc ob = of_nat (owners ?s a)" for a
    using assms(4,5) [of a] At own [of a] by (cases "a = b") (auto split: option.splits)
  moreover have "all_pointers ?s = all_pointers s1" by (simp add: all_pointers_def member_sum_count [OF ob])
  ultimately have "counted ?s" using assms(1,2) by (simp add: counted_def)
  moreover have "if_set addRef p s1 = Inr ?s" using At ob by (simp add: if_set_def addRef_def)
  ultimately show ?thesis using own ob by (intro exI [of _ ?s]) auto
qed

lemma gain:
  assumes "counted s" "s_vars s x = None" "all_pointers s < 2 ^ 32 - 1" "usable p s"
  shows "\<exists>s'. if_set addRef p (put_var x (Some p) s) = Inr s' \<and> moved s s' ((s_vars s)(x \<mapsto> p))
    \<and> (\<forall>a. owners s' a = owners s a + (if p = At a then 1 else 0))"
proof -
  let ?s = "put_var x (Some p) s"
  have fin: "finite (dom (s_vars s))" using assms(1) by (simp add: counted_def)
  have "card (dom (s_vars ?s)) = Suc (card (dom (s_vars s)))" using fin assms(2) by (simp add: put_var_def domIff)
  then have "all_pointers ?s < 2 ^ 32" using assms(3) by (simp add: all_pointers_def put_var_def)
  moreover have own: "owners ?s a = owners s a + (if p = At a then 1 else 0)" for a
    using var_owners_upd [OF fin, of x "Some p" a] assms(2) by (auto simp: owners_def put_var_def)
  moreover have "case fmlookup (s_heap ?s) a of None \<Rightarrow> owners s a = 0 | Some ob \<Rightarrow> m_rc ob = of_nat (owners s a)" for a
    using assms(1) by (simp add: counted_def put_var_def)
  moreover have "finite (dom (s_vars ?s))" "usable p ?s"
    using fin assms(4) by (auto simp: put_var_def usable_def alive_def split: pointer.splits)
  ultimately obtain s2 where s2: "if_set addRef p ?s = Inr s2" "counted s2" "s_vars s2 = s_vars ?s"
    "\<forall>a. owners s2 a = owners ?s a" "\<forall>a. map_option o_value (fmlookup (s_heap s2) a) = map_option o_value (fmlookup (s_heap ?s) a)"
    using count_pointer [of ?s p "owners s"] by blast
  have "deletes_unowned s s2" using s2(4,5) own by (auto simp: deletes_unowned_def put_var_def)
  then show ?thesis using s2(1-4) own by (simp add: moved_def put_var_def)
qed

lemma counted_owner:
  assumes "counted s" "s_vars s x = Some (At b)"
  shows "0 < owners s b" "\<exists>ob. fmlookup (s_heap s) b = Some ob"
proof -
  have fin: "finite (dom (s_vars s))" using assms(1) by (simp add: counted_def)
  have "0 < var_owners (s_vars s) b"
    unfolding var_owners_def using assms(2) finite_subset [OF _ fin, of "{x. s_vars s x = Some (At b)}"] by (auto simp: card_gt_0_iff)
  then show "0 < owners s b" by (simp add: owners_def)
  then show "\<exists>ob. fmlookup (s_heap s) b = Some ob"
    using counted_heap(1) [OF assms(1), of b] by (cases "fmlookup (s_heap s) b") auto
qed

text \<open>A living object that gets a pointer.\<close>

lemma adopt:
  assumes "counted s" "s_vars s x = Some (At b)" "s_vars s y = Some p" "all_pointers s < 2 ^ 32 - 1" "usable p s"
  shows "\<exists>s'. ptr_adopt x y s = Inr s' \<and> moved s s' (s_vars s)"
proof -
  have fin: "finite (dom (s_vars s))" using assms(1) by (simp add: counted_def)
  obtain ob where ob: "fmlookup (s_heap s) b = Some ob" using counted_owner(2) [OF assms(1,2)] by blast
  let ?ob = "ob\<lparr>o_members := o_members ob @ [p]\<rparr>"
  let ?s = "s\<lparr>s_heap := fmupd b ?ob (s_heap s)\<rparr>"
  have "all_pointers ?s = Suc (all_pointers s)"
    using member_sum_fmupd [of length b ?ob "s_heap s"] ob by (simp add: all_pointers_def)
  then have "all_pointers ?s < 2 ^ 32" using assms(4) by simp
  moreover have own: "owners ?s a = owners s a + (if p = At a then 1 else 0)" for a
    using member_sum_fmupd [of "\<lambda>ms. count_list ms (At a)" b ?ob "s_heap s"] ob by (simp add: owners_def held_def)
  moreover have "case fmlookup (s_heap ?s) a of None \<Rightarrow> owners s a = 0 | Some ob \<Rightarrow> m_rc ob = of_nat (owners s a)" for a
    using counted_heap [OF assms(1), of a] ob by (auto split: option.split)
  moreover have "finite (dom (s_vars ?s))" "usable p ?s"
    using fin assms(5) by (auto simp: usable_def alive_def split: pointer.splits)
  ultimately obtain s2 where s2: "if_set addRef p ?s = Inr s2" "counted s2" "s_vars s2 = s_vars ?s"
    "\<forall>a. owners s2 a = owners ?s a" "\<forall>a. map_option o_value (fmlookup (s_heap s2) a) = map_option o_value (fmlookup (s_heap ?s) a)"
    using count_pointer [of ?s p "owners s"] by blast
  have "deletes_unowned s s2" using s2(4,5) own ob by (auto simp: deletes_unowned_def)
  moreover have "ptr_adopt x y s = Inr s2" using assms(2,3) ob s2(1) by (simp add: ptr_adopt_def var_of_def)
  ultimately show ?thesis using s2(2,3) by (simp add: moved_def)
qed

lemma if_set_release: "if_set release p s = bindR (release_all [p] (s_heap s)) (\<lambda>h. Inr (s\<lparr>s_heap := h\<rparr>))"
  by (cases p) (simp_all only: if_set_def release_def pointer.case release_all.simps bindR.simps store.surjective [symmetric], simp)

lemma lose:
  assumes "counted s" "s_vars s x = Some p" "q = None \<or> q = Some Null"
  shows "\<exists>s'. bindR (if_set release p s) (\<lambda>s'. Inr (put_var x q s')) = Inr s' \<and> moved s s' ((s_vars s)(x := q))"
proof -
  let ?vs = "(s_vars s)(x := q)"
  have fin: "finite (dom (s_vars s))" and bound: "all_pointers s < 2 ^ 32" using assms(1) by (simp_all add: counted_def)
  have vs: "var_owners ?vs a + (if p = At a then 1 else 0) = var_owners (s_vars s) a" for a
    using var_owners_upd [OF fin, of x q a] assms(2,3) by auto
  have p: "owners_with (var_owners ?vs) [p] (s_heap s) a = owners s a" for a
    using vs [of a] by (auto simp: owners_with_def owners_def)
  have "counts_agree (var_owners ?vs) [p] (s_heap s)"
    unfolding counts_agree_def p using counted_heap [OF assms(1)] le_less_trans [OF owners_bound [OF fin] bound]
    by (auto split: option.split)
  then obtain h where h: "release_all [p] (s_heap s) = Inr h" "released (var_owners ?vs) [p] (s_heap s) h"
    using release_all_released by blast
  let ?s = "s\<lparr>s_heap := h, s_vars := ?vs\<rparr>"
  have own: "owners ?s a = owners_with (var_owners ?vs) [] h a" for a by (simp add: owners_def owners_with_def)
  have sub: "dom ?vs \<subseteq> dom (s_vars s)" using assms(2) by (auto split: if_splits)
  have "card (dom ?vs) \<le> card (dom (s_vars s))" using card_mono [OF fin sub] .
  moreover have "member_sum length h \<le> member_sum length (s_heap s)" using h(2) by (simp add: released_def)
  ultimately have "all_pointers ?s < 2 ^ 32" using bound by (simp add: all_pointers_def)
  moreover have "counts_agree (var_owners ?vs) [] h" using h(2) by (simp add: released_def)
  then have "case fmlookup h a of None \<Rightarrow> owners ?s a = 0 | Some ob \<Rightarrow> m_rc ob = of_nat (owners ?s a)" for a
    unfolding own counts_agree_def by simp
  ultimately have "counted ?s" using finite_subset [OF sub fin] by (simp add: counted_def)
  moreover have fate: "map_option o_value (fmlookup h a) =
      (if owners s a \<noteq> 0 \<and> owners ?s a = 0 then None else map_option o_value (fmlookup (s_heap s) a))" for a
    using h(2) unfolding released_def p own by blast
  have "deletes_unowned s ?s"
    unfolding deletes_unowned_def
  proof (intro allI impI)
    fix a
    show "if owners s a \<noteq> 0 \<and> owners ?s a = 0 then \<not> alive ?s a
        else map_option o_value (fmlookup (s_heap ?s) a) = map_option o_value (fmlookup (s_heap s) a)"
      using fate [of a] by (auto simp: alive_def)
  qed
  moreover have "bindR (if_set release p s) (\<lambda>s'. Inr (put_var x q s')) = Inr ?s"
    using h(1) by (simp add: if_set_release put_var_def)
  ultimately show ?thesis by (intro exI [of _ ?s]) (simp add: moved_def)
qed

lemma swap_pointers:
  assumes "counted s" "s_vars s x = Some p" "s_vars s y = Some q"
  shows "\<exists>s'. ptr_swap x y s = Inr s' \<and> counted s' \<and> s_vars s' = (s_vars s)(x \<mapsto> q, y \<mapsto> p) \<and> s_heap s' = s_heap s
    \<and> (\<forall>a. owners s' a = owners s a) \<and> all_pointers s' = all_pointers s"
proof -
  let ?s' = "put_var y (Some p) (put_var x (Some q) s)"
  have fin: "finite (dom (s_vars s))" using assms(1) by (simp add: counted_def)
  then have fin': "finite (dom ((s_vars s)(x \<mapsto> q)))" by simp
  have own: "owners ?s' a = owners s a" for a
    using var_owners_upd [OF fin, of x "Some q" a] var_owners_upd [OF fin', of y "Some p" a] assms(2,3)
    by (auto simp: owners_def put_var_def split: if_splits)
  have "dom (s_vars ?s') = dom (s_vars s)" using assms(2,3) by (auto simp: put_var_def)
  then have all: "all_pointers ?s' = all_pointers s" by (simp add: all_pointers_def put_var_def)
  have "counted ?s'"
    using assms(1) own all fin unfolding counted_def by (simp add: put_var_def cong: option.case_cong)
  moreover have "ptr_swap x y s = Inr ?s'" using assms(2,3) by (simp add: ptr_swap_def var_of_def)
  ultimately show ?thesis using own all by (auto simp: put_var_def)
qed

definition settled :: "'v store \<Rightarrow> bool" where
  "settled s \<longleftrightarrow> counted s \<and> s_vars s Temp = None"

lemma settled_empty: "settled empty_store"
  by (simp add: settled_def counted_def empty_store_def owners_def var_owners_def held_def member_sum_def all_pointers_def)

lemma pointer_usable: "counted s \<Longrightarrow> s_vars s x = Some p \<Longrightarrow> usable p s"
  using counted_owner by (cases p) (auto simp: usable_def alive_def)

lemma member_usable:
  assumes "counted s" "fmlookup (s_heap s) a = Some ob" "p \<in> set (o_members ob)"
  shows "usable p s"
proof (cases p)
  case (At b)
  have "count_list (o_members ob) (At b) \<noteq> 0" using assms(3) At by (simp add: count_list_0_iff)
  then have "held (s_heap s) b \<noteq> 0"
    using member_sum_rest [of "\<lambda>ms. count_list ms (At b)" "s_heap s" a] assms(2) by (simp add: held_def)
  then have "owners s b \<noteq> 0" by (simp add: owners_def)
  then show ?thesis using counted_heap(1) [OF assms(1), of b] At by (auto simp: usable_def alive_def)
qed (simp add: usable_def)

text \<open>The three steps of an assignment: the temporary, the swap, the end of the temporary.\<close>

lemma swap_and_drop:
  assumes "counted s" "s_vars s Temp = None" "s_vars s (Named x) = Some q" "moved s s1 ((s_vars s)(Temp \<mapsto> p))"
    and "\<forall>a. owners s1 a = owners s a + (if p = At a then 1 else 0)"
  shows "\<exists>s'. bindR (ptr_swap (Named x) Temp s1) (ptr_destroy Temp) = Inr s' \<and> settled s' \<and> deletes_unowned s s'"
proof -
  have s1: "counted s1" "s_vars s1 (Named x) = Some q" "s_vars s1 Temp = Some p" "s_vars s1 = (s_vars s)(Temp \<mapsto> p)"
    "deletes_unowned s s1"
    using assms(3,4) by (simp_all add: moved_def)
  obtain s2 where s2: "ptr_swap (Named x) Temp s1 = Inr s2" "counted s2"
    "s_vars s2 = (s_vars s1)(Named x \<mapsto> p, Temp \<mapsto> q)" "s_heap s2 = s_heap s1" "\<forall>a. owners s2 a = owners s1 a"
    using swap_pointers [OF s1(1-3)] by blast
  have "s_vars s2 Temp = Some q" using s2(3) by simp
  then obtain s3 where s3: "ptr_destroy Temp s2 = Inr s3" "moved s2 s3 ((s_vars s2)(Temp := None))"
    using lose [OF s2(2), of Temp q None] by (auto simp: ptr_destroy_def var_of_def)
  then have s3': "counted s3" "s_vars s3 = (s_vars s)(Named x \<mapsto> p)" "deletes_unowned s2 s3"
    using s2(3) s1(4) assms(2) by (auto simp: moved_def fun_eq_iff)
  have "deletes_unowned s s3"
    unfolding deletes_unowned_def
  proof (intro allI impI)
    fix a assume a: "alive s a"
    have own1: "owners s1 a = owners s a + (if p = At a then 1 else 0)" using assms(5) by simp
    have own3: "p = At a \<Longrightarrow> owners s3 a \<noteq> 0"
      using counted_owner(1) [OF s3'(1), of "Named x" a] s3'(2) by simp
    have same: "map_option o_value (fmlookup (s_heap s1) a) = map_option o_value (fmlookup (s_heap s) a)"
      using s1(5) a own1 by (auto simp: deletes_unowned_def split: if_splits)
    then have "alive s2 a" using a s2(4) by (auto simp: alive_def)
    then have "if owners s2 a \<noteq> 0 \<and> owners s3 a = 0 then \<not> alive s3 a
        else map_option o_value (fmlookup (s_heap s3) a) = map_option o_value (fmlookup (s_heap s2) a)"
      using s3'(3) by (simp add: deletes_unowned_def)
    then show "if owners s a \<noteq> 0 \<and> owners s3 a = 0 then \<not> alive s3 a
        else map_option o_value (fmlookup (s_heap s3) a) = map_option o_value (fmlookup (s_heap s) a)"
      using s2(4,5) same own1 own3 by (auto split: if_splits)
  qed
  moreover have "settled s3" using s3'(1,2) assms(2) by (simp add: settled_def)
  ultimately show ?thesis using s2(1) s3(1) by auto
qed

lemma counted_new:
  assumes "counted s" "\<not> alive s a"
  shows "moved s (new_object a v s) (s_vars s)"
proof -
  let ?ob = "\<lparr>m_rc = 0, o_members = [], o_value = v\<rparr>"
  let ?s = "new_object a v s"
  have a: "fmlookup (s_heap s) a = None" using assms(2) by (simp add: alive_def)
  have own: "owners ?s b = owners s b" for b
    using member_sum_fmupd [of "\<lambda>ms. count_list ms (At b)" a ?ob "s_heap s"] a by (simp add: owners_def held_def new_object_def)
  have all: "all_pointers ?s = all_pointers s"
    using member_sum_fmupd [of length a ?ob "s_heap s"] a by (simp add: all_pointers_def new_object_def)
  have "case fmlookup (s_heap ?s) b of None \<Rightarrow> owners s b = 0 | Some ob \<Rightarrow> m_rc ob = of_nat (owners s b)" for b
    using counted_heap [OF assms(1), of b] counted_heap(1) [OF assms(1) a] by (auto simp: new_object_def split: option.split)
  then have "counted ?s" using assms(1) unfolding counted_def own all by (simp add: new_object_def)
  moreover have "deletes_unowned s ?s" using a unfolding deletes_unowned_def own by (auto simp: alive_def new_object_def)
  ultimately show ?thesis by (simp add: moved_def new_object_def)
qed

text \<open>
  C40. Counted pointers are safe: an operation of a program that uses its plain pointers only while
  their objects live never touches a deleted object, keeps every count equal to the number of the
  pointers, in variables and in other objects, and deletes an object exactly when the last of its
  pointers goes, be it with the object that held it; a pointer to nothing cannot be left behind,
  assignment of a pointer to itself included.
\<close>

theorem pointers_are_safe:
  assumes "settled s" "scoped op s" "all_pointers s < 2 ^ 32 - 1"
  shows "\<exists>s'. perform op s = Inr s' \<and> settled s' \<and> deletes_unowned s s' \<and> (\<forall>x p. s_vars s' x = Some p \<longrightarrow> usable p s')
    \<and> (\<forall>a ob p. fmlookup (s_heap s') a = Some ob \<longrightarrow> p \<in> set (o_members ob) \<longrightarrow> usable p s')"
proof -
  have s: "counted s" "s_vars s Temp = None" using assms(1) by (simp_all add: settled_def)
  have "\<exists>s'. perform op s = Inr s' \<and> settled s' \<and> deletes_unowned s s'"
  proof (cases op)
    case (New a v)
    then show ?thesis using counted_new [OF s(1), of a v] assms(2) s(2) by (simp add: moved_def settled_def)
  next
    case (Default x)
    then show ?thesis using gain [OF s(1), of "Named x" Null] assms(2,3) s(2)
      by (auto simp: ptr_null_def if_set_def usable_def settled_def moved_def)
  next
    case (From x p)
    then show ?thesis using gain [OF s(1), of "Named x" p] assms(2,3) s(2) by (auto simp: ptr_from_def settled_def moved_def)
  next
    case (Copy x y)
    then obtain p where p: "s_vars s (Named y) = Some p" using assms(2) by auto
    then show ?thesis using gain [OF s(1), of "Named x" p] pointer_usable [OF s(1) p] assms(2,3) s(2) Copy
      by (auto simp: ptr_copy_def var_of_def settled_def moved_def)
  next
    case (Destroy x)
    then obtain p where "s_vars s (Named x) = Some p" using assms(2) by auto
    then show ?thesis using lose [OF s(1), of "Named x" p None] s(2) Destroy
      by (auto simp: ptr_destroy_def var_of_def settled_def moved_def)
  next
    case (Reset x)
    then obtain p where "s_vars s (Named x) = Some p" using assms(2) by auto
    then show ?thesis using lose [OF s(1), of "Named x" p "Some Null"] s(2) Reset
      by (auto simp: ptr_reset_def var_of_def settled_def moved_def)
  next
    case (Swap x y)
    then obtain p q where "s_vars s (Named x) = Some p" "s_vars s (Named y) = Some q" using assms(2) by auto
    then obtain s' where s': "ptr_swap (Named x) (Named y) s = Inr s'" "counted s'" "s_vars s' Temp = None"
      "s_heap s' = s_heap s" "\<forall>a. owners s' a = owners s a"
      using swap_pointers [OF s(1), of "Named x" p "Named y" q] s(2) by auto
    then have "deletes_unowned s s'" by (auto simp: deletes_unowned_def)
    then show ?thesis using s' Swap by (simp add: settled_def)
  next
    case (Assign_raw x p)
    then obtain q where q: "s_vars s (Named x) = Some q" using assms(2) by auto
    obtain s1 where "ptr_from Temp p s = Inr s1" "moved s s1 ((s_vars s)(Temp \<mapsto> p))"
      "\<forall>a. owners s1 a = owners s a + (if p = At a then 1 else 0)"
      using gain [OF s assms(3), of p] assms(2) Assign_raw by (auto simp: ptr_from_def)
    then show ?thesis using swap_and_drop [OF s q] Assign_raw by (simp add: ptr_assign_raw_def)
  next
    case (Assign x y)
    then obtain q p where q: "s_vars s (Named x) = Some q" and p: "s_vars s (Named y) = Some p" using assms(2) by auto
    obtain s1 where "ptr_copy Temp (Named y) s = Inr s1" "moved s s1 ((s_vars s)(Temp \<mapsto> p))"
      "\<forall>a. owners s1 a = owners s a + (if p = At a then 1 else 0)"
      using gain [OF s assms(3) pointer_usable [OF s(1) p]] p by (auto simp: ptr_copy_def var_of_def)
    then show ?thesis using swap_and_drop [OF s q] Assign by (simp add: ptr_assign_def)
  next
    case (Adopt x y)
    then obtain b p where x: "s_vars s (Named x) = Some (At b)" and p: "s_vars s (Named y) = Some p"
      using assms(2) by (auto, metis pointer.exhaust)
    then show ?thesis using adopt [OF s(1) x p assms(3) pointer_usable [OF s(1) p]] s(2) Adopt
      by (auto simp: settled_def moved_def)
  qed
  then show ?thesis using pointer_usable member_usable by (auto simp: settled_def)
qed

text \<open>
  An object that holds the only pointer to another one: when the last pointer to the first is reset, both
  are deleted.
\<close>

definition parent_and_child :: "string store" where
  "parent_and_child =
     \<lparr>s_heap = fmupd 8 \<lparr>m_rc = 1, o_members = [], o_value = ''child''\<rparr>
        (fmupd 7 \<lparr>m_rc = 1, o_members = [At 8], o_value = ''parent''\<rparr> fmempty),
      s_vars = [Named 1 \<mapsto> At 7]\<rparr>"

lemma pointers_are_safe_witness:
  "\<exists>s'. perform (Reset 1) parent_and_child = Inr s' \<and> deletes_unowned parent_and_child s'
    \<and> owners parent_and_child 7 = 1 \<and> owners parent_and_child 8 = 1 \<and> \<not> alive s' 7 \<and> \<not> alive s' 8"
proof -
  let ?s = parent_and_child
  have vars: "var_owners (s_vars ?s) a = (if a = 7 then 1 else 0)" for a
  proof -
    have "{x. s_vars ?s x = Some (At a)} = (if a = 7 then {Named 1} else {})" by (auto simp: parent_and_child_def)
    then show ?thesis by (simp add: var_owners_def)
  qed
  have own: "owners ?s a = (if a = 7 \<or> a = 8 then 1 else 0)" for a
    unfolding owners_def vars by (auto simp: held_def member_sum_def parent_and_child_def)
  have all: "all_pointers ?s = 2" by (simp add: all_pointers_def member_sum_def parent_and_child_def)
  have "counted ?s" unfolding counted_def own all by (simp add: parent_and_child_def)
  then have "settled ?s" by (simp add: settled_def parent_and_child_def)
  moreover have "scoped (Reset 1) ?s" by (simp add: parent_and_child_def)
  ultimately obtain s' where s': "perform (Reset 1) ?s = Inr s'" "deletes_unowned ?s s'"
    using pointers_are_safe [of ?s "Reset 1"] all by auto
  moreover from s'(1) have "\<not> alive s' 7" "\<not> alive s' 8"
    by (auto simp: ptr_reset_def var_of_def parent_and_child_def if_set_def release_def put_var_def alive_def)
  ultimately show ?thesis using own by auto
qed

text \<open>A pointer made from the address of a deleted object is where safety ends.\<close>

lemma dangling_pointer:
  "bindR (perform (New 7 v) empty_store) (\<lambda>s. bindR (perform (From 1 (At 7)) s) (\<lambda>s.
     bindR (perform (Destroy 1) s) (perform (From 2 (At 7))))) = Inl (Undefined Dangling)"
  by (simp add: new_object_def empty_store_def ptr_from_def ptr_destroy_def var_of_def if_set_def put_var_def addRef_def release_def)

text \<open>
  An object that holds a pointer to itself is never deleted: its count does not come to zero when the last
  variable goes.
\<close>

lemma cycles_are_kept:
  "\<exists>s. bindR (perform (New 7 v) empty_store) (\<lambda>s. bindR (perform (From 1 (At 7)) s) (\<lambda>s.
     bindR (perform (Adopt 1 1) s) (perform (Destroy 1)))) = Inr s \<and> alive s 7 \<and> s_vars s = Map.empty"
  by (simp add: new_object_def empty_store_def ptr_from_def ptr_destroy_def ptr_adopt_def var_of_def if_set_def put_var_def
      addRef_def release_def alive_def fun_eq_iff)

end
