(* ===== verification/Catch_Streams.thy ===== *)
theory Catch_Streams
  imports Catch_Registry
begin

text \<open>
  What lies between the test framework and the console (\<open>include/catch.h\<close>): the buffered stream,
  colours, and the timer that durations are read from. The clock, the terminal and the files that can be
  written are arguments.
\<close>

section \<open>The buffered stream\<close>

text \<open>
  A stream buffer of some size, that hands strings to a writer: what it holds, and what the writer was
  given so far. The end of file is \<open>None\<close>.
\<close>

record stream_buf =
  sb_data :: string
  sb_written :: "string list"

definition newStreamBuf :: stream_buf where
  "newStreamBuf = \<lparr>sb_data = [], sb_written = []\<rparr>"

definition sb_sync :: "stream_buf \<Rightarrow> stream_buf" where
  "sb_sync b = (if sb_data b \<noteq> [] then \<lparr>sb_data = [], sb_written = sb_written b @ [sb_data b]\<rparr> else b)"

definition sb_overflow :: "nat \<Rightarrow> char option \<Rightarrow> stream_buf \<Rightarrow> stream_buf" where
  "sb_overflow room c b =
     (let b' = sb_sync b
      in case c of
           None \<Rightarrow> b'
         | Some x \<Rightarrow> if room = 0 then b'\<lparr>sb_written := sb_written b' @ [[x]]\<rparr> else b'\<lparr>sb_data := sb_data b' @ [x]\<rparr>)"

text \<open>\<open>sputc\<close>: a character goes into the buffer as long as there is room.\<close>

definition sb_putc :: "nat \<Rightarrow> char \<Rightarrow> stream_buf \<Rightarrow> stream_buf" where
  "sb_putc room c b =
     (if length (sb_data b) < room then b\<lparr>sb_data := sb_data b @ [c]\<rparr> else sb_overflow room (Some c) b)"

definition sb_destroy :: "stream_buf \<Rightarrow> string list" where
  "sb_destroy b = sb_written (sb_sync b)"

datatype stream_op = Put char | Flush

fun stream_ops :: "nat \<Rightarrow> stream_op list \<Rightarrow> stream_buf \<Rightarrow> stream_buf" where
  "stream_ops room [] b = b"
| "stream_ops room (Put c # ops) b = stream_ops room ops (sb_putc room c b)"
| "stream_ops room (Flush # ops) b = stream_ops room ops (sb_sync b)"

fun put_chars :: "stream_op list \<Rightarrow> string" where
  "put_chars [] = []"
| "put_chars (Put c # ops) = c # put_chars ops"
| "put_chars (Flush # ops) = put_chars ops"

text \<open>What the buffer stands for: all that was put, written or not.\<close>

definition stream_text :: "stream_buf \<Rightarrow> string" where
  "stream_text b = concat (sb_written b) @ sb_data b"

definition stream_fits :: "nat \<Rightarrow> stream_buf \<Rightarrow> bool" where
  "stream_fits room b \<longleftrightarrow> length (sb_data b) \<le> room \<and> (\<forall>w\<in>set (sb_written b). w \<noteq> [] \<and> length w \<le> max room 1)"

lemma sync_refines [simp]: "stream_text (sb_sync b) = stream_text b"
  by (simp add: stream_text_def sb_sync_def)

lemma putc_refines [simp]: "stream_text (sb_putc room c b) = stream_text b @ [c]"
  by (simp add: stream_text_def sb_putc_def sb_overflow_def sb_sync_def Let_def)

lemma sync_fits: "stream_fits room b \<Longrightarrow> stream_fits room (sb_sync b)"
  by (auto simp: stream_fits_def sb_sync_def)

lemma sync_empties: "sb_data (sb_sync b) = []"
  by (simp add: sb_sync_def)

lemma overflow_fits:
  assumes "stream_fits room b"
  shows "stream_fits room (sb_overflow room (Some c) b)"
proof -
  have fits: "\<forall>w\<in>set (sb_written (sb_sync b)). w \<noteq> [] \<and> length w \<le> max room 1"
    using sync_fits [OF assms] unfolding stream_fits_def by blast
  show ?thesis
  proof (cases "room = 0")
    case True
    then show ?thesis using fits by (simp add: sb_overflow_def stream_fits_def sync_empties Let_def)
  next
    case False
    then show ?thesis using fits by (simp add: sb_overflow_def stream_fits_def sync_empties Let_def)
  qed
qed

lemma putc_fits:
  assumes "stream_fits room b"
  shows "stream_fits room (sb_putc room c b)"
proof (cases "length (sb_data b) < room")
  case True
  then show ?thesis using assms by (simp add: sb_putc_def stream_fits_def)
next
  case False
  then show ?thesis using overflow_fits [OF assms] by (simp add: sb_putc_def)
qed

lemma stream_ops_refine:
  "stream_text (stream_ops room ops b) = stream_text b @ put_chars ops"
  "stream_fits room b \<Longrightarrow> stream_fits room (stream_ops room ops b)"
  by (induction room ops b rule: stream_ops.induct) (simp_all add: sync_fits putc_fits)

text \<open>
  The buffer loses nothing, adds nothing and keeps the order: when the stream is gone, the writer was
  given the characters that were put, in pieces that are not empty and no longer than the buffer.
\<close>

lemma stream_writes_what_was_put:
  shows "concat (sb_destroy (stream_ops room ops newStreamBuf)) = put_chars ops"
    and "\<forall>w\<in>set (sb_destroy (stream_ops room ops newStreamBuf)). w \<noteq> [] \<and> length w \<le> max room 1"
proof -
  let ?b = "stream_ops room ops newStreamBuf"
  have new: "stream_text newStreamBuf = []" "stream_fits room newStreamBuf"
    by (simp_all add: stream_text_def stream_fits_def newStreamBuf_def)
  have "stream_text (sb_sync ?b) = put_chars ops" by (simp add: stream_ops_refine new)
  moreover have "sb_data (sb_sync ?b) = []" by (simp add: sb_sync_def)
  ultimately show "concat (sb_destroy ?b) = put_chars ops" by (simp add: stream_text_def sb_destroy_def)
  show "\<forall>w\<in>set (sb_destroy ?b). w \<noteq> [] \<and> length w \<le> max room 1"
    using sync_fits [OF stream_ops_refine(2) [OF new(2)]] by (simp add: stream_fits_def sb_destroy_def)
qed

section \<open>Redirected output\<close>

text \<open>
  A stream writes to its own buffer or, while it is redirected, to that of an object, which puts what it
  got behind a string of the caller in the end. The objects have numbers.
\<close>

record out_stream =
  os_buffer :: "nat option"
  os_own :: string
  os_oss :: "nat \<Rightarrow> string"

definition os_write :: "string \<Rightarrow> out_stream \<Rightarrow> out_stream" where
  "os_write s st =
     (case os_buffer st of
        None \<Rightarrow> st\<lparr>os_own := os_own st @ s\<rparr>
      | Some n \<Rightarrow> st\<lparr>os_oss := (os_oss st)(n := os_oss st n @ s)\<rparr>)"

text \<open>The constructor keeps the buffer the stream had, the destructor puts it back.\<close>

definition redirect_begin :: "nat \<Rightarrow> out_stream \<Rightarrow> nat option \<times> out_stream" where
  "redirect_begin n st = (os_buffer st, st\<lparr>os_buffer := Some n, os_oss := (os_oss st)(n := [])\<rparr>)"

definition redirect_end :: "nat \<Rightarrow> nat option \<Rightarrow> string \<Rightarrow> out_stream \<Rightarrow> string \<times> out_stream" where
  "redirect_end n prevBuf target st = (target @ os_oss st n, st\<lparr>os_buffer := prevBuf\<rparr>)"

text \<open>What a program writes, with blocks that redirect; an exception that leaves a block ends it too.\<close>

datatype io = Write string | Redirected_block nat "io list"

fun run_io :: "io \<Rightarrow> (nat \<Rightarrow> string) \<times> out_stream \<Rightarrow> (nat \<Rightarrow> string) \<times> out_stream"
  and run_ios :: "io list \<Rightarrow> (nat \<Rightarrow> string) \<times> out_stream \<Rightarrow> (nat \<Rightarrow> string) \<times> out_stream" where
  "run_io (Write s) (targets, st) = (targets, os_write s st)"
| "run_io (Redirected_block n body) (targets, st) =
     (let (prevBuf, st1) = redirect_begin n st;
          (targets2, st2) = run_ios body (targets, st1);
          (t, st3) = redirect_end n prevBuf (targets2 n) st2
      in (targets2(n := t), st3))"
| "run_ios [] x = x"
| "run_ios (i # is) x = run_ios is (run_io i x)"

text \<open>What is written outside the blocks, and the numbers of the blocks.\<close>

fun direct_text :: "io list \<Rightarrow> string" where
  "direct_text [] = []"
| "direct_text (Write s # is) = s @ direct_text is"
| "direct_text (Redirected_block n body # is) = direct_text is"

fun block_numbers :: "io \<Rightarrow> nat set" where
  "block_numbers (Write s) = {}"
| "block_numbers (Redirected_block n body) = insert n (\<Union> (block_numbers ` set body))"

fun blocks_apart :: "io \<Rightarrow> bool" where
  "blocks_apart (Write s) = True"
| "blocks_apart (Redirected_block n body) = (n \<notin> \<Union> (block_numbers ` set body) \<and> list_all blocks_apart body)"

definition gains :: "string \<Rightarrow> nat set \<Rightarrow> (nat \<Rightarrow> string) \<times> out_stream \<Rightarrow> (nat \<Rightarrow> string) \<times> out_stream \<Rightarrow> bool" where
  "gains s ns x y \<longleftrightarrow> os_buffer (snd y) = os_buffer (snd x)
     \<and> os_own (snd y) = os_own (snd x) @ (if os_buffer (snd x) = None then s else [])
     \<and> (\<forall>k. k \<notin> ns \<longrightarrow> fst y k = fst x k \<and> os_oss (snd y) k = os_oss (snd x) k @ (if os_buffer (snd x) = Some k then s else []))"

lemma gains_trans: "gains s ns x y \<Longrightarrow> gains t ms y z \<Longrightarrow> gains (s @ t) (ns \<union> ms) x z"
  by (auto simp: gains_def)

lemma run_gains:
  "blocks_apart i \<Longrightarrow> (\<And>k. os_buffer (snd x) = Some k \<Longrightarrow> k \<notin> block_numbers i) \<Longrightarrow>
     gains (direct_text [i]) (block_numbers i) x (run_io i x)"
  "list_all blocks_apart is \<Longrightarrow> (\<And>k. os_buffer (snd x) = Some k \<Longrightarrow> k \<notin> \<Union> (block_numbers ` set is)) \<Longrightarrow>
     gains (direct_text is) (\<Union> (block_numbers ` set is)) x (run_ios is x)"
proof (induction i x and "is" x rule: run_io_run_ios.induct)
  case (1 s targets st)
  then show ?case by (auto simp: gains_def os_write_def split: option.splits)
next
  case (2 n body targets st)
  let ?x = "(targets, snd (redirect_begin n st))"
  have "gains (direct_text body) (\<Union> (block_numbers ` set body)) ?x (run_ios body ?x)"
    using 2 by (auto simp: redirect_begin_def)
  then show ?case using 2(2)
    by (auto simp: gains_def redirect_begin_def redirect_end_def Let_def split: prod.splits)
next
  case (3 x)
  then show ?case by (simp add: gains_def)
next
  case (4 i "is" x)
  have one: "gains (direct_text [i]) (block_numbers i) x (run_io i x)" using 4 by auto
  then have "os_buffer (snd (run_io i x)) = os_buffer (snd x)" by (simp add: gains_def)
  then have "gains (direct_text is) (\<Union> (block_numbers ` set is)) (run_io i x) (run_ios is (run_io i x))" using 4 by auto
  then have "gains (direct_text [i] @ direct_text is) (block_numbers i \<union> \<Union> (block_numbers ` set is)) x (run_ios (i # is) x)"
    using gains_trans [OF one] by simp
  moreover have "direct_text [i] @ direct_text is = direct_text (i # is)" by (cases i) auto
  ultimately show ?case by simp
qed

text \<open>
  A block that redirects a stream leaves what the stream has written itself and its buffer as they were,
  and what the block wrote, outside blocks within it, is put behind the string it was given.
\<close>

lemma redirection_is_complete:
  assumes "blocks_apart (Redirected_block n body)" "os_buffer st \<noteq> Some n"
    and "\<And>k. os_buffer st = Some k \<Longrightarrow> k \<notin> \<Union> (block_numbers ` set body)"
    and "run_io (Redirected_block n body) (targets, st) = (targets', st')"
  shows "targets' n = targets n @ direct_text body" "os_own st' = os_own st" "os_buffer st' = os_buffer st"
proof -
  let ?x = "(targets, snd (redirect_begin n st))"
  have g: "gains (direct_text body) (\<Union> (block_numbers ` set body)) ?x (run_ios body ?x)"
    using assms(1) by (intro run_gains(2)) (auto simp: redirect_begin_def)
  then show "targets' n = targets n @ direct_text body" "os_own st' = os_own st" "os_buffer st' = os_buffer st"
    using assms(1,4) by (auto simp: gains_def redirect_begin_def redirect_end_def Let_def split: prod.splits)
qed

section \<open>Colours\<close>

datatype colour_code =
    Colour_none | White | Red | Green | Blue | Cyan | Yellow | Grey | Bright
  | LightGrey | BrightRed | BrightGreen | BrightWhite

definition colour_escape :: "colour_code \<Rightarrow> string res" where
  "colour_escape c =
     (case c of
        Colour_none \<Rightarrow> Inr ''[0m'' | White \<Rightarrow> Inr ''[0m'' | Red \<Rightarrow> Inr ''[0;31m'' | Green \<Rightarrow> Inr ''[0;32m''
      | Blue \<Rightarrow> Inr ''[0:34m'' | Cyan \<Rightarrow> Inr ''[0;36m'' | Yellow \<Rightarrow> Inr ''[0;33m'' | Grey \<Rightarrow> Inr ''[1;30m''
      | LightGrey \<Rightarrow> Inr ''[0;37m'' | BrightRed \<Rightarrow> Inr ''[1;31m'' | BrightGreen \<Rightarrow> Inr ''[1;32m''
      | BrightWhite \<Rightarrow> Inr ''[1;37m''
      | Bright \<Rightarrow> Inl (Throws (Exn ''not a colour'')))"

definition use_colour_mode :: "use_colour option \<Rightarrow> bool \<Rightarrow> bool \<Rightarrow> bool" where
  "use_colour_mode configured debugging terminal =
     (case configured of
        Some Yes \<Rightarrow> True
      | Some No \<Rightarrow> False
      | _ \<Rightarrow> \<not> debugging \<and> terminal)"

definition escape_char :: char where "escape_char = CHR 0x1B"

definition colour_use :: "bool \<Rightarrow> colour_code \<Rightarrow> string res" where
  "colour_use coloured c =
     (if coloured then bindR (colour_escape c) (\<lambda>e. Inr (escape_char # e)) else Inr [])"

text \<open>
  A guard sets its colour when it is made, and sets the colour to none when it goes, unless it was
  copied from: then its copy does.
\<close>

datatype colour_op = Guard_begins colour_code | Guard_ends bool | Shown string

definition colour_op_text :: "bool \<Rightarrow> colour_op \<Rightarrow> string res" where
  "colour_op_text coloured op =
     (case op of
        Guard_begins c \<Rightarrow> colour_use coloured c
      | Guard_ends moved \<Rightarrow> if moved then Inr [] else colour_use coloured Colour_none
      | Shown s \<Rightarrow> Inr s)"

fun colour_text :: "bool \<Rightarrow> colour_op list \<Rightarrow> string res" where
  "colour_text coloured [] = Inr []"
| "colour_text coloured (op # ops) =
     bindR (colour_op_text coloured op) (\<lambda>s. bindR (colour_text coloured ops) (\<lambda>t. Inr (s @ t)))"

text \<open>A terminal takes what is between an escape character and the next \<open>m\<close> as a command.\<close>

fun without_escapes :: "bool \<Rightarrow> string \<Rightarrow> string" where
  "without_escapes inside [] = []"
| "without_escapes inside (c # cs) =
     (if inside then without_escapes (c \<noteq> CHR ''m'') cs
      else if c = escape_char then without_escapes True cs
      else c # without_escapes False cs)"

lemma without_escapes_plain: "escape_char \<notin> set s \<Longrightarrow> without_escapes False (s @ t) = s @ without_escapes False t"
  by (induction s) auto

lemma without_escapes_colour: "colour_use True c = Inr s \<Longrightarrow> without_escapes False (s @ t) = without_escapes False t"
  by (cases c) (auto simp: colour_use_def colour_escape_def escape_char_def)

lemma colour_op_texts:
  assumes "colour_op_text True op = Inr s" "\<And>x. op = Shown x \<Longrightarrow> escape_char \<notin> set x"
  shows "\<exists>s'. colour_op_text False op = Inr s' \<and> without_escapes False (s @ t) = s' @ without_escapes False t"
  using assms without_escapes_colour without_escapes_plain
  by (cases op) (auto simp: colour_op_text_def colour_use_def [of False] split: if_splits)

text \<open>
  Colours change nothing else: what a terminal shows of an output with colours is the output without.
\<close>

lemma colours_only_add_escapes:
  assumes "\<forall>s. Shown s \<in> set ops \<longrightarrow> escape_char \<notin> set s" "colour_text True ops = Inr t"
  shows "colour_text False ops = Inr (without_escapes False t)"
  using assms
proof (induction ops arbitrary: t)
  case (Cons op ops)
  obtain s u where s: "colour_op_text True op = Inr s" "colour_text True ops = Inr u" "t = s @ u"
    using Cons.prems(2) by (auto simp: bindR_eq_Inr)
  have "colour_text False ops = Inr (without_escapes False u)" using Cons.IH [OF _ s(2)] Cons.prems(1) by simp
  moreover obtain s' where "colour_op_text False op = Inr s'" "without_escapes False (s @ u) = s' @ without_escapes False u"
    using colour_op_texts [OF s(1)] Cons.prems(1) by force
  ultimately show ?case using s(3) by simp
qed simp

text \<open>
  Two flaws. The guard does not know the colour it replaced, so that behind an inner guard the text of
  the outer one is shown without colour; and the sequence for blue has a colon for a semicolon, so that
  it is none a terminal has to know.
\<close>

fun sgr_parameters :: "string \<Rightarrow> bool" where
  "sgr_parameters [] \<longleftrightarrow> False"
| "sgr_parameters (c # cs) \<longleftrightarrow> (if cs = [] then c = CHR ''m'' else (is_digit c \<or> c = CHR '';'') \<and> sgr_parameters cs)"

definition is_sgr :: "string \<Rightarrow> bool" where
  "is_sgr s \<longleftrightarrow> (case s of c # cs \<Rightarrow> c = CHR ''['' \<and> sgr_parameters cs | [] \<Rightarrow> False)"

lemma blue_is_malformed: "colour_escape c = Inr e \<Longrightarrow> is_sgr e \<longleftrightarrow> c \<noteq> Blue"
  by (cases c) (auto simp: colour_escape_def is_sgr_def is_digit_def)

lemma inner_guard_ends_outer_colour:
  "colour_text True [Guard_begins Red, Shown ''a'', Guard_begins Green, Shown ''b'', Guard_ends False, Shown ''c'', Guard_ends False] =
     Inr (escape_char # ''[0;31ma'' @ escape_char # ''[0;32mb'' @ escape_char # ''[0mc'' @ escape_char # ''[0m'')"
  by (simp add: colour_op_text_def colour_use_def colour_escape_def)

section \<open>The timer\<close>

definition getCurrentTicks :: "64 word \<Rightarrow> 64 word \<Rightarrow> 64 word" where
  "getCurrentTicks tv_sec tv_usec = tv_sec * 1000000 + tv_usec"

definition getElapsedMicroseconds :: "64 word \<Rightarrow> 64 word \<Rightarrow> 32 word" where
  "getElapsedMicroseconds now m_ticks = ucast (now - m_ticks)"

definition getElapsedMilliseconds :: "64 word \<Rightarrow> 64 word \<Rightarrow> 32 word" where
  "getElapsedMilliseconds now m_ticks = getElapsedMicroseconds now m_ticks div 1000"

text \<open>
  The microseconds are an \<open>unsigned int\<close>, so that a duration is known up to a multiple of an hour
  and some eleven minutes only.
\<close>

lemma durations_wrap:
  assumes "m_ticks \<le> now"
  shows "unat (getElapsedMicroseconds now m_ticks) = (unat now - unat m_ticks) mod 2 ^ 32"
    and "unat (getElapsedMilliseconds now m_ticks) = (unat now - unat m_ticks) mod 2 ^ 32 div 1000"
proof -
  show "unat (getElapsedMicroseconds now m_ticks) = (unat now - unat m_ticks) mod 2 ^ 32"
    using assms by (simp add: getElapsedMicroseconds_def unsigned_ucast_eq take_bit_eq_mod unat_sub)
  then show "unat (getElapsedMilliseconds now m_ticks) = (unat now - unat m_ticks) mod 2 ^ 32 div 1000"
    by (simp add: getElapsedMilliseconds_def unat_div)
qed

end
