(* ===== verification/Catch_Translate.thy ===== *)
theory Catch_Translate
  imports Catch_Expression
begin

text \<open>
  How the test framework turns an exception it did not expect into a text (\<open>ExceptionTranslatorRegistry\<close>
  and \<open>ExceptionTranslatorRegistrar\<close> in \<open>include/catch.h\<close>), and how it shows tuples and enumerations.
\<close>

section \<open>Exceptions\<close>

text \<open>An exception by its class; what else it carries is of any type \<open>'x\<close>.\<close>

datatype 'x thrown =
    TestFailureException
  | Std_exception string 'x
  | String_thrown string
  | C_string_thrown "string option"
  | Other_thrown 'x

text \<open>
  A translator for a type: which exceptions its \<open>catch\<close> takes, and the function of the user, which
  yields a text or throws in turn.
\<close>

record 'x translator =
  tr_catches :: "'x thrown \<Rightarrow> bool"
  tr_translate :: "'x thrown \<Rightarrow> 'x thrown + string"

definition registerTranslator :: "'x translator \<Rightarrow> 'x translator list \<Rightarrow> 'x translator list" where
  "registerTranslator t ts = ts @ [t]"

text \<open>Each translator asks the next one within its \<open>try\<close> block; the last one throws again.\<close>

fun translate_chain :: "'x translator list \<Rightarrow> 'x thrown \<Rightarrow> 'x thrown + string" where
  "translate_chain [] e = Inl e"
| "translate_chain (t # ts) e =
     (case translate_chain ts e of
        Inr s \<Rightarrow> Inr s
      | Inl e' \<Rightarrow> if tr_catches t e' then tr_translate t e' else Inl e')"

definition tryTranslators :: "'x translator list \<Rightarrow> 'x thrown \<Rightarrow> 'x thrown + string" where
  "tryTranslators ts e = (if ts = [] then Inl e else translate_chain ts e)"

datatype 'x translation = Translated string | Rethrown "'x thrown" | Undefined_translation

definition translateActiveException :: "'x translator list \<Rightarrow> 'x thrown \<Rightarrow> 'x translation" where
  "translateActiveException ts e =
     (case tryTranslators ts e of
        Inr s \<Rightarrow> Translated s
      | Inl e' \<Rightarrow>
          (case e' of
             TestFailureException \<Rightarrow> Rethrown e'
           | Std_exception w d \<Rightarrow> Translated w
           | String_thrown s \<Rightarrow> Translated s
           | C_string_thrown (Some s) \<Rightarrow> Translated s
           | C_string_thrown None \<Rightarrow> Undefined_translation
           | Other_thrown d \<Rightarrow> Translated ''Unknown exception''))"

section \<open>The last translator comes first\<close>

lemma translate_chain_skip: "\<forall>u\<in>set ts. \<not> tr_catches u e \<Longrightarrow> translate_chain ts e = Inl e"
  by (induction ts) simp_all

lemma translate_chain_append:
  "translate_chain (ss @ ts) e = (case translate_chain ts e of Inr s \<Rightarrow> Inr s | Inl e' \<Rightarrow> translate_chain ss e')"
  by (induction ss) (auto split: sum.split)

lemma translateActive_chain:
  "translateActiveException ts e = (case translate_chain ts e of Inr s \<Rightarrow> Translated s | Inl e' \<Rightarrow> translateActiveException [] e')"
  by (simp add: translateActiveException_def tryTranslators_def split: sum.split)

text \<open>
  The translator that was registered last among those that take the exception gives the text. When it
  throws, the exception it throws is what the translators before it are asked for.
\<close>

lemma last_translator_first:
  assumes "tr_catches t e" "\<forall>u\<in>set later. \<not> tr_catches u e"
  shows "translateActiveException (earlier @ t # later) e =
    (case tr_translate t e of Inr s \<Rightarrow> Translated s | Inl e' \<Rightarrow> translateActiveException earlier e')"
proof -
  have "translate_chain (earlier @ t # later) e =
      (case tr_translate t e of Inr s \<Rightarrow> Inr s | Inl e' \<Rightarrow> translate_chain earlier e')"
    using assms translate_chain_skip [OF assms(2)] by (simp add: translate_chain_append)
  then show ?thesis by (simp add: translateActive_chain [of "earlier @ t # later"] translateActive_chain [of earlier] split: sum.split)
qed

lemma no_translator:
  assumes "\<forall>t\<in>set ts. \<not> tr_catches t e"
  shows "translateActiveException ts e = translateActiveException [] e"
  using translate_chain_skip [OF assms] by (simp add: translateActive_chain [of ts])

section \<open>Shown values\<close>

text \<open>The elements of a tuple are printed from a position on, each with what stands before it.\<close>

fun element_printer :: "nat \<Rightarrow> string list \<Rightarrow> string" where
  "element_printer n [] = []"
| "element_printer n (x # xs) = (if n \<noteq> 0 then '', '' else '' '') @ x @ element_printer (n + 1) xs"

definition toString_tuple :: "string list \<Rightarrow> string" where
  "toString_tuple shown = CHR 0x7B # element_printer 0 shown @ '' '' @ [CHR 0x7D]"

definition toString_vector :: "string list \<Rightarrow> string" where
  "toString_vector shown = rangeToString shown"

definition unprintableString :: string where
  "unprintableString = [CHR 0x7B] @ ''?'' @ [CHR 0x7D]"

text \<open>An enumeration without an operator is shown as the number it stands for, anything else is not.\<close>

definition toString_unstreamable :: "int option \<Rightarrow> string" where
  "toString_unstreamable underlying = (case underlying of Some v \<Rightarrow> toString_int v | None \<Rightarrow> unprintableString)"

lemma element_printer_later: "0 < n \<Longrightarrow> xs \<noteq> [] \<Longrightarrow> element_printer n xs = '', '' @ separated '', '' xs"
proof (induction xs arbitrary: n)
  case (Cons x xs)
  then show ?case by (cases xs) auto
qed simp

text \<open>A tuple and a vector with the same elements are shown alike, but for the empty ones.\<close>

lemma tuple_like_vector:
  assumes "xs \<noteq> []"
  shows "toString_tuple xs = toString_vector xs"
proof (cases xs)
  case (Cons y ys)
  have "element_printer (Suc 0) ys = (if ys = [] then [] else '', '' @ separated '', '' ys)"
    by (simp add: element_printer_later)
  then show ?thesis
    by (cases ys) (simp_all add: Cons toString_tuple_def toString_vector_def rangeToString_def)
qed (use assms in simp)

definition notImplemented_what :: "source_line_info \<Rightarrow> string" where
  "notImplemented_what l = show_source_line l @ '': function '' @ ''not implemented''"

end
