(* ===== verification/Catch_Values.thy ===== *)
theory Catch_Values
  imports Catch_Expression Complex_Main
begin

text \<open>
  More values an assertion compares (\<open>include/catch.h\<close>): the functions that make matchers, comparisons with
  \<open>nullptr\<close>, and the approximate comparison (\<open>Approx\<close>) of numbers of type
  \<open>double\<close> with the rounding of the 64 bit format: 53 binary digits, the nearest, ties to the even one,
  nothing below \<open>2 ^ -1074\<close> and infinity from \<open>2 ^ 1024\<close> on. The two zeros are one number here, since
  nothing the comparison does tells them apart.
\<close>

section \<open>Functions that make matchers\<close>

definition make_Not :: "matcher \<Rightarrow> matcher" where
  "make_Not m = Not_matcher m"

definition make_AllOf2 :: "matcher \<Rightarrow> matcher \<Rightarrow> matcher" where
  "make_AllOf2 m1 m2 = AllOf ([] @ [m1] @ [m2])"

definition make_AllOf3 :: "matcher \<Rightarrow> matcher \<Rightarrow> matcher \<Rightarrow> matcher" where
  "make_AllOf3 m1 m2 m3 = AllOf ([] @ [m1] @ [m2] @ [m3])"

definition make_AnyOf2 :: "matcher \<Rightarrow> matcher \<Rightarrow> matcher" where
  "make_AnyOf2 m1 m2 = AnyOf ([] @ [m1] @ [m2])"

definition make_AnyOf3 :: "matcher \<Rightarrow> matcher \<Rightarrow> matcher \<Rightarrow> matcher" where
  "make_AnyOf3 m1 m2 m3 = AnyOf ([] @ [m1] @ [m2] @ [m3])"

text \<open>A string argument may be a C string; the last two functions take no choice about case.\<close>

definition make_Equals :: "string option \<Rightarrow> bool \<Rightarrow> matcher" where
  "make_Equals str sensitive = Equals (makeCasedString (makeString str) sensitive)"

definition make_Contains :: "string option \<Rightarrow> bool \<Rightarrow> matcher" where
  "make_Contains substr sensitive = Contains (makeCasedString (makeString substr) sensitive)"

definition make_StartsWith :: "string option \<Rightarrow> matcher" where
  "make_StartsWith substr = StartsWith (makeCasedString (makeString substr) True)"

definition make_EndsWith :: "string option \<Rightarrow> matcher" where
  "make_EndsWith substr = EndsWith (makeCasedString (makeString substr) True)"

lemmas make_defs = make_Not_def make_AllOf2_def make_AllOf3_def make_AnyOf2_def make_AnyOf3_def make_Equals_def
  make_Contains_def make_StartsWith_def make_EndsWith_def

text \<open>
  What they make matches: the combinations decide like the operators, the string matchers like the
  functions on strings they are named after; a null C string is found everywhere.
\<close>

lemma made_matchers_match:
  "matches (make_Not m) s \<longleftrightarrow> \<not> matches m s"
  "matches (make_AllOf2 m1 m2) s \<longleftrightarrow> matches (and_matcher m1 m2) s"
  "matches (make_AllOf3 m1 m2 m3) s \<longleftrightarrow> matches (and_matcher (and_matcher m1 m2) m3) s"
  "matches (make_AnyOf2 m1 m2) s \<longleftrightarrow> matches (or_matcher m1 m2) s"
  "matches (make_AnyOf3 m1 m2 m3) s \<longleftrightarrow> matches (or_matcher (or_matcher m1 m2) m3) s"
  "matches (make_Equals (Some t) c) s \<longleftrightarrow> (if c then s = t else toLower s = toLower t)"
  "matches (make_Contains (Some t) True) s \<longleftrightarrow> contains s t"
  "matches (make_StartsWith (Some t)) s \<longleftrightarrow> startsWith s t"
  "matches (make_EndsWith (Some t)) s \<longleftrightarrow> endsWith s t"
  "matches (make_StartsWith None) s"
  by (auto simp: make_defs matches_and matches_or makeString_def makeCasedString_def adjustString_def contains_def
      startsWith_def Let_def)

section \<open>Comparisons with a null pointer\<close>

definition compare_nullptr_left :: "operator \<Rightarrow> 64 word \<Rightarrow> bool" where
  "compare_nullptr_left op r = evaluate op (uint (0 :: 64 word)) (uint r)"

definition compare_nullptr_right :: "operator \<Rightarrow> 64 word \<Rightarrow> bool" where
  "compare_nullptr_right op l = evaluate op (uint l) (uint (0 :: 64 word))"

definition toString_nullptr :: string where
  "toString_nullptr = ''nullptr''"

text \<open>Comparing a pointer with \<open>nullptr\<close> and with the \<open>int\<close> 0 is the same, though the two are shown differently.\<close>

lemma nullptr_is_zero:
  "compare_nullptr_right op w = compare op (Op_pointer w) (Op_int 0)"
  "compare_nullptr_left op w = compare op (Op_int 0) (Op_pointer w)"
  "toString_nullptr \<noteq> toString_operand (Op_int 0)"
proof -
  have "uint w < 2 ^ 64" using uint_lt2p [of w] by simp
  then have "uint w mod 2 ^ 64 = uint w" by (intro mod_pos_pos_trivial) simp_all
  then show "compare_nullptr_right op w = compare op (Op_pointer w) (Op_int 0)"
    "compare_nullptr_left op w = compare op (Op_int 0) (Op_pointer w)"
    by (simp_all add: compare_def applyEvaluator_def compare_nullptr_right_def compare_nullptr_left_def)
  show "toString_nullptr \<noteq> toString_operand (Op_int 0)" by code_simp
qed

section \<open>Numbers of type double\<close>

datatype double = NaN | Infinity bool | Finite rat

fun binary_log :: "nat \<Rightarrow> nat" where
  "binary_log n = (if n < 2 then 0 else Suc (binary_log (n div 2)))"

declare binary_log.simps [simp del]

text \<open>The exponent of the greatest power of two up to a positive number.\<close>

definition magnitude :: "rat \<Rightarrow> int" where
  "magnitude x =
     (let (a, b) = quotient_of x;
          k = int (binary_log (nat a)) - int (binary_log (nat b))
      in if 2 powi k \<le> x then k else k - 1)"

definition nearest_even :: "rat \<Rightarrow> int" where
  "nearest_even x =
     (let n = \<lfloor>x\<rfloor>; d = x - of_int n
      in if d < 1 / 2 \<or> d = 1 / 2 \<and> even n then n else n + 1)"

definition round_positive :: "rat \<Rightarrow> rat" where
  "round_positive x =
     (let e = max (- 1074) (magnitude x - 52) in of_int (nearest_even (x / 2 powi e)) * 2 powi e)"

text \<open>The number a result is rounded to; the flag of an infinity says that it is negative.\<close>

definition rounded :: "rat \<Rightarrow> double" where
  "rounded x =
     (if x = 0 then Finite 0
      else let y = round_positive \<bar>x\<bar>
           in if 2 ^ 1024 \<le> y then Infinity (x < 0) else Finite (if x < 0 then - y else y))"

fun d_plus :: "double \<Rightarrow> double \<Rightarrow> double" where
  "d_plus (Finite x) (Finite y) = rounded (x + y)"
| "d_plus (Infinity s) (Infinity t) = (if s = t then Infinity s else NaN)"
| "d_plus (Infinity s) (Finite y) = Infinity s"
| "d_plus (Finite x) (Infinity t) = Infinity t"
| "d_plus NaN y = NaN"
| "d_plus x NaN = NaN"

fun d_neg :: "double \<Rightarrow> double" where
  "d_neg NaN = NaN"
| "d_neg (Infinity s) = Infinity (\<not> s)"
| "d_neg (Finite x) = Finite (- x)"

definition d_minus :: "double \<Rightarrow> double \<Rightarrow> double" where
  "d_minus x y = d_plus x (d_neg y)"

fun d_times :: "double \<Rightarrow> double \<Rightarrow> double" where
  "d_times (Finite x) (Finite y) = rounded (x * y)"
| "d_times (Infinity s) (Infinity t) = Infinity (s \<noteq> t)"
| "d_times (Infinity s) (Finite y) = (if y = 0 then NaN else Infinity (s \<noteq> (y < 0)))"
| "d_times (Finite x) (Infinity t) = (if x = 0 then NaN else Infinity ((x < 0) \<noteq> t))"
| "d_times NaN y = NaN"
| "d_times x NaN = NaN"

fun fabs :: "double \<Rightarrow> double" where
  "fabs NaN = NaN"
| "fabs (Infinity s) = Infinity False"
| "fabs (Finite x) = Finite \<bar>x\<bar>"

fun d_less :: "double \<Rightarrow> double \<Rightarrow> bool" where
  "d_less (Finite x) (Finite y) = (x < y)"
| "d_less (Infinity s) (Infinity t) = (s \<and> \<not> t)"
| "d_less (Infinity s) (Finite y) = s"
| "d_less (Finite x) (Infinity t) = (\<not> t)"
| "d_less NaN y = False"
| "d_less x NaN = False"

text \<open>\<open>std::max\<close> yields its first argument unless that is less than the second.\<close>

definition d_max :: "double \<Rightarrow> double \<Rightarrow> double" where
  "d_max x y = (if d_less x y then y else x)"

section \<open>Approx\<close>

record approx =
  m_epsilon :: double
  m_scale :: double
  m_value :: double

text \<open>The epsilon is a hundred times that of \<open>float\<close>, a number \<open>float\<close> holds exactly.\<close>

definition Approx :: "double \<Rightarrow> approx" where
  "Approx v = \<lparr>m_epsilon = Finite (100 / 2 ^ 23), m_scale = Finite 1, m_value = v\<rparr>"

definition approx_custom :: approx where
  "approx_custom = Approx (Finite 0)"

definition set_epsilon :: "double \<Rightarrow> approx \<Rightarrow> approx" where
  "set_epsilon e a = a\<lparr>m_epsilon := e\<rparr>"

definition set_scale :: "double \<Rightarrow> approx \<Rightarrow> approx" where
  "set_scale s a = a\<lparr>m_scale := s\<rparr>"

definition approx_call :: "approx \<Rightarrow> double \<Rightarrow> approx" where
  "approx_call a v = set_scale (m_scale a) (set_epsilon (m_epsilon a) (Approx v))"

definition equals_approx :: "double \<Rightarrow> approx \<Rightarrow> bool" where
  "equals_approx x a =
     d_less (fabs (d_minus x (m_value a)))
       (d_times (m_epsilon a) (d_plus (m_scale a) (d_max (fabs x) (fabs (m_value a)))))"

definition differs_approx :: "double \<Rightarrow> approx \<Rightarrow> bool" where
  "differs_approx x a = (\<not> equals_approx x a)"

text \<open>
  The text of a number, from what the stream writes with a fixed number of decimals, 10 for \<open>double\<close> and 5
  for \<open>float\<close>.
\<close>

definition toString_double :: "(nat \<Rightarrow> double \<Rightarrow> string) \<Rightarrow> double \<Rightarrow> string" where
  "toString_double fixed v = fpToString (fixed 10 v)"

definition toString_float :: "(nat \<Rightarrow> double \<Rightarrow> string) \<Rightarrow> double \<Rightarrow> string" where
  "toString_float fixed v = fpToString (fixed 5 v) @ ''f''"

definition approx_toString :: "(nat \<Rightarrow> double \<Rightarrow> string) \<Rightarrow> approx \<Rightarrow> string" where
  "approx_toString fixed a = ''Approx( '' @ toString_double fixed (m_value a) @ '' )''"

section \<open>Rounding\<close>

lemma binary_log_bounds: "0 < n \<Longrightarrow> 2 ^ binary_log n \<le> n \<and> n < 2 ^ Suc (binary_log n)"
proof (induction n rule: binary_log.induct)
  case (1 n)
  show ?case
  proof (cases "n < 2")
    case True
    then show ?thesis using 1 by (simp add: binary_log.simps [of n])
  next
    case False
    then have "2 ^ binary_log (n div 2) \<le> n div 2" "n div 2 < 2 ^ Suc (binary_log (n div 2))" using 1 by simp_all
    moreover have "2 * m \<le> n" if "m \<le> n div 2" for m using that by linarith
    moreover have "n < 2 * m" if "n div 2 < m" for m using that by linarith
    moreover have "binary_log n = Suc (binary_log (n div 2))" using False by (simp add: binary_log.simps [of n])
    ultimately show ?thesis by (metis power_Suc)
  qed
qed

lemma binary_log_int:
  assumes "0 < a"
  shows "2 ^ binary_log (nat a) \<le> (of_int a :: rat)" "(of_int a :: rat) < 2 ^ Suc (binary_log (nat a))"
proof -
  have b: "2 ^ binary_log (nat a) \<le> nat a" "nat a < 2 ^ Suc (binary_log (nat a))"
    using binary_log_bounds [of "nat a"] assms by auto
  have n: "(of_nat (nat a) :: rat) = of_int a" using assms by simp
  have "(of_nat (2 ^ binary_log (nat a)) :: rat) \<le> of_nat (nat a)" using b(1) unfolding of_nat_le_iff .
  then show "2 ^ binary_log (nat a) \<le> (of_int a :: rat)" unfolding n by (simp only: of_nat_power of_nat_numeral)
  have "(of_nat (nat a) :: rat) < of_nat (2 ^ Suc (binary_log (nat a)))" using b(2) unfolding of_nat_less_iff .
  then show "(of_int a :: rat) < 2 ^ Suc (binary_log (nat a))" unfolding n by (simp only: of_nat_power of_nat_numeral)
qed

lemma magnitude_bounds:
  assumes "0 < x"
  shows "2 powi magnitude x \<le> x \<and> x < 2 powi (magnitude x + 1)"
proof -
  obtain a b where q: "quotient_of x = (a, b)" by fastforce
  then have x: "x = of_int a / of_int b" and b: "0 < b" by (auto simp: quotient_of_div quotient_of_denom_pos)
  then have a: "0 < a" using assms by (simp add: zero_less_divide_iff)
  define k where "k = int (binary_log (nat a)) - int (binary_log (nat b))"
  have "(2 :: rat) powi (k - 1) = 2 ^ binary_log (nat a) / 2 ^ Suc (binary_log (nat b))"
    by (simp add: k_def power_int_diff power_int_add field_simps)
  also have "\<dots> \<le> of_int a / of_int b"
    using binary_log_int [OF a] binary_log_int [OF b] a b by (intro frac_le) auto
  finally have lower: "2 powi (k - 1) \<le> x" using x by simp
  have "of_int a / of_int b < (2 :: rat) ^ Suc (binary_log (nat a)) / 2 ^ binary_log (nat b)"
    using binary_log_int [OF a] binary_log_int [OF b] a by (intro frac_less) auto
  also have "\<dots> = 2 powi (k + 1)" by (simp add: k_def power_int_diff power_int_add field_simps)
  finally have "x < 2 powi (k + 1)" using x by simp
  then show ?thesis using lower by (simp add: magnitude_def q Let_def flip: k_def)
qed

lemma magnitude_ge:
  assumes "2 powi n \<le> x"
  shows "n \<le> magnitude x"
proof (rule ccontr)
  assume "\<not> n \<le> magnitude x"
  then have "(2 :: rat) powi (magnitude x + 1) \<le> 2 powi n" by (intro power_int_increasing) auto
  moreover have "0 < x" using assms less_le_trans [of 0 "2 powi n" x] by simp
  ultimately show False using magnitude_bounds [of x] assms by simp
qed

lemma nearest_even_ge: "of_int n \<le> x \<Longrightarrow> n \<le> nearest_even x"
proof -
  assume "of_int n \<le> x"
  then have "n \<le> \<lfloor>x\<rfloor>" by (simp add: le_floor_iff)
  then show ?thesis by (simp add: nearest_even_def Let_def)
qed

text \<open>A number from \<open>2 ^ -1022\<close> on is not rounded below a power of two under it.\<close>

lemma round_positive_ge:
  assumes "2 powi n \<le> x" "- 1022 \<le> n"
  shows "2 powi n \<le> round_positive x"
proof -
  have x: "0 < x" using assms less_le_trans [of 0 "2 powi n" x] by simp
  have m: "n \<le> magnitude x" using assms by (rule_tac magnitude_ge)
  then have e: "max (- 1074) (magnitude x - 52) = magnitude x - 52" using assms(2) by simp
  have p: "(2 :: rat) ^ 52 * 2 powi (magnitude x - 52) = 2 powi magnitude x" by (simp add: power_int_diff)
  have "2 ^ 52 \<le> x / 2 powi (magnitude x - 52)"
    using magnitude_bounds [OF x] p by (simp add: pos_le_divide_eq)
  then have "(2 ^ 52 :: int) \<le> nearest_even (x / 2 powi (magnitude x - 52))" by (intro nearest_even_ge) simp
  then have "(of_int (2 ^ 52) :: rat) \<le> of_int (nearest_even (x / 2 powi (magnitude x - 52)))" unfolding of_int_le_iff .
  then have "of_int (2 ^ 52) * 2 powi (magnitude x - 52) \<le> round_positive x"
    unfolding round_positive_def Let_def e by (intro mult_right_mono) auto
  then have "2 powi magnitude x \<le> round_positive x" using p by simp
  moreover have "(2 :: rat) powi n \<le> 2 powi magnitude x" using m by (intro power_int_increasing) auto
  ultimately show ?thesis by simp
qed

text \<open>The error of a rounded number is at most one part in \<open>2 ^ 53\<close>.\<close>

lemma nearest_even_error: "\<bar>of_int (nearest_even x) - x\<bar> \<le> 1 / 2"
proof -
  have "of_int \<lfloor>x\<rfloor> \<le> x" "x < of_int \<lfloor>x\<rfloor> + 1" by linarith+
  then show ?thesis by (auto simp: nearest_even_def Let_def abs_le_iff)
qed

lemma rounding_error:
  assumes "2 powi - 1022 \<le> x"
  shows "\<bar>round_positive x - x\<bar> \<le> x * 2 powi - 53"
proof -
  have x: "0 < x" using assms less_le_trans [of 0 "2 powi - 1022" x] by simp
  have e: "max (- 1074) (magnitude x - 52) = magnitude x - 52" using magnitude_ge [OF assms] by simp
  define u :: rat where "u = 2 powi (magnitude x - 52)"
  have u: "0 < u" by (simp add: u_def)
  have "round_positive x - x = (of_int (nearest_even (x / u)) - x / u) * u"
    using u by (simp add: round_positive_def Let_def e u_def left_diff_distrib)
  then have err: "\<bar>round_positive x - x\<bar> \<le> 1 / 2 * u"
    using mult_right_mono [OF nearest_even_error [of "x / u"], of u] u by (simp add: abs_mult)
  have "(2 :: rat) powi - 53 = 1 / 2 / 2 powi 52" by (simp add: power_int_def power_divide)
  then have "1 / 2 * u = 2 powi magnitude x * 2 powi - 53" by (simp add: u_def power_int_diff)
  moreover have "2 powi magnitude x * 2 powi - 53 \<le> x * 2 powi - 53"
    using magnitude_bounds [OF x] by (intro mult_right_mono) auto
  ultimately show ?thesis using err by simp
qed

lemma rounded_ge:
  assumes "2 powi n \<le> x" "- 1022 \<le> n"
  shows "rounded x = Infinity False \<or> (\<exists>y. rounded x = Finite y \<and> 2 powi n \<le> y)"
proof -
  have "0 < x" using assms less_le_trans [of 0 "2 powi n" x] by simp
  then show ?thesis using round_positive_ge [OF assms] by (auto simp: rounded_def Let_def)
qed

lemma rounded_uminus: "fabs (rounded (- x)) = fabs (rounded x)"
  by (auto simp: rounded_def Let_def)

lemma fabs_minus: "fabs (d_minus x y) = fabs (d_minus y x)"
  using rounded_uminus [of "r - q" for r q] by (cases x; cases y) (auto simp: d_minus_def)

section \<open>What is approximately equal\<close>

text \<open>The comparison does not depend on which of the two numbers is the expected one.\<close>

lemma fabs_comparable: "fabs x = NaN \<or> d_less (fabs x) (Finite 0) = False"
  by (cases x) auto

lemma d_max_sym:
  assumes "x \<noteq> NaN" "y \<noteq> NaN"
  shows "d_max (fabs x) (fabs y) = d_max (fabs y) (fabs x)"
  using assms by (cases x; cases y) (auto simp: d_max_def)

lemma approx_symmetric:
  assumes "m_value a = y"
  shows "equals_approx x a = equals_approx y (a\<lparr>m_value := x\<rparr>)"
proof (cases "x = NaN \<or> y = NaN")
  case True
  then have "d_minus x y = NaN" "d_minus y x = NaN" by (cases x; cases y; auto simp: d_minus_def)+
  then show ?thesis using assms by (simp add: equals_approx_def)
next
  case False
  then show ?thesis using assms fabs_minus [of x y] d_max_sym [of x y] by (simp add: equals_approx_def)
qed

text \<open>A number is approximately itself, unless epsilon or scale is very small.\<close>

lemma approx_self:
  assumes "m_value a = Finite v" "m_epsilon a = Finite e" "m_scale a = Finite s"
    and "2 powi - 500 \<le> e" "2 powi - 500 \<le> s"
  shows "equals_approx (Finite v) a"
proof -
  have sum: "2 powi - 500 \<le> s + \<bar>v\<bar>" using assms(5) by simp
  have e: "0 < e" using assms(4) less_le_trans [of 0 "2 powi - 500" e] by simp
  have zero: "fabs (d_minus (Finite v) (m_value a)) = Finite 0" using assms(1) by (simp add: d_minus_def rounded_def)
  have sum': "d_plus (m_scale a) (d_max (fabs (Finite v)) (fabs (m_value a))) = rounded (s + \<bar>v\<bar>)"
    using assms(1,3) by (simp add: d_max_def)
  consider (inf) "rounded (s + \<bar>v\<bar>) = Infinity False"
    | (fin) y where "rounded (s + \<bar>v\<bar>) = Finite y" "2 powi - 500 \<le> y" using rounded_ge [OF sum] by auto
  then show ?thesis
  proof cases
    case inf
    then show ?thesis using e assms(2) unfolding equals_approx_def zero sum' by simp
  next
    case fin
    have "(2 :: rat) powi - 1000 = 2 powi - 500 * 2 powi - 500" by (simp flip: power_int_add)
    also have "\<dots> \<le> e * y" using assms(4) fin(2) by (intro mult_mono) (auto simp: e less_imp_le)
    finally consider "rounded (e * y) = Infinity False"
      | z where "rounded (e * y) = Finite z" "2 powi - 1000 \<le> z" using rounded_ge [of "- 1000" "e * y"] by auto
    then have "d_less (Finite 0) (rounded (e * y))"
    proof cases
      case (2 z)
      then have "0 < z" using less_le_trans [of 0 "2 powi - 1000" z] by simp
      then show ?thesis using 2 by simp
    qed simp
    then show ?thesis using fin assms(2) unfolding equals_approx_def zero sum' by simp
  qed
qed

lemma approx_self_default: "equals_approx (Finite v) (Approx (Finite v))"
proof (rule approx_self [of _ v "100 / 2 ^ 23" 1])
  have "(2 :: rat) powi - 23 \<le> 100 / 2 ^ 23" by (simp add: power_int_def power_divide)
  moreover have "(2 :: rat) powi - 500 \<le> 2 powi - 23" by (intro power_int_increasing) auto
  ultimately show "(2 :: rat) powi - 500 \<le> 100 / 2 ^ 23" by (rule order_trans [rotated])
  have "(2 :: rat) powi - 500 \<le> 2 powi 0" by (intro power_int_increasing) auto
  then show "(2 :: rat) powi - 500 \<le> 1" by simp
qed (simp_all add: Approx_def)

text \<open>
  An infinite number is not approximately itself, and a number that is none is not approximately
  anything: the difference of two infinities is no number.
\<close>

lemma d_less_infinity: "\<not> d_less (Infinity False) x"
  by (cases x) auto

lemma approx_infinity: "\<not> equals_approx (Infinity s) a"
proof (cases "d_minus (Infinity s) (m_value a)")
  case (Finite x)
  then show ?thesis by (cases "m_value a") (auto simp: d_minus_def split: if_splits)
qed (simp_all add: equals_approx_def d_less_infinity)

lemma approx_of_infinity: "\<not> equals_approx x (a\<lparr>m_value := Infinity s\<rparr>)"
  using approx_infinity [of s "a\<lparr>m_value := x\<rparr>"] approx_symmetric [of "a\<lparr>m_value := Infinity s\<rparr>" "Infinity s" x]
  by simp

lemma approx_NaN: "\<not> equals_approx NaN a"
  by (simp add: equals_approx_def d_minus_def)

text \<open>The operator for calls keeps epsilon and scale and takes the value anew.\<close>

lemma approx_call_keeps:
  "m_epsilon (approx_call a v) = m_epsilon a" "m_scale (approx_call a v) = m_scale a" "m_value (approx_call a v) = v"
  by (simp_all add: approx_call_def set_scale_def set_epsilon_def Approx_def)

text \<open>
  How far apart two numbers may be: with the default epsilon, about a thousandth for a hundred.
\<close>

lemma rounded_quotients:
  "quotient_of (1 / 1024) = (1, 1024)" "quotient_of (103425 / 1024) = (103425, 1024)"
  "quotient_of (2585625 / 2147483648) = (2585625, 2147483648)"
  "quotient_of (1 / 64) = (1, 64)" "quotient_of (6465 / 64) = (6465, 64)"
  "quotient_of (161625 / 134217728) = (161625, 134217728)"
  by code_simp+

lemma rounded_examples:
  "rounded (- (1 / 1024)) = Finite (- (1 / 1024))" "rounded (103425 / 1024) = Finite (103425 / 1024)"
  "rounded (2585625 / 2147483648) = Finite (2585625 / 2147483648)"
  "rounded (- (1 / 64)) = Finite (- (1 / 64))" "rounded (6465 / 64) = Finite (6465 / 64)"
  "rounded (161625 / 134217728) = Finite (161625 / 134217728)"
  by (simp_all add: rounded_def round_positive_def magnitude_def nearest_even_def rounded_quotients
      binary_log.simps power_int_def power_divide Let_def)

lemma approx_example:
  "equals_approx (Finite 100) (Approx (Finite (100 + 1 / 1024)))"
  "differs_approx (Finite 100) (Approx (Finite (100 + 1 / 64)))"
  by (simp_all add: equals_approx_def differs_approx_def Approx_def d_minus_def d_max_def rounded_examples)

end
