(* ===== verification/Catch_Option.thy ===== *)
theory Catch_Option
  imports Prelude "HOL-Library.Multiset"
begin

text \<open>
  The optional value of the test framework (\<open>Option\<close> in \<open>include/catch.h\<close>): a pointer that is null or
  points to the storage beside it, where the value is constructed and destroyed by hand. The operations
  write down which values they construct and destroy.
\<close>

section \<open>The object\<close>

record 'v option_object =
  nullableValue :: bool          \<comment> \<open>whether the pointer is set\<close>
  object_storage :: "'v option"  \<comment> \<open>the object that lives in the storage\<close>

datatype 'v lifetime = Constructed 'v | Destroyed 'v

type_synonym 'v option_state = "'v option_object \<times> 'v lifetime list"

definition construct_in :: "'v \<Rightarrow> 'v option_state \<Rightarrow> 'v option_state" where
  "construct_in v s = ((fst s)\<lparr>nullableValue := True, object_storage := Some v\<rparr>, snd s @ [Constructed v])"

definition set_null :: "'v option_state \<Rightarrow> 'v option_state" where
  "set_null s = ((fst s)\<lparr>nullableValue := False\<rparr>, snd s)"

definition destroy_object :: "'v option_state \<Rightarrow> 'v option_state res" where
  "destroy_object s =
     (case object_storage (fst s) of
        None \<Rightarrow> Inl (Undefined Dangling)
      | Some v \<Rightarrow> Inr ((fst s)\<lparr>object_storage := None\<rparr>, snd s @ [Destroyed v]))"

definition opt_none :: "'v option_state" where
  "opt_none = (\<lparr>nullableValue = False, object_storage = None\<rparr>, [])"

definition opt_of :: "'v \<Rightarrow> 'v option_state" where
  "opt_of v = construct_in v opt_none"

definition opt_deref :: "'v option_object \<Rightarrow> 'v res" where
  "opt_deref p =
     (if \<not> nullableValue p then Inl (Undefined Null_deref)
      else case object_storage p of None \<Rightarrow> Inl (Undefined Dangling) | Some v \<Rightarrow> Inr v)"

definition opt_copy :: "'v option_object \<Rightarrow> 'v option_state res" where
  "opt_copy other = (if nullableValue other then bindR (opt_deref other) (\<lambda>v. Inr (opt_of v)) else Inr opt_none)"

definition opt_reset :: "'v option_state \<Rightarrow> 'v option_state res" where
  "opt_reset s =
     bindR (if nullableValue (fst s) then destroy_object s else Inr s) (\<lambda>s'. Inr (set_null s'))"

definition opt_destroy :: "'v option_state \<Rightarrow> 'v option_state res" where
  "opt_destroy s = opt_reset s"

text \<open>Assignment from another option object, or from the object itself, which is left alone.\<close>

definition opt_assign :: "'v option_object option \<Rightarrow> 'v option_state \<Rightarrow> 'v option_state res" where
  "opt_assign other s =
     (case other of
        None \<Rightarrow> Inr s
      | Some q \<Rightarrow>
          bindR (opt_reset s) (\<lambda>s1.
            if nullableValue q then bindR (opt_deref q) (\<lambda>v. Inr (construct_in v s1)) else Inr s1))"

text \<open>
  Assignment of a value through a reference: to a value elsewhere, or to the value of the object itself,
  which is gone when it is to be copied.
\<close>

datatype 'v value_ref = Elsewhere 'v | Own_value

definition opt_assign_value :: "'v value_ref \<Rightarrow> 'v option_state \<Rightarrow> 'v option_state res" where
  "opt_assign_value r s =
     bindR (case r of Elsewhere v \<Rightarrow> Inr v | Own_value \<Rightarrow> opt_deref (fst s)) (\<lambda>_.
     bindR (opt_reset s) (\<lambda>s1.
       case r of
         Elsewhere v \<Rightarrow> Inr (construct_in v s1)
       | Own_value \<Rightarrow>
           (case object_storage (fst s1) of None \<Rightarrow> Inl (Undefined Dangling) | Some v \<Rightarrow> Inr (construct_in v s1))))"

definition opt_some :: "'v option_object \<Rightarrow> bool" where
  "opt_some p = nullableValue p"

definition opt_is_none :: "'v option_object \<Rightarrow> bool" where
  "opt_is_none p = (\<not> nullableValue p)"

definition valueOr :: "'v option_object \<Rightarrow> 'v \<Rightarrow> 'v res" where
  "valueOr p dflt = (if nullableValue p then opt_deref p else Inr dflt)"

section \<open>It is an optional value, and every value is destroyed once\<close>

text \<open>The pointer is set exactly while an object lives in the storage.\<close>

definition sound :: "'v option_object \<Rightarrow> bool" where
  "sound p \<longleftrightarrow> (nullableValue p \<longleftrightarrow> object_storage p \<noteq> None)"

fun constructed_values :: "'v lifetime list \<Rightarrow> 'v multiset" where
  "constructed_values [] = {#}"
| "constructed_values (Constructed v # ls) = add_mset v (constructed_values ls)"
| "constructed_values (Destroyed v # ls) = constructed_values ls"

fun destroyed_values :: "'v lifetime list \<Rightarrow> 'v multiset" where
  "destroyed_values [] = {#}"
| "destroyed_values (Constructed v # ls) = destroyed_values ls"
| "destroyed_values (Destroyed v # ls) = add_mset v (destroyed_values ls)"

lemma constructed_values_append [simp]: "constructed_values (ls @ ls') = constructed_values ls + constructed_values ls'"
  by (induction ls rule: constructed_values.induct) auto

lemma destroyed_values_append [simp]: "destroyed_values (ls @ ls') = destroyed_values ls + destroyed_values ls'"
  by (induction ls rule: destroyed_values.induct) auto

definition balanced :: "'v option_state \<Rightarrow> bool" where
  "balanced s \<longleftrightarrow> sound (fst s) \<and> constructed_values (snd s) =
     destroyed_values (snd s) + (case object_storage (fst s) of None \<Rightarrow> {#} | Some v \<Rightarrow> {#v#})"

text \<open>The operations on an object that lives, and what they are on an optional value.\<close>

datatype 'v option_op = Reset | Assign "'v option_object" | Assign_itself | Set 'v

fun apply_op :: "'v option_op \<Rightarrow> 'v option_state \<Rightarrow> 'v option_state res" where
  "apply_op Reset s = opt_reset s"
| "apply_op (Assign q) s = opt_assign (Some q) s"
| "apply_op Assign_itself s = opt_assign None s"
| "apply_op (Set v) s = opt_assign_value (Elsewhere v) s"

fun spec_op :: "'v option_op \<Rightarrow> 'v option \<Rightarrow> 'v option" where
  "spec_op Reset x = None"
| "spec_op (Assign q) x = object_storage q"
| "spec_op Assign_itself x = x"
| "spec_op (Set v) x = Some v"

fun op_sound :: "'v option_op \<Rightarrow> bool" where
  "op_sound (Assign q) = sound q"
| "op_sound op = True"

fun apply_ops :: "'v option_op list \<Rightarrow> 'v option_state \<Rightarrow> 'v option_state res" where
  "apply_ops [] s = Inr s"
| "apply_ops (op # ops) s = bindR (apply_op op s) (apply_ops ops)"

lemmas opt_defs = construct_in_def set_null_def destroy_object_def opt_none_def opt_of_def opt_deref_def opt_reset_def
  opt_assign_def opt_assign_value_def balanced_def sound_def

lemma reset_refines:
  assumes "balanced s"
  shows "\<exists>s'. opt_reset s = Inr s' \<and> balanced s' \<and> object_storage (fst s') = None"
  using assms by (cases s) (auto simp: opt_defs split: option.splits)

lemma construct_refines:
  assumes "balanced s" "object_storage (fst s) = None"
  shows "balanced (construct_in v s)" "object_storage (fst (construct_in v s)) = Some v"
  using assms by (auto simp: opt_defs)

lemma op_refines:
  assumes "balanced s" "op_sound op"
  shows "\<exists>s'. apply_op op s = Inr s' \<and> balanced s' \<and> object_storage (fst s') = spec_op op (object_storage (fst s))"
proof -
  obtain s1 where s1: "opt_reset s = Inr s1" "balanced s1" "object_storage (fst s1) = None"
    using reset_refines [OF assms(1)] by auto
  show ?thesis
  proof (cases op)
    case (Assign q)
    then show ?thesis using s1 construct_refines [OF s1(2,3)] assms(2)
      by (auto simp: opt_assign_def opt_deref_def sound_def simp del: split_paired_Ex)
  qed (use s1 construct_refines [OF s1(2,3)] assms(1) in \<open>auto simp: opt_assign_def opt_assign_value_def simp del: split_paired_Ex\<close>)
qed

lemma ops_refine:
  assumes "balanced s" "list_all op_sound ops"
  shows "\<exists>s'. apply_ops ops s = Inr s' \<and> balanced s' \<and> object_storage (fst s') = fold spec_op ops (object_storage (fst s))"
  using assms
proof (induction ops arbitrary: s)
  case (Cons op ops)
  then obtain s1 where "apply_op op s = Inr s1" "balanced s1" "object_storage (fst s1) = spec_op op (object_storage (fst s))"
    using op_refines by fastforce
  then show ?case using Cons.IH [of s1] Cons.prems by simp
qed simp

text \<open>
  Whatever is done with an optional value from its construction on, it holds what an optional value should,
  its readers agree with that, and by the end of its life every value constructed in it was destroyed,
  once.
\<close>

lemma option_is_optional_value:
  assumes "list_all op_sound ops"
  defines "x \<equiv> fold spec_op ops None"
  shows "\<exists>p ls p' ls'. apply_ops ops opt_none = Inr (p, ls) \<and> opt_some p = (x \<noteq> None) \<and> opt_is_none p = (x = None)
    \<and> valueOr p d = Inr (case x of None \<Rightarrow> d | Some v \<Rightarrow> v)
    \<and> opt_destroy (p, ls) = Inr (p', ls') \<and> constructed_values ls' = destroyed_values ls'"
proof -
  have "balanced opt_none" by (simp add: opt_defs)
  then obtain p ls where s: "apply_ops ops opt_none = Inr (p, ls)" "balanced (p, ls)" "object_storage p = x"
    using ops_refine [OF _ assms(1), of opt_none] by (force simp: x_def opt_none_def)
  then obtain p' ls' where d: "opt_destroy (p, ls) = Inr (p', ls')" "balanced (p', ls')" "object_storage p' = None"
    using reset_refines by (force simp: opt_destroy_def)
  have "nullableValue p = (x \<noteq> None)" using s by (simp add: balanced_def sound_def)
  moreover have "constructed_values ls' = destroyed_values ls'" using d by (simp add: balanced_def)
  ultimately show ?thesis using s d
    by (intro exI conjI) (auto simp: opt_some_def opt_is_none_def valueOr_def opt_deref_def split: option.splits)
qed

lemma copy_is_balanced:
  assumes "sound q"
  shows "\<exists>s. opt_copy q = Inr s \<and> balanced s \<and> object_storage (fst s) = object_storage q"
  using assms by (auto simp: opt_copy_def opt_defs split: option.splits)

text \<open>The value of the object may not be assigned to it through a reference, an option object may.\<close>

lemma own_value_dangles:
  assumes "balanced s"
  shows "\<exists>u. opt_assign_value Own_value s = Inl (Undefined u)"
  using assms by (cases s) (auto simp: opt_defs split: option.splits)

end
