(* ===== verification/Catch_Globals.thy ===== *)
theory Catch_Globals
  imports Catch_Session Catch_Translate
begin

text \<open>
  What the test framework keeps in global variables (\<open>include/catch.h\<close>): the context with the current
  run and the generators of each test, and the hub where tests, reporters, listeners and exception
  translators are registered before \<open>main\<close>. Both are made when they are first asked for and deleted
  by \<open>cleanUp\<close>. The aliases of tags are a static variable of their own.
\<close>

section \<open>The context\<close>

text \<open>The run is an object with an address; the context has two plain pointers to it.\<close>

record test_context =
  c_config :: "config option"
  c_runner :: "nat option"
  c_resultCapture :: "nat option"
  c_generatorsByTestName :: generators_by_test

definition newContext :: test_context where
  "newContext = \<lparr>c_config = None, c_runner = None, c_resultCapture = None, c_generatorsByTestName = Map.empty\<rparr>"

record 'x registry_hub =
  rh_tests :: "test_step list test_registry"
  rh_reporters :: "(string \<times> string) list"
  rh_listeners :: "string list"
  rh_translators :: "'x translator list"

definition newRegistryHub :: "'x registry_hub" where
  "newRegistryHub = \<lparr>rh_tests = newTestRegistry, rh_reporters = [], rh_listeners = [], rh_translators = []\<rparr>"

record 'x globals =
  g_context :: "test_context option"
  g_hub :: "'x registry_hub option"
  g_aliases :: alias_registry
  g_runs :: "nat \<rightharpoonup> run_context"
  g_cerr :: string

definition no_globals :: "'x globals" where
  "no_globals = \<lparr>g_context = None, g_hub = None, g_aliases = Map.empty, g_runs = Map.empty, g_cerr = []\<rparr>"

definition the_context :: "'x globals \<Rightarrow> test_context" where
  "the_context g = (case g_context g of None \<Rightarrow> newContext | Some c \<Rightarrow> c)"

definition getCurrentMutableContext :: "'x globals \<Rightarrow> test_context \<times> 'x globals" where
  "getCurrentMutableContext g =
     (case g_context g of None \<Rightarrow> (newContext, g\<lparr>g_context := Some newContext\<rparr>) | Some c \<Rightarrow> (c, g))"

definition on_context :: "(test_context \<Rightarrow> test_context) \<Rightarrow> 'x globals \<Rightarrow> 'x globals" where
  "on_context f g = (let (c, g1) = getCurrentMutableContext g in g1\<lparr>g_context := Some (f c)\<rparr>)"

definition cleanUpContext :: "'x globals \<Rightarrow> 'x globals" where
  "cleanUpContext g = g\<lparr>g_context := None\<rparr>"

definition setResultCapture :: "nat \<Rightarrow> test_context \<Rightarrow> test_context" where
  "setResultCapture a c = c\<lparr>c_resultCapture := Some a\<rparr>"

definition setRunner :: "nat \<Rightarrow> test_context \<Rightarrow> test_context" where
  "setRunner a c = c\<lparr>c_runner := Some a\<rparr>"

definition setConfig :: "config \<Rightarrow> test_context \<Rightarrow> test_context" where
  "setConfig cfg c = c\<lparr>c_config := Some cfg\<rparr>"

text \<open>The constructor and the destructor of the run at an address.\<close>

definition beginRun :: "nat \<Rightarrow> run_env \<Rightarrow> 'x globals \<Rightarrow> 'x globals" where
  "beginRun a env g =
     on_context (setResultCapture a) (on_context (setConfig (env_config env)) (on_context (setRunner a) g))
       \<lparr>g_runs := (g_runs g)(a \<mapsto> newRunContext env)\<rparr>"

definition endRun :: "nat \<Rightarrow> run_env \<Rightarrow> 'x globals \<Rightarrow> (run_context \<times> 'x globals) res" where
  "endRun a env g =
     (case g_runs g a of
        None \<Rightarrow> Inl (Undefined Dangling)
      | Some rc \<Rightarrow> Inr (endRunContext env rc, g\<lparr>g_runs := (g_runs g)(a := None)\<rparr>))"

text \<open>The run the result capture of the context points to.\<close>

definition getResultCapture :: "'x globals \<Rightarrow> nat res" where
  "getResultCapture g =
     (case c_resultCapture (the_context g) of
        None \<Rightarrow> Inl (Throws (Exn ''No result capture instance''))
      | Some a \<Rightarrow> Inr a)"

definition currentTestName :: "'x globals \<Rightarrow> string res" where
  "currentTestName g =
     (case c_resultCapture (the_context g) of
        None \<Rightarrow> Inl (Undefined Null_deref)
      | Some a \<Rightarrow>
          (case g_runs g a of None \<Rightarrow> Inl (Undefined Dangling) | Some rc \<Rightarrow> Inr (getCurrentTestName rc)))"

definition context_getGeneratorIndex :: "string \<Rightarrow> index \<Rightarrow> 'x globals \<Rightarrow> (index \<times> 'x globals) res" where
  "context_getGeneratorIndex info s g =
     bindR (currentTestName g) (\<lambda>test.
       let (i, gs) = getGeneratorIndex test info s (c_generatorsByTestName (the_context g))
       in Inr (i, on_context (c_generatorsByTestName_update (\<lambda>_. gs)) g))"

definition context_advanceGenerators :: "'x globals \<Rightarrow> (bool \<times> 'x globals) res" where
  "context_advanceGenerators g =
     bindR (currentTestName g) (\<lambda>test.
       let (moved, gs) = advanceGeneratorsForCurrentTest test (c_generatorsByTestName (the_context g))
       in Inr (moved, on_context (c_generatorsByTestName_update (\<lambda>_. gs)) g))"

section \<open>The hub\<close>

definition getTheRegistryHub :: "'x globals \<Rightarrow> 'x registry_hub \<times> 'x globals" where
  "getTheRegistryHub g =
     (case g_hub g of None \<Rightarrow> (newRegistryHub, g\<lparr>g_hub := Some newRegistryHub\<rparr>) | Some h \<Rightarrow> (h, g))"

definition on_hub :: "('x registry_hub \<Rightarrow> 'x registry_hub) \<Rightarrow> 'x globals \<Rightarrow> 'x globals" where
  "on_hub f g = (let (h, g1) = getTheRegistryHub g in g1\<lparr>g_hub := Some (f h)\<rparr>)"

text \<open>What a session sees of the hub.\<close>

definition session_hub :: "'x globals \<Rightarrow> hub" where
  "session_hub g =
     (let h = fst (getTheRegistryHub g)
      in \<lparr>hub_tests = rh_tests h, hub_aliases = g_aliases g, hub_reporters = rh_reporters h,
          hub_listeners = rh_listeners h\<rparr>)"

text \<open>A session changes the hub through the same registries.\<close>

definition put_session_hub :: "hub \<Rightarrow> 'x globals \<Rightarrow> 'x globals" where
  "put_session_hub h =
     on_hub (\<lambda>rh. rh\<lparr>rh_tests := hub_tests h, rh_reporters := hub_reporters h, rh_listeners := hub_listeners h\<rparr>)"

definition hub_registerReporter :: "string \<Rightarrow> string \<Rightarrow> 'x globals \<Rightarrow> 'x globals" where
  "hub_registerReporter name descr g = put_session_hub (registerReporter name descr (session_hub g)) g"

definition hub_registerListener :: "string \<Rightarrow> 'x globals \<Rightarrow> 'x globals" where
  "hub_registerListener descr g = put_session_hub (registerListener descr (session_hub g)) g"

definition hub_registerTranslator :: "'x translator \<Rightarrow> 'x globals \<Rightarrow> 'x globals" where
  "hub_registerTranslator t = on_hub (\<lambda>h. h\<lparr>rh_translators := registerTranslator t (rh_translators h)\<rparr>)"

definition cleanUp :: "'x globals \<Rightarrow> 'x globals" where
  "cleanUp g = cleanUpContext ((snd (getTheRegistryHub g))\<lparr>g_hub := None\<rparr>)"

definition hub_translateActiveException :: "'x globals \<Rightarrow> 'x thrown \<Rightarrow> 'x translation" where
  "hub_translateActiveException g e = translateActiveException (rh_translators (fst (getTheRegistryHub g))) e"

section \<open>The registrars\<close>

text \<open>
  A class of reporters has a name and a description. A factory makes reporters of a class for a
  configuration; a listener is described as nothing. The registrar for classes of the old interface is
  left out: its factory does not define the operations of \<open>IShared\<close>, so it cannot be made.
\<close>

record reporter_class =
  cls_name :: string
  cls_description :: string

datatype made_reporter = New_reporter string config_data

record reporter_factory =
  rf_create :: "config_data \<Rightarrow> made_reporter"
  rf_description :: string

definition ReporterFactory :: "reporter_class \<Rightarrow> reporter_factory" where
  "ReporterFactory T = \<lparr>rf_create = (\<lambda>cfg. New_reporter (cls_name T) cfg), rf_description = cls_description T\<rparr>"

definition ListenerFactory :: "reporter_class \<Rightarrow> reporter_factory" where
  "ListenerFactory T = \<lparr>rf_create = (\<lambda>cfg. New_reporter (cls_name T) cfg), rf_description = []\<rparr>"

text \<open>The static objects the macros define.\<close>

datatype 'x registrar =
    ReporterRegistrar string reporter_class
  | ListenerRegistrar reporter_class
  | ExceptionTranslatorRegistrar "'x translator"
  | AutoReg "test_step list" string string string source_line_info
  | RegistrarForTagAliases string string source_line_info

text \<open>Constructing one ends the process with a code, lets an exception out, or goes on.\<close>

datatype 'x static_init = Started "'x globals" | Exited int "'x globals" | Uncaught string

fun construct :: "'x registrar \<Rightarrow> 'x globals \<Rightarrow> 'x static_init" where
  "construct (ReporterRegistrar name T) g = Started (hub_registerReporter name (rf_description (ReporterFactory T)) g)"
| "construct (ListenerRegistrar T) g = Started (hub_registerListener (rf_description (ListenerFactory T)) g)"
| "construct (ExceptionTranslatorRegistrar t) g = Started (hub_registerTranslator t g)"
| "construct (AutoReg body cls name descr li) g =
     (case registerTestCase body cls name descr li (session_hub g) of
        Inl msg \<Rightarrow> Uncaught msg
      | Inr h \<Rightarrow> Started (put_session_hub h g))"
| "construct (RegistrarForTagAliases alias tag li) g =
     (case add_alias alias tag li (g_aliases g) of
        Inl e \<Rightarrow> Exited 1 (g\<lparr>g_cerr := g_cerr g @ what e @ [CHR 0x0A]\<rparr>)
      | Inr reg \<Rightarrow> Started (g\<lparr>g_aliases := reg\<rparr>))"

fun construct_all :: "'x registrar list \<Rightarrow> 'x globals \<Rightarrow> 'x static_init" where
  "construct_all [] g = Started g"
| "construct_all (r # rs) g = (case construct r g of Started g' \<Rightarrow> construct_all rs g' | stop \<Rightarrow> stop)"

section \<open>Generators of the current test\<close>

lemma the_context_on_context [simp]: "the_context (on_context f g) = f (the_context g)"
  by (simp add: the_context_def on_context_def getCurrentMutableContext_def split: option.splits)

lemma g_runs_on_context [simp]: "g_runs (on_context f g) = g_runs g"
  by (simp add: on_context_def getCurrentMutableContext_def split: option.splits)

lemma beginRun_simps [simp]:
  "the_context (beginRun a env g) = (the_context g)\<lparr>c_runner := Some a, c_config := Some (env_config env), c_resultCapture := Some a\<rparr>"
  "g_runs (beginRun a env g) = (g_runs g)(a \<mapsto> newRunContext env)"
  by (simp_all add: beginRun_def the_context_def on_context_def getCurrentMutableContext_def setRunner_def setConfig_def setResultCapture_def
      split: option.splits)

text \<open>
  A run that holds the generators of the context and asks its own copy of them asks the context: this
  is how the run of a test uses them.
\<close>

definition captures :: "nat \<Rightarrow> run_context \<Rightarrow> 'x globals \<Rightarrow> bool" where
  "captures a rc g \<longleftrightarrow> c_resultCapture (the_context g) = Some a \<and> g_runs g a = Some rc
     \<and> c_generatorsByTestName (the_context g) = rc_generators rc"

lemma context_advances_as_run:
  assumes "captures a rc g" "advance_generators rc = (moved, rc')"
  shows "\<exists>g'. context_advanceGenerators g = Inr (moved, g') \<and> captures a rc' (g'\<lparr>g_runs := (g_runs g')(a \<mapsto> rc')\<rparr>)"
  using assms
  by (auto simp: captures_def context_advanceGenerators_def currentTestName_def advance_generators_def the_context_def
      on_context_def getCurrentMutableContext_def split: prod.splits option.splits)

lemma context_value_as_run:
  assumes "captures a rc g" "generator_value (getCurrentTestName rc) gen (rc_generators rc) = (v, gs)"
  shows "\<exists>i g'. context_getGeneratorIndex (gen_fileInfo gen) (totalSize gen) g = Inr (i, g') \<and> v = pick (composed gen) i 0
    \<and> captures a (rc\<lparr>rc_generators := gs\<rparr>) (g'\<lparr>g_runs := (g_runs g')(a \<mapsto> rc\<lparr>rc_generators := gs\<rparr>)\<rparr>)"
  using assms
  by (auto simp: captures_def context_getGeneratorIndex_def currentTestName_def generator_value_def the_context_def
      on_context_def getCurrentMutableContext_def split: prod.splits option.splits)

lemma new_run_captures:
  assumes "c_generatorsByTestName (the_context g) = Map.empty"
  shows "captures a (newRunContext env) (beginRun a env g)"
  using assms by (simp add: captures_def newRunContext_def report_def)

text \<open>Before a run, there is no capture; after it, the context still points to it, until it is cleaned up.\<close>

lemma no_capture_before_run: "getResultCapture no_globals = Inl (Throws (Exn ''No result capture instance''))"
  by (simp add: getResultCapture_def the_context_def no_globals_def newContext_def)

lemma capture_dangles_after_run:
  assumes "captures a rc g" "endRun a env g = Inr (rc', g')"
  shows "getResultCapture g' = Inr a" "currentTestName g' = Inl (Undefined Dangling)"
  using assms by (auto simp: captures_def endRun_def getResultCapture_def currentTestName_def the_context_def)

lemma cleaned_up:
  "getResultCapture (cleanUp g) = Inl (Throws (Exn ''No result capture instance''))"
  "session_hub (cleanUp g) = \<lparr>hub_tests = newTestRegistry, hub_aliases = g_aliases g, hub_reporters = [], hub_listeners = []\<rparr>"
  by (simp_all add: getResultCapture_def the_context_def newContext_def cleanUp_def cleanUpContext_def session_hub_def
      getTheRegistryHub_def newRegistryHub_def split: option.splits)

section \<open>What the registrars have registered\<close>

text \<open>The reporters by name, with the description of the first one of a name.\<close>

fun reporter_entry :: "'x registrar \<Rightarrow> (string \<times> string) option" where
  "reporter_entry (ReporterRegistrar name T) = Some (name, cls_description T)"
| "reporter_entry r = None"

fun is_listener :: "'x registrar \<Rightarrow> bool" where
  "is_listener (ListenerRegistrar T) = True"
| "is_listener r = False"

fun translator_of :: "'x registrar \<Rightarrow> 'x translator option" where
  "translator_of (ExceptionTranslatorRegistrar t) = Some t"
| "translator_of r = None"

abbreviation reporters_of :: "'x globals \<Rightarrow> (string \<times> string) list" where
  "reporters_of g \<equiv> hub_reporters (session_hub g)"

abbreviation translators_of :: "'x globals \<Rightarrow> 'x translator list" where
  "translators_of g \<equiv> rh_translators (fst (getTheRegistryHub g))"

lemma session_hub_put: "session_hub (put_session_hub h g) = h\<lparr>hub_aliases := g_aliases g\<rparr>"
  by (cases h) (simp add: session_hub_def put_session_hub_def on_hub_def getTheRegistryHub_def split: option.splits)

lemma translators_put: "translators_of (put_session_hub h g) = translators_of g"
  by (simp add: put_session_hub_def on_hub_def getTheRegistryHub_def split: option.splits)

lemma session_hub_translator: "session_hub (hub_registerTranslator t g) = session_hub g"
  by (simp add: session_hub_def hub_registerTranslator_def on_hub_def getTheRegistryHub_def split: option.splits)

lemma translators_translator: "translators_of (hub_registerTranslator t g) = translators_of g @ [t]"
  by (simp add: hub_registerTranslator_def registerTranslator_def on_hub_def getTheRegistryHub_def split: option.splits)

lemma aliases_apart:
  "session_hub (g\<lparr>g_aliases := reg\<rparr>) = (session_hub g)\<lparr>hub_aliases := reg\<rparr>"
  "translators_of (g\<lparr>g_aliases := reg\<rparr>) = translators_of g"
  by (simp_all add: session_hub_def getTheRegistryHub_def split: option.splits)

lemmas construct_simps = hub_registerReporter_def hub_registerListener_def registerListener_def registerTestCase_def
  session_hub_put session_hub_translator translators_put translators_translator aliases_apart
  ReporterFactory_def ListenerFactory_def

lemma map_of_insort:
  "map_of xs k = None \<Longrightarrow> map_of (insort_key fst (k, v) xs) = (map_of xs)(k \<mapsto> v)"
  by (induction xs) (auto split: if_splits)

lemma reporters_construct:
  assumes "construct r g = Started g'"
  shows "map_of (reporters_of g') =
    (case reporter_entry r of None \<Rightarrow> Map.empty | Some (n, d) \<Rightarrow> [n \<mapsto> d]) ++ map_of (reporters_of g)"
proof -
  have reg: "map_of (hub_reporters (registerReporter n d h)) = [n \<mapsto> d] ++ map_of (hub_reporters h)" for n d h
  proof (cases "map_of (hub_reporters h) n")
    case None
    then show ?thesis
      by (auto simp: registerReporter_def map_of_insort map_add_def fun_eq_iff
          split: option.splits)
  next
    case (Some a)
    then show ?thesis by (auto simp: registerReporter_def map_add_def fun_eq_iff split: option.splits)
  qed
  show ?thesis
    using assms
    by (cases r)
      (auto simp: construct_simps reg split: sum.splits)
qed

lemma listeners_construct:
  assumes "construct r g = Started g'"
  shows "hub_listeners (session_hub g') = hub_listeners (session_hub g) @ (if is_listener r then [[]] else [])"
  using assms
  by (cases r)
    (auto simp: construct_simps registerReporter_def split: sum.splits)

lemma translators_construct:
  assumes "construct r g = Started g'"
  shows "translators_of g' = translators_of g @ (case translator_of r of None \<Rightarrow> [] | Some t \<Rightarrow> [t])"
  using assms
  by (cases r)
    (auto simp: construct_simps split: sum.splits)

lemma registered:
  assumes "construct_all rs g = Started g'"
  shows "map_of (reporters_of g') = map_of (List.map_filter reporter_entry rs) ++ map_of (reporters_of g)"
    and "hub_listeners (session_hub g') = hub_listeners (session_hub g) @ concat (map (\<lambda>r. if is_listener r then [[]] else []) rs)"
    and "translators_of g' = translators_of g @ List.map_filter translator_of rs"
  using assms
proof (induction rs arbitrary: g)
  case (Cons r rs)
  {
    case 1
    then obtain g1 where g1: "construct r g = Started g1" "construct_all rs g1 = Started g'"
      by (auto split: static_init.splits)
    show ?case
      unfolding Cons(1) [OF g1(2)] reporters_construct [OF g1(1)]
      by (auto simp: map_filter_simps fun_eq_iff map_add_def split: option.splits)
  next
    case 2
    then obtain g1 where g1: "construct r g = Started g1" "construct_all rs g1 = Started g'"
      by (auto split: static_init.splits)
    show ?case using Cons(2) [OF g1(2)] listeners_construct [OF g1(1)] by simp
  next
    case 3
    then obtain g1 where g1: "construct r g = Started g1" "construct_all rs g1 = Started g'"
      by (auto split: static_init.splits)
    show ?case using Cons(3) [OF g1(2)] translators_construct [OF g1(1)] by (auto simp: map_filter_simps split: option.splits)
  }
qed (simp_all add: map_filter_simps)

text \<open>
  After the static objects are made, a reporter can be created exactly if a registrar gave its name, and
  it is described as the first one of that name was; an exception is shown to the translators in the order
  of their registrars; the listeners are there, one for each registrar.
\<close>

lemma after_static_initialisation:
  assumes "construct_all rs no_globals = Started g"
  shows "(\<exists>r. createReporter (session_hub g) n = Inr r) \<longleftrightarrow> (\<exists>d. Some (n, d) \<in> reporter_entry ` set rs)"
    and "map_of (reporters_of g) n = map_of (List.map_filter reporter_entry rs) n"
    and "hub_translateActiveException g e = translateActiveException (List.map_filter translator_of rs) e"
    and "length (hub_listeners (session_hub g)) = length (filter (\<lambda>r. is_listener r) rs)"
proof -
  have start: "reporters_of no_globals = []" "hub_listeners (session_hub no_globals) = []" "translators_of no_globals = []"
    by (simp_all add: session_hub_def getTheRegistryHub_def no_globals_def newRegistryHub_def)
  note facts = registered [OF assms, unfolded start]
  show map: "map_of (reporters_of g) n = map_of (List.map_filter reporter_entry rs) n" using facts(1) by simp
  have "(\<exists>d. map_of (List.map_filter reporter_entry rs) n = Some d) \<longleftrightarrow> n \<in> fst ` set (List.map_filter reporter_entry rs)"
    by (metis map_of_eq_None_iff not_Some_eq)
  also have "\<dots> \<longleftrightarrow> (\<exists>d. Some (n, d) \<in> reporter_entry ` set rs)"
    by (auto simp: List.map_filter_def image_iff) (metis fst_conv option.sel)+
  finally show "(\<exists>r. createReporter (session_hub g) n = Inr r) \<longleftrightarrow> (\<exists>d. Some (n, d) \<in> reporter_entry ` set rs)"
    using map by (auto simp: createReporter_def split: option.splits)
  show "hub_translateActiveException g e = translateActiveException (List.map_filter translator_of rs) e"
    using facts(3) by (simp add: hub_translateActiveException_def)
  have "length (concat (map (\<lambda>r. if is_listener r then [[]] else []) rs)) = length (filter (\<lambda>r. is_listener r) rs)"
    by (induction rs) auto
  then show "length (hub_listeners (session_hub g)) = length (filter (\<lambda>r. is_listener r) rs)" using facts(2) by simp
qed

text \<open>A malformed alias ends the process before \<open>main\<close>, with code 1.\<close>

lemma malformed_alias_exits:
  assumes "construct_all rs no_globals = Started g" "\<not> startsWith alias ''[@'' \<or> \<not> endsWith alias '']''"
  shows "\<exists>g'. construct_all (rs @ RegistrarForTagAliases alias tag li # rs') no_globals = Exited 1 g'"
proof -
  have app: "construct_all (xs @ ys) h = construct_all ys h'" if "construct_all xs h = Started h'" for xs ys and h h' :: "'a globals"
    using that by (induction xs arbitrary: h) (auto split: static_init.splits)
  show ?thesis unfolding app [OF assms(1)] using assms(2) by (auto simp: add_alias_def)
qed

text \<open>Once cleaned up, no reporter can be made any more, not even the one a session takes by default.\<close>

lemma no_reporter_after_clean_up:
  "createReporter (session_hub (cleanUp g)) n = Inl (Exn (''No reporter registered with name: '' @ [CHR 0x27] @ n @ [CHR 0x27]))"
  by (simp add: createReporter_def cleaned_up)

section \<open>Assigning test cases\<close>

text \<open>A test case is assigned by exchanging every member with a copy.\<close>

definition test_case_swap :: "'b test_case \<Rightarrow> 'b test_case \<Rightarrow> 'b test_case \<times> 'b test_case" where
  "test_case_swap t other =
     (t\<lparr>test_body := test_body other, tc_name := tc_name other, className := className other,
        description := description other, tags := tags other, lcaseTags := lcaseTags other,
        tagsAsString := tagsAsString other, properties := properties other, lineInfo := lineInfo other\<rparr>,
      other\<lparr>test_body := test_body t, tc_name := tc_name t, className := className t,
        description := description t, tags := tags t, lcaseTags := lcaseTags t,
        tagsAsString := tagsAsString t, properties := properties t, lineInfo := lineInfo t\<rparr>)"

definition test_case_assign :: "'b test_case \<Rightarrow> 'b test_case \<Rightarrow> 'b test_case" where
  "test_case_assign t other = (let temp = other in fst (test_case_swap t temp))"

lemma test_case_swap: "test_case_swap t other = (other, t)"
  by (cases t; cases other) (simp add: test_case_swap_def)

lemma test_case_assign: "test_case_assign t other = other" "test_case_eq (test_case_assign t other) other"
  by (simp_all add: test_case_assign_def test_case_swap test_case_eq_def)

end
