(* ===== verification/Catch_Process.thy ===== *)
theory Catch_Process
  imports Catch_Session Catch_Streams
begin

text \<open>
  What the framework does to the process it runs in (\<open>include/catch.h\<close>): the handlers of signals
  around the body of a test, the streams it redirects meanwhile, the random numbers of the C library, and
  the bytes of the objects it shows.
\<close>

section \<open>Signal handlers\<close>

text \<open>What happens on a signal; a handler of the program under test has a name.\<close>

datatype disposition = Sig_dfl | Handle_signal | Program_handler string

type_synonym signal_table = "int \<Rightarrow> disposition"

record fatal_condition_handler =
  m_isSet :: bool

definition set_signals :: "disposition \<Rightarrow> signal_table \<Rightarrow> signal_table" where
  "set_signals d t = fold (\<lambda>(id, name) t. t(id := d)) signalDefs t"

definition newFatalConditionHandler :: "signal_table \<Rightarrow> fatal_condition_handler \<times> signal_table" where
  "newFatalConditionHandler t = (\<lparr>m_isSet = True\<rparr>, set_signals Handle_signal t)"

definition reset_signals :: "fatal_condition_handler \<times> signal_table \<Rightarrow> fatal_condition_handler \<times> signal_table" where
  "reset_signals = (\<lambda>(h, t). if m_isSet h then (h\<lparr>m_isSet := False\<rparr>, set_signals Sig_dfl t) else (h, t))"

definition deleteFatalConditionHandler :: "fatal_condition_handler \<times> signal_table \<Rightarrow> signal_table" where
  "deleteFatalConditionHandler s = snd (reset_signals s)"

text \<open>
  The body of a test between the two: it may change the table, and it returns or leaves by an
  exception, which skips the call of \<open>reset\<close> but not the destructor.
\<close>

definition guarded_invoke :: "(signal_table \<Rightarrow> 'a \<times> bool \<times> signal_table) \<Rightarrow> signal_table \<Rightarrow> 'a \<times> bool \<times> signal_table" where
  "guarded_invoke body t =
     (let (h, t1) = newFatalConditionHandler t;
          (x, thrown, t2) = body t1;
          s = (if thrown then (h, t2) else reset_signals (h, t2))
      in (x, thrown, deleteFatalConditionHandler s))"

text \<open>What a signal does: the default action of each of the six ends the process.\<close>

datatype signal_effect = Killed | Reported "(process_end \<times> run_context) res" | Program_runs string

definition raise_signal :: "run_env \<Rightarrow> run_test_case \<Rightarrow> int \<Rightarrow> signal_table \<Rightarrow> run_context \<Rightarrow> signal_effect" where
  "raise_signal env tc sig t rc =
     (case t sig of
        Sig_dfl \<Rightarrow> Killed
      | Handle_signal \<Rightarrow> Reported (handleSignal env tc sig rc)
      | Program_handler n \<Rightarrow> Program_runs n)"

definition handled_signals :: "int set" where
  "handled_signals = {2, 4, 6, 8, 11, 15}"

lemma set_signals_apply: "set_signals d t sig = (if sig \<in> handled_signals then d else t sig)"
  by (simp add: set_signals_def signalDefs_def handled_signals_def)

text \<open>While the body runs, each of the six signals is reported and ends the process with a status that is not 0.\<close>

lemma signals_are_reported:
  assumes "sig \<in> handled_signals"
  shows "raise_signal env tc sig (snd (newFatalConditionHandler t)) rc = Reported (handleSignal env tc sig rc)"
    and "handleSignal env tc sig rc = Inr (x, rc') \<Longrightarrow> x = Exit (- sig) \<and> exit_status (- sig) = 256 - sig"
  using assms
  by (auto simp: raise_signal_def newFatalConditionHandler_def set_signals_apply handleSignal_def bindR_eq_Inr
      exit_status_def handled_signals_def)

text \<open>
  Behind a test all six have their default action, however the body ended and whatever the program
  or the body had set; other signals are left alone.
\<close>

lemma signals_after_test:
  "snd (snd (guarded_invoke body t)) sig =
     (if sig \<in> handled_signals then Sig_dfl else snd (snd (body (set_signals Handle_signal t))) sig)"
  by (simp add: guarded_invoke_def newFatalConditionHandler_def deleteFatalConditionHandler_def reset_signals_def
      set_signals_apply split_beta Let_def)

lemma program_handler_is_lost:
  assumes "t 15 = Program_handler n"
  shows "raise_signal env tc 15 (snd (snd (guarded_invoke body t))) rc = Killed"
  by (simp add: raise_signal_def signals_after_test handled_signals_def)

section \<open>Redirected output of a test\<close>

text \<open>The reporters of the framework that want the output of the tests.\<close>

definition reporter_redirects :: "string \<Rightarrow> bool" where
  "reporter_redirects name \<longleftrightarrow> name = ''xml'' \<or> name = ''junit''"

text \<open>Several reporters have the preferences of the first.\<close>

fun shouldRedirectStdOut :: "(string \<Rightarrow> bool) \<Rightarrow> reporter \<Rightarrow> bool res" where
  "shouldRedirectStdOut redirects No_reporter = Inl (Undefined Null_deref)"
| "shouldRedirectStdOut redirects (One_reporter r) = Inr (redirects r)"
| "shouldRedirectStdOut redirects (Multiple_reporters []) = Inl (Undefined Vector_index)"
| "shouldRedirectStdOut redirects (Multiple_reporters (r # rs)) = Inr (redirects r)"

record test_streams =
  ts_cout :: out_stream
  ts_cerr :: out_stream
  redirectedCout :: string
  redirectedCerr :: string

text \<open>What a body writes: whether to \<open>cerr\<close>, and what.\<close>

fun write_outputs :: "(bool \<times> string) list \<Rightarrow> test_streams \<Rightarrow> test_streams" where
  "write_outputs [] st = st"
| "write_outputs ((to_cerr, s) # ws) st =
     write_outputs ws (if to_cerr then st\<lparr>ts_cerr := os_write s (ts_cerr st)\<rparr> else st\<lparr>ts_cout := os_write s (ts_cout st)\<rparr>)"

text \<open>
  The part of \<open>runCurrentTest\<close> around the body. The objects go in the reverse order, also when an
  exception leaves the block; \<open>n\<close> and \<open>m\<close> are their numbers.
\<close>

definition invoke_redirected :: "nat \<Rightarrow> nat \<Rightarrow> bool \<Rightarrow> (bool \<times> string) list \<Rightarrow> test_streams \<Rightarrow> test_streams" where
  "invoke_redirected n m redirect ws st =
     (if redirect then
        (let (coutBuf, cout1) = redirect_begin n (ts_cout st);
             (cerrBuf, cerr1) = redirect_begin m (ts_cerr st);
             st1 = write_outputs ws (st\<lparr>ts_cout := cout1, ts_cerr := cerr1\<rparr>);
             (e, cerr2) = redirect_end m cerrBuf (redirectedCerr st1) (ts_cerr st1);
             (c, cout2) = redirect_end n coutBuf (redirectedCout st1) (ts_cout st1)
         in \<lparr>ts_cout = cout2, ts_cerr = cerr2, redirectedCout = c, redirectedCerr = e\<rparr>)
      else write_outputs ws st)"

definition texts_to :: "bool \<Rightarrow> (bool \<times> string) list \<Rightarrow> string" where
  "texts_to b ws = concat (map snd (filter (\<lambda>w. fst w = b) ws))"

lemma write_outputs_gain:
  "redirectedCout (write_outputs ws st) = redirectedCout st \<and> redirectedCerr (write_outputs ws st) = redirectedCerr st
   \<and> ts_cout (write_outputs ws st) = os_write (texts_to False ws) (ts_cout st)
   \<and> ts_cerr (write_outputs ws st) = os_write (texts_to True ws) (ts_cerr st)"
proof (induction ws st rule: write_outputs.induct)
  case (1 st)
  have "os_write [] x = x" for x by (simp add: os_write_def split: option.splits)
  then show ?case by (simp add: texts_to_def)
next
  case (2 to_cerr s ws st)
  have "os_write t (os_write s x) = os_write (s @ t) x" for s t x
    by (simp add: os_write_def split: option.splits)
  with 2 show ?case by (cases to_cerr) (simp_all add: texts_to_def)
qed

text \<open>
  With redirection a test writes nothing to the streams of the process, and all it writes is put behind
  what its earlier cycles have written; without, it is the other way round.
\<close>

lemma test_output_is_kept:
  "redirectedCout (invoke_redirected n m True ws st) = redirectedCout st @ texts_to False ws"
  "redirectedCerr (invoke_redirected n m True ws st) = redirectedCerr st @ texts_to True ws"
  "os_own (ts_cout (invoke_redirected n m True ws st)) = os_own (ts_cout st)"
  "os_own (ts_cerr (invoke_redirected n m True ws st)) = os_own (ts_cerr st)"
  "os_buffer (ts_cout (invoke_redirected n m True ws st)) = os_buffer (ts_cout st)"
  by (simp_all add: invoke_redirected_def redirect_begin_def redirect_end_def Let_def write_outputs_gain os_write_def)

lemma test_output_goes_through:
  assumes "os_buffer (ts_cout st) = None"
  shows "redirectedCout (invoke_redirected n m False ws st) = redirectedCout st"
    and "os_own (ts_cout (invoke_redirected n m False ws st)) = os_own (ts_cout st) @ texts_to False ws"
  using assms by (simp_all add: invoke_redirected_def write_outputs_gain os_write_def)

text \<open>
  A JUnit reporter behind the console reporter gets no output of the tests, although it asks for it.
\<close>

lemma second_reporter_gets_no_output:
  "shouldRedirectStdOut reporter_redirects (addReporter (One_reporter ''console'') ''junit'') = Inr False"
  "shouldRedirectStdOut reporter_redirects (addReporter (One_reporter ''junit'') ''console'') = Inr True"
  by (simp_all add: reporter_redirects_def)

section \<open>Random numbers\<close>

text \<open>\<open>srand\<close> and \<open>rand\<close> of the C library over a state; the state at the start is that of \<open>srand (1)\<close>.\<close>

record 'g c_random =
  srand :: "nat \<Rightarrow> 'g"
  rand :: "'g \<Rightarrow> nat \<times> 'g"

definition rngSeed :: "config \<Rightarrow> nat" where
  "rngSeed c = cfg_rngSeed (cfg_data c)"

definition seedRng :: "'g c_random \<Rightarrow> config \<Rightarrow> 'g \<Rightarrow> 'g" where
  "seedRng r c g = (if rngSeed c \<noteq> 0 then srand r (rngSeed c) else g)"

definition random_below :: "'g c_random \<Rightarrow> nat \<Rightarrow> 'g \<Rightarrow> nat \<times> 'g" where
  "random_below r n g = (let (x, g') = rand r g in (x mod n, g'))"

text \<open>\<open>std::random_shuffle\<close>: each element from the second on changes places with one that is not behind it.\<close>

definition exchange_places :: "nat \<Rightarrow> nat \<Rightarrow> 'a list \<Rightarrow> 'a list" where
  "exchange_places i j xs = xs[i := xs ! j, j := xs ! i]"

fun shuffle_loop :: "'g c_random \<Rightarrow> nat list \<Rightarrow> 'a list \<times> 'g \<Rightarrow> 'a list \<times> 'g" where
  "shuffle_loop r [] s = s"
| "shuffle_loop r (i # is) (xs, g) =
     (let (j, g') = random_below r (i + 1) g in shuffle_loop r is (exchange_places i j xs, g'))"

definition rng_shuffle :: "'g c_random \<Rightarrow> 'a list \<times> 'g \<Rightarrow> 'a list \<times> 'g" where
  "rng_shuffle r s = shuffle_loop r [1..<length (fst s)] s"

definition random_order :: "'g c_random \<Rightarrow> config \<Rightarrow> 'g \<Rightarrow> 'a list \<Rightarrow> 'a list" where
  "random_order r c g xs = fst (rng_shuffle r (xs, seedRng r c g))"

lemma mset_exchange_places: "i < length xs \<Longrightarrow> j < length xs \<Longrightarrow> mset (exchange_places i j xs) = mset xs"
  by (simp add: exchange_places_def mset_swap)

lemma shuffle_loop_permutes:
  assumes "set is \<subseteq> {..<length xs}"
  shows "mset (fst (shuffle_loop r is (xs, g))) = mset xs"
  using assms
proof (induction "is" arbitrary: xs g)
  case (Cons i "is")
  obtain x g' where x: "rand r g = (x, g')" by (cases "rand r g")
  let ?xs = "exchange_places i (x mod Suc i) xs"
  have i: "i < length xs" using Cons.prems by auto
  then have "x mod Suc i < length xs" by (meson Suc_leI mod_less_divisor order_less_le_trans zero_less_Suc)
  with i have perm: "mset ?xs = mset xs" by (rule mset_exchange_places)
  have "length ?xs = length xs" by (simp add: exchange_places_def)
  then show ?case using Cons.IH [of ?xs g'] Cons.prems perm by (simp add: random_below_def x)
qed simp

text \<open>A random order has every test once, as the registry needs.\<close>

lemma random_order_permutes: "mset (random_order r c g xs) = mset xs"
  unfolding random_order_def rng_shuffle_def by (rule shuffle_loop_permutes) auto

text \<open>
  With a seed the order of the tests is the same in every run, whatever has used the random numbers
  before; the tests are those that are registered, each once.
\<close>

lemma seeded_order_is_reproducible:
  assumes "rngSeed c \<noteq> 0"
  shows "getAllTestsSorted (random_order r c g) InRandomOrder (reg :: test_step list test_registry) = getAllTestsSorted (random_order r c g') InRandomOrder reg"
proof -
  have "random_order r c g = (random_order r c g' :: run_test_case list \<Rightarrow> run_test_case list)"
    using assms by (simp add: random_order_def seedRng_def fun_eq_iff)
  then show ?thesis by simp
qed

lemma random_tests_are_the_registered_ones:
  assumes "getAllTestsSorted (random_order r c g) InRandomOrder reg = Inr (tcs, reg')" "m_sortedFunctions reg = []"
  shows "mset tcs = mset (m_functions reg)"
  using assms
  by (auto simp: getAllTestsSorted_def sortTests_def random_order_permutes Let_def split: sum.splits if_splits)

text \<open>Without a seed a new process shuffles as with the seed 1: the order is random, but always the same.\<close>

lemma unseeded_order_is_fixed:
  assumes "rngSeed c = 0" "rngSeed c1 = 1"
  shows "random_order r c (srand r 1) xs = random_order r c1 g xs"
  using assms by (simp add: random_order_def seedRng_def)

section \<open>Bytes of objects\<close>

datatype arch = Big | Little

text \<open>How the two kinds of machines keep a 32 bit number, and how the code finds out.\<close>

definition bytes_of :: "arch \<Rightarrow> 32 word \<Rightarrow> 8 word list" where
  "bytes_of a w =
     (let bs = map (\<lambda>i. ucast (drop_bit (8 * i) w)) [0..<4] in case a of Little \<Rightarrow> bs | Big \<Rightarrow> rev bs)"

definition which :: "8 word list \<Rightarrow> arch" where
  "which asChar = (if asChar ! (4 - 1) = 1 then Big else Little)"

lemma which_arch: "which (bytes_of a 1) = a"
  by (cases a) (simp_all add: which_def bytes_of_def Let_def upt_rec)

text \<open>The loop over the bytes, whose index counts up or down to \<open>end\<close>; it never leaves the bytes before that.\<close>

function raw_loop :: "8 word list \<Rightarrow> int \<Rightarrow> int \<Rightarrow> int \<Rightarrow> string" where
  "raw_loop bytes i e inc =
     (if i = e \<or> \<not> (0 \<le> i \<and> i < int (length bytes)) \<or> (inc \<noteq> 1 \<and> inc \<noteq> -1) then []
      else (let b = bytes ! nat i in [hex_digit (unat b div 16), hex_digit (unat b mod 16)])
             @ raw_loop bytes (i + inc) e inc)"
  by pat_completeness auto
termination
  by (relation "measure (\<lambda>(bytes, i, e, inc). if inc = 1 then nat (int (length bytes) - i) else nat (i + 1))") auto

declare raw_loop.simps [simp del]

definition raw_memory_on :: "arch \<Rightarrow> 8 word list \<Rightarrow> string" where
  "raw_memory_on a bytes =
     (let n = int (length bytes)
      in ''0x'' @ (case a of Little \<Rightarrow> raw_loop bytes (n - 1) (-1) (-1) | Big \<Rightarrow> raw_loop bytes 0 n 1))"

abbreviation shown_byte :: "8 word \<Rightarrow> string" where
  "shown_byte b \<equiv> [hex_digit (unat b div 16), hex_digit (unat b mod 16)]"

lemma raw_loop_up:
  "i \<le> length bytes \<Longrightarrow> raw_loop bytes (int i) (int (length bytes)) 1 = concat (map shown_byte (drop i bytes))"
proof (induction "length bytes - i" arbitrary: i)
  case 0
  then show ?case by (simp add: raw_loop.simps)
next
  case (Suc n)
  have IH: "raw_loop bytes (int (Suc i)) (int (length bytes)) 1 = concat (map shown_byte (drop (Suc i) bytes))"
    using Suc.hyps(2) by (intro Suc.hyps(1)) simp_all
  have "i < length bytes" using Suc.hyps(2) by simp
  with IH show ?case
    by (subst raw_loop.simps) (simp add: Let_def Cons_nth_drop_Suc [symmetric] add.commute)
qed

lemma raw_loop_down:
  "i \<le> length bytes \<Longrightarrow> raw_loop bytes (int i - 1) (-1) (-1) = concat (map shown_byte (rev (take i bytes)))"
proof (induction i)
  case 0
  then show ?case by (simp add: raw_loop.simps)
next
  case (Suc i)
  then show ?case
    by (subst raw_loop.simps) (simp add: Let_def take_Suc_conv_app_nth)
qed

text \<open>On a machine that is little endian this is the function the other theories use; a number is shown alike on both.\<close>

lemma raw_memory_little: "raw_memory_on Little bytes = rawMemoryToString bytes"
  using raw_loop_down [of "length bytes" bytes] by (simp add: raw_memory_on_def rawMemoryToString_def Let_def)

lemma raw_memory_big: "raw_memory_on Big bytes = ''0x'' @ concat (map shown_byte bytes)"
  using raw_loop_up [of 0 bytes] by (simp add: raw_memory_on_def Let_def)

lemma number_shown_alike: "raw_memory_on Big (bytes_of Big w) = raw_memory_on Little (bytes_of Little w)"
  by (simp add: raw_memory_little raw_memory_big rawMemoryToString_def bytes_of_def Let_def)

end
