(* ===== verification/Spec2Isabelle.thy ===== *)
theory Spec2Isabelle
  imports Own_Tests Catch_Console Catch_Compact Catch_Junit Catch_Arguments
    Catch_Legacy Catch_Pointer Catch_Streams Catch_Translate Catch_Values Catch_Option Catch_Globals Catch_Process
begin

text \<open>
  A verification of \<open>sys_info\<close>, a TCP server and its client. Every minute a client sends a line
  with the load of its machine; the server checks the client's key against its configuration,
  inserts the reading into a PostgreSQL database, decides whether to alert, and answers with one
  character. The theories below translate the C++ sources under \<open>src/\<close> and \<open>include/\<close> and prove
  what these two programs do, alone and together.

  \<^bold>\<open>Parts and theories.\<close>

  \<^item> \<open>Prelude\<close>: failures and results, cutting and joining text at a delimiter, decimal notation.
  \<^item> \<open>Cpp_Runtime\<close>: what the sources use of the language and its library: \<open>size_t\<close> as a 64 bit
    word, \<open>unsigned short\<close> as a 16 bit word, \<open>atoi\<close>, C strings in arrays, \<open>asctime\<close>, the output
    streams, \<open>std::async\<close>'s choice, how a process ends.
  \<^item> \<open>Boost_Api\<close>: Boost.Algorithm, Boost.PropertyTree, Boost.Random and error codes as parameters.
  \<^item> \<open>Config\<close> (\<open>src/utils.cpp\<close>, \<open>include/client_config.h\<close>, \<open>include/client_detail.h\<close>): loading the two
    XML files, \<open>is_client_authorized\<close>, \<open>should_send_email\<close>.
  \<^item> \<open>Wire_Format\<close> (\<open>src/utils.cpp\<close>): \<open>generate_random_sys_info_data\<close>, \<open>parse_to_client_detail\<close>.
  \<^item> \<open>Sql\<close> (\<open>src/utils.cpp\<close>): \<open>generate_insert_str_for\<close>, against two readers of SQL text.
  \<^item> \<open>Db_Adapter\<close> (\<open>include/db_adapter.h\<close>, \<open>src/pg_db_adapter.cpp\<close>): the abstract class as a record of
    its virtual functions, the PostgreSQL adapter over libpqxx.
  \<^item> \<open>Session\<close> (\<open>src/sys_info_server_session.cpp\<close>): one connection, as a step relation over the
    completions of its asynchronous operations; each completion handler is one function.
  \<^item> \<open>Server\<close> (\<open>src/sys_info_server.cpp\<close>): the accept loop and the interleaving of all sessions.
  \<^item> \<open>User_Input\<close>: the loop that waits for \<open>quit\<close>, in the server and in the client.
  \<^item> \<open>Service\<close> (\<open>src/server_service.cpp\<close>, \<open>src/server_main.cpp\<close>): the thread that runs the handlers,
    and the server's \<open>main\<close>.
  \<^item> \<open>Logger\<close> (\<open>include/logger.h\<close>, \<open>include/boost_logger.h\<close>): severities and the log.
  \<^item> \<open>Timer\<close> (\<open>src/repeat_timer.cpp\<close>): the repeating timer, with a stop flag another thread sets.
  \<^item> \<open>Client\<close> (\<open>include/request.h\<close>, \<open>include/sys_info_client_request.h\<close>, \<open>src/client_main.cpp\<close>): the
    connection, the repeated work, the task that owns the timer, and the client's \<open>main\<close>.
  \<^item> this theory: properties that span client, server and database.

  The repository carries the test framework its tests run on, as one header of ten thousand lines
  (\<open>include/catch.h\<close>, Catch 1.5.8). What decides which tests are run and what they come to is
  modelled too:

  \<^item> \<open>Catch_Common\<close>: strings and source positions.
  \<^item> \<open>Catch_Selection\<close>: test cases with their tags, wildcard patterns, test specifications and the
    parser that reads them, aliases of tags.
  \<^item> \<open>Catch_Registry\<close>: the configuration, the registry of tests, their order and duplicates.
  \<^item> \<open>Catch_Tracker\<close>: the tree of trackers that decides which sections a cycle enters. A pointer to
    a tracker is its path in the tree.
  \<^item> \<open>Catch_Generators\<close>: generated values and the indices that advance from run to run.
  \<^item> \<open>Catch_Expression\<close>: comparisons with the conversions of their overloads, the strings that are
    shown, and the string matchers.
  \<^item> \<open>Catch_Assertion\<close>: the result of an assertion and how it is built, counts, messages.
  \<^item> \<open>Catch_Run\<close>: \<open>RunContext\<close>, the assertion macros, sections, and the loops around a test case. The
    body of a test is a list of the statements that use the framework.
  \<^item> \<open>Catch_Cycles\<close>: the schedule of the sections of a test, as a specification, and the proof that
    the tree of trackers implements it.
  \<^item> \<open>Catch_Text\<close>: breaking a text into lines.
  \<^item> \<open>Catch_Session\<close>: reporters, running and listing the tests, the exit code, registration, signals.
  \<^item> \<open>Clara\<close>, \<open>Clara_Usage\<close>: the command line library: the reader that makes tokens of arguments, options
    and what they are bound to, how tokens change a configuration, the usage text.
  \<^item> \<open>Catch_Command_Line\<close>, \<open>Catch_Arguments\<close>: the options of the tests, a session that is given arguments,
    and the arguments written for a configuration.
  \<^item> \<open>Catch_Reporter\<close>: what a reporter may rely on, as a locale: the events of a run are nested.
  \<^item> \<open>Catch_Xml\<close>: the XML reporter and the writer below it.
  \<^item> \<open>Catch_Junit\<close>: the tree of sections results are gathered in, and the JUnit reporter.
  \<^item> \<open>Catch_Console\<close>, \<open>Catch_Compact\<close>: the reporters that print text.
  \<^item> \<open>Catch_Legacy\<close>: the adapter for reporters of the old interface.
  \<^item> \<open>Catch_Pointer\<close>: counted pointers, over a store of objects that may hold pointers themselves.
  \<^item> \<open>Catch_Streams\<close>: the buffered stream, redirected output, colours and the timer.
  \<^item> \<open>Catch_Translate\<close>: exceptions turned into texts, tuples and enumerations.
  \<^item> \<open>Catch_Values\<close>: functions that make matchers, \<open>nullptr\<close>, and \<open>Approx\<close> with its rounding.
  \<^item> \<open>Catch_Option\<close>: optional values and the lifetime of what they hold.
  \<^item> \<open>Catch_Globals\<close>: the context and the hub, and the static objects that fill the hub before \<open>main\<close>.
  \<^item> \<open>Catch_Process\<close>: signal handlers and redirected streams around a test, the random order, bytes of objects.

  The two halves meet in the program's own tests:

  \<^item> \<open>Own_Tests\<close> (\<open>test/sys_info_tests.cpp\<close>): the five test cases as tests of the modelled framework,
    whose assertions are computed by the models of the functions they call.

  \<^bold>\<open>How code and model correspond.\<close> A class is a record of its members, a method a function from
  the record to the new one, with the output streams part of the state. An abstract class is a
  record of functions, its contract a locale, and each implementation a table of functions that
  interprets the locale (\<open>db_journal\<close>, \<open>log_contract\<close>, \<open>request_contract\<close>). Exceptions, undefined
  behaviour and \<open>std::terminate\<close> are values (\<open>failure\<close>), so a theorem that says a handler
  returns also says that none of these happens. An asynchronous operation is recorded in the
  state as outstanding, and its completion is an event; a run is a list of events, and the
  invariants hold in every run. All handlers of the server run on one thread, so a handler is
  one step, but the handlers of different sessions interleave in any order. On the client the
  stop flag may be set by the other thread at any point where the timer's thread could notice.

  \<^bold>\<open>What is assumed.\<close> Boost, libpqxx and the network are arguments of the definitions. What the
  theorems need of them is stated in locales: \<open>string_algorithms\<close> (\<open>split\<close> and \<open>replace_all\<close>),
  \<open>property_trees\<close> (a tree object gives what is in the file), \<open>uniform_random\<close> (the range of the
  distribution), \<open>pqxx_session\<close> (a text that is executed has its effect once, a failed one none),
  \<open>boost_log_core\<close>, \<open>asio_stream\<close> (\<open>write\<close> sends everything, \<open>read\<close> fills the buffer). Each locale is interpreted by a reference realisation, and every
  theorem with hypotheses has a witness in which they hold. The contents of uninitialised
  memory, the clock, the time zone, and which files can be read and written are arguments too.

  \<^bold>\<open>What the lemmas show.\<close> \<open>Config\<close>: which clients a file authorizes and when loading fails.
  \<open>Wire_Format\<close> and \<open>Sql\<close>: when a line or a statement can be read back, and what happens otherwise.
  \<open>Session\<close> and \<open>Server\<close>: what each completed read does, alternation of requests and answers,
  and a refinement: the journal of the database after a run is the list of inserts for its
  authorized readings. \<open>Service\<close> and \<open>Client\<close>: how the processes end. \<open>Timer\<close>: rate and end of the
  rounds. The \<open>Catch\<close> theories: a specification is read back as it was printed, a pattern matches
  what a reference matcher accepts, generators visit every combination, each leaf section of a
  passing test is entered once and the loops end, a run starts exactly the selected tests until it is to
  stop and skips the others, a session
  whose tests pass returns 0, lines fit their width, the XML and JUnit reports of a run
  are nested documents, JUnit keeps every assertion, and each reporter comes back from what it is
  told of but for the case of the compact one that is made precise; arguments are read as they are
  meant, every configuration they can give is read back from them, a misspelt option runs no test and
  ends the process with the largest \<open>int\<close>, the usage text shows each option with its description, and
  counted pointers never lead to a deleted object, whatever the objects hold; an optional value holds what it should and destroys
  each value once, redirected output is complete, and what the static objects register is there in \<open>main\<close>.
  \<open>Own_Tests\<close>: where their surroundings are as they expect, the tests of the program pass when two
  characters on the stack are NUL, and end the test program otherwise.
  Here: a reading travels unchanged from the client's round into the database, a refused
  client learns of it, and a quote in a field lets a client execute SQL of its own.

  \<^bold>\<open>Bounds.\<close> No fuel is used: the loops that may not end, the wait for \<open>quit\<close> and the two loops
  around a test case, are partial functions; \<open>User_Input\<close> shows exactly when the first returns, and
  \<open>Catch_Cycles\<close> that the others do for a passing test. \<open>int\<close> is 32 bits wide; a value
  \<open>atoi\<close> cannot represent, or a sum that is none, is undefined behaviour. A read delivers at most 1024 characters.

  \<^bold>\<open>Not modelled.\<close> The insides of Boost, libpqxx and the standard library; the interleaving of the
  output of two threads; the blocking of an operation for ever; \<open>src/sys_info_client_request.cpp\<close>,
  which is commented out as a whole; the build files and the database scripts. Of
  \<open>include/catch.h\<close>: where reporters put their colours; the copy \<open>Clara\<close> has of the text formatter;
  constructors and functions that only copy or give a member, destructors without a body; the macros
  that declare tests; the parts for other platforms and compilers. What a test prints is not part of it.
\<close>

section \<open>From the client to the database\<close>

lemma client_line_on_server:
  assumes "string_algorithms alg" "uniform_random (random_lib cenv)" "asio_stream asio sent"
    and "client_task cenv asio host port key inputs cw = (None, cw')"
    and "sent (network cw') = sent (network cw) @ line"
    and "CHR ''|'' \<notin> set key" "length key \<le> 986"
  obtains memory cpu processes tm where
    "local_time cenv (line_time inputs) = Some tm" "tm_normal tm" "length line \<le> max_length"
    "parse_to_client_detail alg line =
       Inr (detail_of key (int memory) (int cpu) (int processes) (asctime_text tm))"
    "{memory, cpu, processes} \<subseteq> {1..100}"
proof -
  obtain l where "generate_random_sys_info_data (random_lib cenv) (local_time cenv)
        (seed_time inputs) (line_time inputs) key = Inr l" "sent (network cw') = sent (network cw) @ l"
    using asio_stream.client_task_returns [OF assms(3,4)] by blast
  then have g: "generate_random_sys_info_data (random_lib cenv) (local_time cenv)
        (seed_time inputs) (line_time inputs) key = Inr line" using assms(5) by simp
  obtain memory cpu processes tm where t: "local_time cenv (line_time inputs) = Some tm" "tm_normal tm"
    "line = line_of key memory cpu processes (asctime_text tm)" "{memory, cpu, processes} \<subseteq> {1..100}"
    using generate_line [OF assms(2) g] by blast
  have "CHR ''|'' \<notin> set (asctime_text tm)" using t(2) by (auto simp: asctime_text_chars)
  moreover have small: "memory < 2 ^ 31" "cpu < 2 ^ 31" "processes < 2 ^ 31" using t(4) by auto
  ultimately have "parse_to_client_detail alg line =
       Inr (detail_of key (int memory) (int cpu) (int processes) (asctime_text tm))"
    unfolding t(3) using string_algorithms.parse_line [OF assms(1,6)] by blast
  moreover have "length line \<le> max_length"
    using length_line_of [OF t(2,4), of key] assms(7) by (simp add: t(3) max_length_def)
  ultimately show ?thesis using that t by blast
qed

text \<open>
  C1. End to end: the bytes a round of an authorized client sends, when they reach the server in
  one read, are answered with the 0 the client takes for success, and make the server execute one
  text, which is a single insert statement holding that client's key, three percentages between
  1 and 100 and the client's local time; it is in the journal unless the database throws.
\<close>

theorem reading_reaches_database:
  assumes "string_algorithms (algo env)" "db_journal (adapter env) journal"
    and "uniform_random (random_lib cenv)" "asio_stream asio sent"
    and "client_task cenv asio host port key inputs cw = (None, cw')"
    and "sent (network cw') = sent (network cw) @ line"
    and "CHR ''|'' \<notin> set key" "CHR 0x27 \<notin> set key" "length key \<le> 986"
    and "pending s = Read_pending" "is_client_authorized (authorized_clients w) key"
  shows "\<exists>s' w' answer sql memory cpu processes tm.
      session_step env (s, w) (Read_done Launch_async None line) (s', w')
    \<and> pending s' = Write_pending answer \<and> reply_verdict (answer @ [NUL, h]) = Inr Sent
    \<and> journal (database w') = journal (database w)
        @ (if fst (execute (adapter env) sql (database w)) = None then [sql] else [])
    \<and> statements sql = 1
    \<and> insert_values ''CLIENT_INFO'' sql = Some (key, memory, cpu, processes, asctime_text tm)
    \<and> {memory, cpu, processes} \<subseteq> {1..100} \<and> local_time cenv (line_time inputs) = Some tm"
proof -
  obtain memory cpu processes tm where t: "local_time cenv (line_time inputs) = Some tm" "tm_normal tm"
    "length line \<le> max_length"
    "parse_to_client_detail (algo env) line =
       Inr (detail_of key (int memory) (int cpu) (int processes) (asctime_text tm))"
    "{memory, cpu, processes} \<subseteq> {1..100}"
    by (rule client_line_on_server [OF assms(1,3,4,5,6,7,9)])
  let ?d = "detail_of key (int memory) (int cpu) (int processes) (asctime_text tm)"
  let ?sql = "generate_insert_str_for ?d"
  have time: "str_dt_time ?d = asctime_text tm" "CHR 0x27 \<notin> set (asctime_text tm)"
    using t(2) by (auto simp: detail_of_def asctime_text_chars)
  have key: "client_key ?d = key" by (simp add: detail_of_def)
  obtain w' where h: "read_handler env Launch_async None line (s, w) = Inr (buffered line ''0'' s, w')"
    "database w' = snd (execute (adapter env) ?sql (database w))"
    using read_handler_authorized [OF t(4), of w Launch_async s] assms(11) key
    by (auto simp: write_to_db_database)
  have step: "session_step env (s, w) (Read_done Launch_async None line) (buffered line ''0'' s, w')"
    using assms(10) t(3) h(1) by (rule read_done)
  have j: "journal (database w') = journal (database w)
        @ (if fst (execute (adapter env) ?sql (database w)) = None then [?sql] else [])"
    using db_journal.execute_journal [OF assms(2)] h(2) by simp
  have one: "statements ?sql = 1"
    using generated_insert_is_one_statement [of ?d] assms(8) key time by simp
  have vals: "insert_values ''CLIENT_INFO'' ?sql = Some (key, memory, cpu, processes, asctime_text tm)"
    using generated_insert_values [of ?d] assms(8) key time t(5)
    by (simp add: detail_of_def unat_size_of_int)
  show ?thesis
    by (intro exI conjI, rule step, simp, simp add: reply_verdict_char, rule j, rule one, rule vals)
       (use t in auto)
qed


text \<open>
  C7. The line of a client that is not authorized is answered with a text that makes the client
  log the refusal and set its stop flag, as long as the array it reads into holds a null
  character behind it; the database and the map of authorized clients are untouched.
\<close>

theorem refusal_reaches_client:
  assumes "string_algorithms (algo env)"
    and "uniform_random (random_lib cenv)" "asio_stream asio sent"
    and "client_task cenv asio host port key inputs cw = (None, cw')"
    and "sent (network cw') = sent (network cw) @ line"
    and "CHR ''|'' \<notin> set key" "length key \<le> 986"
    and "pending s = Read_pending" "\<not> is_client_authorized (authorized_clients w) key"
  shows "\<exists>s' w' answer. session_step env (s, w) (Read_done policy None line) (s', w')
    \<and> pending s' = Write_pending answer
    \<and> stop_client (snd (handle_reply lg line (answer @ [NUL, h]) cw''))
    \<and> running_log (snd (handle_reply lg line (answer @ [NUL, h]) cw'')) =
        log_message lg fatal ''Failure : Not Authorized'' (running_log cw'')
    \<and> database w' = database w \<and> authorized_clients w' = authorized_clients w"
proof -
  obtain memory cpu processes tm where t: "length line \<le> max_length"
    "parse_to_client_detail (algo env) line =
       Inr (detail_of key (int memory) (int cpu) (int processes) (asctime_text tm))"
    by (rule client_line_on_server [OF assms(1-7)])
  obtain w' where h: "read_handler env policy None line (s, w) = Inr (buffered line ''2'' s, w')"
    "authorized_clients w' = authorized_clients w" "database w' = database w"
    using read_handler_unauthorized [OF t(2), of w policy s] assms(9) by (auto simp: detail_of_def)
  have step: "session_step env (s, w) (Read_done policy None line) (buffered line ''2'' s, w')"
    using assms(8) t(1) h(1) by (rule read_done)
  show ?thesis
    by (intro exI conjI, rule step, simp) (simp_all add: h(2,3) handle_reply_def reply_verdict_char)
qed

section \<open>From an attacker to the database\<close>

lemma scan_injected_insert:
  assumes "CHR 0x27 \<notin> set (client_key d @ t)" "snd (scan_sql False attack) = False"
  shows "statements (generate_insert_str_for (d\<lparr>str_dt_time := t\<rparr>) @ '' '' @ attack @ ''; --'' @ [CHR 0x27] @ '');'')
    = 2 + statements attack"
proof -
  have "scan_sql False (generate_insert_str_for (d\<lparr>str_dt_time := t\<rparr>)) = (1, False)"
    unfolding generate_insert_str_for_def using assms(1) by (intro scan_generated_insert) auto
  then show ?thesis
    using assms(2) by (simp add: statements_def scan_sql_append)
qed

text \<open>
  C15. Any authorized client can make the server execute SQL of its choice: for every text
  \<open>attack\<close> with balanced quotes and no bar or newline there is a line, readable by the server,
  whose record is handed to the database as a text of two statements more than \<open>attack\<close> has, in
  which the statements of \<open>attack\<close> stand after a complete insert. That text, and nothing else, is
  executed while the line is handled, and it enters the journal when the database accepts it.
\<close>

theorem injected_text_is_executed:
  assumes "string_algorithms (algo env)" "db_journal (adapter env) journal"
    and "pending s = Read_pending" "is_client_authorized (authorized_clients w) key"
    and "CHR ''|'' \<notin> set (key @ t @ attack)" "CHR 0x0A \<notin> set (t @ attack)" "CHR 0x27 \<notin> set (key @ t)"
    and "snd (scan_sql False attack) = False"
    and "line = join CHR ''|'' [key, dec m, dec c, dec p, t @ [CHR 0x27] @ ''); '' @ attack @ ''; --'']"
    and "m < 2 ^ 31" "c < 2 ^ 31" "p < 2 ^ 31" "length line \<le> max_length"
  shows "\<exists>s' w' sql before after. session_step env (s, w) (Read_done Launch_async None line) (s', w')
    \<and> database w' = snd (execute (adapter env) sql (database w))
    \<and> journal (database w') = journal (database w)
        @ (if fst (execute (adapter env) sql (database w)) = None then [sql] else [])
    \<and> sql = before @ '' '' @ attack @ after \<and> statements before = 1
    \<and> statements sql = 2 + statements attack"
proof -
  let ?time = "t @ [CHR 0x27] @ ''); '' @ attack @ ''; --''"
  let ?d0 = "detail_of key (int m) (int c) (int p) t"
  let ?d = "?d0\<lparr>str_dt_time := ?time\<rparr>"
  let ?sql = "generate_insert_str_for ?d"
  let ?before = "generate_insert_str_for (?d0\<lparr>str_dt_time := t\<rparr>)"
  let ?after = "''; --'' @ [CHR 0x27] @ '');''"
  have "tokens CHR ''|'' line = [key, dec m, dec c, dec p, ?time]"
    unfolding assms(9) using assms(5) by (intro tokens_join) (auto simp: not_digit_notin_dec)
  then have d: "parse_to_client_detail (algo env) line = Inr ?d"
    using string_algorithms.parse_fields [OF assms(1)] assms(6,10-12)
    by (simp add: atoi_dec detail_of_def)
  have key: "client_key ?d = key" "client_key ?d0 = key" by (simp_all add: detail_of_def)
  have sql: "?sql = ?before @ '' '' @ attack @ ?after"
    by (simp add: generate_insert_str_for_def generate_insert_str_for_table_def)
  have count: "statements ?sql = 2 + statements attack"
    unfolding sql using assms(7,8) key by (intro scan_injected_insert) auto
  have one: "statements ?before = 1"
    using assms(7) key by (intro generated_insert_is_one_statement) auto
  obtain w' where h: "read_handler env Launch_async None line (s, w) = Inr (buffered line ''0'' s, w')"
    "database w' = snd (execute (adapter env) ?sql (database w))"
    using read_handler_authorized [OF d, of w Launch_async s] assms(4) key
    by (auto simp: write_to_db_database)
  have step: "session_step env (s, w) (Read_done Launch_async None line) (buffered line ''0'' s, w')"
    using assms(3,13) h(1) by (rule read_done)
  have j: "journal (database w') = journal (database w)
      @ (if fst (execute (adapter env) ?sql (database w)) = None then [?sql] else [])"
    using db_journal.execute_journal [OF assms(2)] h(2) by simp
  show ?thesis by (intro exI conjI, rule step, rule h(2), rule j, rule sql, rule one, rule count)
qed

section \<open>Instances\<close>

lemma reading_reaches_database_witness:
  "\<exists>line s' w' sql. session_step env_ref (reading, shared_ref) (Read_done Launch_async None line) (s', w')
     \<and> pg_connection (database w') = [sql] \<and> statements sql = 1"
proof -
  obtain cw' where t: "client_task client_env_ref asio_ref ''localhost'' ''1335'' ''jill'' input_ref (client_ref ''0'') = (None, cw')"
    using client_round_ref [of "CHR ''0''" "client_ref ''0''"] by auto
  have s: "wire_out (network cw') = wire_out (network (client_ref ''0'')) @ wire_out (network cw')" by simp
  have r: "uniform_random (random_lib client_env_ref)"
    using lehmer.uniform_random_axioms by (simp add: client_env_ref_def)
  have a: "string_algorithms (algo env_ref)" using boost.string_algorithms_axioms by simp
  have p: "pending reading = Read_pending" by (simp add: reading_def)
  have e: "fst (execute (adapter env_ref) sql d) = None" for sql d
    by (simp add: pg_vtable_def pg_execute_def pqxx_ref_def)
  have k: "CHR ''|'' \<notin> set ''jill''" "CHR 0x27 \<notin> set ''jill''" "length ''jill'' \<le> 986" by simp_all
  have j: "pg_connection (database shared_ref) = []" by (simp add: shared_ref_def)
  from reading_reaches_database [where h = NUL, OF a env_ref_journal r loopback.asio_stream_axioms t s k p
        authorized_test_clients(1)] show ?thesis unfolding e j by auto
qed

lemma refusal_reaches_client_witness:
  "\<exists>line s' w'. session_step env_ref (reading, shared_ref\<lparr>authorized_clients := Map.empty\<rparr>)
       (Read_done Launch_async None line) (s', w')
     \<and> database w' = database shared_ref"
proof -
  obtain cw' where t: "client_task client_env_ref asio_ref ''localhost'' ''1335'' ''jill'' input_ref (client_ref ''2'') = (None, cw')"
    using client_round_ref [of "CHR ''2''" "client_ref ''2''"] by auto
  have s: "wire_out (network cw') = wire_out (network (client_ref ''2'')) @ wire_out (network cw')" by simp
  have r: "uniform_random (random_lib client_env_ref)"
    using lehmer.uniform_random_axioms by (simp add: client_env_ref_def)
  have a: "string_algorithms (algo env_ref)" using boost.string_algorithms_axioms by simp
  have p: "pending reading = Read_pending" by (simp add: reading_def)
  have n: "\<not> is_client_authorized (authorized_clients (shared_ref\<lparr>authorized_clients := Map.empty\<rparr>)) ''jill''"
    by (simp add: is_client_authorized_def)
  have k: "CHR ''|'' \<notin> set ''jill''" "length ''jill'' \<le> 986" by simp_all
  have d: "database (shared_ref\<lparr>authorized_clients := Map.empty\<rparr>) = database shared_ref" by simp
  from refusal_reaches_client [where h = NUL and policy = Launch_async, OF a r loopback.asio_stream_axioms t s k p n]
  show ?thesis unfolding d by blast
qed

lemma injected_text_is_executed_witness:
  "\<exists>line s' w' sql. session_step env_ref (reading, shared_ref) (Read_done Launch_async None line) (s', w')
     \<and> pg_connection (database w') = [sql] \<and> statements sql = 2"
proof -
  let ?line = "join CHR ''|'' [''jill'', dec 1, dec 2, dec 3, ''now'' @ [CHR 0x27] @ ''); '' @ ''DROP TABLE CLIENT_INFO'' @ ''; --'']"
  have a: "string_algorithms (algo env_ref)" using boost.string_algorithms_axioms by simp
  have p: "pending reading = Read_pending" by (simp add: reading_def)
  have e: "fst (execute (adapter env_ref) sql d) = None" for sql d
    by (simp add: pg_vtable_def pg_execute_def pqxx_ref_def)
  have l: "length ?line \<le> max_length" by (simp add: dec.simps max_length_def)
  have b: "snd (scan_sql False ''DROP TABLE CLIENT_INFO'') = False" by simp
  have st: "statements ''DROP TABLE CLIENT_INFO'' = 0" by (simp add: statements_def)
  have j: "pg_connection (database shared_ref) = []" by (simp add: shared_ref_def)
  from injected_text_is_executed [OF a env_ref_journal p authorized_test_clients(1) _ _ _ b refl _ _ _ l]
  obtain s' w' sql where "session_step env_ref (reading, shared_ref) (Read_done Launch_async None ?line) (s', w')"
    "pg_connection (database w') = pg_connection (database shared_ref)
      @ (if fst (execute (adapter env_ref) sql (database shared_ref)) = None then [sql] else [])"
    "statements sql = 2 + statements ''DROP TABLE CLIENT_INFO''"
    by auto
  then show ?thesis unfolding e j st by auto
qed

end
